(* ===== verification/Sglib.thy ===== *)
theory Sglib
  imports Prelude
begin

text \<open>
  The red-black trees of \<open>include/fskit/sglib.h\<close>, which hold every ordered set of the library:
  directory entries, extended attributes, route table rows and the inode sets of rename. The C
  code is a family of macros over a struct type with two child pointers and a colour bit; here a
  tree is a datatype whose \<open>Leaf\<close> is the NULL pointer, and the functions are the macros' bodies with
  the comparator as an argument. Two elements with equal keys are ordered by their addresses in C;
  \<open>plt\<close> is that pointer comparison.

  The lemmas show that insertion and deletion keep the in-order sequence (rotations move no
  element), that they keep the tree's own consistency check, and, inside the locale
  \<open>sglib_comparator\<close>, that for a comparator that orders the elements by a key, the tree is a
  finite map from keys to elements.
\<close>

datatype color = RED | BLACK

lemma not_BLACK [simp]: "c \<noteq> BLACK \<longleftrightarrow> c = RED"
  by (cases c) auto

lemma not_RED [simp]: "c \<noteq> RED \<longleftrightarrow> c = BLACK"
  by (cases c) auto

datatype 'a rbtree = Leaf | Node color "'a rbtree" 'a "'a rbtree"

fun bits :: "'a rbtree \<Rightarrow> color" where
  "bits Leaf = BLACK"
| "bits (Node c _ _ _) = c"

fun set_bits :: "color \<Rightarrow> 'a rbtree \<Rightarrow> 'a rbtree" where
  "set_bits c Leaf = Leaf"
| "set_bits c (Node _ l x r) = Node c l x r"

fun inorder :: "'a rbtree \<Rightarrow> 'a list" where
  "inorder Leaf = []"
| "inorder (Node _ l x r) = inorder l @ x # inorder r"

subsection \<open>Fixing a discrepancy after an insertion\<close>

fun fix_left_insertion_discrepancy :: "'a rbtree \<Rightarrow> 'a rbtree" where
  "fix_left_insertion_discrepancy (Node c (Node RED ll y lr) x (Node RED rl z rr)) =
     (if bits ll = RED \<or> bits lr = RED
      then Node RED (Node BLACK ll y lr) x (Node BLACK rl z rr)
      else Node c (Node RED ll y lr) x (Node RED rl z rr))"
| "fix_left_insertion_discrepancy (Node c (Node RED (Node RED cl w cr) y br) x r) =
     Node BLACK (Node RED cl w cr) y (Node RED br x r)"
| "fix_left_insertion_discrepancy (Node c (Node RED bl y (Node RED cl w cr)) x r) =
     Node BLACK (Node RED bl y cl) w (Node RED cr x r)"
| "fix_left_insertion_discrepancy t = t"

fun fix_right_insertion_discrepancy :: "'a rbtree \<Rightarrow> 'a rbtree" where
  "fix_right_insertion_discrepancy (Node c (Node RED ll y lr) x (Node RED rl z rr)) =
     (if bits rl = RED \<or> bits rr = RED
      then Node RED (Node BLACK ll y lr) x (Node BLACK rl z rr)
      else Node c (Node RED ll y lr) x (Node RED rl z rr))"
| "fix_right_insertion_discrepancy (Node c l x (Node RED br y (Node RED cl w cr))) =
     Node BLACK (Node RED l x br) y (Node RED cl w cr)"
| "fix_right_insertion_discrepancy (Node c l x (Node RED (Node RED cl w cr) y bl)) =
     Node BLACK (Node RED l x cl) w (Node RED cr y bl)"
| "fix_right_insertion_discrepancy t = t"

fun add_recursive :: "('a \<Rightarrow> 'a \<Rightarrow> int) \<Rightarrow> ('a \<Rightarrow> 'a \<Rightarrow> bool) \<Rightarrow> 'a \<Rightarrow> 'a rbtree \<Rightarrow> 'a rbtree" where
  "add_recursive cmp plt e Leaf = Node RED Leaf e Leaf"
| "add_recursive cmp plt e (Node c l x r) =
     (if cmp e x < 0 \<or> (cmp e x = 0 \<and> plt e x)
      then (let t = Node c (add_recursive cmp plt e l) x r
            in if c = BLACK then fix_left_insertion_discrepancy t else t)
      else (let t = Node c l x (add_recursive cmp plt e r)
            in if c = BLACK then fix_right_insertion_discrepancy t else t))"

definition sglib_add :: "('a \<Rightarrow> 'a \<Rightarrow> int) \<Rightarrow> ('a \<Rightarrow> 'a \<Rightarrow> bool) \<Rightarrow> 'a \<Rightarrow> 'a rbtree \<Rightarrow> 'a rbtree" where
  "sglib_add cmp plt e t = set_bits BLACK (add_recursive cmp plt e t)"

subsection \<open>Fixing a discrepancy after a deletion\<close>

text \<open>
  The flag of the result says whether the black height of the tree has decreased. The right
  version repairs a tree whose right child has become one black node too short.
\<close>

fun fix_right_deletion_discrepancy :: "'a rbtree \<Rightarrow> 'a rbtree \<times> bool" where
  "fix_right_deletion_discrepancy Leaf = (Leaf, False)"
| "fix_right_deletion_discrepancy (Node ca Leaf x r) = (Node BLACK Leaf x r, False)"
| "fix_right_deletion_discrepancy (Node ca (Node RED bl y Leaf) x r) =
     (Node BLACK bl y (Node ca Leaf x r), False)"
| "fix_right_deletion_discrepancy (Node ca (Node RED bl y (Node cc cl z cr)) x r) =
     (if bits cl = BLACK \<and> bits cr = BLACK
      then (Node BLACK bl y (Node ca (Node RED cl z cr) x r), False)
      else (case cr of
              Node RED dl w dr \<Rightarrow>
                (Node BLACK (Node RED bl y (Node cc cl z dl)) w (Node ca dr x r), False)
            | _ \<Rightarrow> (Node cc (Node RED bl y (set_bits BLACK cl)) z (Node ca cr x r), False)))"
| "fix_right_deletion_discrepancy (Node ca (Node BLACK bl y br) x r) =
     (if bits bl = BLACK \<and> bits br = BLACK
      then (Node BLACK (Node RED bl y br) x r, ca = BLACK)
      else (case br of
              Node RED cl z cr \<Rightarrow> (Node ca (Node BLACK bl y cl) z (Node BLACK cr x r), False)
            | _ \<Rightarrow> (Node ca (set_bits BLACK bl) y (Node BLACK br x r), False)))"

fun fix_left_deletion_discrepancy :: "'a rbtree \<Rightarrow> 'a rbtree \<times> bool" where
  "fix_left_deletion_discrepancy Leaf = (Leaf, False)"
| "fix_left_deletion_discrepancy (Node ca l x Leaf) = (Node BLACK l x Leaf, False)"
| "fix_left_deletion_discrepancy (Node ca l x (Node RED Leaf y bl)) =
     (Node BLACK (Node ca l x Leaf) y bl, False)"
| "fix_left_deletion_discrepancy (Node ca l x (Node RED (Node cc cr z cl) y bl)) =
     (if bits cl = BLACK \<and> bits cr = BLACK
      then (Node BLACK (Node ca l x (Node RED cr z cl)) y bl, False)
      else (case cr of
              Node RED dr w dl \<Rightarrow>
                (Node BLACK (Node ca l x dr) w (Node RED (Node cc dl z cl) y bl), False)
            | _ \<Rightarrow> (Node cc (Node ca l x cr) z (Node RED (set_bits BLACK cl) y bl), False)))"
| "fix_left_deletion_discrepancy (Node ca l x (Node BLACK br y bl)) =
     (if bits bl = BLACK \<and> bits br = BLACK
      then (Node BLACK l x (Node RED br y bl), ca = BLACK)
      else (case br of
              Node RED cr z cl \<Rightarrow> (Node ca (Node BLACK l x cr) z (Node BLACK cl y bl), False)
            | _ \<Rightarrow> (Node ca (Node BLACK l x br) y (set_bits BLACK bl), False)))"

fun delete_rightmost_leaf :: "'a rbtree \<Rightarrow> ('a rbtree \<times> 'a \<times> bool) option" where
  "delete_rightmost_leaf Leaf = None"
| "delete_rightmost_leaf (Node c l x Leaf) =
     (case l of
        Leaf \<Rightarrow> Some (Leaf, x, c = BLACK)
      | Node _ _ _ _ \<Rightarrow> Some (set_bits BLACK l, x, c = BLACK \<and> bits l = BLACK))"
| "delete_rightmost_leaf (Node c l x r) =
     (case delete_rightmost_leaf r of
        None \<Rightarrow> None
      | Some (r', y, deepDecreased) \<Rightarrow>
          (if deepDecreased
           then (case fix_right_deletion_discrepancy (Node c l x r') of (t, res) \<Rightarrow> Some (t, y, res))
           else Some (Node c l x r', y, False)))"

text \<open>Deletion of the element that \<open>find_member\<close> finds for \<open>e\<close> (\<open>delete_if_member\<close>).\<close>

fun delete_recursive :: "('a \<Rightarrow> 'a \<Rightarrow> int) \<Rightarrow> 'a \<Rightarrow> 'a rbtree \<Rightarrow> 'a rbtree \<times> bool" where
  "delete_recursive cmp e Leaf = (Leaf, False)"
| "delete_recursive cmp e (Node c l x r) =
     (if cmp e x < 0
      then (case delete_recursive cmp e l of (l', deepDecreased) \<Rightarrow>
              if deepDecreased then fix_left_deletion_discrepancy (Node c l' x r)
              else (Node c l' x r, False))
      else if cmp e x > 0
      then (case delete_recursive cmp e r of (r', deepDecreased) \<Rightarrow>
              if deepDecreased then fix_right_deletion_discrepancy (Node c l x r')
              else (Node c l x r', False))
      else (case delete_rightmost_leaf l of
              None \<Rightarrow>
                (case r of
                   Leaf \<Rightarrow> (Leaf, c = BLACK)
                 | Node _ _ _ _ \<Rightarrow> (set_bits BLACK r, c = BLACK \<and> bits r = BLACK))
            | Some (l', y, deepDecreased) \<Rightarrow>
                (if deepDecreased then fix_left_deletion_discrepancy (Node c l' y r)
                 else (Node c l' y r, False))))"

definition sglib_delete :: "('a \<Rightarrow> 'a \<Rightarrow> int) \<Rightarrow> 'a \<Rightarrow> 'a rbtree \<Rightarrow> 'a rbtree" where
  "sglib_delete cmp e t = set_bits BLACK (fst (delete_recursive cmp e t))"

fun find_member :: "('a \<Rightarrow> 'a \<Rightarrow> int) \<Rightarrow> 'a \<Rightarrow> 'a rbtree \<Rightarrow> 'a option" where
  "find_member cmp e Leaf = None"
| "find_member cmp e (Node c l x r) =
     (if cmp e x < 0 then find_member cmp e l
      else if cmp e x > 0 then find_member cmp e r
      else Some x)"

definition sglib_delete_if_member :: "('a \<Rightarrow> 'a \<Rightarrow> int) \<Rightarrow> 'a \<Rightarrow> 'a rbtree \<Rightarrow> 'a rbtree \<times> 'a option" where
  "sglib_delete_if_member cmp e t =
     (case find_member cmp e t of
        None \<Rightarrow> (t, None)
      | Some m \<Rightarrow> (sglib_delete cmp m t, Some m))"

definition sglib_len :: "'a rbtree \<Rightarrow> nat" where
  "sglib_len t = length (inorder t)"

text \<open>
  Writing through the pointer that \<open>find_member\<close> returns (the code does so to replace the inode
  of a directory entry): \<open>f\<close> is applied to the element found.
\<close>

fun update_member :: "('a \<Rightarrow> 'a \<Rightarrow> int) \<Rightarrow> 'a \<Rightarrow> ('a \<Rightarrow> 'a) \<Rightarrow> 'a rbtree \<Rightarrow> 'a rbtree" where
  "update_member cmp e f Leaf = Leaf"
| "update_member cmp e f (Node c l x r) =
     (if cmp e x < 0 then Node c (update_member cmp e f l) x r
      else if cmp e x > 0 then Node c l x (update_member cmp e f r)
      else Node c l (f x) r)"

subsection \<open>The consistency check of sglib\<close>

text \<open>
  \<open>sglib___consistency_check_recursive\<close>: the asserts are the conditions whose failure gives
  \<open>None\<close>; the result is the black depth found so far, negative before the first leaf.
\<close>

definition root_ok :: "('a \<Rightarrow> 'a \<Rightarrow> int) \<Rightarrow> 'a rbtree \<Rightarrow> 'a \<Rightarrow> 'a rbtree \<Rightarrow> bool" where
  "root_ok cmp l x r =
     ((case l of Leaf \<Rightarrow> True | Node _ _ y _ \<Rightarrow> cmp y x \<le> 0) \<and>
      (case r of Leaf \<Rightarrow> True | Node _ _ y _ \<Rightarrow> cmp x y \<le> 0))"

fun consistency_check_recursive :: "('a \<Rightarrow> 'a \<Rightarrow> int) \<Rightarrow> 'a rbtree \<Rightarrow> int \<Rightarrow> int \<Rightarrow> int option" where
  "consistency_check_recursive cmp Leaf pathdeep cdeep =
     (if pathdeep < 0 then Some cdeep else if pathdeep = cdeep then Some pathdeep else None)"
| "consistency_check_recursive cmp (Node c l x r) pathdeep cdeep =
     (if \<not> root_ok cmp l x r then None
      else if c = RED
      then (if bits l = BLACK \<and> bits r = BLACK
            then Option.bind (consistency_check_recursive cmp l pathdeep cdeep)
                   (\<lambda>pd. consistency_check_recursive cmp r pd cdeep)
            else None)
      else Option.bind (consistency_check_recursive cmp l pathdeep (cdeep + 1))
             (\<lambda>pd. consistency_check_recursive cmp r pd (cdeep + 1)))"

definition consistency_check :: "('a \<Rightarrow> 'a \<Rightarrow> int) \<Rightarrow> 'a rbtree \<Rightarrow> bool" where
  "consistency_check cmp t =
     (bits t = BLACK \<and> consistency_check_recursive cmp t (-1) 0 \<noteq> None)"

subsection \<open>The in-order sequence\<close>

lemma inorder_set_bits [simp]: "inorder (set_bits c t) = inorder t"
  by (cases t) auto

lemma inorder_fix_left_insertion [simp]:
  "inorder (fix_left_insertion_discrepancy t) = inorder t"
  by (cases t rule: fix_left_insertion_discrepancy.cases) auto

lemma inorder_fix_right_insertion [simp]:
  "inorder (fix_right_insertion_discrepancy t) = inorder t"
  by (cases t rule: fix_right_insertion_discrepancy.cases) auto

lemma inorder_fix_right_deletion [simp]:
  "inorder (fst (fix_right_deletion_discrepancy t)) = inorder t"
  by (cases t rule: fix_right_deletion_discrepancy.cases)
    (auto split: rbtree.splits color.splits)

lemma inorder_fix_left_deletion [simp]:
  "inorder (fst (fix_left_deletion_discrepancy t)) = inorder t"
  by (cases t rule: fix_left_deletion_discrepancy.cases)
    (auto split: rbtree.splits color.splits)

lemma inorder_fix_right_deletion_eq:
  "fix_right_deletion_discrepancy t = (t', res) \<Longrightarrow> inorder t' = inorder t"
  using inorder_fix_right_deletion [of t] by simp

lemma inorder_fix_left_deletion_eq:
  "fix_left_deletion_discrepancy t = (t', res) \<Longrightarrow> inorder t' = inorder t"
  using inorder_fix_left_deletion [of t] by simp

lemma inorder_add_recursive:
  "\<exists>xs ys. inorder t = xs @ ys \<and> inorder (add_recursive cmp plt e t) = xs @ e # ys"
proof (induction t)
  case Leaf
  show ?case by simp
next
  case (Node c l x r)
  from Node.IH obtain as bs where l: "inorder l = as @ bs"
    "inorder (add_recursive cmp plt e l) = as @ e # bs" by blast
  from Node.IH obtain cs ds where r: "inorder r = cs @ ds"
    "inorder (add_recursive cmp plt e r) = cs @ e # ds" by blast
  show ?case
  proof (cases "cmp e x < 0 \<or> (cmp e x = 0 \<and> plt e x)")
    case True
    have "inorder (add_recursive cmp plt e (Node c l x r)) = as @ e # (bs @ x # inorder r)"
      using True l by (auto simp: Let_def)
    moreover have "inorder (Node c l x r) = as @ (bs @ x # inorder r)" using l by simp
    ultimately show ?thesis by blast
  next
    case False
    have "inorder (add_recursive cmp plt e (Node c l x r)) = (inorder l @ x # cs) @ e # ds"
      using False r by (auto simp: Let_def)
    moreover have "inorder (Node c l x r) = (inorder l @ x # cs) @ ds" using r by simp
    ultimately show ?thesis by blast
  qed
qed

lemma inorder_sglib_add:
  obtains xs ys where "inorder t = xs @ ys" and "inorder (sglib_add cmp plt e t) = xs @ e # ys"
  using inorder_add_recursive [of t cmp plt e] by (auto simp: sglib_add_def)

lemma mset_sglib_add: "mset (inorder (sglib_add cmp plt e t)) = add_mset e (mset (inorder t))"
  by (rule inorder_sglib_add [of t cmp plt e]) simp

lemma set_sglib_add: "set (inorder (sglib_add cmp plt e t)) = insert e (set (inorder t))"
  by (rule inorder_sglib_add [of t cmp plt e]) auto

lemma delete_rightmost_leaf_None: "delete_rightmost_leaf t = None \<longleftrightarrow> t = Leaf"
  by (induction t rule: delete_rightmost_leaf.induct)
    (auto split: rbtree.splits option.splits prod.splits)

lemma inorder_delete_rightmost_leaf:
  "delete_rightmost_leaf t = Some (t', y, res) \<Longrightarrow> inorder t = inorder t' @ [y]"
  by (induction t arbitrary: t' y res rule: delete_rightmost_leaf.induct)
    (auto split: rbtree.splits option.splits prod.splits if_splits
      dest!: inorder_fix_right_deletion_eq)

subsection \<open>Balance\<close>

fun bh :: "'a rbtree \<Rightarrow> int" where
  "bh Leaf = 0"
| "bh (Node c l x r) = bh l + (if c = BLACK then 1 else 0)"

fun invc :: "'a rbtree \<Rightarrow> bool" where
  "invc Leaf = True"
| "invc (Node c l x r) = ((c = RED \<longrightarrow> bits l = BLACK \<and> bits r = BLACK) \<and> invc l \<and> invc r)"

fun invh :: "'a rbtree \<Rightarrow> bool" where
  "invh Leaf = True"
| "invh (Node c l x r) = (bh l = bh r \<and> invh l \<and> invh r)"

fun ord_ok :: "('a \<Rightarrow> 'a \<Rightarrow> int) \<Rightarrow> 'a rbtree \<Rightarrow> bool" where
  "ord_ok cmp Leaf = True"
| "ord_ok cmp (Node c l x r) = (root_ok cmp l x r \<and> ord_ok cmp l \<and> ord_ok cmp r)"

lemma bh_nonneg [simp]: "0 \<le> bh t"
  by (induction t) auto

lemma bh_plus_one [simp]: "bh t + 1 \<noteq> 0" "0 \<noteq> bh t + 1"
  using bh_nonneg [of t] by linarith+

lemma consistency_check_recursive_eq:
  "0 \<le> cd \<Longrightarrow> consistency_check_recursive cmp t pd cd =
     (if ord_ok cmp t \<and> invc t \<and> invh t \<and> (pd < 0 \<or> pd = cd + bh t)
      then Some (cd + bh t) else None)"
proof (induction t arbitrary: pd cd)
  case Leaf
  then show ?case by auto
next
  case (Node c l x r)
  have step: "Option.bind (consistency_check_recursive cmp l pd d)
        (\<lambda>pd. consistency_check_recursive cmp r pd d) =
      (if (ord_ok cmp l \<and> invc l \<and> invh l) \<and> (pd < 0 \<or> pd = d + bh l) \<and>
          (ord_ok cmp r \<and> invc r \<and> invh r) \<and> bh l = bh r
       then Some (d + bh r) else None)" if d: "0 \<le> d" for d
  proof -
    have n: "\<not> d + bh l < 0" using d bh_nonneg [of l] by linarith
    show ?thesis by (simp add: Node.IH(1) [OF d] Node.IH(2) [OF d] n)
  qed
  have d: "0 \<le> cd" "0 \<le> cd + 1" using Node.prems by simp_all
  show ?case
    by (cases c; cases "root_ok cmp l x r") (auto simp: step [OF d(1)] step [OF d(2)])
qed

lemma consistency_check_iff:
  "consistency_check cmp t \<longleftrightarrow> bits t = BLACK \<and> ord_ok cmp t \<and> invc t \<and> invh t"
  by (auto simp: consistency_check_def consistency_check_recursive_eq)

text \<open>
  A tree that may have a red root with red children, and nothing else wrong: what an insertion
  below a red node leaves for the black grandparent to repair.
\<close>

fun invc2 :: "'a rbtree \<Rightarrow> bool" where
  "invc2 Leaf = True"
| "invc2 (Node c l x r) = (invc l \<and> invc r \<and> (bits l = BLACK \<or> bits r = BLACK \<or> c = BLACK))"

lemma invc_imp_invc2: "invc t \<Longrightarrow> invc2 t"
  by (cases t) auto

lemma bh_fix_left_insertion:
  "bits t = BLACK \<Longrightarrow> invh t \<Longrightarrow>
    invh (fix_left_insertion_discrepancy t) \<and> bh (fix_left_insertion_discrepancy t) = bh t"
  by (cases t rule: fix_left_insertion_discrepancy.cases) auto

lemma bh_fix_right_insertion:
  "bits t = BLACK \<Longrightarrow> invh t \<Longrightarrow>
    invh (fix_right_insertion_discrepancy t) \<and> bh (fix_right_insertion_discrepancy t) = bh t"
  by (cases t rule: fix_right_insertion_discrepancy.cases) auto

lemma invc_fix_left_insertion:
  "invc2 l \<Longrightarrow> invc r \<Longrightarrow> invc (fix_left_insertion_discrepancy (Node BLACK l x r))"
  by (cases "Node BLACK l x r" rule: fix_left_insertion_discrepancy.cases)
    (auto split: if_splits elim: bits.elims)

lemma invc_fix_right_insertion:
  "invc l \<Longrightarrow> invc2 r \<Longrightarrow> invc (fix_right_insertion_discrepancy (Node BLACK l x r))"
  by (cases "Node BLACK l x r" rule: fix_right_insertion_discrepancy.cases)
    (auto split: if_splits elim: bits.elims)

lemma add_recursive_balance:
  "invc t \<Longrightarrow> invh t \<Longrightarrow>
    invh (add_recursive cmp plt e t) \<and> bh (add_recursive cmp plt e t) = bh t \<and>
    invc2 (add_recursive cmp plt e t) \<and> (bits t = BLACK \<longrightarrow> invc (add_recursive cmp plt e t))"
proof (induction t)
  case Leaf
  show ?case by simp
next
  case (Node c l x r)
  show ?case
  proof (cases c)
    case RED
    with Node show ?thesis by (auto simp: Let_def)
  next
    case BLACK
    with Node show ?thesis
      by (auto simp: Let_def bh_fix_left_insertion bh_fix_right_insertion
          intro!: invc_imp_invc2 invc_fix_left_insertion invc_fix_right_insertion)
  qed
qed

lemma set_bits_BLACK_invc: "invc2 t \<Longrightarrow> invc (set_bits BLACK t)"
  by (cases t) auto

lemma set_bits_invh [simp]: "invh (set_bits c t) = invh t"
  by (cases t) auto

lemma bits_set_bits_BLACK [simp]: "bits (set_bits BLACK t) = BLACK"
  by (cases t) auto

lemma sglib_add_balance:
  "invc t \<Longrightarrow> invh t \<Longrightarrow> invc (sglib_add cmp plt e t) \<and> invh (sglib_add cmp plt e t)"
  by (simp add: sglib_add_def set_bits_BLACK_invc add_recursive_balance)

text \<open>
  Deletion: the repaired tree is balanced again, its black height has decreased exactly when the
  flag says so, the flag is never set for a red tree, and no black root turns red.
\<close>

definition del_ok :: "'a rbtree \<Rightarrow> 'a rbtree \<Rightarrow> bool \<Rightarrow> bool" where
  "del_ok t t' res =
     (invc t' \<and> invh t' \<and> bh t' = bh t - (if res then 1 else 0) \<and>
      (res \<longrightarrow> bits t = BLACK \<and> bits t' = BLACK) \<and> (bits t = BLACK \<longrightarrow> bits t' = BLACK))"

lemma RED_Node: "bits t = RED \<Longrightarrow> \<exists>l x r. t = Node RED l x r"
  by (cases t) auto

lemma bh_pos: "bh t > 0 \<Longrightarrow> t \<noteq> Leaf"
  by auto

lemma fix_right_deletion_ok:
  assumes "invc l" "invh l" "invc r" "invh r" "bh l = bh r + 1" "bits r = BLACK"
    and "ca = RED \<Longrightarrow> bits l = BLACK"
    and "fix_right_deletion_discrepancy (Node ca l x r) = (t', res)"
  shows "invc t' \<and> invh t' \<and> bh t' = bh l + (if ca = BLACK then 1 else 0) - (if res then 1 else 0) \<and>
    (res \<longrightarrow> ca = BLACK \<and> bits t' = BLACK) \<and> (ca = BLACK \<longrightarrow> bits t' = BLACK)"
  using assms
  by (cases "Node ca l x r" rule: fix_right_deletion_discrepancy.cases)
    (auto split: if_splits rbtree.splits color.splits dest!: RED_Node)

lemma fix_left_deletion_ok:
  assumes "invc l" "invh l" "invc r" "invh r" "bh r = bh l + 1" "bits l = BLACK"
    and "ca = RED \<Longrightarrow> bits r = BLACK"
    and "fix_left_deletion_discrepancy (Node ca l x r) = (t', res)"
  shows "invc t' \<and> invh t' \<and> bh t' = bh r + (if ca = BLACK then 1 else 0) - (if res then 1 else 0) \<and>
    (res \<longrightarrow> ca = BLACK \<and> bits t' = BLACK) \<and> (ca = BLACK \<longrightarrow> bits t' = BLACK)"
  using assms
  by (cases "Node ca l x r" rule: fix_left_deletion_discrepancy.cases)
    (auto split: if_splits rbtree.splits color.splits dest!: RED_Node)

lemma bh_eq_0: "invc t \<Longrightarrow> invh t \<Longrightarrow> bh t = 0 \<Longrightarrow> t = Leaf \<or> bits t = RED"
  by (cases t) (auto split: if_splits)

lemma del_ok_bits: "del_ok t t' res \<Longrightarrow> bits t = BLACK \<Longrightarrow> bits t' = BLACK"
  by (simp add: del_ok_def)

lemma del_ok_right:
  assumes "invc (Node c l x r)" "invh (Node c l x r)" "del_ok r r' d"
    and "(if d then fix_right_deletion_discrepancy (Node c l y r') else (Node c l y r', False)) = (t', res)"
  shows "del_ok (Node c l x r) t' res"
proof (cases d)
  case True
  then have "fix_right_deletion_discrepancy (Node c l y r') = (t', res)" using assms(4) by simp
  from fix_right_deletion_ok [OF _ _ _ _ _ _ _ this] show ?thesis
    using assms(1,2,3) True by (auto simp: del_ok_def)
next
  case False
  then show ?thesis using assms by (auto simp: del_ok_def)
qed

lemma del_ok_left:
  assumes "invc (Node c l x r)" "invh (Node c l x r)" "del_ok l l' d"
    and "(if d then fix_left_deletion_discrepancy (Node c l' y r) else (Node c l' y r, False)) = (t', res)"
  shows "del_ok (Node c l x r) t' res"
proof (cases d)
  case True
  then have "fix_left_deletion_discrepancy (Node c l' y r) = (t', res)" using assms(4) by simp
  from fix_left_deletion_ok [OF _ _ _ _ _ _ _ this] show ?thesis
    using assms(1,2,3) True by (auto simp: del_ok_def)
next
  case False
  then show ?thesis using assms by (auto simp: del_ok_def)
qed

lemma del_ok_single:
  assumes "invc (Node c t x Leaf) \<and> invh (Node c t x Leaf) \<or> invc (Node c Leaf x t) \<and> invh (Node c Leaf x t)"
    and "t \<noteq> Leaf"
  shows "del_ok (Node c t x Leaf) (set_bits BLACK t) (c = BLACK \<and> bits t = BLACK)"
    and "del_ok (Node c Leaf x t) (set_bits BLACK t) (c = BLACK \<and> bits t = BLACK)"
  using assms bh_eq_0 [of t] by (cases t; auto simp: del_ok_def)+

lemma delete_rightmost_leaf_ok:
  "invc t \<Longrightarrow> invh t \<Longrightarrow> delete_rightmost_leaf t = Some (t', y, res) \<Longrightarrow> del_ok t t' res"
proof (induction t arbitrary: t' y res rule: delete_rightmost_leaf.induct)
  case 1
  then show ?case by simp
next
  case (2 c l x)
  then show ?case by (auto split: rbtree.splits simp: del_ok_def dest!: bh_eq_0)
next
  case (3 c l x rc rl rx rr)
  let ?r = "Node rc rl rx rr"
  from 3(4) obtain r' y' d where r: "delete_rightmost_leaf ?r = Some (r', y', d)"
    and t: "(if d then fix_right_deletion_discrepancy (Node c l x r') else (Node c l x r', False)) = (t', res)"
    by (auto split: option.splits prod.splits if_splits)
  have "del_ok ?r r' d" using 3(1) [OF _ _ r] 3(2,3) by simp
  from del_ok_right [OF 3(2,3) this t] show ?case .
qed

lemma delete_recursive_ok:
  "invc t \<Longrightarrow> invh t \<Longrightarrow> delete_recursive cmp e t = (t', res) \<Longrightarrow> del_ok t t' res"
proof (induction t arbitrary: t' res)
  case Leaf
  then show ?case by (simp add: del_ok_def)
next
  case (Node c l x r)
  have sub: "invc l" "invh l" "invc r" "invh r" using Node.prems by simp_all
  consider (lt) "cmp e x < 0" | (gt) "0 < cmp e x" | (eq) "cmp e x = 0" by linarith
  then show ?case
  proof cases
    case lt
    obtain l' d where l: "delete_recursive cmp e l = (l', d)" by fastforce
    from del_ok_left [OF Node.prems(1,2) Node.IH(1) [OF sub(1,2) l]] show ?thesis
      using Node.prems(3) lt l by simp
  next
    case gt
    obtain r' d where r: "delete_recursive cmp e r = (r', d)" by fastforce
    from del_ok_right [OF Node.prems(1,2) Node.IH(2) [OF sub(3,4) r]] show ?thesis
      using Node.prems(3) gt r by simp
  next
    case eq
    show ?thesis
    proof (cases "delete_rightmost_leaf l")
      case None
      then have l: "l = Leaf" by (simp add: delete_rightmost_leaf_None)
      show ?thesis
        using Node.prems eq l del_ok_single(2) [of c r x]
        by (auto split: rbtree.splits simp: del_ok_def)
    next
      case (Some z)
      then obtain l' y d where l: "delete_rightmost_leaf l = Some (l', y, d)" by (cases z) auto
      from del_ok_left [OF Node.prems(1,2) delete_rightmost_leaf_ok [OF sub(1,2) l]] show ?thesis
        using Node.prems(3) eq l by simp
    qed
  qed
qed

lemma sglib_delete_balance:
  "invc t \<Longrightarrow> invh t \<Longrightarrow> invc (sglib_delete cmp e t) \<and> invh (sglib_delete cmp e t)"
  using delete_recursive_ok [of t cmp e "fst (delete_recursive cmp e t)" "snd (delete_recursive cmp e t)"]
  by (auto simp: sglib_delete_def del_ok_def intro!: set_bits_BLACK_invc invc_imp_invc2)

subsection \<open>Trees as finite maps\<close>

text \<open>
  The abstraction: the keys stand in strictly increasing order, and the tree denotes the map from
  keys to elements.
\<close>

definition bst :: "('a \<Rightarrow> 'k::linorder) \<Rightarrow> 'a rbtree \<Rightarrow> bool" where
  "bst key t = sorted_wrt (\<lambda>x y. key x < key y) (inorder t)"

definition tree_map :: "('a \<Rightarrow> 'k) \<Rightarrow> 'a rbtree \<Rightarrow> 'k \<Rightarrow> 'a option" where
  "tree_map key t = map_of (map (\<lambda>x. (key x, x)) (inorder t))"

lemma bst_Leaf [simp]: "bst key Leaf"
  by (simp add: bst_def)

lemma tree_map_Leaf [simp]: "tree_map key Leaf = Map.empty"
  by (simp add: tree_map_def)

lemma bst_Node: "bst key (Node c l x r) \<longleftrightarrow> bst key l \<and> bst key r \<and>
    (\<forall>y\<in>set (inorder l). key y < key x) \<and> (\<forall>y\<in>set (inorder r). key x < key y)"
  by (auto simp: bst_def sorted_wrt_append intro: less_trans)

lemma bst_eq_inorder: "inorder t = inorder u \<Longrightarrow> bst key t = bst key u"
  by (simp add: bst_def)

lemma tree_map_Some:
  assumes "bst key t"
  shows "tree_map key t k = Some m \<longleftrightarrow> m \<in> set (inorder t) \<and> key m = k"
proof -
  have "distinct (map fst (map (\<lambda>x. (key x, x)) (inorder t)))"
    using assms unfolding bst_def
    using strict_sorted_iff [of "map key (inorder t)"]
    by (simp add: comp_def sorted_wrt_map)
  from map_of_eq_Some_iff [OF this, of k m] show ?thesis
    by (auto simp: tree_map_def)
qed

lemma tree_map_None: "tree_map key t k = None \<longleftrightarrow> k \<notin> key ` set (inorder t)"
  by (auto simp: tree_map_def map_of_eq_None_iff image_image)

lemma dom_tree_map: "dom (tree_map key t) = key ` set (inorder t)"
  using tree_map_None [of key t] by (auto simp: dom_def)

lemma bst_inj:
  "bst key t \<Longrightarrow> x \<in> set (inorder t) \<Longrightarrow> y \<in> set (inorder t) \<Longrightarrow> key x = key y \<Longrightarrow> x = y"
  using tree_map_Some [of key t "key x"] by (metis option.inject)

text \<open>The invariant of an ordered set: keys in order, and sglib's own consistency check passes.\<close>

definition sglib_set_ok :: "('a \<Rightarrow> 'a \<Rightarrow> int) \<Rightarrow> ('a \<Rightarrow> 'k::linorder) \<Rightarrow> 'a rbtree \<Rightarrow> bool" where
  "sglib_set_ok cmp key t = (bst key t \<and> consistency_check cmp t)"

lemma map_of_filter_key:
  "map_of (map (\<lambda>x. (key x, x)) (filter (\<lambda>x. key x \<noteq> k) xs)) =
    (map_of (map (\<lambda>x. (key x, x)) xs))(k := None)"
  by (induction xs) (auto simp: fun_upd_twist)

lemma map_of_map_key:
  assumes "\<And>x. key (g x) = key x"
  shows "map_of (map (\<lambda>x. (key x, x)) (map g xs)) k =
    map_option g (map_of (map (\<lambda>x. (key x, x)) xs) k)"
  using assms by (induction xs) auto

text \<open>
  What holds for any comparator: the element found is in the tree, deletion along the path that
  finds an element removes exactly that element, and an update through the pointer found changes
  only that element.
\<close>

lemma find_member_in: "find_member cmp e t = Some m \<Longrightarrow> m \<in> set (inorder t) \<and> cmp e m = 0"
  by (induction t) (auto split: if_splits)

lemma delete_recursive_cong:
  "(\<And>x. cmp e x = cmp e' x) \<Longrightarrow> delete_recursive cmp e t = delete_recursive cmp e' t"
  by (induction t) (simp_all split: option.split)

lemma mset_delete_recursive:
  "find_member cmp e t = Some m \<Longrightarrow>
    mset (inorder t) = add_mset m (mset (inorder (fst (delete_recursive cmp e t))))"
proof (induction t)
  case Leaf
  then show ?case by simp
next
  case (Node c l x r)
  consider (lt) "cmp e x < 0" | (gt) "0 < cmp e x" | (eq) "cmp e x = 0" by linarith
  then show ?case
  proof cases
    case lt
    then show ?thesis using Node
      by (auto split: prod.splits dest!: inorder_fix_left_deletion_eq)
  next
    case gt
    then show ?thesis using Node
      by (auto split: prod.splits dest!: inorder_fix_right_deletion_eq)
  next
    case eq
    then show ?thesis using Node.prems
      by (auto split: option.splits prod.splits rbtree.splits
          simp: delete_rightmost_leaf_None dest!: inorder_delete_rightmost_leaf)
  qed
qed

lemma mset_delete_if_member:
  assumes "sglib_delete_if_member cmp e t = (t', Some m)"
    and "\<And>x y z. cmp x y = 0 \<Longrightarrow> cmp x z = cmp y z"
  shows "mset (inorder t) = add_mset m (mset (inorder t')) \<and> cmp e m = 0"
proof -
  have f: "find_member cmp e t = Some m" and t': "t' = sglib_delete cmp m t"
    using assms(1) by (auto simp: sglib_delete_if_member_def split: option.splits)
  have "delete_recursive cmp m t = delete_recursive cmp e t"
    using find_member_in [OF f] assms(2) by (intro delete_recursive_cong) metis
  then show ?thesis
    using mset_delete_recursive [OF f] find_member_in [OF f] by (simp add: t' sglib_delete_def)
qed

lemma mset_update_member:
  "find_member cmp e t = Some m \<Longrightarrow>
    \<exists>M. mset (inorder t) = add_mset m M \<and> mset (inorder (update_member cmp e f t)) = add_mset (f m) M"
proof (induction t)
  case Leaf
  then show ?case by simp
next
  case (Node c l x r)
  consider (lt) "cmp e x < 0" | (gt) "0 < cmp e x" | (eq) "cmp e x = 0" by linarith
  then show ?case
  proof cases
    case lt
    then obtain M where "mset (inorder l) = add_mset m M"
      "mset (inorder (update_member cmp e f l)) = add_mset (f m) M" using Node by auto
    then show ?thesis using lt by (intro exI [of _ "M + add_mset x (mset (inorder r))"]) simp
  next
    case gt
    then obtain M where "mset (inorder r) = add_mset m M"
      "mset (inorder (update_member cmp e f r)) = add_mset (f m) M" using Node by auto
    then show ?thesis using gt by (intro exI [of _ "add_mset x (mset (inorder l)) + M"]) simp
  next
    case eq
    then show ?thesis using Node.prems by auto
  qed
qed

locale sglib_comparator =
  fixes cmp :: "'a \<Rightarrow> 'a \<Rightarrow> int" and key :: "'a \<Rightarrow> 'k::linorder"
  assumes cmp_neg: "cmp x y < 0 \<longleftrightarrow> key x < key y"
    and cmp_pos: "0 < cmp x y \<longleftrightarrow> key y < key x"
begin

lemma cmp_zero: "cmp x y = 0 \<longleftrightarrow> key x = key y"
  using cmp_neg [of x y] cmp_pos [of x y] by (metis less_irrefl linorder_neqE)

lemma find_member_Some:
  "bst key t \<Longrightarrow> find_member cmp e t = Some m \<longleftrightarrow> m \<in> set (inorder t) \<and> key m = key e"
proof (induction t)
  case Leaf
  show ?case by simp
next
  case (Node c l x r)
  have b: "bst key l" "bst key r" "\<And>y. y \<in> set (inorder l) \<Longrightarrow> key y < key x"
    "\<And>y. y \<in> set (inorder r) \<Longrightarrow> key x < key y"
    using Node.prems by (auto simp: bst_Node)
  consider (lt) "key e < key x" | (gt) "key x < key e" | (eq) "key e = key x"
    using linorder_less_linear by blast
  then show ?case
  proof cases
    case lt
    then have "\<forall>y\<in>set (inorder r). key y \<noteq> key e" using b(4) by fastforce
    then show ?thesis using lt Node.IH(1) [OF b(1)] by (auto simp: cmp_neg)
  next
    case gt
    then have "\<forall>y\<in>set (inorder l). key y \<noteq> key e" using b(3) by fastforce
    moreover have "\<not> key e < key x" using gt by simp
    ultimately show ?thesis using gt Node.IH(2) [OF b(2)] by (auto simp: cmp_neg cmp_pos)
  next
    case eq
    then have "\<forall>y\<in>set (inorder l) \<union> set (inorder r). key y \<noteq> key e" using b(3,4) by fastforce
    then show ?thesis using eq by (auto simp: cmp_neg cmp_pos)
  qed
qed

lemma find_member_None:
  "bst key t \<Longrightarrow> find_member cmp e t = None \<longleftrightarrow> key e \<notin> key ` set (inorder t)"
  using find_member_Some [of t e] by (metis (no_types, lifting) image_iff not_None_eq)

lemma find_member_tree_map: "bst key t \<Longrightarrow> find_member cmp e t = tree_map key t (key e)"
  using find_member_Some [of t e] tree_map_Some [of key t "key e"]
  by (cases "find_member cmp e t"; cases "tree_map key t (key e)") auto

lemma bst_add_recursive:
  "bst key t \<Longrightarrow> key e \<notin> key ` set (inorder t) \<Longrightarrow> bst key (add_recursive cmp plt e t)"
proof (induction t)
  case Leaf
  show ?case by (simp add: bst_def)
next
  case (Node c l x r)
  have set_add: "set (inorder (add_recursive cmp plt e u)) = insert e (set (inorder u))" for u
    using inorder_add_recursive [of u cmp plt e] by auto
  from Node.prems have ne: "key e \<noteq> key x" by auto
  show ?case
  proof (cases "cmp e x < 0")
    case True
    have "bst key (Node c (add_recursive cmp plt e l) x r)"
      using Node True by (auto simp: bst_Node set_add cmp_neg)
    then show ?thesis using True
      by (auto simp: Let_def bst_eq_inorder [OF inorder_fix_left_insertion])
  next
    case False
    have "bst key (Node c l x (add_recursive cmp plt e r))"
      using Node False ne by (auto simp: bst_Node set_add cmp_neg)
    then show ?thesis using False ne
      by (auto simp: Let_def cmp_zero bst_eq_inorder [OF inorder_fix_right_insertion])
  qed
qed

lemma bst_add:
  "bst key t \<Longrightarrow> key e \<notin> key ` set (inorder t) \<Longrightarrow> bst key (sglib_add cmp plt e t)"
  by (simp add: sglib_add_def bst_eq_inorder [OF inorder_set_bits] bst_add_recursive)

lemma tree_map_add:
  assumes "bst key t" and "key e \<notin> key ` set (inorder t)"
  shows "tree_map key (sglib_add cmp plt e t) = (tree_map key t)(key e \<mapsto> e)"
proof -
  obtain xs ys where t: "inorder t = xs @ ys" and a: "inorder (sglib_add cmp plt e t) = xs @ e # ys"
    by (rule inorder_sglib_add)
  have "map_of (map (\<lambda>x. (key x, x)) xs) (key e) = None"
    using assms(2) by (auto simp: t map_of_eq_None_iff image_image)
  then show ?thesis
    by (auto simp: tree_map_def t a map_add_def fun_eq_iff split: option.splits)
qed

lemma inorder_delete_recursive:
  "bst key t \<Longrightarrow> inorder (fst (delete_recursive cmp e t)) = filter (\<lambda>x. key x \<noteq> key e) (inorder t)"
proof (induction t)
  case Leaf
  show ?case by simp
next
  case (Node c l x r)
  have all: "filter (\<lambda>y. key y \<noteq> k) (inorder u) = inorder u" if "k \<notin> key ` set (inorder u)" for k u
    using that by (auto simp: filter_id_conv)
  have b: "bst key l" "bst key r" "\<forall>y\<in>set (inorder l). key y < key x"
    "\<forall>y\<in>set (inorder r). key x < key y"
    using Node.prems by (auto simp: bst_Node)
  have l_all: "key x \<le> key e \<Longrightarrow> filter (\<lambda>y. key y \<noteq> key e) (inorder l) = inorder l"
    using b by (intro all) fastforce
  have r_all: "key e \<le> key x \<Longrightarrow> filter (\<lambda>y. key y \<noteq> key e) (inorder r) = inorder r"
    using b by (intro all) fastforce
  consider (lt) "cmp e x < 0" | (gt) "0 < cmp e x" | (eq) "cmp e x = 0" by linarith
  then show ?case
  proof cases
    case lt
    then show ?thesis using Node.IH(1) b r_all
      by (auto simp: cmp_neg split: prod.splits dest!: inorder_fix_left_deletion_eq)
  next
    case gt
    then have "\<not> cmp e x < 0" "key x < key e" using cmp_pos [of e x] by simp_all
    then show ?thesis using gt Node.IH(2) b l_all
      by (auto split: prod.splits dest!: inorder_fix_right_deletion_eq)
  next
    case eq
    then have k: "key x = key e" by (simp add: cmp_zero)
    show ?thesis using eq k l_all r_all
      by (auto split: option.splits prod.splits rbtree.splits
          simp: delete_rightmost_leaf_None dest!: inorder_delete_rightmost_leaf)
  qed
qed

lemma inorder_sglib_delete:
  "bst key t \<Longrightarrow> inorder (sglib_delete cmp e t) = filter (\<lambda>x. key x \<noteq> key e) (inorder t)"
  by (simp add: sglib_delete_def inorder_delete_recursive)

lemma bst_delete: "bst key t \<Longrightarrow> bst key (sglib_delete cmp e t)"
  unfolding bst_def using inorder_sglib_delete [of t e] by (simp add: bst_def sorted_wrt_filter)

lemma tree_map_delete:
  "bst key t \<Longrightarrow> tree_map key (sglib_delete cmp e t) = (tree_map key t)(key e := None)"
  by (simp add: tree_map_def inorder_sglib_delete map_of_filter_key)

lemma mset_delete:
  assumes "bst key t" and "m \<in> set (inorder t)" and "key m = key e"
  shows "mset (inorder t) = add_mset m (mset (inorder (sglib_delete cmp e t)))"
proof -
  from split_list [OF assms(2)] obtain xs ys where t: "inorder t = xs @ m # ys" by blast
  have "\<forall>y\<in>set xs. key y \<noteq> key e" "\<forall>y\<in>set ys. key y \<noteq> key e"
    using assms(1,3) by (fastforce simp: bst_def t sorted_wrt_append)+
  then have "filter (\<lambda>x. key x \<noteq> key e) (inorder t) = xs @ ys"
    using assms(3) by (simp add: t)
  then show ?thesis using inorder_sglib_delete [OF assms(1), of e] by (simp add: t)
qed

lemma inorder_update_member:
  assumes "bst key t"
  shows "inorder (update_member cmp e f t) =
    map (\<lambda>x. if key x = key e then f x else x) (inorder t)"
  using assms
proof (induction t)
  case Leaf
  show ?case by simp
next
  case (Node c l x r)
  have same: "map (\<lambda>x. if key x = key e then f x else x) (inorder u) = inorder u"
    if "key e \<notin> key ` set (inorder u)" for u
    using that by (intro map_idI) (metis imageI)
  have b: "bst key l" "bst key r" "\<forall>y\<in>set (inorder l). key y < key x"
    "\<forall>y\<in>set (inorder r). key x < key y"
    using Node.prems by (auto simp: bst_Node)
  have l: "key x \<le> key e \<Longrightarrow> key e \<notin> key ` set (inorder l)"
    and r: "key e \<le> key x \<Longrightarrow> key e \<notin> key ` set (inorder r)"
    using b by fastforce+
  show ?case using Node.IH b same [OF l] same [OF r]
    by (auto simp: cmp_neg cmp_pos)
qed

lemma bst_update_member:
  assumes "bst key t" and "\<And>x. key x = key e \<Longrightarrow> key (f x) = key x"
  shows "bst key (update_member cmp e f t)"
proof -
  have "key (if key x = key e then f x else x) = key x" for x using assms(2) by simp
  then show ?thesis using assms(1) unfolding bst_def inorder_update_member [OF assms(1)]
    by (simp only: sorted_wrt_map)
qed

lemma tree_map_update_member:
  assumes "bst key t" and "\<And>x. key x = key e \<Longrightarrow> key (f x) = key x"
  shows "tree_map key (update_member cmp e f t) k =
    map_option (\<lambda>x. if key x = key e then f x else x) (tree_map key t k)"
  unfolding tree_map_def inorder_update_member [OF assms(1)]
  by (rule map_of_map_key) (simp add: assms(2))

lemma bst_ord_ok: "bst key t \<Longrightarrow> ord_ok cmp t"
proof (induction t)
  case Leaf
  show ?case by simp
next
  case (Node c l x r)
  have "root_ok cmp l x r"
    using Node.prems cmp_pos
    by (cases l; cases r) (auto simp: bst_Node root_ok_def not_less [symmetric] dest: less_asym)
  with Node show ?case by (simp add: bst_Node)
qed

lemma sglib_set_ok_add:
  "sglib_set_ok cmp key t \<Longrightarrow> key e \<notin> key ` set (inorder t) \<Longrightarrow>
    sglib_set_ok cmp key (sglib_add cmp plt e t)"
  using sglib_add_balance [of t cmp plt e] bst_add [of t e plt] bst_ord_ok
  by (simp add: sglib_set_ok_def consistency_check_iff sglib_add_def)

lemma sglib_set_ok_delete:
  "sglib_set_ok cmp key t \<Longrightarrow> sglib_set_ok cmp key (sglib_delete cmp e t)"
  using sglib_delete_balance [of t cmp e] bst_delete [of t e] bst_ord_ok
  by (simp add: sglib_set_ok_def consistency_check_iff sglib_delete_def)

end

end
