(* ===== verification/SglibIter.thy ===== *)
theory SglibIter
  imports Sglib
begin

text \<open>
  The ways in which the library walks over a red-black tree of \<open>include/fskit/sglib.h\<close>: the iterator
  (\<open>sglib_type_it_init_inorder\<close> and \<open>sglib_type_it_next\<close>), which keeps the path from the root to the
  current node in an array of 128 slots with a pass counter for each, and the macro
  \<open>SGLIB___BIN_TREE_MAP_ON_ELEMENTS\<close>, which \<open>sglib_type_len\<close> uses. Both are given here with their
  arrays; an index outside the array is \<open>None\<close>. The lemmas show that they visit the in-order
  sequence, the iterator also the other two orders, and that a consistent tree is never too deep for the arrays.
\<close>

definition SGLIB_MAX_TREE_DEEP :: nat where "SGLIB_MAX_TREE_DEEP = 128"

subsection \<open>How deep a tree can be\<close>

fun depth :: "'a rbtree \<Rightarrow> nat" where
  "depth Leaf = 0"
| "depth (Node c l x r) = max (depth l) (depth r) + 1"

lemma depth_bh: "invc t \<Longrightarrow> invh t \<Longrightarrow> int (depth t) \<le> 2 * bh t + (if bits t = RED then 1 else 0)"
  by (induction t) (auto split: if_splits)

lemma inorder_bh: "invh t \<Longrightarrow> 2 ^ nat (bh t) \<le> length (inorder t) + 1"
proof (induction t)
  case Leaf
  show ?case by simp
next
  case (Node c l x r)
  then have "2 ^ nat (bh l) \<le> length (inorder l) + 1" "2 ^ nat (bh l) \<le> length (inorder r) + 1" by simp_all
  then show ?case by (simp add: nat_add_distrib)
qed

lemma depth_bound:
  assumes "invc t" and "invh t" and "bits t = BLACK"
  shows "2 ^ ((depth t + 1) div 2) \<le> length (inorder t) + 1"
proof -
  have "(depth t + 1) div 2 \<le> nat (bh t)"
    using depth_bh [OF assms(1,2)] assms(3) by simp
  then have "(2 :: nat) ^ ((depth t + 1) div 2) \<le> 2 ^ nat (bh t)" by simp
  then show ?thesis using inorder_bh [OF assms(2)] by linarith
qed

lemma consistent_depth:
  assumes "consistency_check cmp t" and "length (inorder t) + 1 < 2 ^ 64"
  shows "depth t < SGLIB_MAX_TREE_DEEP - 1"
proof (rule ccontr)
  assume "\<not> ?thesis"
  then have "64 \<le> (depth t + 1) div 2" by (simp add: SGLIB_MAX_TREE_DEEP_def)
  then have "(2 :: nat) ^ 64 \<le> 2 ^ ((depth t + 1) div 2)" by (rule power_increasing) simp
  moreover have "bits t = BLACK" "invc t" "invh t" using assms(1) by (simp_all add: consistency_check_iff)
  ultimately show False using depth_bound [of t] assms(2) by linarith
qed

subsection \<open>The iterator\<close>

text \<open>
  The path array and its pass counters, the current node on top; \<open>pathi\<close> is the length. The library
  never uses an \<open>equalto\<close> element.
\<close>

type_synonym 'a tree_path = "('a rbtree \<times> nat) list"

record 'a tree_iterator =
  si_currentelem :: "'a option"
  si_path :: "'a tree_path"
  si_order :: nat

fun left_of :: "'a rbtree \<Rightarrow> 'a rbtree option" where
  "left_of Leaf = None"
| "left_of (Node _ l _ _) = Some l"

fun right_of :: "'a rbtree \<Rightarrow> 'a rbtree option" where
  "right_of Leaf = None"
| "right_of (Node _ _ _ r) = Some r"

fun elem_of :: "'a rbtree \<Rightarrow> 'a option" where
  "elem_of Leaf = None"
| "elem_of (Node _ _ x _) = Some x"

text \<open>One round of the loop: up, down to the left, or down to the right.\<close>

fun it_turn :: "'a tree_path \<Rightarrow> 'a tree_path option" where
  "it_turn [] = Some []"
| "it_turn ((t, pass) # path) =
     (if pass \<ge> 2 then Some path
      else
        (case (if pass = 0 then left_of t else right_of t) of
           None \<Rightarrow> None
         | Some s \<Rightarrow>
             if s = Leaf then Some ((t, pass + 1) # path)
             else if length path + 1 < SGLIB_MAX_TREE_DEEP then Some ((s, 0) # (t, pass + 1) # path)
             else None))"

text \<open>Work left: each node of the path is visited at most three times, and so is each below it.\<close>

fun turns :: "'a rbtree \<Rightarrow> nat" where
  "turns Leaf = 0"
| "turns (Node _ l _ r) = turns l + turns r + 3"

fun turns_left :: "'a tree_path \<Rightarrow> nat" where
  "turns_left [] = 0"
| "turns_left ((Leaf, pass) # path) = 3 - pass + turns_left path + (if pass \<ge> 2 then 1 else 0)"
| "turns_left ((Node c l x r, pass) # path) =
     (if pass = 0 then turns l + turns r + 3 else if pass = 1 then turns r + 2 else 1) + turns_left path"

lemma turns_left_new [simp]: "s \<noteq> Leaf \<Longrightarrow> turns_left ((s, 0) # path) = turns s + turns_left path"
  by (cases s) auto

lemma it_turn_less: "it_turn path = Some path' \<Longrightarrow> path \<noteq> [] \<Longrightarrow> turns_left path' < turns_left path"
proof (cases path)
  case (Cons tp rest)
  obtain t p where tp: "tp = (t, p)" by (cases tp)
  assume "it_turn path = Some path'"
  then show ?thesis unfolding Cons tp
    by (cases t) (auto split: if_splits)
qed simp

function it_compute_current_elem :: "nat \<Rightarrow> 'a tree_path \<Rightarrow> ('a option \<times> 'a tree_path) option" where
  "it_compute_current_elem order path =
     (if path = [] then Some (None, [])
      else
        (case it_turn path of
           None \<Rightarrow> None
         | Some path \<Rightarrow>
             (case path of
                (t, pass) # _ \<Rightarrow> if order = pass then Some (elem_of t, path) else it_compute_current_elem order path
              | [] \<Rightarrow> Some (None, []))))"
  by auto
termination
  by (relation "measure (\<lambda>(order, path). turns_left path)") (auto dest: it_turn_less)

declare it_compute_current_elem.simps [simp del]

definition sglib_it_next :: "'a tree_iterator \<Rightarrow> 'a tree_iterator option" where
  "sglib_it_next it =
     map_option (\<lambda>(e, path). it\<lparr>si_currentelem := e, si_path := path\<rparr>)
       (it_compute_current_elem (si_order it) (si_path it))"

definition sglib_it_init :: "'a rbtree \<Rightarrow> nat \<Rightarrow> 'a tree_iterator option" where
  "sglib_it_init t order =
     (if t = Leaf then Some \<lparr>si_currentelem = None, si_path = [], si_order = order\<rparr>
      else if order = 0 then Some \<lparr>si_currentelem = elem_of t, si_path = [(t, 0)], si_order = order\<rparr>
      else sglib_it_next \<lparr>si_currentelem = None, si_path = [(t, 0)], si_order = order\<rparr>)"

definition sglib_it_init_inorder :: "'a rbtree \<Rightarrow> 'a tree_iterator option" where
  "sglib_it_init_inorder t = sglib_it_init t 1"

text \<open>The library's loop: \<open>for( x = begin( &itr, set ); x != NULL; x = next( &itr ) )\<close>.\<close>

partial_function (option) it_visit :: "'a tree_iterator \<Rightarrow> 'a list option" where
  "it_visit it =
     (case si_currentelem it of
        None \<Rightarrow> Some []
      | Some x \<Rightarrow> Option.bind (sglib_it_next it) (\<lambda>it. Option.bind (it_visit it) (\<lambda>xs. Some (x # xs))))"

definition visit_inorder :: "'a rbtree \<Rightarrow> 'a list option" where
  "visit_inorder t = Option.bind (sglib_it_init_inorder t) it_visit"

text \<open>
  What an in-order walk has still to visit: below the top of the path, a node whose left subtree is
  being visited comes before its right subtree; the node on top has already been visited if its
  pass is 1.
\<close>

fun below :: "'a tree_path \<Rightarrow> 'a list" where
  "below [] = []"
| "below ((Leaf, pass) # path) = below path"
| "below ((Node c l x r, pass) # path) = (if pass \<le> 1 then x # inorder r else []) @ below path"

fun pending :: "'a tree_path \<Rightarrow> 'a list" where
  "pending [] = []"
| "pending ((Leaf, pass) # path) = below path"
| "pending ((Node c l x r, pass) # path) =
     (if pass = 0 then inorder l @ x # inorder r else if pass = 1 then inorder r else []) @ below path"

fun below_ok :: "'a tree_path \<Rightarrow> bool" where
  "below_ok [] = True"
| "below_ok ((t, pass) # path) = (t \<noteq> Leaf \<and> 1 \<le> pass \<and> depth t + length path \<le> SGLIB_MAX_TREE_DEEP \<and> below_ok path)"

fun path_ok :: "'a tree_path \<Rightarrow> bool" where
  "path_ok [] = True"
| "path_ok ((t, pass) # path) = (t \<noteq> Leaf \<and> depth t + length path \<le> SGLIB_MAX_TREE_DEEP \<and> below_ok path)"

lemma below_path_ok: "below_ok path \<Longrightarrow> path_ok path"
  by (cases path) auto

lemma depth_pos: "t \<noteq> Leaf \<Longrightarrow> 1 \<le> depth t"
  by (cases t) auto

subsection \<open>The three orders\<close>

text \<open>Order 0 is pre-order, 1 in-order, 2 post-order.\<close>

fun ordered :: "nat \<Rightarrow> 'a rbtree \<Rightarrow> 'a list" where
  "ordered ord Leaf = []"
| "ordered ord (Node c l x r) =
     (if ord = 0 then [x] else []) @ ordered ord l @ (if ord = 1 then [x] else []) @ ordered ord r @
     (if ord = 2 then [x] else [])"

lemma ordered_inorder: "ordered 1 t = inorder t"
  by (induction t) auto

lemma mset_ordered: "ord \<le> 2 \<Longrightarrow> mset (ordered ord t) = mset (inorder t)"
  by (induction t) auto

text \<open>What is left of a node and the subtree below it when its pass counter is \<open>pass\<close>, apart from the node
  itself if it is shown at this pass; and what is left of a path.\<close>

fun later :: "nat \<Rightarrow> nat \<Rightarrow> 'a rbtree \<Rightarrow> 'a list" where
  "later ord pass Leaf = []"
| "later ord pass (Node c l x r) =
     (if pass = 0 then ordered ord l @ (if ord = 1 then [x] else []) else []) @
     (if pass \<le> 1 then ordered ord r @ (if ord = 2 then [x] else []) else [])"

fun shown :: "nat \<Rightarrow> 'a tree_path \<Rightarrow> 'a list" where
  "shown ord ((Node c l x r, pass) # path) = (if ord = pass then [x] else [])"
| "shown ord path = []"

fun to_come :: "nat \<Rightarrow> 'a tree_path \<Rightarrow> 'a list" where
  "to_come ord [] = []"
| "to_come ord ((t, pass) # path) = later ord pass t @ shown ord path @ to_come ord path"

lemma turn_shows:
  assumes "path_ok ((t, pass) # path)"
  obtains path' where "it_turn ((t, pass) # path) = Some path'" and "path_ok path'"
    and "to_come ord ((t, pass) # path) = shown ord path' @ to_come ord path'"
proof -
  obtain c l x r where t: "t = Node c l x r" using assms by (cases t) auto
  consider "pass \<ge> 2" | "pass = 0" | "pass = 1" by linarith
  then show ?thesis
  proof cases
    case 1
    then show ?thesis using assms that [of path] by (auto simp: t below_path_ok)
  next
    case 2
    then show ?thesis
      using assms that [of "if l = Leaf then (t, 1) # path else (l, 0) # (t, 1) # path"] depth_pos [of l]
      by (cases l) (auto simp: t)
  next
    case 3
    then show ?thesis
      using assms that [of "if r = Leaf then (t, 2) # path else (r, 0) # (t, 2) # path"] depth_pos [of r]
      by (cases r) (auto simp: t)
  qed
qed

lemma compute_current_elem_ordered:
  "path_ok path \<Longrightarrow>
    (case to_come ord path of
       [] \<Rightarrow> it_compute_current_elem ord path = Some (None, [])
     | x # xs \<Rightarrow> \<exists>path'. it_compute_current_elem ord path = Some (Some x, path') \<and> to_come ord path' = xs \<and> path_ok path')"
proof (induction "turns_left path" arbitrary: path rule: less_induct)
  case less
  show ?case
  proof (cases path)
    case Nil
    then show ?thesis by (simp add: it_compute_current_elem.simps)
  next
    case (Cons tp rest)
    obtain t p where tp: "tp = (t, p)" by (cases tp)
    obtain path' where T: "it_turn path = Some path'" and ok: "path_ok path'"
      and P: "to_come ord path = shown ord path' @ to_come ord path'"
      using turn_shows [of t p rest] less.prems unfolding Cons tp by metis
    have lt: "turns_left path' < turns_left path" using it_turn_less [OF T] Cons by simp
    have C: "it_compute_current_elem ord path =
        (case path' of (t, pass) # _ \<Rightarrow> if ord = pass then Some (elem_of t, path') else it_compute_current_elem ord path'
         | [] \<Rightarrow> Some (None, []))"
      using T Cons by (subst it_compute_current_elem.simps) simp
    show ?thesis
    proof (cases path')
      case Nil
      then show ?thesis using P C by simp
    next
      case (Cons uq rest')
      obtain u q where uq: "uq = (u, q)" by (cases uq)
      then obtain c l x r where u: "u = Node c l x r" using ok Cons by (cases u) auto
      show ?thesis
      proof (cases "ord = q")
        case True
        then show ?thesis using P ok C by (simp add: Cons uq u)
      next
        case False
        then have "to_come ord path = to_come ord path'" using P by (simp add: Cons uq u)
        moreover have "it_compute_current_elem ord path = it_compute_current_elem ord path'"
          using C False by (simp only: Cons uq list.case prod.case if_False)
        ultimately show ?thesis using less.hyps [OF lt ok] by (simp only:)
      qed
    qed
  qed
qed

lemma it_visit_to_come:
  "path_ok (si_path it) \<Longrightarrow> si_order it = ord \<Longrightarrow> si_currentelem it = Some x \<Longrightarrow>
    it_visit it = Some (x # to_come ord (si_path it))"
proof (induction "to_come ord (si_path it)" arbitrary: it x)
  case Nil
  then have "it_compute_current_elem ord (si_path it) = Some (None, [])"
    using compute_current_elem_ordered [of "si_path it" ord] by simp
  then have "sglib_it_next it = Some (it\<lparr>si_currentelem := None, si_path := []\<rparr>)"
    using Nil.prems by (simp add: sglib_it_next_def)
  then show ?case using Nil by (simp add: it_visit.simps [of it] it_visit.simps [of "it\<lparr>si_currentelem := None, si_path := []\<rparr>"])
next
  case (Cons y ys)
  obtain path' where p: "it_compute_current_elem ord (si_path it) = Some (Some y, path')" "to_come ord path' = ys" "path_ok path'"
    using compute_current_elem_ordered [OF Cons.prems(1), of ord] Cons.hyps(2) [symmetric] by auto
  define it' where "it' = it\<lparr>si_currentelem := Some y, si_path := path'\<rparr>"
  have "sglib_it_next it = Some it'" using p Cons.prems by (simp add: sglib_it_next_def it'_def)
  moreover have "it_visit it' = Some (y # to_come ord (si_path it'))"
    using Cons.hyps(1) [of it' y] p Cons.prems by (simp add: it'_def)
  ultimately show ?case using Cons.prems Cons.hyps(2) p(2) by (simp add: it_visit.simps [of it] it'_def)
qed

text \<open>From its start to its end the iterator visits the elements in its order.\<close>

lemma visit_ordered:
  assumes "depth t \<le> SGLIB_MAX_TREE_DEEP" and "ord \<le> 2"
  shows "Option.bind (sglib_it_init t ord) it_visit = Some (ordered ord t)"
proof (cases t)
  case Leaf
  then show ?thesis by (simp add: sglib_it_init_def it_visit.simps)
next
  case (Node c l x r)
  have ok: "path_ok [(t, 0)]" using assms Node by simp
  show ?thesis
  proof (cases "ord = 0")
    case True
    then show ?thesis
      using it_visit_to_come [of "\<lparr>si_currentelem = Some x, si_path = [(t, 0)], si_order = 0\<rparr>" 0 x] ok
      by (simp add: sglib_it_init_def Node)
  next
    case False
    have P: "to_come ord [(t, 0)] = ordered ord t" using False assms(2) by (simp add: Node)
    obtain y ys where y: "ordered ord t = y # ys"
      using False assms(2) by (cases "ordered ord t") (auto simp: Node split: if_splits)
    obtain path' where C: "it_compute_current_elem ord [(t, 0)] = Some (Some y, path')" "to_come ord path' = ys" "path_ok path'"
      using compute_current_elem_ordered [OF ok, of ord] unfolding P y by auto
    then have "sglib_it_init t ord = Some \<lparr>si_currentelem = Some y, si_path = path', si_order = ord\<rparr>"
      using Node False by (simp add: sglib_it_init_def sglib_it_next_def)
    then show ?thesis using it_visit_to_come [of "\<lparr>si_currentelem = Some y, si_path = path', si_order = ord\<rparr>" ord y] C(2,3)
      by (simp add: y)
  qed
qed

text \<open>In-order, in the terms of above.\<close>

lemma below_to_come: "below_ok path \<Longrightarrow> below path = shown 1 path @ to_come 1 path"
proof (induction path rule: below.induct)
  case (3 c l x r pass path)
  then show ?case by (auto simp: ordered_inorder [simplified])
qed auto

lemma pending_to_come: "path_ok path \<Longrightarrow> pending path = to_come 1 path"
  by (cases path rule: pending.cases) (auto simp: below_to_come [simplified] ordered_inorder [simplified])

lemma compute_current_elem_inorder:
  "path_ok path \<Longrightarrow>
    (case pending path of
       [] \<Rightarrow> it_compute_current_elem 1 path = Some (None, [])
     | x # xs \<Rightarrow> \<exists>path'. it_compute_current_elem 1 path = Some (Some x, path') \<and> pending path' = xs \<and> path_ok path')"
  using compute_current_elem_ordered [of path 1] pending_to_come [of path]
  by (auto simp: pending_to_come split: list.splits)

lemma visit_inorder_eq:
  assumes "depth t \<le> SGLIB_MAX_TREE_DEEP"
  shows "visit_inorder t = Some (inorder t)"
  using visit_ordered [OF assms, of 1] by (simp add: visit_inorder_def sglib_it_init_inorder_def ordered_inorder [simplified])

subsection \<open>The traversal macro\<close>

text \<open>
  \<open>SGLIB___BIN_TREE_MAP_ON_ELEMENTS\<close> with \<open>order = 1\<close>, as a function to the list of the elements its
  command runs on. A slot holds an element, its right subtree and its pass counter. The assertion
  that fails in a tree that is too deep ends the process.
\<close>

type_synonym 'a map_path = "('a \<times> 'a rbtree \<times> nat) list"

fun map_push :: "'a rbtree \<Rightarrow> 'a map_path \<Rightarrow> 'a map_path option" where
  "map_push Leaf path = Some path"
| "map_push (Node c l x r) path =
     (if length path + 1 \<ge> SGLIB_MAX_TREE_DEEP then None else map_push l ((x, r, 0) # path))"

fun map_pop :: "'a map_path \<Rightarrow> ('a list \<times> 'a rbtree \<times> 'a map_path) option" where
  "map_pop [] = None"
| "map_pop ((x, right, pass) # path) =
     (let out = (if pass = 0 then [x] else []) in
      if path \<noteq> [] \<and> right = Leaf
      then map_option (\<lambda>(out', cn, path). (out @ out', cn, path)) (map_pop path)
      else Some (out, right, (x, Leaf, pass + 1) # path))"

partial_function (option) map_on_elements :: "'a rbtree \<Rightarrow> 'a map_path \<Rightarrow> 'a list option" where
  "map_on_elements cn path =
     (if cn = Leaf then Some []
      else
        Option.bind (map_push cn path) (\<lambda>path.
        Option.bind (map_pop path) (\<lambda>(out, cn, path).
        Option.bind (map_on_elements cn path) (\<lambda>out'. Some (out @ out')))))"

fun map_pending :: "'a map_path \<Rightarrow> 'a list" where
  "map_pending [] = []"
| "map_pending ((x, right, pass) # path) = (if pass = 0 then [x] else []) @ inorder right @ map_pending path"

fun map_path_ok :: "'a map_path \<Rightarrow> bool" where
  "map_path_ok [] = True"
| "map_path_ok ((x, right, pass) # path) = (depth right + length path + 1 < SGLIB_MAX_TREE_DEEP \<and> map_path_ok path)"

fun nodes_left :: "'a map_path \<Rightarrow> nat" where
  "nodes_left [] = 0"
| "nodes_left ((x, right, pass) # path) = length (inorder right) + nodes_left path"

lemma map_push_ok:
  "depth cn + length path < SGLIB_MAX_TREE_DEEP \<Longrightarrow> map_path_ok path \<Longrightarrow>
    \<exists>path'. map_push cn path = Some path' \<and> map_pending path' = inorder cn @ map_pending path \<and> map_path_ok path' \<and>
      (cn \<noteq> Leaf \<longrightarrow> path' \<noteq> [] \<and> nodes_left path' < length (inorder cn) + nodes_left path)"
proof (induction cn path rule: map_push.induct)
  case (2 c l x r path)
  have "Suc (depth l + length path) < SGLIB_MAX_TREE_DEEP" "Suc (depth r + length path) < SGLIB_MAX_TREE_DEEP"
    using 2(2) by auto
  then obtain path' where p: "map_push l ((x, r, 0) # path) = Some path'"
      "map_pending path' = inorder l @ map_pending ((x, r, 0) # path)" "map_path_ok path'"
      "l \<noteq> Leaf \<longrightarrow> path' \<noteq> [] \<and> nodes_left path' < length (inorder l) + nodes_left ((x, r, 0) # path)"
    using 2 by auto
  with 2(2) show ?case by (cases "l = Leaf") auto
qed simp

lemma map_pop_ok:
  "path \<noteq> [] \<Longrightarrow> map_path_ok path \<Longrightarrow>
    \<exists>out cn path'. map_pop path = Some (out, cn, path') \<and> map_pending path = out @ inorder cn @ map_pending path' \<and>
      map_path_ok path' \<and> depth cn + length path' < SGLIB_MAX_TREE_DEEP \<and> (cn = Leaf \<longrightarrow> map_pending path' = []) \<and>
      length (inorder cn) + nodes_left path' \<le> nodes_left path"
proof (induction path rule: map_pop.induct)
  case (2 x right pass path)
  show ?case
  proof (cases "path \<noteq> [] \<and> right = Leaf")
    case True
    with 2 obtain out cn path' where "map_pop path = Some (out, cn, path')"
        "map_pending path = out @ inorder cn @ map_pending path'" "map_path_ok path'"
        "depth cn + length path' < SGLIB_MAX_TREE_DEEP" "cn = Leaf \<longrightarrow> map_pending path' = []"
        "length (inorder cn) + nodes_left path' \<le> nodes_left path" by auto
    with True show ?thesis by (simp add: Let_def)
  next
    case False
    with 2 show ?thesis by (auto simp: Let_def SGLIB_MAX_TREE_DEEP_def)
  qed
qed simp

lemma map_on_elements_pending:
  "depth cn + length path < SGLIB_MAX_TREE_DEEP \<Longrightarrow> map_path_ok path \<Longrightarrow> (cn = Leaf \<Longrightarrow> map_pending path = []) \<Longrightarrow>
    map_on_elements cn path = Some (inorder cn @ map_pending path)"
proof (induction "length (inorder cn) + nodes_left path" arbitrary: cn path rule: less_induct)
  case less
  show ?case
  proof (cases "cn = Leaf")
    case True
    then show ?thesis using less.prems by (simp add: map_on_elements.simps)
  next
    case False
    obtain path1 where p1: "map_push cn path = Some path1" "map_pending path1 = inorder cn @ map_pending path"
        "map_path_ok path1" "path1 \<noteq> []" "nodes_left path1 < length (inorder cn) + nodes_left path"
      using map_push_ok [OF less.prems(1,2)] False by blast
    obtain out cn2 path2 where p2: "map_pop path1 = Some (out, cn2, path2)"
        "map_pending path1 = out @ inorder cn2 @ map_pending path2" "map_path_ok path2"
        "depth cn2 + length path2 < SGLIB_MAX_TREE_DEEP" "cn2 = Leaf \<longrightarrow> map_pending path2 = []"
        "length (inorder cn2) + nodes_left path2 \<le> nodes_left path1"
      using map_pop_ok [OF p1(4,3)] by blast
    have "map_on_elements cn2 path2 = Some (inorder cn2 @ map_pending path2)"
      using less.hyps [of cn2 path2] p1(5) p2(3-6) by simp
    then show ?thesis using False p1(1,2) p2(1,2) by (simp add: map_on_elements.simps [of cn path])
  qed
qed

lemma map_on_elements_inorder:
  "depth t < SGLIB_MAX_TREE_DEEP \<Longrightarrow> map_on_elements t [] = Some (inorder t)"
  using map_on_elements_pending [of t "[]"] by simp

end
