(* ===== verification/FsPath.thy ===== *)
theory FsPath
  imports Prelude
begin

text \<open>
  The string functions of \<open>libfskit/path.c\<close>: joining, splitting and sanitizing paths, and the
  sequence of names that path resolution reads with \<open>strtok_r\<close>.

  A destination buffer is a list of characters of the buffer's size; a write outside of it is the
  outcome \<open>None\<close>. \<open>cstr\<close> reads the C string at the start of a buffer. The loops that walk a
  path from its end by index are recursions on that index, the others are recursions on the
  rest of the path.
\<close>

definition slash :: char where "slash = CHR 0x2F"

definition cstr :: "string \<Rightarrow> string" where
  "cstr buf = takeWhile (\<lambda>c. c \<noteq> NUL) buf"

definition write_at :: "string \<Rightarrow> nat \<Rightarrow> char \<Rightarrow> string option" where
  "write_at buf i c = (if i < length buf then Some (buf[i := c]) else None)"

text \<open>\<open>strcpy\<close> and \<open>strncpy\<close> (of at least \<open>n\<close> source characters) into a buffer.\<close>

definition buf_copy :: "string \<Rightarrow> string \<Rightarrow> string option" where
  "buf_copy buf src = (if length src \<le> length buf then Some (src @ drop (length src) buf) else None)"

definition is_c_string :: "string \<Rightarrow> bool" where
  "is_c_string p = (NUL \<notin> set p)"

subsection \<open>Operations\<close>

definition fskit_fullpath :: "string \<Rightarrow> string \<Rightarrow> string" where
  "fskit_fullpath root path =
     (if length root > 0 then
        (if last root \<noteq> slash \<and> char_at path 0 \<noteq> slash then root @ [slash] @ path
         else if last root = slash \<and> char_at path 0 = slash then root @ drop 1 path
         else root @ path)
      else root @ path)"

text \<open>The index of the last slash at or before \<open>i\<close>; \<open>None\<close> when the loop's index passes below 0.\<close>

fun last_slash :: "string \<Rightarrow> nat \<Rightarrow> nat option" where
  "last_slash p 0 = (if char_at p 0 = slash then Some 0 else None)"
| "last_slash p (Suc i) = (if char_at p (Suc i) = slash then Some (Suc i) else last_slash p i)"

definition dirname_delim :: "string \<Rightarrow> nat" where
  "dirname_delim path =
     (let delim_i = (case last_slash path (length path) of None \<Rightarrow> 0 | Some i \<Rightarrow> i)
      in if delim_i = 0 \<and> char_at path 0 = slash then 1 else delim_i)"

text \<open>\<open>fskit_dirname\<close> into a caller's buffer; \<open>fskit_dirname\<close> allocates and clears one.\<close>

definition fskit_dirname_into :: "string \<Rightarrow> string \<Rightarrow> string option" where
  "fskit_dirname_into dest path =
     (if length path = 0 \<or> strcmp path [slash] = 0 then buf_copy dest [slash, NUL]
      else do {
        dest \<leftarrow> buf_copy dest (take (dirname_delim path) path);
        write_at dest (dirname_delim path + 1) NUL
      })"

definition fskit_dirname :: "string \<Rightarrow> string option" where
  "fskit_dirname path =
     map_option cstr (fskit_dirname_into (replicate (length path + 1) NUL) path)"

definition fskit_basename_len :: "string \<Rightarrow> nat" where
  "fskit_basename_len path =
     (if strcmp path [slash] = 0 then 1
      else if length path \<le> 1 then 0
      else let delim_i = length path - 1;
               delim_i = (if char_at path delim_i = slash then delim_i - 1 else delim_i)
           in case last_slash path delim_i of
                None \<Rightarrow> length path
              | Some i \<Rightarrow> length path - (i + 1))"

definition fskit_basename :: "string \<Rightarrow> string" where
  "fskit_basename path = drop (length path - fskit_basename_len path) path"

text \<open>Into a caller's buffer of \<open>cap\<close> bytes: one byte more than the name is cleared first.\<close>

definition fskit_basename_into :: "nat \<Rightarrow> string \<Rightarrow> string option" where
  "fskit_basename_into cap path =
     (if fskit_basename_len path + 1 \<le> cap then Some (fskit_basename path) else None)"

fun count_slashes :: "string \<Rightarrow> nat \<Rightarrow> nat" where
  "count_slashes p 0 = (if char_at p 0 = slash then 1 else 0)"
| "count_slashes p (Suc i) = (if char_at p (Suc i) = slash then 1 else 0) + count_slashes p i"

definition fskit_depth :: "string \<Rightarrow> nat" where
  "fskit_depth path =
     (let i = length path - 1
      in if length path \<le> 1 then 0
         else count_slashes path (if char_at path i = slash then i - 1 else i))"

text \<open>The two passes of \<open>fskit_path_split\<close>: how many names, then the names.\<close>

function split_count :: "string \<Rightarrow> nat" where
  "split_count [] = 0"
| "split_count (c # cs) =
     (if c = slash then split_count cs
      else 1 + split_count (drop 1 (dropWhile (\<lambda>c. c \<noteq> slash) cs)))"
  by pat_completeness auto
termination
  by (relation "measure length")
    (auto simp: less_Suc_eq_le intro: order.trans [OF diff_le_self length_dropWhile_le])

function split_names :: "string \<Rightarrow> string list" where
  "split_names [] = []"
| "split_names (c # cs) =
     (if c = slash then split_names cs
      else (c # takeWhile (\<lambda>c. c \<noteq> slash) cs)
           # split_names (drop 1 (dropWhile (\<lambda>c. c \<noteq> slash) cs)))"
  by pat_completeness auto
termination
  by (relation "measure length")
    (auto simp: less_Suc_eq_le intro: order.trans [OF diff_le_self length_dropWhile_le])

text \<open>The names array has \<open>num_names + 1\<close> slots; a name beyond the last but one has no room.\<close>

definition fskit_path_split :: "string \<Rightarrow> string list option" where
  "fskit_path_split path =
     (if length (split_names path) < split_count path + 1 then Some (split_names path) else None)"

definition fskit_sanitize_path :: "string \<Rightarrow> string" where
  "fskit_sanitize_path path =
     (if strcmp path [slash] \<noteq> 0 then
        (if length path > 0 \<and> last path = slash then butlast path else path)
      else path)"

text \<open>
  \<open>strtok_r\<close> with the delimiter \<open>"/"\<close>: the next token and the rest of the string, and the tokens
  that repeated calls return.
\<close>

fun strtok_r :: "string \<Rightarrow> (string \<times> string) option" where
  "strtok_r [] = None"
| "strtok_r (c # cs) =
     (if c = slash then strtok_r cs
      else Some (c # takeWhile (\<lambda>c. c \<noteq> slash) cs, drop 1 (dropWhile (\<lambda>c. c \<noteq> slash) cs)))"

lemma strtok_r_shorter: "strtok_r p = Some (t, rest) \<Longrightarrow> length rest < length p"
  by (induction p)
    (auto split: if_splits simp: less_Suc_eq_le intro: order.trans [OF diff_le_self length_dropWhile_le])

function strtok_all :: "string \<Rightarrow> string list" where
  "strtok_all p = (case strtok_r p of None \<Rightarrow> [] | Some (t, rest) \<Rightarrow> t # strtok_all rest)"
  by pat_completeness auto
termination
  by (relation "measure length") (auto dest: strtok_r_shorter)

declare strtok_all.simps [simp del]

text \<open>
  The names that \<open>fskit_entry_resolve_path_cls\<close> walks: a \<open>"."\<close> is appended to a path that ends in
  a slash, and names that are \<open>"."\<close> are skipped.
\<close>

definition path_names :: "string \<Rightarrow> string list" where
  "path_names path =
     filter (\<lambda>name. name \<noteq> ''.'')
       (strtok_all (if last path = slash then fskit_fullpath path ''.'' else path))"

subsection \<open>Joining and taking apart\<close>

lemma slash_NUL [simp]: "slash \<noteq> NUL" "NUL \<noteq> slash"
  by (simp_all add: slash_def NUL_def)

lemma char_at_append: "char_at (xs @ ys) i = (if i < length xs then xs ! i else char_at ys (i - length xs))"
  by (auto simp: char_at_def nth_append)

lemma char_at_end [simp]: "length p \<le> i \<Longrightarrow> char_at p i = NUL"
  by (simp add: char_at_def)

lemma char_at_name: "slash \<notin> set n \<Longrightarrow> char_at n i \<noteq> slash"
  by (cases "i < length n") (auto simp: char_at_def dest: nth_mem)

lemma last_slash_name:
  assumes "slash \<notin> set n" and "i \<le> length d + length n + 1" and "length d \<le> i"
  shows "last_slash (d @ slash # n) i = Some (length d)"
  using assms(2,3)
proof (induction i)
  case 0
  then show ?case by (simp add: char_at_def)
next
  case (Suc i)
  show ?case
  proof (cases "Suc i = length d")
    case True
    then have "char_at (d @ slash # n) (Suc i) = slash" by (simp add: char_at_def nth_append)
    then show ?thesis using True by (metis last_slash.simps(2))
  next
    case False
    then have "length d \<le> i" using Suc.prems by simp
    moreover have "char_at (d @ slash # n) (Suc i) \<noteq> slash"
    proof -
      have "char_at (d @ slash # n) (Suc i) = char_at n (i - length d)"
      proof -
        have "Suc i = length d + Suc (i - length d)" using False Suc.prems by linarith
        then show ?thesis
          by (metis char_at_def length_Cons length_append nat_add_left_cancel_less not_add_less1
              nth_Cons_Suc nth_append_length_plus Suc_less_eq)
      qed
      also have "\<dots> \<noteq> slash"
        by (rule char_at_name [OF assms(1)])
      finally show ?thesis .
    qed
    ultimately show ?thesis using Suc by simp
  qed
qed

lemma dirname_delim_join:
  "slash \<notin> set n \<Longrightarrow> dirname_delim (d @ slash # n) = (if d = [] then 1 else length d)"
  using last_slash_name [of n "length (d @ slash # n)" d]
  by (auto simp: dirname_delim_def Let_def char_at_def)

lemma cstr_append_NUL: "is_c_string p \<Longrightarrow> cstr (p @ NUL # q) = p"
  unfolding cstr_def is_c_string_def by (subst takeWhile_append2) auto

lemma cstr_replicate: "is_c_string p \<Longrightarrow> cstr (p @ replicate n NUL) = p"
  by (cases n) (auto simp: cstr_append_NUL, auto simp: cstr_def is_c_string_def takeWhile_eq_all_conv)

lemma basename_len_join:
  assumes "slash \<notin> set n" and "n \<noteq> []"
  shows "fskit_basename_len (d @ slash # n) = length n"
proof -
  have "char_at (d @ slash # n) (length (d @ slash # n) - 1) = last n"
    using assms(2) by (auto simp: char_at_append char_at_def nth_Cons' last_conv_nth)
  also have "\<dots> \<noteq> slash" using assms by (metis last_in_set)
  finally have "char_at (d @ slash # n) (length d + length n) \<noteq> slash" by simp
  moreover have "d @ slash # n \<noteq> [slash]" using assms(2) by (cases d) auto
  ultimately show ?thesis
    using assms last_slash_name [of n "length (d @ slash # n) - 1" d]
    by (auto simp: fskit_basename_len_def Let_def Suc_le_eq)
qed

lemma fskit_basename_join:
  "slash \<notin> set n \<Longrightarrow> n \<noteq> [] \<Longrightarrow> fskit_basename (d @ slash # n) = n"
  by (simp add: fskit_basename_def basename_len_join)

lemma buf_copy_zeros:
  "length s \<le> m \<Longrightarrow> buf_copy (replicate m NUL) s = Some (s @ replicate (m - length s) NUL)"
  by (simp add: buf_copy_def)

lemma write_at_zeros:
  "length s \<le> i \<Longrightarrow> i < length s + k \<Longrightarrow> write_at (s @ replicate k NUL) i NUL = Some (s @ replicate k NUL)"
  by (auto simp: write_at_def list_update_same_conv nth_append)

lemma fskit_dirname_join:
  assumes n: "slash \<notin> set n" "n \<noteq> []" and c: "is_c_string d"
  shows "fskit_dirname (d @ slash # n) = Some (if d = [] then [slash] else d)"
proof -
  let ?p = "d @ slash # n"
  let ?s = "if d = [] then [slash] else d"
  have k: "length ?s + 1 \<le> length ?p" using n(2) by (cases n; auto)
  have t: "take (dirname_delim ?p) ?p = ?s" and l: "dirname_delim ?p = length ?s"
    by (simp_all add: dirname_delim_join [OF n(1)])
  have np: "\<not> (length ?p = 0 \<or> ?p = [slash])" using n(2) by (cases d) auto
  have "write_at (?s @ replicate (length ?p + 1 - length ?s) NUL) (length ?s + 1) NUL =
      Some (?s @ replicate (length ?p + 1 - length ?s) NUL)"
    using k by (intro write_at_zeros) linarith+
  then have "fskit_dirname_into (replicate (length ?p + 1) NUL) ?p =
      Some (?s @ replicate (length ?p + 1 - length ?s) NUL)"
    using np k buf_copy_zeros [of ?s "length ?p + 1"]
    unfolding fskit_dirname_into_def t l by (auto simp del: replicate.simps)
  moreover have "is_c_string ?s" using c by (auto simp: is_c_string_def)
  ultimately show ?thesis
    by (simp only: fskit_dirname_def option.map cstr_replicate)
qed

lemma fskit_fullpath_join:
  "last d \<noteq> slash \<Longrightarrow> d \<noteq> [] \<Longrightarrow> char_at n 0 \<noteq> slash \<Longrightarrow> fskit_fullpath d n = d @ slash # n"
  by (simp add: fskit_fullpath_def)

lemma fskit_fullpath_root: "char_at n 0 \<noteq> slash \<Longrightarrow> fskit_fullpath [slash] n = slash # n"
  by (simp add: fskit_fullpath_def)

lemma fskit_sanitize_idem: "last (fskit_sanitize_path p) \<noteq> slash \<Longrightarrow>
    fskit_sanitize_path (fskit_sanitize_path p) = fskit_sanitize_path p"
  by (auto simp: fskit_sanitize_path_def)

subsection \<open>Splitting\<close>

text \<open>A name that may stand between two slashes, and the absolute path of a list of names.\<close>

definition is_name :: "string \<Rightarrow> bool" where
  "is_name n = (n \<noteq> [] \<and> slash \<notin> set n)"

definition abs_path :: "string list \<Rightarrow> string" where
  "abs_path ns = concat (map (\<lambda>n. slash # n) ns)"

lemma abs_path_simps [simp]:
  "abs_path [] = []" "abs_path (n # ns) = slash # n @ abs_path ns"
  by (simp_all add: abs_path_def)

lemma abs_path_append: "abs_path (ms @ ns) = abs_path ms @ abs_path ns"
  by (simp add: abs_path_def)

lemma split_count_names: "split_count p = length (split_names p)"
  by (induction p rule: split_count.induct) auto

lemma split_names_is_name: "n \<in> set (split_names p) \<Longrightarrow> is_name n"
  by (induction p rule: split_names.induct)
    (auto simp: is_name_def split: if_splits dest: set_takeWhileD)

lemma strtok_all_split: "strtok_all p = split_names p"
proof (induction p rule: split_names.induct)
  case 1
  show ?case by (simp add: strtok_all.simps)
next
  case (2 c cs)
  show ?case
  proof (cases "c = slash")
    case True
    have "strtok_all (c # cs) = strtok_all cs" by (simp add: strtok_all.simps True)
    with 2 True show ?thesis by simp
  next
    case False
    have "strtok_all (c # cs) = (c # takeWhile (\<lambda>c. c \<noteq> slash) cs)
        # strtok_all (drop 1 (dropWhile (\<lambda>c. c \<noteq> slash) cs))"
      using False by (subst strtok_all.simps) simp
    with 2 False show ?thesis by simp
  qed
qed

lemma split_names_slash [simp]: "split_names (slash # p) = split_names p"
  by simp

lemma split_names_name:
  assumes "is_name n"
  shows "split_names (n @ slash # p) = n # split_names p" and "split_names n = [n]"
proof -
  obtain c cs where n: "n = c # cs" "c \<noteq> slash" "slash \<notin> set cs"
    using assms by (cases n) (auto simp: is_name_def)
  have "takeWhile (\<lambda>c. c \<noteq> slash) (cs @ slash # p) = cs"
    "dropWhile (\<lambda>c. c \<noteq> slash) (cs @ slash # p) = slash # p"
    using n(3) by (induction cs) auto
  then show "split_names (n @ slash # p) = n # split_names p" using n by simp
  have t: "takeWhile (\<lambda>c. c \<noteq> slash) cs = cs" and d: "dropWhile (\<lambda>c. c \<noteq> slash) cs = []"
    using n(3) by (induction cs) auto
  show "split_names n = [n]" using n(2) by (simp add: n(1) t d del: dropWhile_eq_Nil_conv)
qed

lemma split_names_abs_path:
  "list_all is_name ns \<Longrightarrow> split_names (abs_path ns) = ns"
proof (induction ns)
  case Nil
  show ?case by simp
next
  case (Cons n ns)
  show ?case
  proof (cases ns)
    case Nil
    then show ?thesis using Cons.prems split_names_name(2) [of n] by simp
  next
    case (Cons m ms)
    have "split_names (abs_path (n # ns)) = n # split_names (m @ abs_path ms)"
      using \<open>list_all is_name (n # ns)\<close> split_names_name(1) [of n] by (simp add: Cons)
    also have "split_names (m @ abs_path ms) = split_names (abs_path ns)" by (simp add: Cons)
    finally show ?thesis using Cons.IH \<open>list_all is_name (n # ns)\<close> by simp
  qed
qed

subsection \<open>Depth\<close>

lemma count_slashes_eq:
  "i < length p \<Longrightarrow> count_slashes p i = length (filter (\<lambda>c. c = slash) (take (Suc i) p))"
proof (induction i)
  case 0
  then show ?case by (cases p) (auto simp: char_at_def)
next
  case (Suc i)
  then show ?case by (simp add: take_Suc_conv_app_nth [of "Suc i"] char_at_def)
qed

lemma filter_slash_name: "is_name n \<Longrightarrow> filter (\<lambda>c. c = slash) n = []"
  by (auto simp: is_name_def filter_empty_conv)

lemma filter_slash_abs_path:
  "list_all is_name ns \<Longrightarrow> length (filter (\<lambda>c. c = slash) (abs_path ns)) = length ns"
  by (induction ns) (auto simp: filter_slash_name)

lemma last_abs_path:
  assumes "list_all is_name ns" and "ns \<noteq> []"
  shows "last (abs_path ns) \<noteq> slash" and "2 \<le> length (abs_path ns)"
proof -
  obtain ms n where ns: "ns = ms @ [n]" using assms(2) by (metis rev_exhaust)
  then have n: "n \<noteq> []" "slash \<notin> set n" using assms(1) by (auto simp: is_name_def)
  then show "last (abs_path ns) \<noteq> slash" by (simp add: ns abs_path_append) (metis last_in_set)
  show "2 \<le> length (abs_path ns)" using n by (cases n) (auto simp: ns abs_path_append)
qed

lemma depth_abs_path:
  assumes "list_all is_name ns"
  shows "fskit_depth (abs_path ns) = length ns"
proof (cases "ns = []")
  case True
  then show ?thesis by (simp add: fskit_depth_def)
next
  case False
  note l = last_abs_path [OF assms False]
  have "abs_path ns \<noteq> []" using l(2) by auto
  from last_conv_nth [OF this] have "char_at (abs_path ns) (length (abs_path ns) - 1) \<noteq> slash"
    using l by (simp add: char_at_def)
  then show ?thesis
    using l count_slashes_eq [of "length (abs_path ns) - 1" "abs_path ns"]
    by (auto simp: fskit_depth_def Let_def filter_slash_abs_path [OF assms])
qed

subsection \<open>The names that are resolved\<close>

lemma split_names_append_slash:
  "split_names (p @ slash # q) = split_names (p @ [slash]) @ split_names q"
proof (induction p rule: split_names.induct)
  case 1
  show ?case by simp
next
  case (2 c cs)
  show ?case
  proof (cases "slash \<in> set (c # cs)")
    case True
    show ?thesis
    proof (cases "c = slash")
      case True
      with 2 show ?thesis by simp
    next
      case False
      then have "slash \<in> set cs" using \<open>slash \<in> set (c # cs)\<close> by auto
      then obtain xs ys where cs: "cs = xs @ slash # ys" "slash \<notin> set xs"
        by (metis split_list_first)
      have n: "is_name (c # xs)" using False cs by (auto simp: is_name_def)
      have "drop 1 (dropWhile (\<lambda>c. c \<noteq> slash) cs) = ys"
        using cs(2) unfolding cs(1) by (induction xs) auto
      with 2(2) [OF False] show ?thesis
        using split_names_name(1) [OF n, of "ys @ slash # q"]
          split_names_name(1) [OF n, of "ys @ [slash]"] by (simp add: cs)
    qed
  next
    case False
    then have "is_name (c # cs)" by (auto simp: is_name_def)
    from split_names_name(1) [OF this, of q] split_names_name(1) [OF this, of "[]"]
    show ?thesis by simp
  qed
qed

lemma split_names_end_slash: "p \<noteq> [] \<Longrightarrow> last p = slash \<Longrightarrow> split_names (p @ q) = split_names p @ split_names q"
  using split_names_append_slash [of "butlast p" q]
  by (metis append.assoc append_Cons append_Nil append_butlast_last_id)

lemma path_names_eq: "p \<noteq> [] \<Longrightarrow> path_names p = filter (\<lambda>n. n \<noteq> ''.'') (split_names p)"
proof -
  assume p: "p \<noteq> []"
  have "split_names ''.'' = [''.'']"
    by (rule split_names_name(2)) (simp add: is_name_def slash_def)
  moreover have "fskit_fullpath p ''.'' = p @ ''.''" if "last p = slash"
    using p that by (simp add: fskit_fullpath_def char_at_def slash_def)
  ultimately show ?thesis
    using split_names_end_slash [OF p, of "''.''"]
    by (auto simp: path_names_def strtok_all_split)
qed

end
