(* ===== verification/EntrySet.thy ===== *)
theory EntrySet
  imports SglibIter FsPath
begin

text \<open>
  Directory entry sets and extended attribute sets (\<open>libfskit/entry.c\<close>): the two red-black trees
  keyed by names, over \<open>Sglib\<close>. A set is the tree itself; \<open>Leaf\<close> is the NULL set. Operations that
  write through a pointer to the set return the new set.

  \<open>sys\<close> is what the library takes from the system: whether an allocation at a named place
  succeeds, the order of two freshly allocated nodes with equal names, and the clock.

  The comparators are interpretations of the locale of \<open>Sglib\<close>, which makes both kinds of set
  finite maps from names.
\<close>

record es_node =
  es_name :: string
  es_dirent :: addr

type_synonym entry_set = "es_node rbtree"

record xs_node =
  xs_name :: string
  xs_value :: string

type_synonym xattr_set = "xs_node rbtree"

record sys =
  mem_ok :: "string \<Rightarrow> bool"
  es_ptr_less :: "es_node \<Rightarrow> es_node \<Rightarrow> bool"
  xs_ptr_less :: "xs_node \<Rightarrow> xs_node \<Rightarrow> bool"
  clock :: "string \<Rightarrow> int \<times> int \<times> int"

definition entry_set_cmp :: "es_node \<Rightarrow> es_node \<Rightarrow> int" where
  "entry_set_cmp s1 s2 = strcmp (es_name s1) (es_name s2)"

definition xattr_set_cmp :: "xs_node \<Rightarrow> xs_node \<Rightarrow> int" where
  "xattr_set_cmp x1 x2 = strcmp (xs_name x1) (xs_name x2)"

interpretation es: sglib_comparator entry_set_cmp es_name
  by unfold_locales (simp_all add: entry_set_cmp_def strcmp_neg strcmp_pos)

interpretation xs: sglib_comparator xattr_set_cmp xs_name
  by unfold_locales (simp_all add: xattr_set_cmp_def strcmp_neg strcmp_pos)

subsection \<open>Directory entry sets\<close>

definition es_lookup_node :: "string \<Rightarrow> es_node" where
  "es_lookup_node name = \<lparr>es_name = name, es_dirent = 0\<rparr>"

definition fskit_entry_set_insert :: "'z sys_scheme \<Rightarrow> entry_set \<Rightarrow> string \<Rightarrow> addr \<Rightarrow> entry_set \<times> int" where
  "fskit_entry_set_insert S set0 name child =
     (if \<not> mem_ok S ''fskit_entry_set_insert'' then (set0, - ENOMEM)
      else (sglib_add entry_set_cmp (es_ptr_less S) \<lparr>es_name = name, es_dirent = child\<rparr> set0, 0))"

definition fskit_entry_set_new :: "'z sys_scheme \<Rightarrow> addr \<Rightarrow> addr \<Rightarrow> entry_set option" where
  "fskit_entry_set_new S node parent =
     (if \<not> mem_ok S ''fskit_entry_set_new'' then None
      else case fskit_entry_set_insert S (Node BLACK Leaf \<lparr>es_name = ''.'', es_dirent = node\<rparr> Leaf) ''..'' parent of
        (ret, rc) \<Rightarrow> if rc \<noteq> 0 then None else Some ret)"

definition fskit_entry_set_find_itr :: "entry_set \<Rightarrow> string \<Rightarrow> es_node option" where
  "fskit_entry_set_find_itr set0 name = find_member entry_set_cmp (es_lookup_node name) set0"

definition fskit_entry_set_find_name :: "entry_set \<Rightarrow> string \<Rightarrow> addr option" where
  "fskit_entry_set_find_name set0 name =
     (case fskit_entry_set_find_itr set0 name of
        None \<Rightarrow> None
      | Some member \<Rightarrow> Some (es_dirent member))"

definition fskit_entry_set_remove :: "entry_set \<Rightarrow> string \<Rightarrow> entry_set \<times> bool" where
  "fskit_entry_set_remove set0 name =
     (if strcmp name ''.'' = 0 \<or> strcmp name ''..'' = 0 then (set0, False)
      else case sglib_delete_if_member entry_set_cmp (es_lookup_node name) set0 of
        (set1, Some member) \<Rightarrow> (set1, True)
      | (set1, None) \<Rightarrow> (set1, False))"

definition fskit_entry_set_replace :: "entry_set \<Rightarrow> string \<Rightarrow> addr \<Rightarrow> entry_set \<times> bool" where
  "fskit_entry_set_replace set0 name replacement =
     (case find_member entry_set_cmp (es_lookup_node name) set0 of
        Some member \<Rightarrow>
          (update_member entry_set_cmp (es_lookup_node name)
             (\<lambda>dp. dp\<lparr>es_dirent := replacement\<rparr>) set0, True)
      | None \<Rightarrow> (set0, False))"

definition fskit_entry_set_count :: "entry_set \<Rightarrow> nat" where
  "fskit_entry_set_count set0 = sglib_len set0"

definition fskit_entry_set_begin :: "entry_set \<Rightarrow> es_node tree_iterator option" where
  "fskit_entry_set_begin dirents = sglib_it_init_inorder dirents"

definition fskit_entry_set_next :: "es_node tree_iterator \<Rightarrow> es_node tree_iterator option" where
  "fskit_entry_set_next itr = sglib_it_next itr"

text \<open>
  The nodes that a loop with this iterator visits, with their names and children (see
  \<open>entry_set_walk\<close> below).
\<close>

definition es_entries :: "entry_set \<Rightarrow> (string \<times> addr) list" where
  "es_entries set0 = map (\<lambda>dp. (es_name dp, es_dirent dp)) (inorder set0)"

subsection \<open>Extended attribute sets\<close>

definition XATTR_CREATE :: nat where "XATTR_CREATE = 1"
definition XATTR_REPLACE :: nat where "XATTR_REPLACE = 2"

definition has_flag :: "nat \<Rightarrow> nat \<Rightarrow> bool" where
  "has_flag flags f = (and flags f \<noteq> 0)"

definition xs_lookup_node :: "string \<Rightarrow> xs_node" where
  "xs_lookup_node name = \<lparr>xs_name = name, xs_value = []\<rparr>"

definition fskit_xattr_set_remove :: "xattr_set \<Rightarrow> string \<Rightarrow> xattr_set \<times> bool" where
  "fskit_xattr_set_remove set0 name =
     (case sglib_delete_if_member xattr_set_cmp (xs_lookup_node name) set0 of
        (set1, Some member) \<Rightarrow> (set1, True)
      | (set1, None) \<Rightarrow> (set1, False))"

text \<open>The bytes stored are the first \<open>value_len\<close> of the value; name and value are never NULL here.\<close>

definition fskit_xattr_set_insert ::
    "'z sys_scheme \<Rightarrow> xattr_set \<Rightarrow> string \<Rightarrow> string \<Rightarrow> nat \<Rightarrow> xattr_set \<times> int" where
  "fskit_xattr_set_insert S set0 name value flags =
     (let member = find_member xattr_set_cmp (xs_lookup_node name) set0 in
      if set0 \<noteq> Leaf \<and> member \<noteq> None \<and> has_flag flags XATTR_CREATE then (set0, - EEXIST)
      else if set0 \<noteq> Leaf \<and> member = None \<and> has_flag flags XATTR_REPLACE then (set0, - ENODATA)
      else
        let set1 = (if set0 \<noteq> Leaf then fst (fskit_xattr_set_remove set0 name) else set0) in
        if \<not> mem_ok S ''fskit_xattr_set_insert'' then (set1, - ENOMEM)
        else (sglib_add xattr_set_cmp (xs_ptr_less S) \<lparr>xs_name = name, xs_value = value\<rparr> set1, 0))"

definition fskit_xattr_set_find :: "xattr_set \<Rightarrow> string \<Rightarrow> string option" where
  "fskit_xattr_set_find set0 name =
     (case find_member xattr_set_cmp (xs_lookup_node name) set0 of
        None \<Rightarrow> None
      | Some member \<Rightarrow> Some (xs_value member))"

definition fskit_xattr_set_count :: "xattr_set \<Rightarrow> nat" where
  "fskit_xattr_set_count set0 = sglib_len set0"

definition fskit_xattr_set_begin :: "xattr_set \<Rightarrow> xs_node tree_iterator option" where
  "fskit_xattr_set_begin xattrs0 = sglib_it_init_inorder xattrs0"

definition fskit_xattr_set_next :: "xs_node tree_iterator \<Rightarrow> xs_node tree_iterator option" where
  "fskit_xattr_set_next itr = sglib_it_next itr"

subsection \<open>Abstraction to finite maps\<close>

text \<open>The abstract state of a directory is the map from names to inodes, with \<open>es_ok\<close> its invariant.\<close>

definition es_ok :: "entry_set \<Rightarrow> bool" where
  "es_ok set0 = sglib_set_ok entry_set_cmp es_name set0"

definition es_map :: "entry_set \<Rightarrow> string \<Rightarrow> addr option" where
  "es_map set0 = map_option es_dirent \<circ> tree_map es_name set0"

definition xs_ok :: "xattr_set \<Rightarrow> bool" where
  "xs_ok set0 = sglib_set_ok xattr_set_cmp xs_name set0"

definition xs_map :: "xattr_set \<Rightarrow> string \<Rightarrow> string option" where
  "xs_map set0 = map_option xs_value \<circ> tree_map xs_name set0"

lemma es_name_lookup [simp]: "es_name (es_lookup_node n) = n"
  by (simp add: es_lookup_node_def)

lemma xs_name_lookup [simp]: "xs_name (xs_lookup_node n) = n"
  by (simp add: xs_lookup_node_def)

lemma es_ok_bst: "es_ok t \<Longrightarrow> bst es_name t"
  by (simp add: es_ok_def sglib_set_ok_def)

lemma xs_ok_bst: "xs_ok t \<Longrightarrow> bst xs_name t"
  by (simp add: xs_ok_def sglib_set_ok_def)

lemma es_ok_Leaf [simp]: "es_ok Leaf" and xs_ok_Leaf [simp]: "xs_ok Leaf"
  by (simp_all add: es_ok_def xs_ok_def sglib_set_ok_def consistency_check_def)

lemma es_map_Leaf [simp]: "es_map Leaf = Map.empty" and xs_map_Leaf [simp]: "xs_map Leaf = Map.empty"
  by (simp_all add: es_map_def xs_map_def fun_eq_iff)

lemma es_map_None: "es_map t n = None \<longleftrightarrow> n \<notin> es_name ` set (inorder t)"
  by (simp add: es_map_def tree_map_None)

lemma xs_map_None: "xs_map t n = None \<longleftrightarrow> n \<notin> xs_name ` set (inorder t)"
  by (simp add: xs_map_def tree_map_None)

lemma find_name_es_map: "es_ok t \<Longrightarrow> fskit_entry_set_find_name t n = es_map t n"
  using es.find_member_tree_map [OF es_ok_bst, of t "es_lookup_node n"]
  by (simp add: fskit_entry_set_find_name_def fskit_entry_set_find_itr_def es_map_def
      split: option.split)

lemma find_xs_map: "xs_ok t \<Longrightarrow> fskit_xattr_set_find t n = xs_map t n"
  using xs.find_member_tree_map [OF xs_ok_bst, of t "xs_lookup_node n"]
  by (simp add: fskit_xattr_set_find_def xs_map_def split: option.split)

lemma entry_set_insert_ok:
  assumes "es_ok t" and "es_map t n = None" and "fskit_entry_set_insert S t n a = (t', rc)"
  shows "es_ok t' \<and> es_map t' = (if rc = 0 then (es_map t)(n \<mapsto> a) else es_map t)"
proof (cases "mem_ok S ''fskit_entry_set_insert''")
  case True
  let ?e = "\<lparr>es_name = n, es_dirent = a\<rparr>"
  have t': "t' = sglib_add entry_set_cmp (es_ptr_less S) ?e t" "rc = 0"
    using assms(3) True by (auto simp: fskit_entry_set_insert_def)
  have k: "es_name ?e \<notin> es_name ` set (inorder t)" using assms(2) by (simp add: es_map_None)
  have "es_ok t'" using es.sglib_set_ok_add [of t ?e] assms(1) k by (simp add: es_ok_def t')
  moreover have "es_map t' = (es_map t)(n \<mapsto> a)"
    using es.tree_map_add [OF es_ok_bst [OF assms(1)] k, of "es_ptr_less S"]
    by (simp add: es_map_def t' fun_eq_iff)
  ultimately show ?thesis using t' by simp
next
  case False
  then show ?thesis using assms by (auto simp: fskit_entry_set_insert_def ENOMEM_def)
qed

lemma delete_if_member_es:
  assumes "es_ok t"
  shows "sglib_delete_if_member entry_set_cmp (es_lookup_node n) t =
    (case tree_map es_name t n of None \<Rightarrow> (t, None)
     | Some m \<Rightarrow> (sglib_delete entry_set_cmp m t, Some m))"
  using es.find_member_tree_map [OF es_ok_bst [OF assms], of "es_lookup_node n"]
  by (simp add: sglib_delete_if_member_def)

lemma entry_set_remove_ok:
  assumes "es_ok t" and "n \<noteq> ''.''" and "n \<noteq> ''..''" and "fskit_entry_set_remove t n = (t', b)"
  shows "es_ok t' \<and> es_map t' = (es_map t)(n := None) \<and> b = (es_map t n \<noteq> None)"
proof (cases "tree_map es_name t n")
  case None
  then show ?thesis
    using assms by (auto simp: fskit_entry_set_remove_def delete_if_member_es es_map_def fun_eq_iff)
next
  case (Some m)
  then have k: "es_name m = n" using tree_map_Some [OF es_ok_bst [OF assms(1)]] by blast
  have t': "t' = sglib_delete entry_set_cmp m t" "b"
    using assms(2,3,4) Some by (auto simp: fskit_entry_set_remove_def delete_if_member_es [OF assms(1)])
  show ?thesis
    using es.sglib_set_ok_delete [of t m] assms(1) es.tree_map_delete [OF es_ok_bst [OF assms(1)], of m]
      Some k t' by (auto simp: es_ok_def es_map_def fun_eq_iff)
qed

lemma update_member_shape:
  "bits (update_member cmp e f t) = bits t \<and> bh (update_member cmp e f t) = bh t \<and>
    invc (update_member cmp e f t) = invc t \<and> invh (update_member cmp e f t) = invh t"
  by (induction t) auto

lemma entry_set_replace_ok:
  assumes "es_ok t" and "fskit_entry_set_replace t n a = (t', b)"
  shows "es_ok t' \<and> b = (es_map t n \<noteq> None) \<and> es_map t' = (if b then (es_map t)(n \<mapsto> a) else es_map t)"
proof -
  let ?f = "\<lambda>dp::es_node. dp\<lparr>es_dirent := a\<rparr>"
  let ?u = "update_member entry_set_cmp (es_lookup_node n) ?f t"
  note B = es_ok_bst [OF assms(1)]
  have bu: "bst es_name ?u" by (rule es.bst_update_member [OF B]) simp
  then have ok: "es_ok ?u"
    using assms(1) update_member_shape [of entry_set_cmp "es_lookup_node n" ?f t] es.bst_ord_ok
    by (simp add: es_ok_def sglib_set_ok_def consistency_check_iff)
  have "es_map ?u k = ((es_map t)(n \<mapsto> a)) k" if n: "es_map t n \<noteq> None" for k
  proof -
    have "tree_map es_name ?u k = map_option (\<lambda>x. if es_name x = n then ?f x else x) (tree_map es_name t k)"
      using es.tree_map_update_member [OF B, of "es_lookup_node n" ?f k] by simp
    moreover have "tree_map es_name t k = Some m \<Longrightarrow> es_name m = k" for m
      using tree_map_Some [OF B, of k m] by simp
    ultimately show ?thesis
      using n by (cases "tree_map es_name t k"; cases "k = n") (simp_all add: es_map_def)
  qed
  then show ?thesis
    using assms ok es.find_member_tree_map [OF B, of "es_lookup_node n"]
    by (auto simp: fskit_entry_set_replace_def es_map_def split: option.splits)
qed

subsection \<open>Names and children as multisets\<close>

text \<open>
  Without any assumption on the order of the set: what the operations do to the multiset of its
  entries. The invariants on link counts rest on these.
\<close>

lemma entry_set_cmp_cong: "entry_set_cmp x y = 0 \<Longrightarrow> entry_set_cmp x z = entry_set_cmp y z"
  by (simp add: entry_set_cmp_def)

lemma find_itr_in:
  "fskit_entry_set_find_itr t n = Some dp \<Longrightarrow> dp \<in> set (inorder t) \<and> es_name dp = n"
  unfolding fskit_entry_set_find_itr_def
  by (drule find_member_in) (auto simp: entry_set_cmp_def)

lemma find_name_in: "fskit_entry_set_find_name t n = Some a \<Longrightarrow> (n, a) \<in> set (es_entries t)"
  by (auto simp: fskit_entry_set_find_name_def es_entries_def image_iff
      split: option.splits dest!: find_itr_in intro: bexI)

lemma mset_entry_set_insert:
  "fskit_entry_set_insert S t n a = (t', rc) \<Longrightarrow>
    mset (es_entries t') = (if rc = 0 then add_mset (n, a) (mset (es_entries t)) else mset (es_entries t))"
  by (auto simp: fskit_entry_set_insert_def es_entries_def mset_map mset_sglib_add ENOMEM_def
      split: if_splits)

lemma mset_entry_set_new:
  assumes "fskit_entry_set_new S a p = Some t"
  shows "mset (es_entries t) = {#(''.'', a), (''..'', p)#}"
proof -
  obtain rc where "fskit_entry_set_insert S (Node BLACK Leaf \<lparr>es_name = ''.'', es_dirent = a\<rparr> Leaf) ''..'' p = (t, rc)"
    and "rc = 0" using assms by (auto simp: fskit_entry_set_new_def split: if_splits prod.splits)
  from mset_entry_set_insert [OF this(1)] this(2) show ?thesis by (simp add: es_entries_def)
qed

lemma mset_entry_set_remove:
  assumes "fskit_entry_set_remove t n = (t', b)"
  shows "if b then \<exists>a. mset (es_entries t) = add_mset (n, a) (mset (es_entries t')) \<and>
      fskit_entry_set_find_name t n = Some a \<and> n \<noteq> ''.'' \<and> n \<noteq> ''..'' else t' = t"
proof (cases b)
  case True
  then obtain m where d: "sglib_delete_if_member entry_set_cmp (es_lookup_node n) t = (t', Some m)"
    and n: "n \<noteq> ''.''" "n \<noteq> ''..''"
    using assms by (auto simp: fskit_entry_set_remove_def split: if_splits prod.splits option.splits)
  from mset_delete_if_member [OF d entry_set_cmp_cong]
  have m: "mset (inorder t) = add_mset m (mset (inorder t'))" "es_name m = n"
    by (auto simp: entry_set_cmp_def)
  have "fskit_entry_set_find_name t n = Some (es_dirent m)"
    using d by (auto simp: fskit_entry_set_find_name_def fskit_entry_set_find_itr_def
        sglib_delete_if_member_def split: option.splits)
  with m n True show ?thesis by (simp add: es_entries_def)
next
  case False
  then show ?thesis
    using assms by (auto simp: fskit_entry_set_remove_def sglib_delete_if_member_def
        split: if_splits prod.splits option.splits)
qed

lemma mset_entry_set_replace:
  assumes "fskit_entry_set_replace t n p = (t', b)"
  shows "if b then \<exists>a M. mset (es_entries t) = add_mset (n, a) M \<and> mset (es_entries t') = add_mset (n, p) M
    else t' = t"
proof (cases "find_member entry_set_cmp (es_lookup_node n) t")
  case None
  then show ?thesis using assms by (auto simp: fskit_entry_set_replace_def)
next
  case (Some m)
  then have n: "es_name m = n" using find_member_in [OF Some] by (simp add: entry_set_cmp_def)
  from mset_update_member [OF Some, of "\<lambda>dp. dp\<lparr>es_dirent := p\<rparr>"] Some n assms show ?thesis
    by (auto simp: fskit_entry_set_replace_def es_entries_def)
qed

subsection \<open>Extended attributes as a map\<close>

lemma xattr_set_remove_ok:
  assumes "xs_ok t" and "fskit_xattr_set_remove t n = (t', b)"
  shows "xs_ok t' \<and> xs_map t' = (xs_map t)(n := None) \<and> b = (xs_map t n \<noteq> None)"
proof -
  note B = xs_ok_bst [OF assms(1)]
  note F = xs.find_member_tree_map [OF B, of "xs_lookup_node n", simplified]
  show ?thesis
  proof (cases "tree_map xs_name t n")
    case None
    then show ?thesis
      using assms F by (auto simp: fskit_xattr_set_remove_def sglib_delete_if_member_def xs_map_def fun_eq_iff)
  next
    case (Some m)
    then have k: "xs_name m = n" using tree_map_Some [OF B] by blast
    have t': "t' = sglib_delete xattr_set_cmp m t" "b"
      using assms(2) Some F by (auto simp: fskit_xattr_set_remove_def sglib_delete_if_member_def)
    show ?thesis
      using xs.sglib_set_ok_delete [of t m] assms(1) xs.tree_map_delete [OF B, of m] Some k t'
      by (auto simp: xs_ok_def xs_map_def fun_eq_iff)
  qed
qed

lemma xattr_set_insert_ok:
  assumes "xs_ok t" and "fskit_xattr_set_insert S t n v flags = (t', rc)"
  shows "xs_ok t' \<and> (rc = 0 \<longrightarrow> xs_map t' = (xs_map t)(n \<mapsto> v)) \<and>
    (rc = - EEXIST \<or> rc = - ENODATA \<longrightarrow> t' = t)"
proof (cases "rc = - EEXIST \<or> rc = - ENODATA")
  case True
  then show ?thesis
    using assms by (auto simp: fskit_xattr_set_insert_def Let_def errno_defs split: if_splits)
next
  case False
  obtain u where u: "u = (if t \<noteq> Leaf then fst (fskit_xattr_set_remove t n) else t)" by simp
  have t': "(t', rc) = (if \<not> mem_ok S ''fskit_xattr_set_insert'' then (u, - ENOMEM)
      else (sglib_add xattr_set_cmp (xs_ptr_less S) \<lparr>xs_name = n, xs_value = v\<rparr> u, 0))"
    using assms(2) False by (auto simp: fskit_xattr_set_insert_def Let_def u split: if_splits)
  have uo: "xs_ok u \<and> xs_map u = (xs_map t)(n := None)"
    using xattr_set_remove_ok [OF assms(1), of n "fst (fskit_xattr_set_remove t n)"
        "snd (fskit_xattr_set_remove t n)"] by (simp add: u fun_eq_iff)
  let ?e = "\<lparr>xs_name = n, xs_value = v\<rparr>"
  have k: "xs_name ?e \<notin> xs_name ` set (inorder u)" using uo xs_map_None [of u n] by simp
  have "xs_ok (sglib_add xattr_set_cmp (xs_ptr_less S) ?e u)"
    using xs.sglib_set_ok_add [of u ?e] uo k by (simp add: xs_ok_def)
  moreover have "xs_map (sglib_add xattr_set_cmp (xs_ptr_less S) ?e u) = (xs_map t)(n \<mapsto> v)"
    using xs.tree_map_add [OF xs_ok_bst k, of "xs_ptr_less S"] uo
    by (auto simp: xs_map_def fun_eq_iff)
  ultimately show ?thesis using t' uo False by (auto simp: errno_defs split: if_splits)
qed

subsection \<open>Iteration\<close>

text \<open>
  A set that its operations have kept consistent is walked through in the order of the names, in
  arrays of 128 slots, and the traversal that counts it does not trip its assertion.
\<close>

lemma entry_set_walk:
  assumes "es_ok t" and "fskit_entry_set_count t + 1 < 2 ^ 64"
  shows "Option.bind (fskit_entry_set_begin t) it_visit = Some (inorder t)"
    and "map_on_elements t [] = Some (inorder t)"
    and "sorted_wrt (<) (map es_name (inorder t))"
proof -
  have d: "depth t < SGLIB_MAX_TREE_DEEP - 1"
    using assms consistent_depth [of entry_set_cmp t]
    by (simp add: es_ok_def sglib_set_ok_def fskit_entry_set_count_def sglib_len_def)
  show "Option.bind (fskit_entry_set_begin t) it_visit = Some (inorder t)"
    using visit_inorder_eq [of t] d by (simp add: fskit_entry_set_begin_def visit_inorder_def)
  show "map_on_elements t [] = Some (inorder t)" using map_on_elements_inorder [of t] d by simp
  show "sorted_wrt (<) (map es_name (inorder t))"
    using assms(1) by (simp add: es_ok_def sglib_set_ok_def bst_def sorted_wrt_map)
qed

lemma xattr_set_walk:
  assumes "xs_ok t" and "fskit_xattr_set_count t + 1 < 2 ^ 64"
  shows "Option.bind (fskit_xattr_set_begin t) it_visit = Some (inorder t)"
    and "map_on_elements t [] = Some (inorder t)"
proof -
  have d: "depth t < SGLIB_MAX_TREE_DEEP - 1"
    using assms consistent_depth [of xattr_set_cmp t]
    by (simp add: xs_ok_def sglib_set_ok_def fskit_xattr_set_count_def sglib_len_def)
  show "Option.bind (fskit_xattr_set_begin t) it_visit = Some (inorder t)"
    using visit_inorder_eq [of t] d by (simp add: fskit_xattr_set_begin_def visit_inorder_def)
  show "map_on_elements t [] = Some (inorder t)" using map_on_elements_inorder [of t] d by simp
qed

lemma es_map_Some:
  assumes "es_ok t"
  shows "es_map t n = Some a \<longleftrightarrow> (\<exists>dp\<in>set (inorder t). es_name dp = n \<and> es_dirent dp = a)"
proof -
  have s: "sorted_wrt (<) (map es_name (inorder t))"
    using es_ok_bst [OF assms] by (simp add: bst_def sorted_wrt_map)
  then have "distinct (map fst (map (\<lambda>x. (es_name x, x)) (inorder t)))"
    by (simp add: comp_def strict_sorted_iff)
  then have "map_of (map (\<lambda>x. (es_name x, x)) (inorder t)) n = Some dp \<longleftrightarrow> dp \<in> set (inorder t) \<and> es_name dp = n" for dp
    by (auto simp: map_of_eq_Some_iff)
  then show ?thesis by (auto simp: es_map_def tree_map_def)
qed

end
