(* ===== verification/Core.thy ===== *)
theory Core
  imports EntrySet
begin

text \<open>
  The data of the library (\<open>include/fskit_private/private.h\<close>, \<open>include/fskit/entry.h\<close>): inodes,
  handles, routes, the filesystem core, and the arguments that operations pass to application
  callbacks; with the inode operations of \<open>libfskit/entry.c\<close> and \<open>libfskit/utime.c\<close> that touch a
  single inode.

  The core is one record \<open>fs\<close>. Inodes live in \<open>heap\<close>, a partial map from addresses; the root inode
  is at address 0 (in C it is a field of the core), a freed inode is absent, and a read of an absent
  address is the outcome \<open>None\<close>. Addresses are handed out by \<open>brk\<close> and never reused. File and
  directory handles live in \<open>fhs\<close> and \<open>dhs\<close>. \<open>trace\<close> records the callbacks that were called, in
  order; no operation reads it.

  \<open>env\<close> is what an operation takes from outside of the library: the callbacks that the application
  installed, POSIX \<open>regcomp\<close> and \<open>regexec\<close>, the application's inode allocator, \<open>errno\<close>, and the order of the
  addresses of rename's inode set nodes. Callbacks read the
  core but do not change it. Locks are not part of the state: each operation is one step.
\<close>

datatype ftype = T_DEAD | T_FILE | T_DIR | T_FIFO | T_SOCK | T_CHR | T_BLK | T_LNK

record entry =
  file_id :: u64
  etype :: ftype
  owner :: u64
  egroup :: u64
  emode :: u32
  ctime :: "int \<times> int"
  mtime :: "int \<times> int"
  atime :: "int \<times> int"
  open_count :: int
  link_count :: int
  fsize :: int
  deletion_in_progress :: bool
  deletion_through_rename :: bool
  num_children :: int
  children :: entry_set
  app_data :: nat
  dev :: u64
  xattrs :: xattr_set
  symlink_target :: "string option"

definition zero_entry :: entry where
  "zero_entry = \<lparr>file_id = 0, etype = T_DEAD, owner = 0, egroup = 0, emode = 0, ctime = (0, 0),
     mtime = (0, 0), atime = (0, 0), open_count = 0, link_count = 0, fsize = 0,
     deletion_in_progress = False, deletion_through_rename = False, num_children = 0,
     children = Leaf, app_data = 0, dev = 0, xattrs = Leaf, symlink_target = None\<rparr>"

record file_handle =
  fh_fent :: "addr option"
  fh_path :: string
  fh_flags :: nat
  fh_file_id :: u64
  fh_app_data :: nat

record telldir_entry =
  td_name :: string
  td_offset :: int

record dir_handle =
  dh_dent :: "addr option"
  dh_path :: string
  dh_file_id :: u64
  dh_curr_name :: string
  dh_telldir :: "telldir_entry list"
  dh_app_data :: nat
  dh_eof :: bool

record path_route =
  pr_regex_str :: "string option"
  pr_num_expected :: nat
  pr_discipline :: int
  pr_type :: int
  pr_method :: "nat option"

text \<open>The growable vector of \<open>sglib.h\<close>: a buffer of \<open>2 ^ exp\<close> slots once it has been allocated.\<close>

record vec =
  v_exp :: nat
  v_len :: nat
  v_buf :: "path_route option list"

record route_row =
  rr_type :: int
  rr_routes :: vec

type_synonym route_table = "route_row rbtree"

record fs =
  heap :: "addr \<Rightarrow> entry option"
  brk :: addr
  fhs :: "nat \<Rightarrow> file_handle option"
  dhs :: "nat \<Rightarrow> dir_handle option"
  hbrk :: nat
  routes :: route_table
  app_fs_data :: nat
  trace :: "(int \<times> string \<times> addr option) list"

record dir_entry =
  de_type :: ftype
  de_file_id :: u64
  de_name :: string

record stat_buf =
  st_ino :: u64
  st_mode :: u32
  st_nlink :: int
  st_uid :: u64
  st_gid :: u64
  st_rdev :: u64
  st_size :: int
  st_atim :: "int \<times> int"
  st_mtim :: "int \<times> int"
  st_ctim :: "int \<times> int"

record inode_metadata =
  imd_fields :: u64
  imd_mode :: u32
  imd_owner :: u64
  imd_group :: u64

datatype io_continuation = fskit_write_cont_fn | fskit_trunc_cont_fn

record dispatch_args =
  da_flags :: nat
  da_mode :: u32
  da_dev :: u64
  da_inode_data :: nat
  da_handle_data :: nat
  da_iobuf :: string
  da_iolen :: nat
  da_iooff :: int
  da_io_cont :: "io_continuation option"
  da_dents :: "dir_entry option list"
  da_num_dents :: nat
  da_name :: "string option"
  da_sb :: stat_buf
  da_fent_absent :: bool
  da_parent :: "addr option"
  da_new_parent :: "addr option"
  da_dest :: "addr option"
  da_new_path :: "string option"
  da_garbage_collect :: bool
  da_renamed :: bool
  da_xattr_name :: "string option"
  da_xattr_value :: "string option"
  da_xattr_buf :: string
  da_xattr_buf_len :: nat
  da_xattr_flags :: nat
  da_cls :: nat
  da_imd :: inode_metadata

record route_metadata =
  rm_path :: string
  rm_argc :: nat
  rm_argv :: "string list"
  rm_parent :: "addr option"
  rm_name :: "string option"
  rm_new_parent :: "addr option"
  rm_new_path :: "string option"
  rm_garbage_collect :: bool
  rm_renamed :: bool
  rm_cls :: nat
  rm_xattr_name :: "string option"
  rm_xattr_value :: "string option"
  rm_xattr_buf :: string
  rm_xattr_buf_len :: nat

text \<open>
  A callback is a number; \<open>ev_call\<close> gives its return code and the arguments with whatever it
  wrote through the pointers in them.
\<close>

record env = sys +
  ev_call :: "nat \<Rightarrow> fs \<Rightarrow> route_metadata \<Rightarrow> addr option \<Rightarrow> dispatch_args \<Rightarrow> int \<times> dispatch_args"
  ev_regcomp :: "string \<Rightarrow> bool"
  ev_regexec :: "string \<Rightarrow> string \<Rightarrow> nat \<Rightarrow> (int \<times> int) list option"
  ev_inode_alloc :: "fs \<Rightarrow> addr \<Rightarrow> u64"
  ev_errno :: int
  ev_inode_ptr_less :: "u64 \<Rightarrow> u64 \<Rightarrow> bool"

subsection \<open>Access to inodes\<close>

definition upd :: "addr \<Rightarrow> (entry \<Rightarrow> entry) \<Rightarrow> fs \<Rightarrow> fs option" where
  "upd a f s = (case heap s a of None \<Rightarrow> None | Some e \<Rightarrow> Some (s\<lparr>heap := (heap s)(a \<mapsto> f e)\<rparr>))"

text \<open>\<open>CALLOC_LIST( struct fskit_entry, 1 )\<close>, and \<open>fskit_safe_free\<close> of an inode.\<close>

definition alloc_entry :: "fs \<Rightarrow> addr \<times> fs" where
  "alloc_entry s = (brk s, s\<lparr>heap := (heap s)(brk s \<mapsto> zero_entry), brk := brk s + 1\<rparr>)"

definition free_entry :: "addr \<Rightarrow> fs \<Rightarrow> fs option" where
  "free_entry a s = (if heap s a = None \<or> a = 0 then None else Some (s\<lparr>heap := (heap s)(a := None)\<rparr>))"

text \<open>
  Taking an inode's lock fails with \<open>-ENOENT\<close> when the inode is dead; the memory of the lock is
  read in any case. Unlocking reads it too.
\<close>

definition fskit_entry_lock :: "addr \<Rightarrow> fs \<Rightarrow> int option" where
  "fskit_entry_lock a s =
     (case heap s a of
        None \<Rightarrow> None
      | Some e \<Rightarrow> Some (if etype e = T_DEAD then - ENOENT else 0))"

definition fskit_entry_unlock :: "addr option \<Rightarrow> fs \<Rightarrow> unit option" where
  "fskit_entry_unlock p s =
     (case p of
        None \<Rightarrow> None
      | Some a \<Rightarrow> (case heap s a of None \<Rightarrow> None | Some e \<Rightarrow> Some ()))"

subsection \<open>Permissions\<close>

definition FSKIT_ROOT_USER_ID :: u64 where "FSKIT_ROOT_USER_ID = 0"

definition has_mode :: "u32 \<Rightarrow> u32 \<Rightarrow> bool" where
  "has_mode m b = (and m b \<noteq> 0)"

definition FSKIT_ENTRY_IS_READABLE :: "entry \<Rightarrow> u64 \<Rightarrow> u64 \<Rightarrow> bool" where
  "FSKIT_ENTRY_IS_READABLE e user grp =
     (user = FSKIT_ROOT_USER_ID \<or> has_mode (emode e) 4 \<or>
      (egroup e = grp \<and> has_mode (emode e) 32) \<or> (owner e = user \<and> has_mode (emode e) 256))"

definition FSKIT_ENTRY_IS_DIR_SEARCHABLE :: "entry \<Rightarrow> u64 \<Rightarrow> u64 \<Rightarrow> bool" where
  "FSKIT_ENTRY_IS_DIR_SEARCHABLE e user grp =
     (user = FSKIT_ROOT_USER_ID \<or> has_mode (emode e) 1 \<or>
      (egroup e = grp \<and> has_mode (emode e) 8) \<or> (owner e = user \<and> has_mode (emode e) 64))"

definition FSKIT_ENTRY_IS_WRITEABLE :: "entry \<Rightarrow> u64 \<Rightarrow> u64 \<Rightarrow> bool" where
  "FSKIT_ENTRY_IS_WRITEABLE e user grp =
     ((user = FSKIT_ROOT_USER_ID \<or> has_mode (emode e) 2) \<or>
      (egroup e = grp \<and> has_mode (emode e) 16) \<or> (owner e = user \<and> has_mode (emode e) 128))"

definition FSKIT_FILESYSTEM_NAMEMAX :: nat where "FSKIT_FILESYSTEM_NAMEMAX = 255"
definition PATH_MAX :: nat where "PATH_MAX = 4096"

subsection \<open>Times\<close>

text \<open>
  The setters of \<open>utime.c\<close>: a given time, or the clock's when the argument is NULL; when the clock
  fails the inode is left alone and \<open>-errno\<close> is returned.
\<close>

definition now_or_clock :: "env \<Rightarrow> string \<Rightarrow> (int \<times> int) option \<Rightarrow> (int \<times> int) option" where
  "now_or_clock V site now =
     (case now of
        Some t \<Rightarrow> Some t
      | None \<Rightarrow> (if fst (clock V site) \<noteq> 0 then None else Some (snd (clock V site))))"

definition fskit_entry_set_ctime :: "env \<Rightarrow> (int \<times> int) option \<Rightarrow> entry \<Rightarrow> entry \<times> int" where
  "fskit_entry_set_ctime V now e =
     (case now_or_clock V ''fskit_entry_set_ctime'' now of
        None \<Rightarrow> (e, - ev_errno V)
      | Some t \<Rightarrow> (e\<lparr>ctime := t\<rparr>, 0))"

definition fskit_entry_set_mtime :: "env \<Rightarrow> (int \<times> int) option \<Rightarrow> entry \<Rightarrow> entry \<times> int" where
  "fskit_entry_set_mtime V now e =
     (case now_or_clock V ''fskit_entry_set_mtime'' now of
        None \<Rightarrow> (e, - ev_errno V)
      | Some t \<Rightarrow> (e\<lparr>mtime := t\<rparr>, 0))"

definition fskit_entry_set_atime :: "env \<Rightarrow> (int \<times> int) option \<Rightarrow> entry \<Rightarrow> entry \<times> int" where
  "fskit_entry_set_atime V now e =
     (case now_or_clock V ''fskit_entry_set_atime'' now of
        None \<Rightarrow> (e, - ev_errno V)
      | Some t \<Rightarrow> (e\<lparr>atime := t\<rparr>, 0))"

subsection \<open>Initialisation of inodes\<close>

text \<open>
  Each initialiser gives the initialised inode, or the error code and the inode as it was.
\<close>

definition fskit_entry_init_lowlevel :: "ftype \<Rightarrow> u64 \<Rightarrow> u64 \<Rightarrow> u64 \<Rightarrow> u32 \<Rightarrow> entry" where
  "fskit_entry_init_lowlevel t fid own grp mode =
     zero_entry\<lparr>etype := t, file_id := fid, owner := own, egroup := grp, emode := mode,
       num_children := 0\<rparr>"

definition fskit_entry_init_common ::
    "env \<Rightarrow> ftype \<Rightarrow> u64 \<Rightarrow> u64 \<Rightarrow> u64 \<Rightarrow> u32 \<Rightarrow> entry \<Rightarrow> entry \<times> int" where
  "fskit_entry_init_common V t fid own grp mode e =
     (let (rc, now) = clock V ''fskit_entry_init_common'' in
      if rc \<noteq> 0 then (e, rc)
      else
        let e = fskit_entry_init_lowlevel t fid own grp mode;
            e = fst (fskit_entry_set_atime V (Some now) e);
            e = fst (fskit_entry_set_ctime V (Some now) e);
            e = fst (fskit_entry_set_mtime V (Some now) e)
        in (e\<lparr>xattrs := Leaf\<rparr>, 0))"

definition fskit_entry_init_file :: "env \<Rightarrow> u64 \<Rightarrow> u64 \<Rightarrow> u64 \<Rightarrow> u32 \<Rightarrow> entry \<Rightarrow> entry \<times> int" where
  "fskit_entry_init_file V fid own grp mode e =
     (let (e, rc) = fskit_entry_init_common V T_FILE fid own grp mode e in
      if rc \<noteq> 0 then (e, rc) else (e, 0))"

definition fskit_entry_init_dir ::
    "env \<Rightarrow> addr \<Rightarrow> addr \<Rightarrow> u64 \<Rightarrow> u64 \<Rightarrow> u64 \<Rightarrow> u32 \<Rightarrow> entry \<Rightarrow> entry \<times> int" where
  "fskit_entry_init_dir V fent parent fid own grp mode e =
     (case fskit_entry_set_new V fent parent of
        None \<Rightarrow> (e, - ENOMEM)
      | Some chs \<Rightarrow>
          let (e, rc) = fskit_entry_init_common V T_DIR fid own grp mode e in
          if rc \<noteq> 0 then (e, rc) else (e\<lparr>children := chs\<rparr>, 0))"

definition fskit_entry_init_fifo :: "env \<Rightarrow> u64 \<Rightarrow> u64 \<Rightarrow> u64 \<Rightarrow> u32 \<Rightarrow> entry \<Rightarrow> entry \<times> int" where
  "fskit_entry_init_fifo V fid own grp mode e =
     (let (e, rc) = fskit_entry_init_common V T_FIFO fid own grp mode e in
      if rc \<noteq> 0 then (e, rc) else (e, 0))"

definition fskit_entry_init_sock :: "env \<Rightarrow> u64 \<Rightarrow> u64 \<Rightarrow> u64 \<Rightarrow> u32 \<Rightarrow> entry \<Rightarrow> entry \<times> int" where
  "fskit_entry_init_sock V fid own grp mode e =
     (let (e, rc) = fskit_entry_init_common V T_SOCK fid own grp mode e in
      if rc \<noteq> 0 then (e, rc) else (e, 0))"

definition fskit_entry_init_chr :: "env \<Rightarrow> u64 \<Rightarrow> u64 \<Rightarrow> u64 \<Rightarrow> u32 \<Rightarrow> u64 \<Rightarrow> entry \<Rightarrow> entry \<times> int" where
  "fskit_entry_init_chr V fid own grp mode d e =
     (let (e, rc) = fskit_entry_init_common V T_CHR fid own grp mode e in
      if rc \<noteq> 0 then (e, rc) else (e\<lparr>dev := d\<rparr>, 0))"

definition fskit_entry_init_blk :: "env \<Rightarrow> u64 \<Rightarrow> u64 \<Rightarrow> u64 \<Rightarrow> u32 \<Rightarrow> u64 \<Rightarrow> entry \<Rightarrow> entry \<times> int" where
  "fskit_entry_init_blk V fid own grp mode d e =
     (let (e, rc) = fskit_entry_init_common V T_BLK fid own grp mode e in
      if rc \<noteq> 0 then (e, rc) else (e\<lparr>dev := d\<rparr>, 0))"

definition fskit_entry_init_symlink :: "env \<Rightarrow> u64 \<Rightarrow> string option \<Rightarrow> entry \<Rightarrow> entry \<times> int" where
  "fskit_entry_init_symlink V fid linkpath e =
     (case linkpath of
        None \<Rightarrow> (e, - EINVAL)
      | Some target \<Rightarrow>
          if \<not> mem_ok V ''fskit_entry_init_symlink'' then (e, - ENOMEM)
          else
            let (e, rc) = fskit_entry_init_common V T_LNK fid 0 0 511 e in
            if rc \<noteq> 0 then (e, rc)
            else (e\<lparr>symlink_target := Some target, fsize := int (length target)\<rparr>, 0))"

subsection \<open>Setters and getters\<close>

definition fskit_entry_set_user_data :: "nat \<Rightarrow> entry \<Rightarrow> entry" where
  "fskit_entry_set_user_data d e = e\<lparr>app_data := d\<rparr>"

definition fskit_entry_set_file_id :: "u64 \<Rightarrow> entry \<Rightarrow> entry" where
  "fskit_entry_set_file_id fid e = e\<lparr>file_id := fid\<rparr>"

definition fskit_entry_swap_children :: "entry_set \<Rightarrow> entry \<Rightarrow> entry \<times> entry_set" where
  "fskit_entry_swap_children new e = (e\<lparr>children := new\<rparr>, children e)"

definition fskit_entry_swap_xattrs :: "xattr_set \<Rightarrow> entry \<Rightarrow> entry \<times> xattr_set" where
  "fskit_entry_swap_xattrs new e = (e\<lparr>xattrs := new\<rparr>, xattrs e)"

definition fskit_entry_swap_symlink_target :: "string option \<Rightarrow> entry \<Rightarrow> entry \<times> string option" where
  "fskit_entry_swap_symlink_target new e =
     (if etype e \<noteq> T_LNK then (e, None)
      else (e\<lparr>symlink_target := new,
              fsize := (case new of Some t \<Rightarrow> int (length t) | None \<Rightarrow> 0)\<rparr>, symlink_target e))"

definition fskit_entry_get_num_children :: "entry \<Rightarrow> int" where
  "fskit_entry_get_num_children e = (if children e \<noteq> Leaf then num_children e else -1)"

definition FSKIT_INODE_METADATA_MODE :: u64 where "FSKIT_INODE_METADATA_MODE = 1"
definition FSKIT_INODE_METADATA_OWNER :: u64 where "FSKIT_INODE_METADATA_OWNER = 2"
definition FSKIT_INODE_METADATA_GROUP :: u64 where "FSKIT_INODE_METADATA_GROUP = 4"

definition fskit_inode_metadata_new :: inode_metadata where
  "fskit_inode_metadata_new = \<lparr>imd_fields = 0, imd_mode = 0, imd_owner = 0, imd_group = 0\<rparr>"

definition fskit_inode_metadata_set_mode :: "u32 \<Rightarrow> inode_metadata \<Rightarrow> inode_metadata" where
  "fskit_inode_metadata_set_mode m imd =
     imd\<lparr>imd_mode := m, imd_fields := or (imd_fields imd) FSKIT_INODE_METADATA_MODE\<rparr>"

definition fskit_inode_metadata_set_owner :: "u64 \<Rightarrow> inode_metadata \<Rightarrow> inode_metadata" where
  "fskit_inode_metadata_set_owner o' imd =
     imd\<lparr>imd_owner := o', imd_fields := or (imd_fields imd) FSKIT_INODE_METADATA_OWNER\<rparr>"

definition fskit_inode_metadata_set_group :: "u64 \<Rightarrow> inode_metadata \<Rightarrow> inode_metadata" where
  "fskit_inode_metadata_set_group g imd =
     imd\<lparr>imd_group := g, imd_fields := or (imd_fields imd) FSKIT_INODE_METADATA_GROUP\<rparr>"

subsection \<open>Attaching and detaching\<close>

definition fskit_entry_attach_lowlevel ::
    "env \<Rightarrow> addr \<Rightarrow> addr \<Rightarrow> string \<Rightarrow> fs \<Rightarrow> (int \<times> fs) option" where
  "fskit_entry_attach_lowlevel V parent fent name s =
     do {
       s \<leftarrow> (if parent \<noteq> fent then upd fent (\<lambda>e. e\<lparr>link_count := link_count e + 1\<rparr>) s else Some s);
       s \<leftarrow> upd parent (\<lambda>e. e\<lparr>num_children := num_children e + 1,
                               mtime := snd (clock V ''fskit_entry_attach_lowlevel'')\<rparr>) s;
       e \<leftarrow> heap s fent;
       s \<leftarrow> (if etype e = T_DIR
             then upd fent (\<lambda>e. e\<lparr>children := fst (fskit_entry_set_replace (children e) ''..'' parent)\<rparr>) s
             else Some s);
       p \<leftarrow> heap s parent;
       s' \<leftarrow> upd parent (\<lambda>e. e\<lparr>children := fst (fskit_entry_set_insert V (children p) name fent)\<rparr>) s;
       Some (snd (fskit_entry_set_insert V (children p) name fent), s')
     }"

definition fskit_entry_detach_lowlevel ::
    "env \<Rightarrow> addr \<Rightarrow> string \<Rightarrow> fs \<Rightarrow> (int \<times> fs) option" where
  "fskit_entry_detach_lowlevel V parent child_name s =
     do {
       p \<leftarrow> heap s parent;
       case fskit_entry_set_find_name (children p) child_name of
         None \<Rightarrow> Some (- ENOENT, s)
       | Some child \<Rightarrow>
           if parent = child then Some (- ENOTEMPTY, s)
           else do {
             c \<leftarrow> heap s child;
             if etype c = T_DIR \<and> fskit_entry_get_num_children c > 2 then Some (- ENOTEMPTY, s)
             else if \<not> snd (fskit_entry_set_remove (children p) child_name) then Some (- ENOENT, s)
             else do {
               s \<leftarrow> upd parent (\<lambda>e. e\<lparr>children := fst (fskit_entry_set_remove (children p) child_name)\<rparr>) s;
               s \<leftarrow> upd parent (\<lambda>e. e\<lparr>mtime := snd (clock V ''fskit_entry_detach_lowlevel''),
                                       num_children := num_children e - 1\<rparr>) s;
               s \<leftarrow> upd child (\<lambda>e. e\<lparr>link_count :=
                       (if link_count e - 1 < 0 then 0 else link_count e - 1)\<rparr>) s;
               Some (0, s)
             }
           }
     }"

text \<open>
  Tagging an inode for garbage collection; the directory's old children are handed out.
\<close>

definition fskit_entry_tag_garbage ::
    "env \<Rightarrow> addr \<Rightarrow> fs \<Rightarrow> (int \<times> entry_set \<times> fs) option" where
  "fskit_entry_tag_garbage V ent s =
     do {
       e \<leftarrow> heap s ent;
       if etype e = T_DIR then
         (case fskit_entry_set_find_name (children e) ''..'' of
            None \<Rightarrow> Some (- EIO, Leaf, s)
          | Some parent \<Rightarrow>
              (case fskit_entry_set_new V ent parent of
                 None \<Rightarrow> Some (- ENOMEM, Leaf, s)
               | Some empty_children \<Rightarrow>
                   do {
                     s \<leftarrow> upd ent (\<lambda>e. e\<lparr>children := empty_children, num_children := 0,
                                         deletion_in_progress := True\<rparr>) s;
                     Some (0, children e, s)
                   }))
       else do {
         s \<leftarrow> upd ent (\<lambda>e. e\<lparr>deletion_in_progress := True\<rparr>) s;
         Some (0, Leaf, s)
       }
     }"

subsection \<open>The core\<close>

definition fskit_route_table_new :: "env \<Rightarrow> route_table option" where
  "fskit_route_table_new V =
     (if \<not> mem_ok V ''fskit_route_table_new'' then None
      else Some (Node BLACK Leaf \<lparr>rr_type = -1, rr_routes = \<lparr>v_exp = 0, v_len = 0, v_buf = []\<rparr>\<rparr> Leaf))"

definition empty_core :: fs where
  "empty_core = \<lparr>heap = Map.empty(0 \<mapsto> zero_entry), brk = 1, fhs = Map.empty, dhs = Map.empty, hbrk = 0,
     routes = Leaf, app_fs_data = 0, trace = []\<rparr>"

definition fskit_core_init :: "env \<Rightarrow> nat \<Rightarrow> int \<times> fs" where
  "fskit_core_init V fs_data =
     (case fskit_route_table_new V of
        None \<Rightarrow> (- ENOMEM, empty_core)
      | Some rt \<Rightarrow>
          (case fskit_entry_init_dir V 0 0 0 0 0 493 zero_entry of
             (root, rc) \<Rightarrow>
               if rc \<noteq> 0 then (rc, empty_core\<lparr>heap := Map.empty(0 \<mapsto> root)\<rparr>)
               else (0, empty_core\<lparr>heap := Map.empty(0 \<mapsto> root\<lparr>link_count := 1\<rparr>),
                          routes := rt, app_fs_data := fs_data\<rparr>)))"

definition fskit_core_resolve_root :: "fs \<Rightarrow> addr option option" where
  "fskit_core_resolve_root s =
     (case heap s 0 of
        None \<Rightarrow> None
      | Some root \<Rightarrow>
          Some (if etype root = T_DIR \<and> \<not> deletion_in_progress root then Some 0 else None))"

end
