(* ===== verification/Refs.thy ===== *)
theory Refs
  imports Core
begin

text \<open>
  The invariant on reference counts. An inode is referenced by directory entries (other than
  \<open>"."\<close>, \<open>".."\<close> and entries of a directory for itself), by open handles, and while an
  operation runs by pointers it holds: \<open>L\<close> and \<open>R\<close> are the multisets of link and open references
  that such pointers stand for. \<open>rinv L R s\<close> says that an inode's \<open>link_count\<close> and \<open>open_count\<close> are at
  least the number of its references of either kind, and that nothing references freed memory; the
  root has one reference of its own.

  The first lemmas give the effect of a change of one inode on the invariant; then come the
  primitives of \<open>Core\<close>: attaching, detaching, tagging, allocation, and freeing.
\<close>

definition set_links :: "addr \<Rightarrow> entry_set \<Rightarrow> addr multiset" where
  "set_links a t = image_mset snd
     (filter_mset (\<lambda>(n, b). n \<noteq> ''.'' \<and> n \<noteq> ''..'' \<and> b \<noteq> a) (mset (es_entries t)))"

definition links_of :: "addr \<Rightarrow> entry \<Rightarrow> addr multiset" where
  "links_of a e = set_links a (children e)"

definition lnk :: "fs \<Rightarrow> addr \<Rightarrow> nat" where
  "lnk s b = (\<Sum>a\<in>dom (heap s). count (links_of a (the (heap s a))) b)"

definition fh_refs :: "fs \<Rightarrow> addr \<Rightarrow> nat" where
  "fh_refs s b = card {h. \<exists>x. fhs s h = Some x \<and> fh_fent x = Some b}"

definition dh_refs :: "fs \<Rightarrow> addr \<Rightarrow> nat" where
  "dh_refs s b = card {h. \<exists>x. dhs s h = Some x \<and> dh_dent x = Some b}"

definition ldem :: "addr multiset \<Rightarrow> fs \<Rightarrow> addr \<Rightarrow> nat" where
  "ldem L s a = lnk s a + count L a + (if a = 0 then 1 else 0)"

definition odem :: "addr multiset \<Rightarrow> fs \<Rightarrow> addr \<Rightarrow> nat" where
  "odem R s a = fh_refs s a + dh_refs s a + count R a"

definition refs_ok :: "addr multiset \<Rightarrow> addr multiset \<Rightarrow> fs \<Rightarrow> addr \<Rightarrow> bool" where
  "refs_ok L R s a =
     (case heap s a of
        None \<Rightarrow> ldem L s a = 0 \<and> odem R s a = 0
      | Some e \<Rightarrow> int (ldem L s a) \<le> link_count e \<and> int (odem R s a) \<le> open_count e)"

definition rinv :: "addr multiset \<Rightarrow> addr multiset \<Rightarrow> fs \<Rightarrow> bool" where
  "rinv L R s =
     (finite (dom (heap s)) \<and> (\<forall>a\<in>dom (heap s). a < brk s) \<and>
      (\<forall>h\<ge>hbrk s. fhs s h = None \<and> dhs s h = None) \<and> (\<forall>a. refs_ok L R s a))"

subsection \<open>Consequences\<close>

lemma inv_finite: "rinv L R s \<Longrightarrow> finite (dom (heap s))"
  by (simp add: rinv_def)

lemma inv_refs: "rinv L R s \<Longrightarrow> refs_ok L R s a"
  by (simp add: rinv_def)

lemma inv_brk: "rinv L R s \<Longrightarrow> heap s (brk s) = None"
  by (force simp: rinv_def)

lemma inv_link_count: "rinv L R s \<Longrightarrow> heap s a = Some e \<Longrightarrow> int (ldem L s a) \<le> link_count e"
  using inv_refs [of L R s a] by (simp add: refs_ok_def)

lemma inv_open_count: "rinv L R s \<Longrightarrow> heap s a = Some e \<Longrightarrow> int (odem R s a) \<le> open_count e"
  using inv_refs [of L R s a] by (simp add: refs_ok_def)

lemma inv_counts_nonneg: "rinv L R s \<Longrightarrow> heap s a = Some e \<Longrightarrow> 0 \<le> link_count e \<and> 0 \<le> open_count e"
  using inv_link_count [of L R s a e] inv_open_count [of L R s a e] by linarith

lemma inv_root: "rinv L R s \<Longrightarrow> \<exists>e. heap s 0 = Some e \<and> 1 \<le> link_count e"
  using inv_refs [of L R s 0] by (auto simp: refs_ok_def ldem_def split: option.splits)

lemma inv_L_heap: "rinv L R s \<Longrightarrow> a \<in># L \<Longrightarrow> \<exists>e. heap s a = Some e \<and> 1 \<le> link_count e"
  using inv_refs [of L R s a] by (auto simp: refs_ok_def ldem_def simp flip: count_greater_zero_iff split: option.splits)

lemma inv_R_heap: "rinv L R s \<Longrightarrow> a \<in># R \<Longrightarrow> \<exists>e. heap s a = Some e \<and> 1 \<le> open_count e"
  using inv_refs [of L R s a] by (auto simp: refs_ok_def odem_def simp flip: count_greater_zero_iff split: option.splits)

lemma link_in_lnk:
  assumes "rinv L R s" and "heap s a = Some e" and "b \<in># links_of a e"
  shows "0 < lnk s b"
proof -
  have "0 < count (links_of a (the (heap s a))) b" using assms(2,3) by simp
  then show ?thesis
    unfolding lnk_def using inv_finite [OF assms(1)] assms(2)
    by (intro sum_pos2 [of _ a]) auto
qed

lemma inv_link_heap:
  assumes "rinv L R s" and "heap s a = Some e" and "b \<in># links_of a e"
  shows "\<exists>c. heap s b = Some c \<and> 1 \<le> link_count c"
  using inv_refs [OF assms(1), of b] link_in_lnk [OF assms]
  by (auto simp: refs_ok_def ldem_def split: option.splits)

lemma find_name_link:
  assumes "fskit_entry_set_find_name (children e) n = Some b" and "n \<noteq> ''.''" and "n \<noteq> ''..''" and "b \<noteq> a"
  shows "b \<in># links_of a e"
  using find_name_in [OF assms(1)] assms(2-4) by (force simp: links_of_def set_links_def)

lemma find_name_heap:
  assumes "rinv L R s" and "heap s a = Some e" and "fskit_entry_set_find_name (children e) n = Some b"
    and "n \<noteq> ''..''" and "n = ''.'' \<Longrightarrow> b = a"
  shows "\<exists>c. heap s b = Some c"
  using assms inv_link_heap [OF assms(1,2), of b] find_name_link [OF assms(3), of a]
  by (cases "b = a") auto

lemma fh_refs_pos:
  assumes "rinv L R s" and "fhs s h = Some x" and "fh_fent x = Some a"
  shows "0 < fh_refs s a"
proof -
  have "{h. \<exists>x. fhs s h = Some x \<and> fh_fent x = Some a} \<subseteq> {..<hbrk s}"
    using assms(1) by (force simp: rinv_def not_less [symmetric])
  then show ?thesis unfolding fh_refs_def using assms(2,3)
    by (subst card_gt_0_iff) (auto intro: finite_subset)
qed

lemma dh_refs_pos:
  assumes "rinv L R s" and "dhs s h = Some x" and "dh_dent x = Some a"
  shows "0 < dh_refs s a"
proof -
  have "{h. \<exists>x. dhs s h = Some x \<and> dh_dent x = Some a} \<subseteq> {..<hbrk s}"
    using assms(1) by (force simp: rinv_def not_less [symmetric])
  then show ?thesis unfolding dh_refs_def using assms(2,3)
    by (subst card_gt_0_iff) (auto intro: finite_subset)
qed

lemma inv_fh_heap:
  "rinv L R s \<Longrightarrow> fhs s h = Some x \<Longrightarrow> fh_fent x = Some a \<Longrightarrow> \<exists>e. heap s a = Some e \<and> 1 \<le> open_count e"
  using inv_refs [of L R s a] fh_refs_pos [of L R s h x a]
  by (auto simp: refs_ok_def odem_def split: option.splits)

lemma inv_dh_heap:
  "rinv L R s \<Longrightarrow> dhs s h = Some x \<Longrightarrow> dh_dent x = Some a \<Longrightarrow> \<exists>e. heap s a = Some e \<and> 1 \<le> open_count e"
  using inv_refs [of L R s a] dh_refs_pos [of L R s h x a]
  by (auto simp: refs_ok_def odem_def split: option.splits)

subsection \<open>Changing one inode\<close>

lemma lnk_upd:
  assumes "finite (dom (heap s))" and "heap s a = Some e"
  shows "lnk (s\<lparr>heap := (heap s)(a \<mapsto> e')\<rparr>) b + count (links_of a e) b = lnk s b + count (links_of a e') b"
proof -
  let ?s = "s\<lparr>heap := (heap s)(a \<mapsto> e')\<rparr>"
  let ?R = "\<Sum>x\<in>dom (heap s) - {a}. count (links_of x (the (heap s x))) b"
  have d: "dom (heap ?s) = dom (heap s)" using assms(2) by auto
  have "lnk s b = count (links_of a e) b + ?R"
    unfolding lnk_def using assms by (subst sum.remove [of _ a]) auto
  moreover have "lnk ?s b = count (links_of a e') b + ?R"
    unfolding lnk_def d using assms by (subst sum.remove [of _ a]) (auto intro: sum.cong)
  ultimately show ?thesis by simp
qed

lemma lnk_new:
  assumes "finite (dom (heap s))" and "heap s a = None"
  shows "lnk (s\<lparr>heap := (heap s)(a \<mapsto> e')\<rparr>) b = lnk s b + count (links_of a e') b"
proof -
  have "dom ((heap s)(a \<mapsto> e')) = insert a (dom (heap s))" by simp
  moreover have "a \<notin> dom (heap s)" using assms(2) by auto
  moreover have "(\<Sum>x\<in>dom (heap s). count (links_of x (the (((heap s)(a \<mapsto> e')) x))) b) =
      (\<Sum>x\<in>dom (heap s). count (links_of x (the (heap s x))) b)"
    using calculation(2) by (intro sum.cong) auto
  ultimately show ?thesis using assms(1) by (simp add: lnk_def)
qed

lemma lnk_free:
  assumes "finite (dom (heap s))" and "heap s a = Some e"
  shows "lnk (s\<lparr>heap := (heap s)(a := None)\<rparr>) b + count (links_of a e) b = lnk s b"
proof -
  have "lnk s b = count (links_of a e) b + (\<Sum>x\<in>dom (heap s) - {a}. count (links_of x (the (heap s x))) b)"
    unfolding lnk_def using assms by (subst sum.remove [of _ a]) auto
  moreover have "lnk (s\<lparr>heap := (heap s)(a := None)\<rparr>) b =
      (\<Sum>x\<in>dom (heap s) - {a}. count (links_of x (the (heap s x))) b)"
    unfolding lnk_def by (auto intro: sum.cong)
  ultimately show ?thesis by simp
qed

lemma links_of_self [simp]: "count (links_of a e) a = 0"
  by (auto simp: links_of_def set_links_def count_eq_zero_iff)

lemma lnk_cong [simp]:
  "lnk (s\<lparr>brk := x1\<rparr>) = lnk s" "lnk (s\<lparr>fhs := x2\<rparr>) = lnk s" "lnk (s\<lparr>dhs := x3\<rparr>) = lnk s"
  "lnk (s\<lparr>hbrk := x4\<rparr>) = lnk s" "lnk (s\<lparr>routes := x5\<rparr>) = lnk s" "lnk (s\<lparr>trace := x6\<rparr>) = lnk s"
  by (auto simp: lnk_def fun_eq_iff)

lemma hrefs_cong [simp]:
  "fh_refs (s\<lparr>heap := x0\<rparr>) = fh_refs s" "fh_refs (s\<lparr>brk := x1\<rparr>) = fh_refs s" "fh_refs (s\<lparr>dhs := x3\<rparr>) = fh_refs s"
  "fh_refs (s\<lparr>hbrk := x4\<rparr>) = fh_refs s" "fh_refs (s\<lparr>routes := x5\<rparr>) = fh_refs s"
  "fh_refs (s\<lparr>trace := x6\<rparr>) = fh_refs s"
  "dh_refs (s\<lparr>heap := x0\<rparr>) = dh_refs s" "dh_refs (s\<lparr>brk := x1\<rparr>) = dh_refs s" "dh_refs (s\<lparr>fhs := x2\<rparr>) = dh_refs s"
  "dh_refs (s\<lparr>hbrk := x4\<rparr>) = dh_refs s" "dh_refs (s\<lparr>routes := x5\<rparr>) = dh_refs s"
  "dh_refs (s\<lparr>trace := x6\<rparr>) = dh_refs s"
  by (auto simp: fh_refs_def dh_refs_def fun_eq_iff)

lemma dem_cong [simp]:
  "ldem L (s\<lparr>routes := x5\<rparr>) = ldem L s" "ldem L (s\<lparr>trace := x6\<rparr>) = ldem L s"
  "odem R (s\<lparr>routes := x5\<rparr>) = odem R s" "odem R (s\<lparr>trace := x6\<rparr>) = odem R s"
  by (auto simp: ldem_def odem_def fun_eq_iff)

lemma refs_ok_cong [simp]:
  "refs_ok L R (s\<lparr>routes := x5\<rparr>) = refs_ok L R s" "refs_ok L R (s\<lparr>trace := x6\<rparr>) = refs_ok L R s"
  by (auto simp: refs_ok_def fun_eq_iff split: option.split)

lemma inv_cong [simp]:
  "rinv L R (s\<lparr>routes := x5\<rparr>) = rinv L R s" "rinv L R (s\<lparr>trace := x6\<rparr>) = rinv L R s"
  by (simp_all add: rinv_def)

lemma inv_update:
  assumes I: "rinv L R s" and a: "heap s a = Some e"
    and L: "\<And>b. b \<noteq> a \<Longrightarrow> count (links_of a e') b + count L' b \<le> count (links_of a e) b + count L b"
    and La: "int (count L' a) - link_count e' \<le> int (count L a) - link_count e"
    and R: "\<And>b. b \<noteq> a \<Longrightarrow> count R' b \<le> count R b"
    and Ra: "int (count R' a) - open_count e' \<le> int (count R a) - open_count e"
  shows "rinv L' R' (s\<lparr>heap := (heap s)(a \<mapsto> e')\<rparr>)"
proof -
  let ?s = "s\<lparr>heap := (heap s)(a \<mapsto> e')\<rparr>"
  note U = lnk_upd [OF inv_finite [OF I] a, of e']
  have "refs_ok L' R' ?s b" for b
  proof (cases "b = a")
    case True
    have "lnk ?s a = lnk s a" using U [of a] by simp
    then show ?thesis
      using La Ra inv_link_count [OF I a] inv_open_count [OF I a] True
      by (auto simp: refs_ok_def ldem_def odem_def)
  next
    case False
    have "lnk ?s b + count L' b \<le> lnk s b + count L b" using U [of b] L [OF False] by linarith
    moreover have "count R' b \<le> count R b" by (rule R [OF False])
    ultimately have "ldem L' ?s b \<le> ldem L s b" "odem R' ?s b \<le> odem R s b"
      by (simp_all add: ldem_def odem_def)
    then show ?thesis using inv_refs [OF I, of b] False
      by (auto simp: refs_ok_def split: option.splits)
  qed
  then show ?thesis using I a by (auto simp: rinv_def)
qed

lemma inv_mono:
  assumes "rinv L R s" and "L' \<subseteq># L" and "R' \<subseteq># R"
  shows "rinv L' R' s"
proof -
  have "ldem L' s b \<le> ldem L s b" "odem R' s b \<le> odem R s b" for b
    using assms(2,3) by (simp_all add: ldem_def odem_def mset_subset_eq_count)
  note le = this
  have "refs_ok L' R' s b" for b
    using inv_refs [OF assms(1), of b] le(1) [of b] le(2) [of b]
    by (cases "heap s b") (simp_all add: refs_ok_def)
  then show ?thesis using assms(1) by (simp add: rinv_def)
qed

lemma upd_Some: "upd a f s = Some s' \<longleftrightarrow> (\<exists>e. heap s a = Some e \<and> s' = s\<lparr>heap := (heap s)(a \<mapsto> f e)\<rparr>)"
  by (auto simp: upd_def split: option.splits)

lemma upd_simp: "heap s a = Some e \<Longrightarrow> upd a f s = Some (s\<lparr>heap := (heap s)(a \<mapsto> f e)\<rparr>)"
  by (simp add: upd_def)

text \<open>A change that keeps the children and both counts.\<close>

lemma inv_upd_frame:
  assumes "rinv L R s" and "upd a f s = Some s'"
    and "\<And>e. children (f e) = children e" and "\<And>e. link_count (f e) = link_count e"
    and "\<And>e. open_count (f e) = open_count e"
  shows "rinv L R s'"
proof -
  obtain e where e: "heap s a = Some e" "s' = s\<lparr>heap := (heap s)(a \<mapsto> f e)\<rparr>"
    using assms(2) by (auto simp: upd_Some)
  have "links_of a (f e) = links_of a e" by (simp add: links_of_def set_links_def assms(3))
  then show ?thesis
    unfolding e(2) by (intro inv_update [OF assms(1) e(1)]) (simp_all add: assms(4,5))
qed

lemma inv_ref:
  assumes "rinv L R s" and "upd a (\<lambda>e. e\<lparr>open_count := open_count e + 1\<rparr>) s = Some s'"
  shows "rinv L (add_mset a R) s'"
  using assms(2) by (auto simp: upd_Some links_of_def set_links_def intro!: inv_update [OF assms(1)])

lemma inv_unref:
  assumes "rinv L (add_mset a R) s" and "upd a (\<lambda>e. e\<lparr>open_count := open_count e - 1\<rparr>) s = Some s'"
  shows "rinv L R s'"
  using assms(2) by (auto simp: upd_Some links_of_def set_links_def intro!: inv_update [OF assms(1)])

lemma inv_link:
  assumes "rinv L R s" and "upd a (\<lambda>e. e\<lparr>link_count := link_count e + 1\<rparr>) s = Some s'"
  shows "rinv (add_mset a L) R s'"
  using assms(2) by (auto simp: upd_Some links_of_def set_links_def intro!: inv_update [OF assms(1)])

lemma inv_unlink:
  assumes "rinv (add_mset a L) R s" and "upd a (\<lambda>e. e\<lparr>link_count := link_count e - 1\<rparr>) s = Some s'"
  shows "rinv L R s'"
  using assms(2) by (auto simp: upd_Some links_of_def set_links_def intro!: inv_update [OF assms(1)])

lemma links_of_zero [simp]: "links_of a zero_entry = {#}"
  by (simp add: links_of_def set_links_def zero_entry_def es_entries_def)

lemma inv_alloc:
  assumes "rinv L R s" and "alloc_entry s = (a, s')"
  shows "rinv L R s'" and "heap s' a = Some zero_entry" and "heap s a = None" and "a \<noteq> 0"
proof -
  have a: "a = brk s" and s': "s' = s\<lparr>heap := (heap s)(a \<mapsto> zero_entry), brk := brk s + 1\<rparr>"
    using assms(2) by (auto simp: alloc_entry_def)
  show n: "heap s a = None" using inv_brk [OF assms(1)] by (simp add: a)
  show "heap s' a = Some zero_entry" by (simp add: s')
  show "a \<noteq> 0" using n inv_root [OF assms(1)] by (metis option.distinct(1))
  have "lnk s' b = lnk s b" for b
    using lnk_new [OF inv_finite [OF assms(1)] n, of zero_entry b] by (simp add: s')
  then have "ldem L s' b = ldem L s b \<and> odem R s' b = odem R s b" for b
    by (auto simp: ldem_def odem_def s')
  then have "refs_ok L R s' b" for b
    using inv_refs [OF assms(1), of b] n
    by (cases "b = a") (auto simp: refs_ok_def s' zero_entry_def split: option.splits)
  moreover have "\<forall>b\<in>dom (heap s'). b < brk s'"
    using assms(1) by (auto simp: rinv_def s' a less_Suc_eq)
  ultimately show "rinv L R s'" using assms(1) by (simp add: rinv_def) (simp add: s')
qed

lemma inv_free:
  assumes I: "rinv L R s" and "free_entry a s = Some s'" and "ldem L s a = 0" and "odem R s a = 0"
  shows "rinv L R s'"
proof -
  obtain e where e: "heap s a = Some e" and s': "s' = s\<lparr>heap := (heap s)(a := None)\<rparr>"
    using assms(2) by (auto simp: free_entry_def split: if_splits)
  have "lnk s' b \<le> lnk s b" for b
    using lnk_free [OF inv_finite [OF I] e, of b] by (simp add: s')
  then have d: "ldem L s' b \<le> ldem L s b \<and> odem R s' b = odem R s b" for b
    by (auto simp: ldem_def odem_def s')
  have "refs_ok L R s' b" for b
    using inv_refs [OF I, of b] d [of b] assms(3,4)
    by (cases "b = a") (auto simp: refs_ok_def s' split: option.splits)
  then show ?thesis using I by (auto simp: rinv_def s')
qed

subsection \<open>Attaching\<close>

lemma filter_mset_replace:
  "mset (es_entries t) = add_mset (n, a) M \<Longrightarrow> mset (es_entries t') = add_mset (n, p) M \<Longrightarrow>
    n = ''..'' \<Longrightarrow>
    filter_mset (\<lambda>(n, b). n \<noteq> ''.'' \<and> n \<noteq> ''..'' \<and> b \<noteq> c) (mset (es_entries t')) =
    filter_mset (\<lambda>(n, b). n \<noteq> ''.'' \<and> n \<noteq> ''..'' \<and> b \<noteq> c) (mset (es_entries t))"
  by simp

lemma links_of_replace:
  "links_of a (e\<lparr>children := fst (fskit_entry_set_replace (children e) ''..'' p)\<rparr>) = links_of a e"
  using mset_entry_set_replace [of "children e" "''..''" p
      "fst (fskit_entry_set_replace (children e) ''..'' p)" "snd (fskit_entry_set_replace (children e) ''..'' p)"]
  by (auto simp: links_of_def set_links_def split: if_splits)

lemma links_of_insert:
  "count (links_of a (e\<lparr>children := fst (fskit_entry_set_insert V (children e) n b)\<rparr>)) c \<le>
    count (links_of a e) c + (if c = b \<and> a \<noteq> b then 1 else 0)"
  using mset_entry_set_insert [of V "children e" n b
      "fst (fskit_entry_set_insert V (children e) n b)" "snd (fskit_entry_set_insert V (children e) n b)"]
  by (auto simp: links_of_def set_links_def split: if_splits)

lemma inv_attach:
  assumes I: "rinv L R s" and A: "fskit_entry_attach_lowlevel V parent fent name s = Some (rc, s')"
  shows "rinv L R s'"
proof -
  let ?L = "if parent \<noteq> fent then add_mset fent L else L"
  obtain s1 s2 e s3 p where
    s1: "(if parent \<noteq> fent then upd fent (\<lambda>e. e\<lparr>link_count := link_count e + 1\<rparr>) s else Some s) = Some s1"
    and s2: "upd parent (\<lambda>e. e\<lparr>num_children := num_children e + 1,
        mtime := snd (clock V ''fskit_entry_attach_lowlevel'')\<rparr>) s1 = Some s2"
    and e: "heap s2 fent = Some e"
    and s3: "(if etype e = T_DIR
        then upd fent (\<lambda>e. e\<lparr>children := fst (fskit_entry_set_replace (children e) ''..'' parent)\<rparr>) s2
        else Some s2) = Some s3"
    and p: "heap s3 parent = Some p"
    and s4: "upd parent (\<lambda>e. e\<lparr>children := fst (fskit_entry_set_insert V (children p) name fent)\<rparr>) s3 = Some s'"
    using A by (auto simp: fskit_entry_attach_lowlevel_def bind_eq_Some)
  have I1: "rinv ?L R s1" using inv_link [OF I] s1 I by (auto split: if_splits)
  have I2: "rinv ?L R s2" by (rule inv_upd_frame [OF I1 s2]) simp_all
  have I3: "rinv ?L R s3"
  proof (cases "etype e = T_DIR")
    case True
    then show ?thesis using s3
      by (auto simp: upd_Some links_of_replace intro!: inv_update [OF I2])
  next
    case False
    then show ?thesis using s3 I2 by simp
  qed
  let ?p = "p\<lparr>children := fst (fskit_entry_set_insert V (children p) name fent)\<rparr>"
  have ins: "count (links_of parent ?p) b \<le> count (links_of parent p) b + (if b = fent \<and> parent \<noteq> fent then 1 else 0)"
    for b by (rule links_of_insert)
  have s': "s' = s3\<lparr>heap := (heap s3)(parent \<mapsto> ?p)\<rparr>" using s4 p by (auto simp: upd_Some)
  show ?thesis
    unfolding s'
  proof (rule inv_update [OF I3 p])
    fix b assume "b \<noteq> parent"
    then show "count (links_of parent ?p) b + count L b \<le> count (links_of parent p) b + count ?L b"
      using ins [of b] by (auto split: if_splits)
  qed auto
qed

lemma attach_not_None:
  assumes "heap s parent = Some p" and "heap s fent = Some e"
  shows "\<exists>rc s'. fskit_entry_attach_lowlevel V parent fent name s = Some (rc, s')"
  using assms by (auto simp: fskit_entry_attach_lowlevel_def upd_def bind_eq_Some)

subsection \<open>Detaching and tagging\<close>

lemma set_links_remove:
  assumes "fskit_entry_set_remove t n = (t', b)" and "fskit_entry_set_find_name t n = Some c" and "b" and "c \<noteq> a"
  shows "set_links a t = add_mset c (set_links a t')"
  using mset_entry_set_remove [OF assms(1)] assms(2-4) by (auto simp: set_links_def)

text \<open>The two outcomes of detaching: nothing changed, or the name is gone and its inode one link down.\<close>

lemma detach_cases:
  assumes "fskit_entry_detach_lowlevel V parent n s = Some (rc, s')"
  obtains (fail) "s' = s" and "rc = - ENOENT \<or> rc = - ENOTEMPTY"
  | (ok) p child c where "heap s parent = Some p" and "fskit_entry_set_find_name (children p) n = Some child"
      and "parent \<noteq> child" and "heap s child = Some c"
      and "\<not> (etype c = T_DIR \<and> fskit_entry_get_num_children c > 2)"
      and "snd (fskit_entry_set_remove (children p) n)" and "rc = 0"
      and "s' = s\<lparr>heap := (heap s)
        (parent \<mapsto> p\<lparr>children := fst (fskit_entry_set_remove (children p) n),
           mtime := snd (clock V ''fskit_entry_detach_lowlevel''), num_children := num_children p - 1\<rparr>,
         child \<mapsto> c\<lparr>link_count := (if link_count c - 1 < 0 then 0 else link_count c - 1)\<rparr>)\<rparr>"
proof -
  obtain p where p: "heap s parent = Some p"
    using assms by (auto simp: fskit_entry_detach_lowlevel_def bind_eq_Some)
  show ?thesis
  proof (cases "s' = s \<and> (rc = - ENOENT \<or> rc = - ENOTEMPTY)")
    case True
    then show ?thesis using fail by blast
  next
    case False
    then obtain child where ch: "fskit_entry_set_find_name (children p) n = Some child" "parent \<noteq> child"
      using assms p by (auto simp: fskit_entry_detach_lowlevel_def split: option.splits if_splits)
    then obtain c where c: "heap s child = Some c"
      using assms p by (auto simp: fskit_entry_detach_lowlevel_def bind_eq_Some)
    have d: "\<not> (etype c = T_DIR \<and> fskit_entry_get_num_children c > 2)"
      "snd (fskit_entry_set_remove (children p) n)"
      using assms p ch c False by (auto simp: fskit_entry_detach_lowlevel_def split: if_splits)
    then have "rc = 0 \<and> s' = s\<lparr>heap := (heap s)
        (parent \<mapsto> p\<lparr>children := fst (fskit_entry_set_remove (children p) n),
           mtime := snd (clock V ''fskit_entry_detach_lowlevel''), num_children := num_children p - 1\<rparr>,
         child \<mapsto> c\<lparr>link_count := (if link_count c - 1 < 0 then 0 else link_count c - 1)\<rparr>)\<rparr>"
      using assms p ch c by (auto simp: fskit_entry_detach_lowlevel_def upd_simp)
    then show ?thesis using ok p ch c d by blast
  qed
qed

lemma inv_detach:
  assumes I: "rinv L R s" and D: "fskit_entry_detach_lowlevel V parent n s = Some (rc, s')"
  shows "rinv L R s'"
  using D
proof (cases rule: detach_cases)
  case fail
  then show ?thesis using I by simp
next
  case (ok p child c)
  let ?p = "p\<lparr>children := fst (fskit_entry_set_remove (children p) n),
      mtime := snd (clock V ''fskit_entry_detach_lowlevel''), num_children := num_children p - 1\<rparr>"
  let ?s = "s\<lparr>heap := (heap s)(parent \<mapsto> ?p)\<rparr>"
  have l: "links_of parent p = add_mset child (links_of parent ?p)"
    using set_links_remove [of "children p" n "fst (fskit_entry_set_remove (children p) n)" True child parent]
      ok(2,3,6) by (simp add: links_of_def prod_eq_iff)
  have I1: "rinv (add_mset child L) R ?s"
    using l ok(3) by (intro inv_update [OF I ok(1)]) (auto split: if_splits)
  have c: "heap ?s child = Some c" using ok(3,4) by simp
  then have "1 \<le> link_count c" using inv_L_heap [OF I1, of child] by auto
  then have "upd child (\<lambda>e. e\<lparr>link_count := link_count e - 1\<rparr>) ?s = Some s'"
    using c ok(8) by (simp add: upd_def)
  from inv_unlink [OF I1 this] show ?thesis .
qed

lemma detach_not_None:
  assumes "heap s parent = Some p"
    and "\<And>c. fskit_entry_set_find_name (children p) n = Some c \<Longrightarrow> \<exists>e. heap s c = Some e"
  shows "\<exists>rc s'. fskit_entry_detach_lowlevel V parent n s = Some (rc, s')"
proof (cases "fskit_entry_set_find_name (children p) n")
  case None
  then show ?thesis using assms(1) by (simp add: fskit_entry_detach_lowlevel_def)
next
  case (Some c)
  then obtain e where "heap s c = Some e" using assms(2) by blast
  then show ?thesis using Some assms(1) by (simp add: fskit_entry_detach_lowlevel_def upd_def)
qed

lemma set_links_new: "fskit_entry_set_new S a p = Some t \<Longrightarrow> set_links b t = {#}"
  by (drule mset_entry_set_new) (simp add: set_links_def)

lemma set_links_Leaf [simp]: "set_links a Leaf = {#}"
  by (simp add: set_links_def es_entries_def)

lemma inv_tag:
  assumes I: "rinv L R s" and T: "fskit_entry_tag_garbage V a s = Some (rc, cs, s')"
  shows "rinv (L + set_links a cs) R s'"
proof (cases "s' = s \<and> cs = Leaf")
  case True
  then show ?thesis using I by simp
next
  case False
  obtain e where e: "heap s a = Some e" using T by (auto simp: fskit_entry_tag_garbage_def bind_eq_Some)
  show ?thesis
  proof (cases "etype e = T_DIR")
    case True
    then obtain p t where t: "fskit_entry_set_new V a p = Some t"
      and u: "upd a (\<lambda>e. e\<lparr>children := t, num_children := 0, deletion_in_progress := True\<rparr>) s = Some s'"
      and cs: "cs = children e"
      using T e False by (auto simp: fskit_entry_tag_garbage_def bind_eq_Some split: option.splits)
    let ?e = "e\<lparr>children := t, num_children := 0, deletion_in_progress := True\<rparr>"
    have "links_of a ?e = {#}" using set_links_new [OF t] by (simp add: links_of_def)
    moreover have "count (set_links a cs) a = 0" using links_of_self [of a e] by (simp add: cs links_of_def)
    ultimately show ?thesis
      using u e by (auto simp: upd_Some cs links_of_def intro!: inv_update [OF I e])
  next
    case False
    then show ?thesis
      using T e inv_upd_frame [OF I] by (auto simp: fskit_entry_tag_garbage_def bind_eq_Some)
  qed
qed

text \<open>What the primitives leave alone: the set of allocated inodes, the handles, routes and trace.\<close>

definition same_frame :: "fs \<Rightarrow> fs \<Rightarrow> bool" where
  "same_frame s s' =
     (dom (heap s') = dom (heap s) \<and> brk s' = brk s \<and> fhs s' = fhs s \<and> dhs s' = dhs s \<and>
      hbrk s' = hbrk s \<and> routes s' = routes s \<and> app_fs_data s' = app_fs_data s \<and> trace s' = trace s)"

lemma same_frame_refl [simp]: "same_frame s s"
  by (simp add: same_frame_def)

lemma same_frame_trans: "same_frame s t \<Longrightarrow> same_frame t u \<Longrightarrow> same_frame s u"
  by (simp add: same_frame_def)

lemma upd_same_frame: "upd a f s = Some s' \<Longrightarrow> same_frame s s'"
  unfolding upd_Some same_frame_def by (elim exE conjE) (simp add: insert_absorb domI)

lemma attach_same_frame:
  "fskit_entry_attach_lowlevel V parent fent name s = Some (rc, s') \<Longrightarrow> same_frame s s'"
  by (auto simp: fskit_entry_attach_lowlevel_def bind_eq_Some split: if_splits
      dest!: upd_same_frame intro: same_frame_trans)

lemma detach_same_frame:
  "fskit_entry_detach_lowlevel V parent name s = Some (rc, s') \<Longrightarrow> same_frame s s'"
  by (erule detach_cases) (auto simp: same_frame_def)

lemma tag_same_frame: "fskit_entry_tag_garbage V a s = Some (rc, cs, s') \<Longrightarrow> same_frame s s'"
  by (auto simp: fskit_entry_tag_garbage_def bind_eq_Some split: if_splits option.splits
      dest!: upd_same_frame)

end
