(* ===== verification/Route.thy ===== *)
theory Route
  imports Refs
begin

text \<open>
  Routes (\<open>libfskit/route.c\<close>): the table that maps a route type to the application's callbacks with
  their path patterns, the declaration and removal of routes, the match of a path against the table,
  and the call of the matching callback.

  A table is a red-black tree of rows, one per route type; a row is a vector whose slots may be
  empty (\<open>None\<close>). Matching looks at the path pattern of every slot it passes, so that an empty
  slot in front of a match is the outcome \<open>None\<close>: the C code dereferences a NULL route there.
  \<open>fskit_route_call\<close> gives the code of the call, the callback's return code (0 if none ran), the
  arguments with the callback's outputs, and the state.
\<close>

subsection \<open>Route types and consistency disciplines\<close>

definition FSKIT_ROUTE_MATCH_CREATE :: int where "FSKIT_ROUTE_MATCH_CREATE = 0"
definition FSKIT_ROUTE_MATCH_MKDIR :: int where "FSKIT_ROUTE_MATCH_MKDIR = 1"
definition FSKIT_ROUTE_MATCH_MKNOD :: int where "FSKIT_ROUTE_MATCH_MKNOD = 2"
definition FSKIT_ROUTE_MATCH_OPEN :: int where "FSKIT_ROUTE_MATCH_OPEN = 3"
definition FSKIT_ROUTE_MATCH_READDIR :: int where "FSKIT_ROUTE_MATCH_READDIR = 4"
definition FSKIT_ROUTE_MATCH_READ :: int where "FSKIT_ROUTE_MATCH_READ = 5"
definition FSKIT_ROUTE_MATCH_WRITE :: int where "FSKIT_ROUTE_MATCH_WRITE = 6"
definition FSKIT_ROUTE_MATCH_TRUNC :: int where "FSKIT_ROUTE_MATCH_TRUNC = 7"
definition FSKIT_ROUTE_MATCH_CLOSE :: int where "FSKIT_ROUTE_MATCH_CLOSE = 8"
definition FSKIT_ROUTE_MATCH_DETACH :: int where "FSKIT_ROUTE_MATCH_DETACH = 9"
definition FSKIT_ROUTE_MATCH_STAT :: int where "FSKIT_ROUTE_MATCH_STAT = 10"
definition FSKIT_ROUTE_MATCH_SYNC :: int where "FSKIT_ROUTE_MATCH_SYNC = 11"
definition FSKIT_ROUTE_MATCH_RENAME :: int where "FSKIT_ROUTE_MATCH_RENAME = 12"
definition FSKIT_ROUTE_MATCH_LINK :: int where "FSKIT_ROUTE_MATCH_LINK = 13"
definition FSKIT_ROUTE_MATCH_DESTROY :: int where "FSKIT_ROUTE_MATCH_DESTROY = 14"
definition FSKIT_ROUTE_MATCH_GETXATTR :: int where "FSKIT_ROUTE_MATCH_GETXATTR = 15"
definition FSKIT_ROUTE_MATCH_LISTXATTR :: int where "FSKIT_ROUTE_MATCH_LISTXATTR = 16"
definition FSKIT_ROUTE_MATCH_SETXATTR :: int where "FSKIT_ROUTE_MATCH_SETXATTR = 17"
definition FSKIT_ROUTE_MATCH_REMOVEXATTR :: int where "FSKIT_ROUTE_MATCH_REMOVEXATTR = 18"
definition FSKIT_ROUTE_MATCH_SETMETADATA :: int where "FSKIT_ROUTE_MATCH_SETMETADATA = 19"
definition FSKIT_ROUTE_NUM_ROUTE_TYPES :: nat where "FSKIT_ROUTE_NUM_ROUTE_TYPES = 20"

lemmas route_match_defs = FSKIT_ROUTE_MATCH_CREATE_def FSKIT_ROUTE_MATCH_MKDIR_def FSKIT_ROUTE_MATCH_MKNOD_def
  FSKIT_ROUTE_MATCH_OPEN_def FSKIT_ROUTE_MATCH_READDIR_def FSKIT_ROUTE_MATCH_READ_def
  FSKIT_ROUTE_MATCH_WRITE_def FSKIT_ROUTE_MATCH_TRUNC_def FSKIT_ROUTE_MATCH_CLOSE_def
  FSKIT_ROUTE_MATCH_DETACH_def FSKIT_ROUTE_MATCH_STAT_def FSKIT_ROUTE_MATCH_SYNC_def
  FSKIT_ROUTE_MATCH_RENAME_def FSKIT_ROUTE_MATCH_LINK_def FSKIT_ROUTE_MATCH_DESTROY_def
  FSKIT_ROUTE_MATCH_GETXATTR_def FSKIT_ROUTE_MATCH_LISTXATTR_def
  FSKIT_ROUTE_MATCH_SETXATTR_def FSKIT_ROUTE_MATCH_REMOVEXATTR_def
  FSKIT_ROUTE_MATCH_SETMETADATA_def

definition FSKIT_SEQUENTIAL :: int where "FSKIT_SEQUENTIAL = 1"
definition FSKIT_CONCURRENT :: int where "FSKIT_CONCURRENT = 2"
definition FSKIT_INODE_SEQUENTIAL :: int where "FSKIT_INODE_SEQUENTIAL = 3"
definition FSKIT_INODE_CONCURRENT :: int where "FSKIT_INODE_CONCURRENT = 4"

subsection \<open>Rows\<close>

definition vec_init :: vec where
  "vec_init = \<lparr>v_exp = 0, v_len = 0, v_buf = []\<rparr>"

definition vec_grow :: "'z sys_scheme \<Rightarrow> vec \<Rightarrow> vec \<times> int" where
  "vec_grow S v =
     (let v = v\<lparr>v_exp := v_exp v + 1\<rparr> in
      if \<not> mem_ok S ''vector_grow'' then (v, - ENOMEM)
      else (v\<lparr>v_buf := take (2 ^ v_exp v) (v_buf v @ replicate (2 ^ v_exp v) None)\<rparr>, 0))"

definition vec_push_back :: "'z sys_scheme \<Rightarrow> vec \<Rightarrow> path_route option \<Rightarrow> (vec \<times> int) option" where
  "vec_push_back S v t =
     (let (v, rc) = (if v_len v + 1 \<ge> 2 ^ v_exp v then vec_grow S v else (v, 0)) in
      if rc = - ENOMEM then Some (v, rc)
      else if v_len v < length (v_buf v)
      then Some (v\<lparr>v_buf := (v_buf v)[v_len v := t], v_len := v_len v + 1\<rparr>, 0)
      else None)"

definition vec_set :: "vec \<Rightarrow> path_route option \<Rightarrow> nat \<Rightarrow> vec \<times> int" where
  "vec_set v t i =
     (if i \<ge> v_len v then (v, - EINVAL) else (v\<lparr>v_buf := (v_buf v)[i := t]\<rparr>, 0))"

text \<open>The slots that a loop over the row visits; the index of the first empty one.\<close>

definition row_slots :: "route_row \<Rightarrow> path_route option list" where
  "row_slots row = take (v_len (rr_routes row)) (v_buf (rr_routes row))"

fun empty_slot :: "'a option list \<Rightarrow> nat option" where
  "empty_slot [] = None"
| "empty_slot (None # rs) = Some 0"
| "empty_slot (Some r # rs) = map_option Suc (empty_slot rs)"

definition fskit_route_table_row_new :: "'z sys_scheme \<Rightarrow> int \<Rightarrow> route_row option" where
  "fskit_route_table_row_new S route_type =
     (if \<not> mem_ok S ''fskit_route_table_row_new'' then None
      else Some \<lparr>rr_type = route_type, rr_routes = vec_init\<rparr>)"

subsection \<open>The table\<close>

definition route_table_cmp :: "route_row \<Rightarrow> route_row \<Rightarrow> int" where
  "route_table_cmp r1 r2 = rr_type r1 - rr_type r2"

interpretation rt: sglib_comparator route_table_cmp rr_type
  by unfold_locales (auto simp: route_table_cmp_def)

definition rt_lookup_row :: "int \<Rightarrow> route_row" where
  "rt_lookup_row route_type = \<lparr>rr_type = route_type, rr_routes = vec_init\<rparr>"

definition fskit_route_table_get_row :: "route_table \<Rightarrow> int \<Rightarrow> route_row option" where
  "fskit_route_table_get_row tbl route_type = find_member route_table_cmp (rt_lookup_row route_type) tbl"

text \<open>A write through the pointer to a row of the table.\<close>

definition set_row :: "route_row \<Rightarrow> route_table \<Rightarrow> route_table" where
  "set_row row tbl = update_member route_table_cmp row (\<lambda>_. row) tbl"

text \<open>Rows have distinct types, so the pointer order of equal rows never matters in the table.\<close>

definition fskit_route_table_insert ::
    "'z sys_scheme \<Rightarrow> route_table \<Rightarrow> int \<Rightarrow> path_route \<Rightarrow> (route_table \<times> int) option" where
  "fskit_route_table_insert S tbl route_type route =
     (case (case fskit_route_table_get_row tbl route_type of
              Some row \<Rightarrow> Some (row, tbl)
            | None \<Rightarrow>
                (case fskit_route_table_row_new S route_type of
                   None \<Rightarrow> None
                 | Some row \<Rightarrow> Some (row, sglib_add route_table_cmp (\<lambda>_ _. False) row tbl))) of
        None \<Rightarrow> Some (tbl, - ENOMEM)
      | Some (row, tbl) \<Rightarrow>
          (case empty_slot (row_slots row) of
             Some i \<Rightarrow>
               Some (set_row (row\<lparr>rr_routes := fst (vec_set (rr_routes row) (Some route) i)\<rparr>) tbl, int i)
           | None \<Rightarrow>
               (case vec_push_back S (rr_routes row) (Some route) of
                  None \<Rightarrow> None
                | Some (v, rc) \<Rightarrow>
                    Some (set_row (row\<lparr>rr_routes := v\<rparr>) tbl,
                          if rc < 0 then - ENOMEM else int (v_len v) - 1))))"

definition row_at :: "route_row \<Rightarrow> int \<Rightarrow> path_route option option" where
  "row_at row i =
     (if 0 \<le> i \<and> nat i < length (v_buf (rr_routes row)) then Some (v_buf (rr_routes row) ! nat i) else None)"

definition fskit_route_table_find :: "route_table \<Rightarrow> int \<Rightarrow> int \<Rightarrow> path_route option option" where
  "fskit_route_table_find tbl route_type route_id =
     (case fskit_route_table_get_row tbl route_type of
        None \<Rightarrow> Some None
      | Some row \<Rightarrow>
          if route_id \<ge> int (v_len (rr_routes row)) then Some None else row_at row route_id)"

definition fskit_route_table_remove ::
    "route_table \<Rightarrow> int \<Rightarrow> int \<Rightarrow> (route_table \<times> path_route option) option" where
  "fskit_route_table_remove tbl route_type route_id =
     (case fskit_route_table_get_row tbl route_type of
        None \<Rightarrow> Some (tbl, None)
      | Some row \<Rightarrow>
          if route_id \<ge> int (v_len (rr_routes row)) then Some (tbl, None)
          else
            (case row_at row route_id of
               None \<Rightarrow> None
             | Some route \<Rightarrow>
                 let row = row\<lparr>rr_routes := fst (vec_set (rr_routes row) None (nat route_id))\<rparr> in
                 if list_all (\<lambda>r. r = None) (row_slots row)
                 then Some (sglib_delete route_table_cmp row (set_row row tbl), route)
                 else Some (set_row row tbl, route)))"

definition fskit_path_route_erase_all :: "route_table \<Rightarrow> int \<Rightarrow> route_table \<times> int" where
  "fskit_path_route_erase_all tbl route_type =
     (case fskit_route_table_get_row tbl route_type of
        None \<Rightarrow> (tbl, - EINVAL)
      | Some row \<Rightarrow> (sglib_delete route_table_cmp row tbl, 0))"

subsection \<open>Matching\<close>

text \<open>Unescaped opening parentheses, with the character before the current one.\<close>

fun count_groups :: "char \<Rightarrow> string \<Rightarrow> nat" where
  "count_groups prev [] = 0"
| "count_groups prev (c # cs) =
     (if c = CHR ''('' \<and> prev \<noteq> CHR 0x5C then 1 else 0) + count_groups c cs"

definition fskit_num_expected_matches :: "string \<Rightarrow> nat" where
  "fskit_num_expected_matches path = count_groups NUL path + 1"

text \<open>
  The matched strings, up to the first group that did not match. The offsets array has one entry
  more than \<open>regexec\<close> fills in, and the loop looks at that one too.
\<close>

fun collect_matches :: "string \<Rightarrow> (int \<times> int) list \<Rightarrow> string list" where
  "collect_matches path [] = []"
| "collect_matches path ((so, eo) # ms) =
     (if so \<ge> 0 \<and> eo \<ge> 0
      then take (nat (eo - so)) (drop (nat so) path) # collect_matches path ms
      else [])"

definition zero_metadata :: route_metadata where
  "zero_metadata = \<lparr>rm_path = [], rm_argc = 0, rm_argv = [], rm_parent = None, rm_name = None,
     rm_new_parent = None, rm_new_path = None, rm_garbage_collect = False, rm_renamed = False,
     rm_cls = 0, rm_xattr_name = None, rm_xattr_value = None, rm_xattr_buf = [], rm_xattr_buf_len = 0\<rparr>"

definition fskit_route_metadata_init :: "string \<Rightarrow> nat \<Rightarrow> string list \<Rightarrow> route_metadata" where
  "fskit_route_metadata_init matched_path num_matches matches =
     zero_metadata\<lparr>rm_argc := num_matches, rm_argv := matches, rm_path := matched_path\<rparr>"

definition fskit_match_regex ::
    "env \<Rightarrow> route_metadata \<Rightarrow> path_route \<Rightarrow> string \<Rightarrow> route_metadata \<times> int" where
  "fskit_match_regex V rm route path =
     (let num = pr_num_expected route in
      if \<not> mem_ok V ''fskit_match_regex'' then (rm, - ENOMEM)
      else case ev_regexec V (case pr_regex_str route of None \<Rightarrow> [] | Some r \<Rightarrow> r) path num of
        None \<Rightarrow> (rm, - ENOENT)
      | Some offs \<Rightarrow>
          let m = take num (offs @ replicate num (0, 0)) @ [(0, 0)];
              (so, eo) = m ! 0;
              argv = collect_matches path (drop 1 m)
          in if so < 0 \<or> eo < 0 then (rm, - ENOENT)
             else if int (length path) \<noteq> eo - so then (rm, - ENOENT)
             else if \<not> mem_ok V ''fskit_match_regex.argv'' then (rm, - ENOMEM)
             else (fskit_route_metadata_init path (length argv + 1) argv, 0))"

definition fskit_path_route_is_defined :: "path_route option \<Rightarrow> bool option" where
  "fskit_path_route_is_defined route = map_option (\<lambda>r. pr_regex_str r \<noteq> None) route"

fun route_match_slots ::
    "env \<Rightarrow> string \<Rightarrow> route_metadata \<Rightarrow> path_route option list \<Rightarrow> (path_route \<times> route_metadata) option option"
where
  "route_match_slots V path rm [] = Some None"
| "route_match_slots V path rm (None # rs) = None"
| "route_match_slots V path rm (Some route # rs) =
     (if fskit_path_route_is_defined (Some route) \<noteq> Some True then route_match_slots V path rm rs
      else case fskit_match_regex V rm route path of
        (rm', rc) \<Rightarrow> if rc = 0 then Some (Some (route, rm')) else route_match_slots V path rm' rs)"

definition fskit_route_match ::
    "env \<Rightarrow> route_table \<Rightarrow> int \<Rightarrow> string \<Rightarrow> (path_route \<times> route_metadata) option option" where
  "fskit_route_match V tbl route_type path =
     (case fskit_route_table_get_row tbl route_type of
        None \<Rightarrow> Some None
      | Some row \<Rightarrow> route_match_slots V path zero_metadata (row_slots row))"

definition fskit_route_metadata_populate ::
    "env \<Rightarrow> route_metadata \<Rightarrow> dispatch_args \<Rightarrow> route_metadata \<times> int" where
  "fskit_route_metadata_populate V rm da =
     (if da_name da \<noteq> None \<and> \<not> mem_ok V ''fskit_route_metadata_populate'' then (rm, - ENOMEM)
      else (rm\<lparr>rm_name := (case da_name da of None \<Rightarrow> rm_name rm | Some n \<Rightarrow> Some n),
              rm_parent := da_parent da, rm_new_parent := da_new_parent da,
              rm_garbage_collect := da_garbage_collect da, rm_cls := da_cls da,
              rm_xattr_name := da_xattr_name da, rm_xattr_value := da_xattr_value da,
              rm_xattr_buf := da_xattr_buf da, rm_xattr_buf_len := da_xattr_buf_len da,
              rm_renamed := da_renamed da\<rparr>, 0))"

subsection \<open>I/O continuations\<close>

text \<open>The continuations of \<open>write.c\<close> and \<open>trunc.c\<close>, called inside the dispatch of their routes.\<close>

definition fskit_write_cont :: "env \<Rightarrow> addr \<Rightarrow> int \<Rightarrow> int \<Rightarrow> fs \<Rightarrow> fs option" where
  "fskit_write_cont V fent offset num_written s =
     (if num_written \<ge> 0
      then upd fent (\<lambda>e.
             let e = fst (fskit_entry_set_mtime V None e);
                 e = fst (fskit_entry_set_atime V None e);
                 size_delta = (if offset + num_written > fsize e then offset + num_written - fsize e else 0)
             in e\<lparr>fsize := fsize e + size_delta\<rparr>) s
      else Some s)"

definition fskit_trunc_cont :: "env \<Rightarrow> addr \<Rightarrow> int \<Rightarrow> int \<Rightarrow> fs \<Rightarrow> fs option" where
  "fskit_trunc_cont V fent new_size trunc_rc s =
     (if trunc_rc = 0
      then upd fent (\<lambda>e.
             let e = fst (fskit_entry_set_mtime V None e);
                 e = fst (fskit_entry_set_atime V None e)
             in e\<lparr>fsize := new_size\<rparr>) s
      else Some s)"

definition run_io_cont ::
    "env \<Rightarrow> io_continuation option \<Rightarrow> addr option \<Rightarrow> int \<Rightarrow> int \<Rightarrow> fs \<Rightarrow> fs option" where
  "run_io_cont V k fent off rc s =
     (case k of
        None \<Rightarrow> Some s
      | Some k \<Rightarrow>
          (case fent of
             None \<Rightarrow> None
           | Some a \<Rightarrow>
               (case k of
                  fskit_write_cont_fn \<Rightarrow> fskit_write_cont V a off rc s
                | fskit_trunc_cont_fn \<Rightarrow> fskit_trunc_cont V a off rc s)))"

subsection \<open>Dispatch\<close>

definition fskit_route_enter ::
    "path_route \<Rightarrow> addr option \<Rightarrow> dispatch_args \<Rightarrow> fs \<Rightarrow> int option" where
  "fskit_route_enter route fent da s =
     (case fent of
        None \<Rightarrow> if \<not> da_fent_absent da then None else Some 0
      | Some a \<Rightarrow>
          do {
            e \<leftarrow> (if pr_type route \<noteq> FSKIT_ROUTE_MATCH_DETACH \<and> pr_type route \<noteq> FSKIT_ROUTE_MATCH_DESTROY
                 then (case heap s a of
                         None \<Rightarrow> None
                       | Some e \<Rightarrow> if open_count e \<le> 0 \<and> link_count e \<le> 0 then None else Some ())
                 else Some ());
            if pr_type route \<noteq> FSKIT_ROUTE_MATCH_SETMETADATA \<and>
               pr_discipline route \<noteq> FSKIT_SEQUENTIAL \<and> pr_discipline route \<noteq> FSKIT_CONCURRENT \<and>
               (pr_discipline route = FSKIT_INODE_SEQUENTIAL \<or> pr_discipline route = FSKIT_INODE_CONCURRENT)
            then fskit_entry_lock a s
            else Some 0
          })"

definition fit :: "nat \<Rightarrow> 'a \<Rightarrow> 'a list \<Rightarrow> 'a list" where
  "fit n pad xs = take n (xs @ replicate n pad)"

text \<open>What a callback of each type can write through the pointers it is given.\<close>

definition callback_outputs :: "int \<Rightarrow> dispatch_args \<Rightarrow> dispatch_args \<Rightarrow> dispatch_args" where
  "callback_outputs t da out =
     (if t = FSKIT_ROUTE_MATCH_CREATE
      then da\<lparr>da_inode_data := da_inode_data out, da_handle_data := da_handle_data out\<rparr>
      else if t = FSKIT_ROUTE_MATCH_MKNOD \<or> t = FSKIT_ROUTE_MATCH_MKDIR
      then da\<lparr>da_inode_data := da_inode_data out\<rparr>
      else if t = FSKIT_ROUTE_MATCH_OPEN then da\<lparr>da_handle_data := da_handle_data out\<rparr>
      else if t = FSKIT_ROUTE_MATCH_READDIR
      then da\<lparr>da_dents := fit (length (da_dents da)) None (da_dents out)\<rparr>
      else if t = FSKIT_ROUTE_MATCH_READ \<or> t = FSKIT_ROUTE_MATCH_WRITE
      then da\<lparr>da_iobuf := fit (length (da_iobuf da)) NUL (da_iobuf out)\<rparr>
      else if t = FSKIT_ROUTE_MATCH_STAT then da\<lparr>da_sb := da_sb out\<rparr>
      else if t = FSKIT_ROUTE_MATCH_GETXATTR \<or> t = FSKIT_ROUTE_MATCH_LISTXATTR
      then da\<lparr>da_xattr_buf := fit (length (da_xattr_buf da)) NUL (da_xattr_buf out)\<rparr>
      else da)"

definition fskit_safe_dispatch ::
    "env \<Rightarrow> route_metadata \<Rightarrow> path_route \<Rightarrow> addr option \<Rightarrow> dispatch_args \<Rightarrow> fs \<Rightarrow> int \<times> dispatch_args \<times> fs"
where
  "fskit_safe_dispatch V rm route fent da s =
     (case pr_method route of
        None \<Rightarrow> (- ENOSYS, da, s)
      | Some cb \<Rightarrow>
          let (rc, out) = ev_call V cb s rm fent da
          in (rc, callback_outputs (pr_type route) da out,
              s\<lparr>trace := trace s @ [(pr_type route, rm_path rm, fent)]\<rparr>))"

definition fskit_route_dispatch ::
    "env \<Rightarrow> route_metadata \<Rightarrow> path_route \<Rightarrow> addr option \<Rightarrow> dispatch_args \<Rightarrow> fs \<Rightarrow>
     (int \<times> dispatch_args \<times> fs) option" where
  "fskit_route_dispatch V rm route fent da s =
     do {
       rc \<leftarrow> fskit_route_enter route fent da s;
       if rc \<noteq> 0 then Some (- ev_errno V, da, s)
       else if pr_type route = FSKIT_ROUTE_MATCH_READ \<or> pr_type route = FSKIT_ROUTE_MATCH_WRITE \<or>
               pr_type route = FSKIT_ROUTE_MATCH_TRUNC
       then (case fskit_safe_dispatch V rm route fent da s of
               (rc, da', s') \<Rightarrow>
                 do {
                   s' \<leftarrow> run_io_cont V (da_io_cont da) fent (da_iooff da) rc s';
                   Some (rc, da', s')
                 })
       else if 0 \<le> pr_type route \<and> pr_type route < int FSKIT_ROUTE_NUM_ROUTE_TYPES
       then Some (fskit_safe_dispatch V rm route fent da s)
       else Some (- EINVAL, da, s)
     }"

definition fskit_route_call ::
    "env \<Rightarrow> int \<Rightarrow> string \<Rightarrow> addr option \<Rightarrow> dispatch_args \<Rightarrow> fs \<Rightarrow> (int \<times> int \<times> dispatch_args \<times> fs) option"
where
  "fskit_route_call V route_type path fent da s =
     (case fskit_route_match V (routes s) route_type path of
        None \<Rightarrow> None
      | Some None \<Rightarrow> Some (- EPERM, 0, da, s)
      | Some (Some (route, rm)) \<Rightarrow>
          (case fskit_route_metadata_populate V rm da of
             (rm, rc) \<Rightarrow>
               if rc \<noteq> 0 then Some (- EPERM, 0, da, s)
               else do {
                 (cbrc, da', s') \<leftarrow> fskit_route_dispatch V rm route fent da s;
                 Some (0, cbrc, da', s')
               }))"

text \<open>One call function per route type.\<close>

definition fskit_route_call_create ::
    "env \<Rightarrow> string \<Rightarrow> addr option \<Rightarrow> dispatch_args \<Rightarrow> fs \<Rightarrow> (int \<times> int \<times> dispatch_args \<times> fs) option"
  where "fskit_route_call_create V = fskit_route_call V FSKIT_ROUTE_MATCH_CREATE"
definition fskit_route_call_mkdir ::
    "env \<Rightarrow> string \<Rightarrow> addr option \<Rightarrow> dispatch_args \<Rightarrow> fs \<Rightarrow> (int \<times> int \<times> dispatch_args \<times> fs) option"
  where "fskit_route_call_mkdir V = fskit_route_call V FSKIT_ROUTE_MATCH_MKDIR"
definition fskit_route_call_mknod ::
    "env \<Rightarrow> string \<Rightarrow> addr option \<Rightarrow> dispatch_args \<Rightarrow> fs \<Rightarrow> (int \<times> int \<times> dispatch_args \<times> fs) option"
  where "fskit_route_call_mknod V = fskit_route_call V FSKIT_ROUTE_MATCH_MKNOD"
definition fskit_route_call_open ::
    "env \<Rightarrow> string \<Rightarrow> addr option \<Rightarrow> dispatch_args \<Rightarrow> fs \<Rightarrow> (int \<times> int \<times> dispatch_args \<times> fs) option"
  where "fskit_route_call_open V = fskit_route_call V FSKIT_ROUTE_MATCH_OPEN"
definition fskit_route_call_readdir ::
    "env \<Rightarrow> string \<Rightarrow> addr option \<Rightarrow> dispatch_args \<Rightarrow> fs \<Rightarrow> (int \<times> int \<times> dispatch_args \<times> fs) option"
  where "fskit_route_call_readdir V = fskit_route_call V FSKIT_ROUTE_MATCH_READDIR"
definition fskit_route_call_read ::
    "env \<Rightarrow> string \<Rightarrow> addr option \<Rightarrow> dispatch_args \<Rightarrow> fs \<Rightarrow> (int \<times> int \<times> dispatch_args \<times> fs) option"
  where "fskit_route_call_read V = fskit_route_call V FSKIT_ROUTE_MATCH_READ"
definition fskit_route_call_write ::
    "env \<Rightarrow> string \<Rightarrow> addr option \<Rightarrow> dispatch_args \<Rightarrow> fs \<Rightarrow> (int \<times> int \<times> dispatch_args \<times> fs) option"
  where "fskit_route_call_write V = fskit_route_call V FSKIT_ROUTE_MATCH_WRITE"
definition fskit_route_call_trunc ::
    "env \<Rightarrow> string \<Rightarrow> addr option \<Rightarrow> dispatch_args \<Rightarrow> fs \<Rightarrow> (int \<times> int \<times> dispatch_args \<times> fs) option"
  where "fskit_route_call_trunc V = fskit_route_call V FSKIT_ROUTE_MATCH_TRUNC"
definition fskit_route_call_close ::
    "env \<Rightarrow> string \<Rightarrow> addr option \<Rightarrow> dispatch_args \<Rightarrow> fs \<Rightarrow> (int \<times> int \<times> dispatch_args \<times> fs) option"
  where "fskit_route_call_close V = fskit_route_call V FSKIT_ROUTE_MATCH_CLOSE"
definition fskit_route_call_detach ::
    "env \<Rightarrow> string \<Rightarrow> addr option \<Rightarrow> dispatch_args \<Rightarrow> fs \<Rightarrow> (int \<times> int \<times> dispatch_args \<times> fs) option"
  where "fskit_route_call_detach V = fskit_route_call V FSKIT_ROUTE_MATCH_DETACH"
definition fskit_route_call_stat ::
    "env \<Rightarrow> string \<Rightarrow> addr option \<Rightarrow> dispatch_args \<Rightarrow> fs \<Rightarrow> (int \<times> int \<times> dispatch_args \<times> fs) option"
  where "fskit_route_call_stat V = fskit_route_call V FSKIT_ROUTE_MATCH_STAT"
definition fskit_route_call_sync ::
    "env \<Rightarrow> string \<Rightarrow> addr option \<Rightarrow> dispatch_args \<Rightarrow> fs \<Rightarrow> (int \<times> int \<times> dispatch_args \<times> fs) option"
  where "fskit_route_call_sync V = fskit_route_call V FSKIT_ROUTE_MATCH_SYNC"
definition fskit_route_call_rename ::
    "env \<Rightarrow> string \<Rightarrow> addr option \<Rightarrow> dispatch_args \<Rightarrow> fs \<Rightarrow> (int \<times> int \<times> dispatch_args \<times> fs) option"
  where "fskit_route_call_rename V = fskit_route_call V FSKIT_ROUTE_MATCH_RENAME"
definition fskit_route_call_link ::
    "env \<Rightarrow> string \<Rightarrow> addr option \<Rightarrow> dispatch_args \<Rightarrow> fs \<Rightarrow> (int \<times> int \<times> dispatch_args \<times> fs) option"
  where "fskit_route_call_link V = fskit_route_call V FSKIT_ROUTE_MATCH_LINK"
definition fskit_route_call_destroy ::
    "env \<Rightarrow> string \<Rightarrow> addr option \<Rightarrow> dispatch_args \<Rightarrow> fs \<Rightarrow> (int \<times> int \<times> dispatch_args \<times> fs) option"
  where "fskit_route_call_destroy V = fskit_route_call V FSKIT_ROUTE_MATCH_DESTROY"
definition fskit_route_call_getxattr ::
    "env \<Rightarrow> string \<Rightarrow> addr option \<Rightarrow> dispatch_args \<Rightarrow> fs \<Rightarrow> (int \<times> int \<times> dispatch_args \<times> fs) option"
  where "fskit_route_call_getxattr V = fskit_route_call V FSKIT_ROUTE_MATCH_GETXATTR"
definition fskit_route_call_listxattr ::
    "env \<Rightarrow> string \<Rightarrow> addr option \<Rightarrow> dispatch_args \<Rightarrow> fs \<Rightarrow> (int \<times> int \<times> dispatch_args \<times> fs) option"
  where "fskit_route_call_listxattr V = fskit_route_call V FSKIT_ROUTE_MATCH_LISTXATTR"
definition fskit_route_call_setxattr ::
    "env \<Rightarrow> string \<Rightarrow> addr option \<Rightarrow> dispatch_args \<Rightarrow> fs \<Rightarrow> (int \<times> int \<times> dispatch_args \<times> fs) option"
  where "fskit_route_call_setxattr V = fskit_route_call V FSKIT_ROUTE_MATCH_SETXATTR"
definition fskit_route_call_removexattr ::
    "env \<Rightarrow> string \<Rightarrow> addr option \<Rightarrow> dispatch_args \<Rightarrow> fs \<Rightarrow> (int \<times> int \<times> dispatch_args \<times> fs) option"
  where "fskit_route_call_removexattr V = fskit_route_call V FSKIT_ROUTE_MATCH_REMOVEXATTR"
definition fskit_route_call_setmetadata ::
    "env \<Rightarrow> string \<Rightarrow> addr option \<Rightarrow> dispatch_args \<Rightarrow> fs \<Rightarrow> (int \<times> int \<times> dispatch_args \<times> fs) option"
  where "fskit_route_call_setmetadata V = fskit_route_call V FSKIT_ROUTE_MATCH_SETMETADATA"

lemmas route_call_defs =
  fskit_route_call_create_def fskit_route_call_mkdir_def fskit_route_call_mknod_def
  fskit_route_call_open_def fskit_route_call_readdir_def fskit_route_call_read_def
  fskit_route_call_write_def fskit_route_call_trunc_def fskit_route_call_close_def
  fskit_route_call_detach_def fskit_route_call_stat_def fskit_route_call_sync_def
  fskit_route_call_rename_def fskit_route_call_link_def fskit_route_call_destroy_def
  fskit_route_call_getxattr_def fskit_route_call_listxattr_def
  fskit_route_call_setxattr_def fskit_route_call_removexattr_def
  fskit_route_call_setmetadata_def

subsection \<open>Declaring and removing routes\<close>

definition fskit_path_route_init ::
    "env \<Rightarrow> string \<Rightarrow> int \<Rightarrow> int \<Rightarrow> nat option \<Rightarrow> path_route option \<times> int" where
  "fskit_path_route_init V regex_str discipline route_type method =
     (if \<not> ev_regcomp V regex_str then (None, - EINVAL)
      else if \<not> mem_ok V ''fskit_path_route_init'' then (None, - ENOMEM)
      else (Some \<lparr>pr_regex_str = Some regex_str, pr_num_expected = fskit_num_expected_matches regex_str,
                  pr_discipline = discipline, pr_type = route_type, pr_method = method\<rparr>, 0))"

definition fskit_path_route_decl ::
    "env \<Rightarrow> string \<Rightarrow> int \<Rightarrow> nat option \<Rightarrow> int \<Rightarrow> fs \<Rightarrow> (int \<times> fs) option" where
  "fskit_path_route_decl V route_regex route_type method discipline s =
     (if \<not> mem_ok V ''fskit_path_route_decl'' then Some (- ENOMEM, s)
      else case fskit_path_route_init V route_regex discipline route_type method of
        (None, rc) \<Rightarrow> Some (rc, s)
      | (Some route, rc) \<Rightarrow>
          (case fskit_route_table_insert V (routes s) route_type route of
             None \<Rightarrow> None
           | Some (tbl, rc) \<Rightarrow> Some (rc, s\<lparr>routes := tbl\<rparr>)))"

definition fskit_path_route_undecl :: "int \<Rightarrow> int \<Rightarrow> fs \<Rightarrow> (int \<times> fs) option" where
  "fskit_path_route_undecl route_type route_handle s =
     (case fskit_route_table_remove (routes s) route_type route_handle of
        None \<Rightarrow> None
      | Some (tbl, route) \<Rightarrow> Some (if route = None then - EINVAL else 0, s\<lparr>routes := tbl\<rparr>))"

definition fskit_route_create :: "env \<Rightarrow> string \<Rightarrow> nat option \<Rightarrow> int \<Rightarrow> fs \<Rightarrow> (int \<times> fs) option"
  where "fskit_route_create V re cb discipline = fskit_path_route_decl V re FSKIT_ROUTE_MATCH_CREATE cb discipline"
definition fskit_unroute_create :: "int \<Rightarrow> fs \<Rightarrow> (int \<times> fs) option"
  where "fskit_unroute_create = fskit_path_route_undecl FSKIT_ROUTE_MATCH_CREATE"
definition fskit_route_mkdir :: "env \<Rightarrow> string \<Rightarrow> nat option \<Rightarrow> int \<Rightarrow> fs \<Rightarrow> (int \<times> fs) option"
  where "fskit_route_mkdir V re cb discipline = fskit_path_route_decl V re FSKIT_ROUTE_MATCH_MKDIR cb discipline"
definition fskit_unroute_mkdir :: "int \<Rightarrow> fs \<Rightarrow> (int \<times> fs) option"
  where "fskit_unroute_mkdir = fskit_path_route_undecl FSKIT_ROUTE_MATCH_MKDIR"
definition fskit_route_mknod :: "env \<Rightarrow> string \<Rightarrow> nat option \<Rightarrow> int \<Rightarrow> fs \<Rightarrow> (int \<times> fs) option"
  where "fskit_route_mknod V re cb discipline = fskit_path_route_decl V re FSKIT_ROUTE_MATCH_MKNOD cb discipline"
definition fskit_unroute_mknod :: "int \<Rightarrow> fs \<Rightarrow> (int \<times> fs) option"
  where "fskit_unroute_mknod = fskit_path_route_undecl FSKIT_ROUTE_MATCH_MKNOD"
definition fskit_route_open :: "env \<Rightarrow> string \<Rightarrow> nat option \<Rightarrow> int \<Rightarrow> fs \<Rightarrow> (int \<times> fs) option"
  where "fskit_route_open V re cb discipline = fskit_path_route_decl V re FSKIT_ROUTE_MATCH_OPEN cb discipline"
definition fskit_unroute_open :: "int \<Rightarrow> fs \<Rightarrow> (int \<times> fs) option"
  where "fskit_unroute_open = fskit_path_route_undecl FSKIT_ROUTE_MATCH_OPEN"
definition fskit_route_readdir :: "env \<Rightarrow> string \<Rightarrow> nat option \<Rightarrow> int \<Rightarrow> fs \<Rightarrow> (int \<times> fs) option"
  where "fskit_route_readdir V re cb discipline = fskit_path_route_decl V re FSKIT_ROUTE_MATCH_READDIR cb discipline"
definition fskit_unroute_readdir :: "int \<Rightarrow> fs \<Rightarrow> (int \<times> fs) option"
  where "fskit_unroute_readdir = fskit_path_route_undecl FSKIT_ROUTE_MATCH_READDIR"
definition fskit_route_read :: "env \<Rightarrow> string \<Rightarrow> nat option \<Rightarrow> int \<Rightarrow> fs \<Rightarrow> (int \<times> fs) option"
  where "fskit_route_read V re cb discipline = fskit_path_route_decl V re FSKIT_ROUTE_MATCH_READ cb discipline"
definition fskit_unroute_read :: "int \<Rightarrow> fs \<Rightarrow> (int \<times> fs) option"
  where "fskit_unroute_read = fskit_path_route_undecl FSKIT_ROUTE_MATCH_READ"
definition fskit_route_write :: "env \<Rightarrow> string \<Rightarrow> nat option \<Rightarrow> int \<Rightarrow> fs \<Rightarrow> (int \<times> fs) option"
  where "fskit_route_write V re cb discipline = fskit_path_route_decl V re FSKIT_ROUTE_MATCH_WRITE cb discipline"
definition fskit_unroute_write :: "int \<Rightarrow> fs \<Rightarrow> (int \<times> fs) option"
  where "fskit_unroute_write = fskit_path_route_undecl FSKIT_ROUTE_MATCH_WRITE"
definition fskit_route_trunc :: "env \<Rightarrow> string \<Rightarrow> nat option \<Rightarrow> int \<Rightarrow> fs \<Rightarrow> (int \<times> fs) option"
  where "fskit_route_trunc V re cb discipline = fskit_path_route_decl V re FSKIT_ROUTE_MATCH_TRUNC cb discipline"
definition fskit_unroute_trunc :: "int \<Rightarrow> fs \<Rightarrow> (int \<times> fs) option"
  where "fskit_unroute_trunc = fskit_path_route_undecl FSKIT_ROUTE_MATCH_TRUNC"
definition fskit_route_close :: "env \<Rightarrow> string \<Rightarrow> nat option \<Rightarrow> int \<Rightarrow> fs \<Rightarrow> (int \<times> fs) option"
  where "fskit_route_close V re cb discipline = fskit_path_route_decl V re FSKIT_ROUTE_MATCH_CLOSE cb discipline"
definition fskit_unroute_close :: "int \<Rightarrow> fs \<Rightarrow> (int \<times> fs) option"
  where "fskit_unroute_close = fskit_path_route_undecl FSKIT_ROUTE_MATCH_CLOSE"
definition fskit_route_detach :: "env \<Rightarrow> string \<Rightarrow> nat option \<Rightarrow> int \<Rightarrow> fs \<Rightarrow> (int \<times> fs) option"
  where "fskit_route_detach V re cb discipline = fskit_path_route_decl V re FSKIT_ROUTE_MATCH_DETACH cb discipline"
definition fskit_unroute_detach :: "int \<Rightarrow> fs \<Rightarrow> (int \<times> fs) option"
  where "fskit_unroute_detach = fskit_path_route_undecl FSKIT_ROUTE_MATCH_DETACH"
definition fskit_route_stat :: "env \<Rightarrow> string \<Rightarrow> nat option \<Rightarrow> int \<Rightarrow> fs \<Rightarrow> (int \<times> fs) option"
  where "fskit_route_stat V re cb discipline = fskit_path_route_decl V re FSKIT_ROUTE_MATCH_STAT cb discipline"
definition fskit_unroute_stat :: "int \<Rightarrow> fs \<Rightarrow> (int \<times> fs) option"
  where "fskit_unroute_stat = fskit_path_route_undecl FSKIT_ROUTE_MATCH_STAT"
definition fskit_route_sync :: "env \<Rightarrow> string \<Rightarrow> nat option \<Rightarrow> int \<Rightarrow> fs \<Rightarrow> (int \<times> fs) option"
  where "fskit_route_sync V re cb discipline = fskit_path_route_decl V re FSKIT_ROUTE_MATCH_SYNC cb discipline"
definition fskit_unroute_sync :: "int \<Rightarrow> fs \<Rightarrow> (int \<times> fs) option"
  where "fskit_unroute_sync = fskit_path_route_undecl FSKIT_ROUTE_MATCH_SYNC"
definition fskit_route_rename :: "env \<Rightarrow> string \<Rightarrow> nat option \<Rightarrow> int \<Rightarrow> fs \<Rightarrow> (int \<times> fs) option" where
  "fskit_route_rename V re cb discipline s =
     (if discipline \<noteq> FSKIT_CONCURRENT \<and> discipline \<noteq> FSKIT_SEQUENTIAL then Some (- EINVAL, s)
      else fskit_path_route_decl V re FSKIT_ROUTE_MATCH_RENAME cb discipline s)"
definition fskit_unroute_rename :: "int \<Rightarrow> fs \<Rightarrow> (int \<times> fs) option"
  where "fskit_unroute_rename = fskit_path_route_undecl FSKIT_ROUTE_MATCH_RENAME"
definition fskit_route_link :: "env \<Rightarrow> string \<Rightarrow> nat option \<Rightarrow> int \<Rightarrow> fs \<Rightarrow> (int \<times> fs) option"
  where "fskit_route_link V re cb discipline = fskit_path_route_decl V re FSKIT_ROUTE_MATCH_LINK cb discipline"
definition fskit_unroute_link :: "int \<Rightarrow> fs \<Rightarrow> (int \<times> fs) option"
  where "fskit_unroute_link = fskit_path_route_undecl FSKIT_ROUTE_MATCH_LINK"
definition fskit_route_destroy :: "env \<Rightarrow> string \<Rightarrow> nat option \<Rightarrow> int \<Rightarrow> fs \<Rightarrow> (int \<times> fs) option"
  where "fskit_route_destroy V re cb discipline = fskit_path_route_decl V re FSKIT_ROUTE_MATCH_DESTROY cb discipline"
definition fskit_unroute_destroy :: "int \<Rightarrow> fs \<Rightarrow> (int \<times> fs) option"
  where "fskit_unroute_destroy = fskit_path_route_undecl FSKIT_ROUTE_MATCH_DESTROY"
definition fskit_route_getxattr :: "env \<Rightarrow> string \<Rightarrow> nat option \<Rightarrow> int \<Rightarrow> fs \<Rightarrow> (int \<times> fs) option"
  where "fskit_route_getxattr V re cb discipline = fskit_path_route_decl V re FSKIT_ROUTE_MATCH_GETXATTR cb discipline"
definition fskit_unroute_getxattr :: "int \<Rightarrow> fs \<Rightarrow> (int \<times> fs) option"
  where "fskit_unroute_getxattr = fskit_path_route_undecl FSKIT_ROUTE_MATCH_GETXATTR"
definition fskit_route_listxattr :: "env \<Rightarrow> string \<Rightarrow> nat option \<Rightarrow> int \<Rightarrow> fs \<Rightarrow> (int \<times> fs) option"
  where "fskit_route_listxattr V re cb discipline = fskit_path_route_decl V re FSKIT_ROUTE_MATCH_LISTXATTR cb discipline"
definition fskit_unroute_listxattr :: "int \<Rightarrow> fs \<Rightarrow> (int \<times> fs) option"
  where "fskit_unroute_listxattr = fskit_path_route_undecl FSKIT_ROUTE_MATCH_LISTXATTR"
definition fskit_route_setxattr :: "env \<Rightarrow> string \<Rightarrow> nat option \<Rightarrow> int \<Rightarrow> fs \<Rightarrow> (int \<times> fs) option"
  where "fskit_route_setxattr V re cb discipline = fskit_path_route_decl V re FSKIT_ROUTE_MATCH_SETXATTR cb discipline"
definition fskit_unroute_setxattr :: "int \<Rightarrow> fs \<Rightarrow> (int \<times> fs) option"
  where "fskit_unroute_setxattr = fskit_path_route_undecl FSKIT_ROUTE_MATCH_SETXATTR"
definition fskit_route_removexattr :: "env \<Rightarrow> string \<Rightarrow> nat option \<Rightarrow> int \<Rightarrow> fs \<Rightarrow> (int \<times> fs) option"
  where "fskit_route_removexattr V re cb discipline = fskit_path_route_decl V re FSKIT_ROUTE_MATCH_REMOVEXATTR cb discipline"
definition fskit_unroute_removexattr :: "int \<Rightarrow> fs \<Rightarrow> (int \<times> fs) option"
  where "fskit_unroute_removexattr = fskit_path_route_undecl FSKIT_ROUTE_MATCH_REMOVEXATTR"
definition fskit_route_setmetadata :: "env \<Rightarrow> string \<Rightarrow> nat option \<Rightarrow> int \<Rightarrow> fs \<Rightarrow> (int \<times> fs) option" where
  "fskit_route_setmetadata V re cb discipline s =
     (if discipline \<noteq> FSKIT_INODE_SEQUENTIAL then Some (- EINVAL, s)
      else fskit_path_route_decl V re FSKIT_ROUTE_MATCH_SETMETADATA cb discipline s)"
definition fskit_unroute_setmetadata :: "int \<Rightarrow> fs \<Rightarrow> (int \<times> fs) option"
  where "fskit_unroute_setmetadata = fskit_path_route_undecl FSKIT_ROUTE_MATCH_SETMETADATA"

fun erase_types :: "nat \<Rightarrow> nat \<Rightarrow> route_table \<Rightarrow> route_table" where
  "erase_types i 0 tbl = tbl"
| "erase_types i (Suc n) tbl = erase_types (i + 1) n (fst (fskit_path_route_erase_all tbl (int i)))"

definition fskit_unroute_all :: "fs \<Rightarrow> int \<times> fs" where
  "fskit_unroute_all s = (0, s\<lparr>routes := erase_types 0 FSKIT_ROUTE_NUM_ROUTE_TYPES (routes s)\<rparr>)"

subsection \<open>Dispatch arguments\<close>

definition zero_stat :: stat_buf where
  "zero_stat = \<lparr>st_ino = 0, st_mode = 0, st_nlink = 0, st_uid = 0, st_gid = 0, st_rdev = 0, st_size = 0,
     st_atim = (0, 0), st_mtim = (0, 0), st_ctim = (0, 0)\<rparr>"

definition zero_args :: dispatch_args where
  "zero_args = \<lparr>da_flags = 0, da_mode = 0, da_dev = 0, da_inode_data = 0, da_handle_data = 0,
     da_iobuf = [], da_iolen = 0, da_iooff = 0, da_io_cont = None, da_dents = [], da_num_dents = 0,
     da_name = None, da_sb = zero_stat, da_fent_absent = False, da_parent = None, da_new_parent = None,
     da_dest = None, da_new_path = None, da_garbage_collect = False, da_renamed = False,
     da_xattr_name = None, da_xattr_value = None, da_xattr_buf = [], da_xattr_buf_len = 0,
     da_xattr_flags = 0, da_cls = 0, da_imd = fskit_inode_metadata_new\<rparr>"

definition fskit_route_create_args :: "addr option \<Rightarrow> string \<Rightarrow> u32 \<Rightarrow> nat \<Rightarrow> dispatch_args" where
  "fskit_route_create_args parent name mode cls =
     zero_args\<lparr>da_name := Some name, da_parent := parent, da_mode := mode, da_cls := cls\<rparr>"
definition fskit_route_mknod_args :: "addr option \<Rightarrow> string \<Rightarrow> u32 \<Rightarrow> u64 \<Rightarrow> nat \<Rightarrow> dispatch_args" where
  "fskit_route_mknod_args parent name mode d cls =
     zero_args\<lparr>da_name := Some name, da_parent := parent, da_mode := mode, da_dev := d, da_cls
       := cls\<rparr>"
definition fskit_route_mkdir_args :: "addr option \<Rightarrow> string \<Rightarrow> u32 \<Rightarrow> nat \<Rightarrow> dispatch_args" where
  "fskit_route_mkdir_args parent name mode cls =
     zero_args\<lparr>da_name := Some name, da_parent := parent, da_mode := mode, da_cls := cls\<rparr>"
definition fskit_route_open_args :: "string \<Rightarrow> nat \<Rightarrow> dispatch_args" where
  "fskit_route_open_args name flags =
     zero_args\<lparr>da_name := Some name, da_flags := flags\<rparr>"
definition fskit_route_close_args :: "nat \<Rightarrow> dispatch_args" where
  "fskit_route_close_args handle_data =
     zero_args\<lparr>da_handle_data := handle_data\<rparr>"
definition fskit_route_readdir_args :: "string \<Rightarrow> dir_entry option list \<Rightarrow> nat \<Rightarrow> dispatch_args" where
  "fskit_route_readdir_args name dents num =
     zero_args\<lparr>da_name := Some name, da_dents := dents, da_num_dents := num\<rparr>"
definition fskit_route_io_args :: "string \<Rightarrow> nat \<Rightarrow> int \<Rightarrow> nat \<Rightarrow> io_continuation option \<Rightarrow> dispatch_args" where
  "fskit_route_io_args iobuf iolen iooff handle_data io_cont =
     zero_args\<lparr>da_iobuf := iobuf, da_iolen := iolen, da_iooff := iooff, da_handle_data :=
       handle_data, da_io_cont := io_cont\<rparr>"
definition fskit_route_trunc_args :: "string \<Rightarrow> int \<Rightarrow> nat \<Rightarrow> io_continuation option \<Rightarrow> dispatch_args" where
  "fskit_route_trunc_args name iooff handle_data io_cont =
     zero_args\<lparr>da_name := Some name, da_iooff := iooff, da_handle_data := handle_data,
       da_io_cont := io_cont\<rparr>"
definition fskit_route_detach_args :: "addr option \<Rightarrow> string \<Rightarrow> bool \<Rightarrow> bool \<Rightarrow> nat \<Rightarrow> dispatch_args" where
  "fskit_route_detach_args parent name gc renamed inode_data =
     zero_args\<lparr>da_name := Some name, da_parent := parent, da_garbage_collect := gc, da_renamed
       := renamed, da_inode_data := inode_data\<rparr>"
definition fskit_route_destroy_args :: "addr option \<Rightarrow> string \<Rightarrow> bool \<Rightarrow> nat \<Rightarrow> dispatch_args" where
  "fskit_route_destroy_args parent name renamed inode_data =
     zero_args\<lparr>da_name := Some name, da_parent := parent, da_inode_data := inode_data,
       da_renamed := renamed\<rparr>"
definition fskit_route_stat_args :: "string \<Rightarrow> stat_buf \<Rightarrow> bool \<Rightarrow> dispatch_args" where
  "fskit_route_stat_args name sb absent =
     zero_args\<lparr>da_name := Some name, da_sb := sb, da_fent_absent := absent\<rparr>"
definition fskit_route_rename_args :: "addr option \<Rightarrow> string \<Rightarrow> string \<Rightarrow> addr option \<Rightarrow> addr option \<Rightarrow> dispatch_args" where
  "fskit_route_rename_args old_parent old_name new_path new_parent dest =
     zero_args\<lparr>da_name := Some old_name, da_parent := old_parent, da_new_path := Some new_path,
       da_dest := dest, da_new_parent := new_parent\<rparr>"
definition fskit_route_link_args :: "string \<Rightarrow> string \<Rightarrow> addr option \<Rightarrow> dispatch_args" where
  "fskit_route_link_args name new_path new_parent =
     zero_args\<lparr>da_name := Some name, da_new_parent := new_parent, da_new_path := Some new_path\<rparr>"
definition fskit_route_getxattr_args :: "string \<Rightarrow> string \<Rightarrow> nat \<Rightarrow> dispatch_args" where
  "fskit_route_getxattr_args xattr_name buf len =
     zero_args\<lparr>da_xattr_name := Some xattr_name, da_xattr_buf := buf, da_xattr_buf_len := len\<rparr>"
definition fskit_route_setxattr_args :: "string \<Rightarrow> string \<Rightarrow> nat \<Rightarrow> dispatch_args" where
  "fskit_route_setxattr_args xattr_name value flags =
     zero_args\<lparr>da_xattr_name := Some xattr_name, da_xattr_value := Some value, da_xattr_flags
       := flags\<rparr>"
definition fskit_route_listxattr_args :: "string \<Rightarrow> nat \<Rightarrow> dispatch_args" where
  "fskit_route_listxattr_args buf len =
     zero_args\<lparr>da_xattr_buf := buf, da_xattr_buf_len := len\<rparr>"
definition fskit_route_removexattr_args :: "string \<Rightarrow> dispatch_args" where
  "fskit_route_removexattr_args xattr_name =
     zero_args\<lparr>da_xattr_name := Some xattr_name\<rparr>"
definition fskit_route_setmetadata_args :: "inode_metadata \<Rightarrow> dispatch_args" where
  "fskit_route_setmetadata_args imd =
     zero_args\<lparr>da_imd := imd\<rparr>"
definition fskit_route_sync_args :: dispatch_args where
  "fskit_route_sync_args = zero_args"

subsection \<open>What a call changes\<close>

text \<open>
  A call without a continuation only extends the trace; one with a continuation touches an inode's
  times and size. \<open>attr_norm\<close> forgets those three.
\<close>

definition attr_norm :: "entry \<Rightarrow> entry" where
  "attr_norm e = e\<lparr>mtime := (0, 0), atime := (0, 0), fsize := 0\<rparr>"

lemma attr_norm_simps [simp]:
  "attr_norm (e\<lparr>mtime := x\<rparr>) = attr_norm e" "attr_norm (e\<lparr>atime := x\<rparr>) = attr_norm e"
  "attr_norm (e\<lparr>fsize := y\<rparr>) = attr_norm e"
  "children (attr_norm e) = children e" "link_count (attr_norm e) = link_count e"
  "open_count (attr_norm e) = open_count e" "etype (attr_norm e) = etype e"
  "deletion_in_progress (attr_norm e) = deletion_in_progress e"
  "num_children (attr_norm e) = num_children e" "file_id (attr_norm e) = file_id e"
  by (simp_all add: attr_norm_def)

lemma attr_normD:
  assumes "attr_norm e' = attr_norm e"
  shows "children e' = children e" "link_count e' = link_count e" "open_count e' = open_count e"
    "etype e' = etype e" "deletion_in_progress e' = deletion_in_progress e"
    "num_children e' = num_children e" "file_id e' = file_id e"
  using assms attr_norm_simps(4-10) by metis+

definition attr_frame :: "fs \<Rightarrow> fs \<Rightarrow> bool" where
  "attr_frame s s' =
     ((\<forall>a. map_option attr_norm (heap s' a) = map_option attr_norm (heap s a)) \<and> brk s' = brk s \<and>
      fhs s' = fhs s \<and> dhs s' = dhs s \<and> hbrk s' = hbrk s \<and> routes s' = routes s \<and>
      app_fs_data s' = app_fs_data s)"

lemma attr_frame_refl [simp]: "attr_frame s s"
  by (simp add: attr_frame_def)

lemma attr_frame_trace [simp]: "attr_frame s (s\<lparr>trace := t\<rparr>)"
  by (simp add: attr_frame_def)

lemma attr_frame_trans: "attr_frame s t \<Longrightarrow> attr_frame t u \<Longrightarrow> attr_frame s u"
  by (simp add: attr_frame_def)

lemma attr_frame_upd:
  "upd a f s = Some s' \<Longrightarrow> (\<And>e. attr_norm (f e) = attr_norm e) \<Longrightarrow> attr_frame s s'"
  by (auto simp: upd_Some attr_frame_def)

lemma attr_frame_Some:
  assumes "attr_frame s s'" and "heap s a = Some e"
  obtains e' where "heap s' a = Some e'" and "attr_norm e' = attr_norm e"
proof -
  have "map_option attr_norm (heap s' a) = Some (attr_norm e)"
    using assms by (simp add: attr_frame_def)
  then show ?thesis using that by auto
qed

lemma attr_frame_dom: "attr_frame s s' \<Longrightarrow> dom (heap s') = dom (heap s)"
  unfolding attr_frame_def dom_def by (metis option.map_disc_iff)

lemma attr_frame_inv:
  assumes F: "attr_frame s s'" and I: "rinv L R s"
  shows "rinv L R s'"
proof -
  have d: "dom (heap s') = dom (heap s)" "brk s' = brk s" "fhs s' = fhs s" "dhs s' = dhs s" "hbrk s' = hbrk s"
    using F attr_frame_dom [OF F] by (simp_all add: attr_frame_def)
  have "lnk s' b = lnk s b" for b
    unfolding lnk_def d(1)
  proof (rule sum.cong)
    fix a assume "a \<in> dom (heap s)"
    then obtain e e' where "heap s a = Some e" "heap s' a = Some e'" "attr_norm e' = attr_norm e"
      using attr_frame_Some [OF F] by blast
    then show "count (links_of a (the (heap s' a))) b = count (links_of a (the (heap s a))) b"
      using attr_normD(1) [of e' e] by (simp add: links_of_def)
  qed simp
  then have e: "ldem L s' b = ldem L s b" "odem R s' b = odem R s b" for b
    by (simp_all add: ldem_def odem_def fh_refs_def dh_refs_def d)
  have "refs_ok L R s' b" for b
  proof (cases "heap s b")
    case None
    then have "heap s' b = None" using d(1) by (metis domIff)
    then show ?thesis using inv_refs [OF I, of b] None e by (simp add: refs_ok_def)
  next
    case (Some x)
    then obtain x' where "heap s' b = Some x'" "attr_norm x' = attr_norm x"
      by (rule attr_frame_Some [OF F])
    then show ?thesis using inv_refs [OF I, of b] Some e attr_normD(2,3) [of x' x]
      by (simp add: refs_ok_def)
  qed
  then show ?thesis using I by (simp add: rinv_def d)
qed

lemma attr_norm_set_times [simp]:
  "attr_norm (fst (fskit_entry_set_mtime V now e)) = attr_norm e"
  "attr_norm (fst (fskit_entry_set_atime V now e)) = attr_norm e"
  by (auto simp: fskit_entry_set_mtime_def fskit_entry_set_atime_def split: option.split)

lemma io_cont_frame: "run_io_cont V k fent off rc s = Some s' \<Longrightarrow> attr_frame s s'"
  by (auto simp: run_io_cont_def fskit_write_cont_def fskit_trunc_cont_def Let_def
      split: option.splits io_continuation.splits if_splits elim!: attr_frame_upd)

lemma safe_dispatch_trace:
  "fskit_safe_dispatch V rm route fent da s = (rc, da', s') \<Longrightarrow>
    \<exists>t. s' = s\<lparr>trace := t\<rparr>"
  by (auto simp: fskit_safe_dispatch_def split: option.splits prod.splits
      intro: exI [of _ "trace s"])

lemma dispatch_frame:
  assumes "fskit_route_dispatch V rm route fent da s = Some (rc, da', s')"
  shows "attr_frame s s'"
proof -
  obtain rc1 da1 s1 where d: "fskit_safe_dispatch V rm route fent da s = (rc1, da1, s1)"
    by (metis prod_cases3)
  then have "attr_frame s s1" using safe_dispatch_trace attr_frame_trace by metis
  then show ?thesis
    using assms d by (auto simp: fskit_route_dispatch_def bind_eq_Some split: if_splits
        dest!: io_cont_frame elim: attr_frame_trans)
qed

lemma dispatch_no_cont:
  assumes "fskit_route_dispatch V rm route fent da s = Some (rc, da', s')" and "da_io_cont da = None"
  shows "\<exists>t. s' = s\<lparr>trace := t\<rparr>"
proof -
  obtain rc1 da1 s1 where d: "fskit_safe_dispatch V rm route fent da s = (rc1, da1, s1)"
    by (metis prod_cases3)
  then show ?thesis
    using assms safe_dispatch_trace [OF d]
    by (auto simp: fskit_route_dispatch_def run_io_cont_def bind_eq_Some split: if_splits
        intro: exI [of _ "trace s"])
qed

lemma route_call_frame:
  "fskit_route_call V t path fent da s = Some (rc, cbrc, da', s') \<Longrightarrow> attr_frame s s'"
  by (auto simp: fskit_route_call_def bind_eq_Some split: option.splits prod.splits if_splits
      dest: dispatch_frame)

lemma route_call_no_cont:
  "fskit_route_call V t path fent da s = Some (rc, cbrc, da', s') \<Longrightarrow> da_io_cont da = None \<Longrightarrow>
    \<exists>tr. s' = s\<lparr>trace := tr\<rparr>"
  by (auto simp: fskit_route_call_def bind_eq_Some split: option.splits prod.splits if_splits
      dest: dispatch_no_cont intro: exI [of _ "trace s"])

lemma route_call_rc:
  "fskit_route_call V t path fent da s = Some (rc, cbrc, da', s') \<Longrightarrow> rc = 0 \<or> (rc = - EPERM \<and> cbrc = 0 \<and> da' = da \<and> s' = s)"
  by (auto simp: fskit_route_call_def bind_eq_Some split: option.splits prod.splits if_splits)

lemma no_io_cont [simp]:
  "da_io_cont (fskit_route_create_args p n m c) = None" "da_io_cont (fskit_route_mknod_args p n m d c) = None"
  "da_io_cont (fskit_route_mkdir_args p n m c) = None" "da_io_cont (fskit_route_open_args n fl) = None"
  "da_io_cont (fskit_route_close_args h) = None" "da_io_cont (fskit_route_readdir_args n ds nd) = None"
  "da_io_cont (fskit_route_detach_args p n g r i) = None" "da_io_cont (fskit_route_destroy_args p n r i) = None"
  "da_io_cont (fskit_route_stat_args n sb ab) = None" "da_io_cont fskit_route_sync_args = None"
  "da_io_cont (fskit_route_rename_args p n q np de) = None" "da_io_cont (fskit_route_link_args n q np) = None"
  "da_io_cont (fskit_route_getxattr_args n b l) = None" "da_io_cont (fskit_route_setxattr_args n v fl) = None"
  "da_io_cont (fskit_route_listxattr_args b l) = None" "da_io_cont (fskit_route_removexattr_args n) = None"
  "da_io_cont (fskit_route_setmetadata_args im) = None"
  by (simp_all add: fskit_route_create_args_def fskit_route_mknod_args_def fskit_route_mkdir_args_def
      fskit_route_open_args_def fskit_route_close_args_def fskit_route_readdir_args_def
      fskit_route_detach_args_def fskit_route_destroy_args_def fskit_route_stat_args_def
      fskit_route_sync_args_def fskit_route_rename_args_def fskit_route_link_args_def
      fskit_route_getxattr_args_def fskit_route_setxattr_args_def fskit_route_listxattr_args_def
      fskit_route_removexattr_args_def fskit_route_setmetadata_args_def zero_args_def)

subsection \<open>The route table as a map\<close>

text \<open>A vector whose buffer has the size its exponent says, and the invariant of rows and tables.\<close>

definition vec_ok :: "vec \<Rightarrow> bool" where
  "vec_ok v = (v_len v \<le> length (v_buf v) \<and>
     (v_exp v = 0 \<and> v_buf v = [] \<or> length (v_buf v) = 2 ^ v_exp v))"

definition row_ok :: "route_row \<Rightarrow> bool" where
  "row_ok row = (vec_ok (rr_routes row) \<and>
     (\<forall>r. Some r \<in> set (row_slots row) \<longrightarrow> pr_type r = rr_type row \<and> pr_regex_str r \<noteq> None))"

lemma row_ok_code [code]:
  "row_ok row = (vec_ok (rr_routes row) \<and>
     list_all (\<lambda>x. case x of None \<Rightarrow> True | Some r \<Rightarrow> pr_type r = rr_type row \<and> pr_regex_str r \<noteq> None)
       (row_slots row))"
  by (auto simp: row_ok_def list_all_iff split: option.splits)

definition table_ok :: "route_table \<Rightarrow> bool" where
  "table_ok tbl = (sglib_set_ok route_table_cmp rr_type tbl \<and> (\<forall>row\<in>set (inorder tbl). row_ok row))"

definition no_holes :: "route_table \<Rightarrow> bool" where
  "no_holes tbl = (\<forall>row\<in>set (inorder tbl). None \<notin> set (row_slots row))"

lemma table_ok_bst: "table_ok tbl \<Longrightarrow> bst rr_type tbl"
  by (simp add: table_ok_def sglib_set_ok_def)

lemma rr_type_lookup [simp]: "rr_type (rt_lookup_row t) = t"
  by (simp add: rt_lookup_row_def)

lemma get_row_tree_map: "bst rr_type tbl \<Longrightarrow> fskit_route_table_get_row tbl t = tree_map rr_type tbl t"
  by (simp add: fskit_route_table_get_row_def rt.find_member_tree_map)

lemma get_row_in: "fskit_route_table_get_row tbl t = Some row \<Longrightarrow> row \<in> set (inorder tbl) \<and> rr_type row = t"
  unfolding fskit_route_table_get_row_def
  by (drule find_member_in) (auto simp: route_table_cmp_def)

lemma get_row_ok: "table_ok tbl \<Longrightarrow> fskit_route_table_get_row tbl t = Some row \<Longrightarrow> row_ok row \<and> rr_type row = t"
  using get_row_in [of tbl t row] by (simp add: table_ok_def)

lemma set_row_shape:
  assumes "bst rr_type tbl"
  shows "bst rr_type (set_row row tbl)"
    and "tree_map rr_type (set_row row tbl) k =
      map_option (\<lambda>x. if rr_type x = rr_type row then row else x) (tree_map rr_type tbl k)"
  unfolding set_row_def
  by (rule rt.bst_update_member [OF assms], simp)
    (rule rt.tree_map_update_member [OF assms], simp)

lemma get_set_row:
  assumes "bst rr_type tbl" and "fskit_route_table_get_row tbl (rr_type row) \<noteq> None"
  shows "fskit_route_table_get_row (set_row row tbl) t =
    (if t = rr_type row then Some row else fskit_route_table_get_row tbl t)"
proof -
  have k: "tree_map rr_type tbl t = Some x \<Longrightarrow> rr_type x = t" for x
    using tree_map_Some [OF assms(1)] by blast
  show ?thesis
    using assms set_row_shape [OF assms(1)] k
    by (cases "tree_map rr_type tbl t") (auto simp: get_row_tree_map)
qed

lemma set_set_row:
  "bst rr_type tbl \<Longrightarrow> set (inorder (set_row row tbl)) \<subseteq> insert row (set (inorder tbl))"
  by (auto simp: set_row_def rt.inorder_update_member)

lemma table_ok_set_row:
  assumes "table_ok tbl" and "row_ok row"
  shows "table_ok (set_row row tbl)"
proof -
  note B = table_ok_bst [OF assms(1)]
  have "consistency_check route_table_cmp (set_row row tbl)"
    using assms(1) update_member_shape [of route_table_cmp row "\<lambda>_. row" tbl]
      rt.bst_ord_ok [OF set_row_shape(1) [OF B, of row]]
    by (simp add: table_ok_def sglib_set_ok_def consistency_check_iff set_row_def)
  then show ?thesis
    using assms set_set_row [OF B, of row] set_row_shape(1) [OF B]
    by (auto simp: table_ok_def sglib_set_ok_def)
qed

lemma vec_grow_ok: "vec_ok v \<Longrightarrow> mem_ok S ''vector_grow'' \<Longrightarrow>
    \<exists>v'. vec_grow S v = (v', 0) \<and> vec_ok v' \<and> v_len v' = v_len v \<and> 2 * v_exp v' \<ge> 1 \<and>
      take (v_len v) (v_buf v') = take (v_len v) (v_buf v) \<and> v_exp v' = Suc (v_exp v)"
  by (auto simp: vec_grow_def vec_ok_def Let_def)

lemma vec_push_back_ok:
  assumes "vec_ok v" and "mem_ok S ''vector_grow''"
  obtains v' where "vec_push_back S v t = Some (v', 0)" and "vec_ok v'" and "v_len v' = v_len v + 1"
    and "take (v_len v') (v_buf v') = take (v_len v) (v_buf v) @ [t]"
proof -
  obtain u where u: "(if v_len v + 1 \<ge> 2 ^ v_exp v then vec_grow S v else (v, 0)) = (u, 0)"
    and ok: "vec_ok u" "v_len u = v_len v" "take (v_len v) (v_buf u) = take (v_len v) (v_buf v)"
    and cap: "v_len v < length (v_buf u)"
  proof (cases "v_len v + 1 \<ge> 2 ^ v_exp v")
    case True
    obtain v' where v': "vec_grow S v = (v', 0)" "vec_ok v'" "v_len v' = v_len v"
      "take (v_len v) (v_buf v') = take (v_len v) (v_buf v)" "v_exp v' = Suc (v_exp v)"
      using vec_grow_ok [OF assms] by blast
    have "length (v_buf v') = 2 ^ Suc (v_exp v)" using v'(2,5) by (auto simp: vec_ok_def)
    moreover have "v_len v < 2 ^ Suc (v_exp v)"
    proof -
      have "v_len v \<le> 2 ^ v_exp v" using assms(1) by (auto simp: vec_ok_def)
      also have "\<dots> < 2 ^ Suc (v_exp v)" by simp
      finally show ?thesis .
    qed
    ultimately show ?thesis using that v' True by simp
  next
    case False
    then have "length (v_buf v) = 2 ^ v_exp v" using assms(1) by (auto simp: vec_ok_def)
    then show ?thesis using that [of v] False assms(1) by simp
  qed
  let ?v = "u\<lparr>v_buf := (v_buf u)[v_len u := t], v_len := v_len u + 1\<rparr>"
  have "vec_push_back S v t = Some (?v, 0)"
    using u cap ok(2) by (simp add: vec_push_back_def ENOMEM_def)
  moreover have "vec_ok ?v" using ok cap by (auto simp: vec_ok_def)
  moreover have "take (v_len ?v) (v_buf ?v) = take (v_len v) (v_buf v) @ [t]"
    using ok cap by (simp add: take_Suc_conv_app_nth)
  ultimately show ?thesis using that ok(2) by simp
qed

lemma empty_slot_Some: "empty_slot rs = Some i \<Longrightarrow> i < length rs \<and> rs ! i = None"
  by (induction rs arbitrary: i rule: empty_slot.induct) auto

lemma empty_slot_None: "empty_slot rs = None \<longleftrightarrow> None \<notin> set rs"
  by (induction rs rule: empty_slot.induct) auto

lemma row_slots_set:
  "i < length (row_slots row) \<Longrightarrow>
    row_slots (row\<lparr>rr_routes := fst (vec_set (rr_routes row) r i)\<rparr>) = (row_slots row)[i := r]"
  by (auto simp: row_slots_def vec_set_def take_update_swap)

lemma length_row_slots: "vec_ok (rr_routes row) \<Longrightarrow> length (row_slots row) = v_len (rr_routes row)"
  by (simp add: row_slots_def vec_ok_def)

lemma vec_set_ok: "vec_ok v \<Longrightarrow> vec_ok (fst (vec_set v r i)) \<and> v_len (fst (vec_set v r i)) = v_len v"
  by (auto simp: vec_set_def vec_ok_def)

lemma row_at_slots: "vec_ok (rr_routes row) \<Longrightarrow> 0 \<le> i \<Longrightarrow> i < int (v_len (rr_routes row)) \<Longrightarrow>
    row_at row i = Some (row_slots row ! nat i)"
  using less_le_trans [of "nat i" "v_len (rr_routes row)" "length (v_buf (rr_routes row))"]
  by (simp add: row_at_def row_slots_def vec_ok_def nat_less_iff)

text \<open>
  The abstract route table: the route that a type and a handle denote.
\<close>

definition route_of :: "route_table \<Rightarrow> int \<Rightarrow> nat \<Rightarrow> path_route option" where
  "route_of tbl t i =
     (case fskit_route_table_get_row tbl t of
        None \<Rightarrow> None
      | Some row \<Rightarrow> if i < length (row_slots row) then row_slots row ! i else None)"

lemma find_route_of:
  assumes "table_ok tbl" and "0 \<le> i"
  shows "fskit_route_table_find tbl t i = Some (route_of tbl t (nat i))"
proof (cases "fskit_route_table_get_row tbl t")
  case None
  then show ?thesis by (simp add: fskit_route_table_find_def route_of_def)
next
  case (Some row)
  then have "vec_ok (rr_routes row)" using get_row_ok [OF assms(1)] by (simp add: row_ok_def)
  then show ?thesis using Some assms(2) row_at_slots [of row i] length_row_slots [of row]
    by (auto simp: fskit_route_table_find_def route_of_def)
qed

text \<open>Adding an empty row changes nothing in the abstract table.\<close>

lemma add_row_ok:
  assumes "table_ok tbl" and "fskit_route_table_get_row tbl t = None"
    and "fskit_route_table_row_new S t = Some row"
  shows "table_ok (sglib_add route_table_cmp p row tbl)"
    and "fskit_route_table_get_row (sglib_add route_table_cmp p row tbl) k =
      (if k = t then Some row else fskit_route_table_get_row tbl k)"
proof -
  note B = table_ok_bst [OF assms(1)]
  have row: "row = \<lparr>rr_type = t, rr_routes = vec_init\<rparr>"
    using assms(3) by (auto simp: fskit_route_table_row_new_def split: if_splits)
  have n: "rr_type row \<notin> rr_type ` set (inorder tbl)"
    using assms(2) by (simp add: row get_row_tree_map [OF B] tree_map_None)
  have r: "row_ok row" by (simp add: row row_ok_def vec_ok_def vec_init_def row_slots_def)
  have s: "sglib_set_ok route_table_cmp rr_type (sglib_add route_table_cmp p row tbl)"
    using rt.sglib_set_ok_add [of tbl row p] n assms(1) by (simp add: table_ok_def)
  then show "table_ok (sglib_add route_table_cmp p row tbl)"
    using assms(1) r by (auto simp: table_ok_def set_sglib_add)
  show "fskit_route_table_get_row (sglib_add route_table_cmp p row tbl) k =
      (if k = t then Some row else fskit_route_table_get_row tbl k)"
    using s rt.tree_map_add [OF B n, of p] by (simp add: get_row_tree_map B sglib_set_ok_def row)
qed

lemma insert_in_row:
  assumes T: "table_ok tbl" and R: "fskit_route_table_get_row tbl t = Some row"
    and "row_ok row'" and "rr_type row' = t"
    and "i < length (row_slots row')" and "row_slots row' ! i = Some r"
    and "\<And>j. j \<noteq> i \<Longrightarrow> j < length (row_slots row') \<Longrightarrow> j < length (row_slots row) \<and> row_slots row' ! j = row_slots row ! j"
    and "length (row_slots row) \<le> length (row_slots row')"
  shows "table_ok (set_row row' tbl)"
    and "route_of (set_row row' tbl) k j = (if k = t \<and> j = i then Some r else route_of tbl k j)"
proof -
  show "table_ok (set_row row' tbl)" by (rule table_ok_set_row [OF T assms(3)])
  have "fskit_route_table_get_row (set_row row' tbl) k =
      (if k = t then Some row' else fskit_route_table_get_row tbl k)"
    using get_set_row [OF table_ok_bst [OF T], of row' k] assms(4) R by auto
  then show "route_of (set_row row' tbl) k j = (if k = t \<and> j = i then Some r else route_of tbl k j)"
    using R assms(5-8) by (auto simp: route_of_def)
qed

lemma route_insert_effect:
  assumes T: "table_ok tbl" and mem: "mem_ok S ''vector_grow''"
    and r: "pr_type r = t" "pr_regex_str r \<noteq> None"
    and ins: "fskit_route_table_insert S tbl t r = Some (tbl', rc)" and "0 \<le> rc"
  shows "table_ok tbl'"
    and "route_of tbl t (nat rc) = None"
    and "route_of tbl' k j = (if k = t \<and> j = nat rc then Some r else route_of tbl k j)"
proof -
  obtain row tbl1 where T1: "table_ok tbl1" and R1: "fskit_route_table_get_row tbl1 t = Some row"
    and same: "\<And>k j. route_of tbl1 k j = route_of tbl k j"
    and step: "fskit_route_table_insert S tbl t r = (case empty_slot (row_slots row) of
             Some i \<Rightarrow> Some (set_row (row\<lparr>rr_routes := fst (vec_set (rr_routes row) (Some r) i)\<rparr>) tbl1, int i)
           | None \<Rightarrow> (case vec_push_back S (rr_routes row) (Some r) of
                  None \<Rightarrow> None
                | Some (v, rc) \<Rightarrow> Some (set_row (row\<lparr>rr_routes := v\<rparr>) tbl1,
                    if rc < 0 then - ENOMEM else int (v_len v) - 1)))"
  proof (cases "fskit_route_table_get_row tbl t")
    case (Some row)
    then show ?thesis using that [of tbl row] T by (simp add: fskit_route_table_insert_def)
  next
    case None
    then obtain row where row: "fskit_route_table_row_new S t = Some row"
      using ins \<open>0 \<le> rc\<close> by (cases "fskit_route_table_row_new S t")
        (auto simp: fskit_route_table_insert_def ENOMEM_def)
    let ?t = "sglib_add route_table_cmp (\<lambda>_ _. False) row tbl"
    note A = add_row_ok [OF T None row, of "\<lambda>_ _. False"]
    have e: "row_slots row = []"
      using row by (auto simp: fskit_route_table_row_new_def row_slots_def vec_init_def split: if_splits)
    have "route_of ?t k j = route_of tbl k j" for k j
      using A(2) [of k] None e by (simp add: route_of_def)
    then show ?thesis using that [of ?t row] A row None by (simp add: fskit_route_table_insert_def)
  qed
  have ok: "row_ok row" "rr_type row = t" using get_row_ok [OF T1 R1] by simp_all
  then have V: "vec_ok (rr_routes row)" by (simp add: row_ok_def)
  note L = length_row_slots [OF V]
  show "table_ok tbl'" "route_of tbl t (nat rc) = None"
    "route_of tbl' k j = (if k = t \<and> j = nat rc then Some r else route_of tbl k j)"
  proof (atomize (full), cases "empty_slot (row_slots row)")
    case (Some i)
    let ?row = "row\<lparr>rr_routes := fst (vec_set (rr_routes row) (Some r) i)\<rparr>"
    have i: "i < length (row_slots row)" "row_slots row ! i = None" using empty_slot_Some [OF Some] by simp_all
    note rs = row_slots_set [OF i(1), of "Some r"]
    have res: "tbl' = set_row ?row tbl1" "nat rc = i" using ins step Some by auto
    have "row_ok ?row"
      using ok vec_set_ok [OF V] r rs set_update_subset_insert [of "row_slots row" i "Some r"]
      by (fastforce simp: row_ok_def)
    note I = insert_in_row [OF T1 R1 this, of i r]
    have "route_of tbl t i = None" using i R1 same [of t i] by (simp add: route_of_def)
    moreover have "table_ok tbl'" "route_of tbl' k j = (if k = t \<and> j = i then Some r else route_of tbl1 k j)"
      unfolding res(1) by (rule I; use ok i rs in auto)+
    ultimately show "table_ok tbl' \<and> route_of tbl t (nat rc) = None \<and>
       route_of tbl' k j = (if k = t \<and> j = nat rc then Some r else route_of tbl k j)"
      by (simp only: res(2) same simp_thms)
  next
    case None
    obtain v where v: "vec_push_back S (rr_routes row) (Some r) = Some (v, 0)" "vec_ok v"
      "v_len v = v_len (rr_routes row) + 1"
      "take (v_len v) (v_buf v) = take (v_len (rr_routes row)) (v_buf (rr_routes row)) @ [Some r]"
      by (rule vec_push_back_ok [OF V mem])
    let ?row = "row\<lparr>rr_routes := v\<rparr>"
    let ?i = "v_len (rr_routes row)"
    have rs: "row_slots ?row = row_slots row @ [Some r]" using v by (simp add: row_slots_def)
    have res: "tbl' = set_row ?row tbl1" "nat rc = ?i" using ins step None v by auto
    have "row_ok ?row" using ok v(2) r rs by (auto simp: row_ok_def)
    note I = insert_in_row [OF T1 R1 this, of ?i r]
    have "route_of tbl t ?i = None" using R1 L same [of t ?i] by (simp add: route_of_def)
    moreover have "table_ok tbl'" "route_of tbl' k j = (if k = t \<and> j = ?i then Some r else route_of tbl1 k j)"
      unfolding res(1) by (rule I; use ok rs L in \<open>auto simp: nth_append\<close>)+
    ultimately show "table_ok tbl' \<and> route_of tbl t (nat rc) = None \<and>
       route_of tbl' k j = (if k = t \<and> j = nat rc then Some r else route_of tbl k j)"
      by (simp only: res(2) same simp_thms)
  qed
qed

lemma route_remove_effect:
  assumes T: "table_ok tbl" and "0 \<le> i" and rem: "fskit_route_table_remove tbl t i = Some (tbl', r)"
  shows "r = route_of tbl t (nat i)"
    and "route_of tbl' k j = (if k = t \<and> j = nat i then None else route_of tbl k j)"
    and "table_ok tbl'"
proof -
  note B = table_ok_bst [OF T]
  show "r = route_of tbl t (nat i)"
    "route_of tbl' k j = (if k = t \<and> j = nat i then None else route_of tbl k j)" "table_ok tbl'"
  proof (atomize (full), cases "fskit_route_table_get_row tbl t")
    case None
    then show "r = route_of tbl t (nat i) \<and>
        route_of tbl' k j = (if k = t \<and> j = nat i then None else route_of tbl k j) \<and> table_ok tbl'"
      using rem T by (auto simp: fskit_route_table_remove_def route_of_def)
  next
    case (Some row)
    then have ok: "row_ok row" "rr_type row = t" using get_row_ok [OF T] by simp_all
    then have V: "vec_ok (rr_routes row)" by (simp add: row_ok_def)
    note L = length_row_slots [OF V]
    show "r = route_of tbl t (nat i) \<and>
        route_of tbl' k j = (if k = t \<and> j = nat i then None else route_of tbl k j) \<and> table_ok tbl'"
    proof (cases "i < int (v_len (rr_routes row))")
      case False
      then show ?thesis using rem T Some L \<open>0 \<le> i\<close>
        by (auto simp: fskit_route_table_remove_def route_of_def)
    next
      case True
      then have i: "nat i < length (row_slots row)" using \<open>0 \<le> i\<close> L by simp
      let ?row = "row\<lparr>rr_routes := fst (vec_set (rr_routes row) None (nat i))\<rparr>"
      note rs = row_slots_set [OF i, of None]
      have r: "r = row_slots row ! nat i"
        using rem Some True row_at_slots [OF V \<open>0 \<le> i\<close> True]
        by (auto simp: fskit_route_table_remove_def Let_def split: if_splits)
      have rok: "row_ok ?row"
        using ok vec_set_ok [OF V] rs set_update_subset_insert [of "row_slots row" "nat i" None]
        by (fastforce simp: row_ok_def)
      have g: "fskit_route_table_get_row (set_row ?row tbl) k =
          (if k = t then Some ?row else fskit_route_table_get_row tbl k)" for k
        using get_set_row [OF B, of ?row k] ok(2) Some by auto
      note T' = table_ok_set_row [OF T rok]
      have e: "route_of (set_row ?row tbl) k j = (if k = t \<and> j = nat i then None else route_of tbl k j)" for k j
        using g Some rs i by (auto simp: route_of_def nth_list_update)
      show ?thesis
      proof (cases "list_all (\<lambda>r. r = None) (row_slots ?row)")
        case False
        then have "tbl' = set_row ?row tbl"
          using rem Some True row_at_slots [OF V \<open>0 \<le> i\<close> True]
          by (simp add: fskit_route_table_remove_def Let_def)
        then show ?thesis using T' e r i Some by (simp add: route_of_def)
      next
        case True
        then have tbl': "tbl' = sglib_delete route_table_cmp ?row (set_row ?row tbl)"
          using rem Some \<open>i < int (v_len (rr_routes row))\<close> row_at_slots [OF V \<open>0 \<le> i\<close>]
          by (simp add: fskit_route_table_remove_def Let_def)
        have s: "sglib_set_ok route_table_cmp rr_type tbl'"
          using rt.sglib_set_ok_delete [of "set_row ?row tbl" ?row] T' by (simp add: table_ok_def tbl')
        have "table_ok tbl'"
          using s T' rt.inorder_sglib_delete [OF table_ok_bst [OF T'], of ?row]
          by (auto simp: table_ok_def tbl')
        moreover have gk: "fskit_route_table_get_row tbl' k = (if k = t then None else fskit_route_table_get_row tbl k)"
          using rt.tree_map_delete [OF table_ok_bst [OF T'], of ?row] g [of k] s ok(2)
            get_row_tree_map [OF table_ok_bst [OF T'], of k]
          by (simp add: get_row_tree_map sglib_set_ok_def tbl')
        have "route_of tbl' k j = (if k = t \<and> j = nat i then None else route_of tbl k j)"
        proof (cases "k = t")
          case k: True
          have "route_of (set_row ?row tbl) t j = None"
            using g [of t] True by (simp add: route_of_def list_all_length)
          moreover have "route_of tbl' k j = None" using k gk by (simp add: route_of_def)
          ultimately show ?thesis using e [of t j] k by (simp split: if_splits)
        next
          case False
          then show ?thesis using gk by (simp add: route_of_def)
        qed
        ultimately show ?thesis using r i Some by (simp add: route_of_def)
      qed
    qed
  qed
qed

subsection \<open>When a call does not fail\<close>

lemma route_match_slots_not_None:
  "None \<notin> set rs \<Longrightarrow> route_match_slots V path rm rs \<noteq> None"
  by (induction V path rm rs rule: route_match_slots.induct) (auto split: prod.splits)

lemma route_match_slots_in:
  "route_match_slots V path rm rs = Some (Some (r, rm')) \<Longrightarrow> Some r \<in> set rs"
  by (induction V path rm rs rule: route_match_slots.induct) (auto split: prod.splits if_splits)

lemma route_match_not_None: "no_holes tbl \<Longrightarrow> fskit_route_match V tbl t path \<noteq> None"
proof (cases "fskit_route_table_get_row tbl t")
  case (Some row)
  moreover assume "no_holes tbl"
  ultimately have "None \<notin> set (row_slots row)" using get_row_in [of tbl t row] by (simp add: no_holes_def)
  then show ?thesis using Some route_match_slots_not_None by (simp add: fskit_route_match_def)
qed (simp add: fskit_route_match_def)

lemma route_match_type:
  "table_ok tbl \<Longrightarrow> fskit_route_match V tbl t path = Some (Some (r, rm)) \<Longrightarrow> pr_type r = t"
  using get_row_ok [of tbl t]
  by (auto simp: fskit_route_match_def row_ok_def split: option.splits dest!: route_match_slots_in)

text \<open>
  A call returns when the table has no empty slots and the inode is referenced (or the route is for
  detaching or destroying, which may run on an unreferenced inode).
\<close>

lemma route_call_not_None:
  assumes "table_ok (routes s)" and "no_holes (routes s)"
    and "heap s a = Some e"
    and "0 < open_count e \<or> 0 < link_count e \<or> t = FSKIT_ROUTE_MATCH_DETACH \<or> t = FSKIT_ROUTE_MATCH_DESTROY"
  shows "\<exists>rc cbrc da' s'. fskit_route_call V t path (Some a) da s = Some (rc, cbrc, da', s')"
proof -
  obtain m where m: "fskit_route_match V (routes s) t path = Some m"
    using route_match_not_None [OF assms(2)] by blast
  show ?thesis
  proof (cases m)
    case None
    then show ?thesis using m by (simp add: fskit_route_call_def)
  next
    case (Some rr)
    obtain route rm where rr: "rr = (route, rm)" by (cases rr)
    have ty: "pr_type route = t" using route_match_type [OF assms(1)] m Some rr by blast
    have en: "\<exists>y. fskit_route_enter route (Some a) da s = Some y" for da
      using assms(3,4) ty by (auto simp: fskit_route_enter_def fskit_entry_lock_def bind_eq_None_conv)
    have io: "\<exists>y. run_io_cont V k (Some a) off rc (s\<lparr>trace := x\<rparr>) = Some y" for k off rc x
      using assms(3) by (auto simp: run_io_cont_def fskit_write_cont_def fskit_trunc_cont_def
          upd_def split: option.splits io_continuation.splits)
    have "fskit_route_dispatch V rm' route (Some a) da s \<noteq> None" for rm' da
    proof -
      obtain rc1 da1 x where d: "fskit_safe_dispatch V rm' route (Some a) da s = (rc1, da1, s\<lparr>trace := x\<rparr>)"
        using safe_dispatch_trace [of V rm' route "Some a" da s] by (metis prod_cases3)
      obtain y where y: "fskit_route_enter route (Some a) da s = Some y" using en by blast
      obtain z where z: "run_io_cont V (da_io_cont da) (Some a) (da_iooff da) rc1 (s\<lparr>trace := x\<rparr>) = Some z"
        using io by blast
      show ?thesis by (simp add: fskit_route_dispatch_def y d z)
    qed
    then have "\<exists>x y z. fskit_route_dispatch V rm' route (Some a) da s = Some (x, y, z)" for rm' da
      by (metis option.exhaust prod_cases3)
    then show ?thesis using m Some rr
      by (simp add: fskit_route_call_def bind_eq_Some split: prod.split)
  qed
qed

text \<open>The routes of a type are tried in the order of their handles; the first whose expression matches wins.\<close>

lemma match_regex_rm: "snd (fskit_match_regex V rm r path) \<noteq> 0 \<Longrightarrow> fst (fskit_match_regex V rm r path) = rm"
  by (auto simp: fskit_match_regex_def Let_def split: option.splits prod.splits)

lemma route_match_slots_first:
  "route_match_slots V path rm rs = Some (Some (r, rm')) \<Longrightarrow>
    \<exists>i < length rs. rs ! i = Some r \<and> fskit_match_regex V rm r path = (rm', 0) \<and>
      (\<forall>j<i. \<exists>q. rs ! j = Some q \<and> (pr_regex_str q = None \<or> snd (fskit_match_regex V rm q path) \<noteq> 0))"
proof (induction V path rm rs rule: route_match_slots.induct)
  case (3 V path rm route rs)
  obtain rm1 rc where m: "fskit_match_regex V rm route path = (rm1, rc)" by (cases "fskit_match_regex V rm route path")
  have tail: ?case if ex: "\<exists>i < length rs. rs ! i = Some r \<and> fskit_match_regex V rm r path = (rm', 0) \<and>
          (\<forall>j<i. \<exists>q. rs ! j = Some q \<and> (pr_regex_str q = None \<or> snd (fskit_match_regex V rm q path) \<noteq> 0))"
      and nm: "pr_regex_str route = None \<or> rc \<noteq> 0"
  proof -
    obtain i where "i < length rs" "rs ! i = Some r" "fskit_match_regex V rm r path = (rm', 0)"
        "\<forall>j<i. \<exists>q. rs ! j = Some q \<and> (pr_regex_str q = None \<or> snd (fskit_match_regex V rm q path) \<noteq> 0)"
      using ex by blast
    then show ?thesis using nm m by (intro exI [of _ "Suc i"]) (auto simp: nth_Cons split: nat.splits)
  qed
  show ?case
  proof (cases "pr_regex_str route = None")
    case True
    then show ?thesis using tail 3 by (simp add: fskit_path_route_is_defined_def)
  next
    case False
    show ?thesis
    proof (cases "rc = 0")
      case True
      then show ?thesis using 3(3) False m
        by (intro exI [of _ 0]) (auto simp: fskit_path_route_is_defined_def)
    next
      case False2: False
      have "rm1 = rm" using match_regex_rm [of V rm route path] m False2 by simp
      then show ?thesis using tail 3(2) [OF _ m [symmetric]] 3(3) False False2 m
        by (simp add: fskit_path_route_is_defined_def)
    qed
  qed
qed simp_all

lemma route_match_first:
  assumes "fskit_route_match V tbl t path = Some (Some (r, rm))"
  shows "\<exists>i. route_of tbl t i = Some r \<and> fskit_match_regex V zero_metadata r path = (rm, 0) \<and>
    (\<forall>j<i. \<forall>q. route_of tbl t j = Some q \<longrightarrow> pr_regex_str q = None \<or> snd (fskit_match_regex V zero_metadata q path) \<noteq> 0)"
proof -
  obtain row where row: "fskit_route_table_get_row tbl t = Some row"
      "route_match_slots V path zero_metadata (row_slots row) = Some (Some (r, rm))"
    using assms by (auto simp: fskit_route_match_def split: option.splits)
  obtain i where "i < length (row_slots row)" "row_slots row ! i = Some r"
      "fskit_match_regex V zero_metadata r path = (rm, 0)"
      "\<forall>j<i. \<exists>q. row_slots row ! j = Some q \<and> (pr_regex_str q = None \<or> snd (fskit_match_regex V zero_metadata q path) \<noteq> 0)"
    using route_match_slots_first [OF row(2)] by blast
  then show ?thesis using row(1) by (intro exI [of _ i]) (force simp: route_of_def)
qed

end
