(* ===== verification/Resolve.thy ===== *)
theory Resolve
  imports Refs
begin

text \<open>
  Path resolution (\<open>fskit_entry_resolve_path_cls\<close> and the path iterator of \<open>libfskit/path.c\<close>). The
  walk recurses on the names still to resolve. The result is \<open>Inl\<close> of an error code or \<open>Inr\<close> of the
  inode's address; \<open>None\<close> when the root has been tagged as garbage (the code dereferences the NULL
  root) or an entry points to freed memory.

  The lemmas relate the walk to the graph of directory entries: what is resolved is reachable by the
  names, through directories that the user may search, and is neither dead nor being deleted; and
  the walk does not fail on a path without \<open>".."\<close>.
\<close>

type_synonym 'c ent_eval = "addr \<Rightarrow> 'c \<Rightarrow> fs \<Rightarrow> (int \<times> 'c \<times> fs) option"

definition fskit_entry_ent_eval :: "'c ent_eval option \<Rightarrow> addr \<Rightarrow> 'c \<Rightarrow> fs \<Rightarrow> (int \<times> 'c \<times> fs) option" where
  "fskit_entry_ent_eval ev cur cls s = (case ev of None \<Rightarrow> Some (0, cls, s) | Some f \<Rightarrow> f cur cls s)"

fun resolve_walk ::
    "'c ent_eval option \<Rightarrow> u64 \<Rightarrow> u64 \<Rightarrow> string list \<Rightarrow> addr \<Rightarrow> 'c \<Rightarrow> fs \<Rightarrow> ((int + addr) \<times> 'c \<times> fs) option"
where
  "resolve_walk ev user grp names cur_ent cls s =
     (case heap s cur_ent of
        None \<Rightarrow> None
      | Some cur \<Rightarrow>
          if names \<noteq> [] \<and> etype cur \<noteq> T_DIR
          then Some (Inl (if etype cur \<noteq> T_DEAD then - ENOTDIR else - ENOENT), cls, s)
          else if etype cur = T_DIR \<and> \<not> FSKIT_ENTRY_IS_DIR_SEARCHABLE cur user grp
          then Some (Inl (- EACCES), cls, s)
          else
            (case names of
               [] \<Rightarrow> Some (Inr cur_ent, cls, s)
             | name # rest \<Rightarrow>
                 (case fskit_entry_set_find_name (children cur) name of
                    None \<Rightarrow> Some (Inl (- ENOENT), cls, s)
                  | Some next \<Rightarrow>
                      (case heap s next of
                         None \<Rightarrow> None
                       | Some e \<Rightarrow>
                           if deletion_in_progress e \<or> etype e = T_DEAD then Some (Inl (- ENOENT), cls, s)
                           else
                             (case fskit_entry_ent_eval ev next cls s of
                                None \<Rightarrow> None
                              | Some (rc, cls, s) \<Rightarrow>
                                  if rc \<noteq> 0 then Some (Inl rc, cls, s)
                                  else
                                    (case heap s next of
                                       None \<Rightarrow> None
                                     | Some e \<Rightarrow>
                                         if link_count e = 0 \<or> etype e = T_DEAD \<or> deletion_in_progress e
                                         then Some (Inl (- ENOENT), cls, s)
                                         else resolve_walk ev user grp rest next cls s))))))"

declare resolve_walk.simps [simp del]

definition fskit_entry_resolve_path_cls ::
    "env \<Rightarrow> 'c ent_eval option \<Rightarrow> string \<Rightarrow> u64 \<Rightarrow> u64 \<Rightarrow> 'c \<Rightarrow> fs \<Rightarrow> ((int + addr) \<times> 'c \<times> fs) option"
where
  "fskit_entry_resolve_path_cls V ev path user grp cls s =
     (if length path = 0 then Some (Inl (- EINVAL), cls, s)
      else if last path \<noteq> slash \<and> \<not> mem_ok V ''fskit_entry_resolve_path_cls'' then Some (Inl (- ENOMEM), cls, s)
      else
        (case fskit_core_resolve_root s of
           None \<Rightarrow> None
         | Some None \<Rightarrow> None
         | Some (Some root) \<Rightarrow>
             (case heap s root of
                None \<Rightarrow> None
              | Some r \<Rightarrow>
                  if link_count r = 0 \<or> etype r = T_DEAD then Some (Inl (- ENOENT), cls, s)
                  else
                    (case fskit_entry_ent_eval ev root cls s of
                       None \<Rightarrow> None
                     | Some (rc, cls, s) \<Rightarrow>
                         if rc \<noteq> 0 then Some (Inl rc, cls, s)
                         else
                           (case heap s root of
                              None \<Rightarrow> None
                            | Some r \<Rightarrow>
                                if ev \<noteq> None \<and> (deletion_in_progress r \<or> etype r = T_DEAD)
                                then Some (Inl (- ENOENT), cls, s)
                                else resolve_walk ev user grp (path_names path) root cls s)))))"

definition fskit_entry_resolve_path :: "env \<Rightarrow> string \<Rightarrow> u64 \<Rightarrow> u64 \<Rightarrow> fs \<Rightarrow> (int + addr) option" where
  "fskit_entry_resolve_path V path user grp s =
     map_option fst (fskit_entry_resolve_path_cls V None path user grp () s)"

subsection \<open>The path iterator\<close>

record path_iterator =
  it_path :: string
  it_prev_ent :: "addr option"
  it_cur_ent :: "addr option"
  it_name :: string
  it_name_i :: nat
  it_cur_name :: string
  it_end_of_path :: bool
  it_rc :: int

definition zero_iterator :: path_iterator where
  "zero_iterator = \<lparr>it_path = [], it_prev_ent = None, it_cur_ent = None, it_name = [], it_name_i = 0,
     it_cur_name = [], it_end_of_path = False, it_rc = 0\<rparr>"

definition fskit_path_begin :: "string \<Rightarrow> fs \<Rightarrow> path_iterator option" where
  "fskit_path_begin path s =
     (case fskit_core_resolve_root s of
        None \<Rightarrow> None
      | Some None \<Rightarrow> Some (zero_iterator\<lparr>it_rc := - ENOENT\<rparr>)
      | Some (Some root) \<Rightarrow>
          (case heap s root of
             None \<Rightarrow> None
           | Some r \<Rightarrow>
               if link_count r = 0 \<or> etype r = T_DEAD then Some (zero_iterator\<lparr>it_rc := - ENOENT\<rparr>)
               else Some (zero_iterator\<lparr>it_path := path, it_cur_ent := Some root,
                            it_name := dropWhile (\<lambda>c. c = slash) path,
                            it_name_i := length (takeWhile (\<lambda>c. c = slash) path)\<rparr>)))"

definition fskit_path_end :: "path_iterator \<Rightarrow> fs \<Rightarrow> bool option" where
  "fskit_path_end itr s =
     (if it_rc itr \<noteq> 0 then Some True
      else case it_cur_ent itr of
        None \<Rightarrow> Some True
      | Some a \<Rightarrow>
          (case heap s a of
             None \<Rightarrow> None
           | Some e \<Rightarrow>
               if deletion_in_progress e \<or> etype e = T_DEAD then Some True
               else Some (it_end_of_path itr)))"

text \<open>
  The search for the next name: the name up to the next slash, then the slashes after it, skipping
  \<open>"."\<close>. The result is the name found (\<open>None\<close> at the end of the path), the rest and the number of
  characters passed.
\<close>

function next_name :: "string \<Rightarrow> nat \<Rightarrow> string option \<times> string \<times> nat" where
  "next_name tmp len =
     (let name = takeWhile (\<lambda>c. c \<noteq> slash) tmp;
          after = dropWhile (\<lambda>c. c \<noteq> slash) tmp;
          rest = dropWhile (\<lambda>c. c = slash) after;
          len' = len + (length tmp - length rest)
      in if len' = 0 \<or> (rest = [] \<and> name = []) then (None, rest, len')
         else if name = ''.'' then next_name rest len'
         else (Some name, rest, len'))"
  by pat_completeness auto
termination
proof (relation "measure (\<lambda>(tmp, len). length tmp)", goal_cases)
  case (2 tmp len name after rest len')
  then have t: "takeWhile (\<lambda>c. c \<noteq> slash) tmp = ''.''" by simp
  have "length tmp = length (takeWhile (\<lambda>c. c \<noteq> slash) tmp) + length (dropWhile (\<lambda>c. c \<noteq> slash) tmp)"
    by (metis length_append takeWhile_dropWhile_id)
  moreover have "length rest \<le> length (dropWhile (\<lambda>c. c \<noteq> slash) tmp)"
    using 2 length_dropWhile_le by blast
  ultimately show ?case using t by simp
qed simp

definition fskit_path_next :: "env \<Rightarrow> path_iterator \<Rightarrow> fs \<Rightarrow> path_iterator option" where
  "fskit_path_next V itr s =
     (if it_end_of_path itr then Some itr
      else
        let itr = itr\<lparr>it_prev_ent := it_cur_ent itr, it_cur_ent := None\<rparr> in
        (case it_prev_ent itr of
           None \<Rightarrow> Some (itr\<lparr>it_end_of_path := True, it_rc := 0\<rparr>)
         | Some prev \<Rightarrow>
             (case next_name (it_name itr) 0 of
                (None, rest, len) \<Rightarrow> Some (itr\<lparr>it_end_of_path := True, it_rc := 0\<rparr>)
              | (Some name, rest, len) \<Rightarrow>
                  (case heap s prev of
                     None \<Rightarrow> None
                   | Some p \<Rightarrow>
                       if etype p \<noteq> T_DIR then Some (itr\<lparr>it_rc := - ENOTDIR\<rparr>)
                       else if \<not> mem_ok V ''fskit_path_next'' then Some (itr\<lparr>it_rc := - ENOMEM\<rparr>)
                       else if length name > FSKIT_FILESYSTEM_NAMEMAX + 1 then None
                       else
                         let itr = itr\<lparr>it_name := rest, it_name_i := it_name_i itr + len, it_cur_name := name\<rparr> in
                         (case fskit_entry_set_find_name (children p) name of
                            None \<Rightarrow> Some (itr\<lparr>it_rc := - ENOENT\<rparr>)
                          | Some c \<Rightarrow>
                              (case heap s c of
                                 None \<Rightarrow> None
                               | Some _ \<Rightarrow> Some (itr\<lparr>it_cur_ent := Some c\<rparr>)))))))"

definition fskit_path_iterator_path :: "path_iterator \<Rightarrow> string" where
  "fskit_path_iterator_path itr = take (it_name_i itr) (it_path itr)"

subsection \<open>Soundness of the walk\<close>

text \<open>
  The graph of directory entries: \<open>walks s user grp a names b\<close> when \<open>names\<close> leads from \<open>a\<close> to \<open>b\<close>
  through directories the user may search, along inodes that are linked and not being deleted.
\<close>

inductive walks :: "fs \<Rightarrow> u64 \<Rightarrow> u64 \<Rightarrow> addr \<Rightarrow> string list \<Rightarrow> addr \<Rightarrow> bool" for s user grp where
  walks_end: "heap s a = Some e \<Longrightarrow> (etype e = T_DIR \<longrightarrow> FSKIT_ENTRY_IS_DIR_SEARCHABLE e user grp) \<Longrightarrow>
    walks s user grp a [] a"
| walks_step: "heap s a = Some e \<Longrightarrow> etype e = T_DIR \<Longrightarrow> FSKIT_ENTRY_IS_DIR_SEARCHABLE e user grp \<Longrightarrow>
    fskit_entry_set_find_name (children e) n = Some b \<Longrightarrow> heap s b = Some f \<Longrightarrow>
    link_count f \<noteq> 0 \<Longrightarrow> etype f \<noteq> T_DEAD \<Longrightarrow> \<not> deletion_in_progress f \<Longrightarrow>
    walks s user grp b ns c \<Longrightarrow> walks s user grp a (n # ns) c"

inductive_cases walks_NilE: "walks s user grp a [] b"
inductive_cases walks_ConsE: "walks s user grp a (n # ns) b"

lemma resolve_walk_state:
  "resolve_walk None user grp names cur cls s = Some (r, cls', s') \<Longrightarrow> s' = s \<and> cls' = cls"
proof (induction names arbitrary: cur)
  case Nil
  then show ?case by (auto simp: resolve_walk.simps [of _ _ _ "[]"] split: option.splits if_splits)
next
  case (Cons n ns)
  then show ?case
    by (subst (asm) resolve_walk.simps)
      (auto simp: fskit_entry_ent_eval_def split: option.splits if_splits)
qed

lemma resolve_walk_iff:
  "resolve_walk None user grp names cur cls s = Some (Inr a, cls, s) \<longleftrightarrow> walks s user grp cur names a"
proof (induction names arbitrary: cur)
  case Nil
  show ?case
    by (subst resolve_walk.simps) (auto split: option.splits if_splits elim: walks_NilE intro: walks_end)
next
  case (Cons n ns)
  show ?case
    by (subst resolve_walk.simps)
      (auto simp: fskit_entry_ent_eval_def Cons.IH split: option.splits if_splits
        elim: walks_ConsE intro: walks_step)
qed

lemma walks_target: "walks s user grp a ns b \<Longrightarrow> \<exists>e. heap s b = Some e"
  by (induction rule: walks.induct) auto

lemma walks_live:
  "walks s user grp a ns b \<Longrightarrow> ns \<noteq> [] \<Longrightarrow>
    \<exists>e. heap s b = Some e \<and> link_count e \<noteq> 0 \<and> etype e \<noteq> T_DEAD \<and> \<not> deletion_in_progress e"
proof (induction rule: walks.induct)
  case (walks_step a e n b f ns c)
  then show ?case by (cases ns) (auto elim: walks_NilE)
qed simp

text \<open>The root, when it is a directory that is linked and not tagged as garbage.\<close>

definition root_up :: "fs \<Rightarrow> bool" where
  "root_up s = (\<exists>r. heap s 0 = Some r \<and> etype r = T_DIR \<and> \<not> deletion_in_progress r \<and> link_count r \<noteq> 0)"

lemma resolve_path_root:
  "root_up s \<Longrightarrow> path \<noteq> [] \<Longrightarrow> mem_ok V ''fskit_entry_resolve_path_cls'' \<Longrightarrow>
    fskit_entry_resolve_path V path user grp s = map_option fst (resolve_walk None user grp (path_names path) 0 () s)"
  by (auto simp: root_up_def fskit_entry_resolve_path_def fskit_entry_resolve_path_cls_def
      fskit_core_resolve_root_def fskit_entry_ent_eval_def)

lemma resolve_path_Inr:
  assumes "fskit_entry_resolve_path V path user grp s = Some (Inr a)"
  shows "root_up s" and "path \<noteq> []" and "walks s user grp 0 (path_names path) a"
proof -
  obtain u t where "fskit_entry_resolve_path_cls V None path user grp () s = Some (Inr a, u, t)"
    using assms by (auto simp: fskit_entry_resolve_path_def)
  then show "root_up s" "path \<noteq> []" "walks s user grp 0 (path_names path) a"
    using resolve_walk_state [of user grp "path_names path" 0 "()" s "Inr a" u t]
      resolve_walk_iff [of user grp "path_names path" 0 "()" s a]
    by (auto simp: root_up_def fskit_entry_resolve_path_cls_def fskit_core_resolve_root_def
        fskit_entry_ent_eval_def split: option.splits if_splits)
qed

lemma resolve_path_live:
  assumes "fskit_entry_resolve_path V path user grp s = Some (Inr a)"
  shows "\<exists>e. heap s a = Some e \<and> link_count e \<noteq> 0 \<and> etype e \<noteq> T_DEAD \<and> \<not> deletion_in_progress e"
proof (cases "path_names path = []")
  case True
  then have "a = 0" using resolve_path_Inr(3) [OF assms] by (auto elim: walks_NilE)
  then show ?thesis using resolve_path_Inr(1) [OF assms] by (auto simp: root_up_def)
next
  case False
  then show ?thesis by (rule walks_live [OF resolve_path_Inr(3) [OF assms]])
qed

lemma resolve_walk_not_None:
  assumes "rinv L R s" and "''..'' \<notin> set names" and "''.'' \<notin> set names" and "heap s cur = Some e"
  shows "\<exists>r. resolve_walk None user grp names cur cls s = Some (r, cls, s)"
  using assms(2-)
proof (induction names arbitrary: cur e)
  case Nil
  then show ?case by (subst resolve_walk.simps) auto
next
  case (Cons n ns)
  have "\<exists>f. heap s b = Some f" if "fskit_entry_set_find_name (children e) n = Some b" for b
    using find_name_heap [OF assms(1) Cons.prems(3) that] Cons.prems by auto
  then show ?case
    using Cons by (subst resolve_walk.simps)
      (fastforce simp: fskit_entry_ent_eval_def split: option.split)
qed

definition dotdot_free :: "string \<Rightarrow> bool" where
  "dotdot_free path = (''..'' \<notin> set (split_names path))"

lemma resolve_path_not_None:
  assumes "rinv L R s" and "root_up s" and "dotdot_free path"
  shows "\<exists>r. fskit_entry_resolve_path V path user grp s = Some r"
proof (cases "path = [] \<or> \<not> mem_ok V ''fskit_entry_resolve_path_cls'' \<and> last path \<noteq> slash")
  case True
  then show ?thesis by (auto simp: fskit_entry_resolve_path_def fskit_entry_resolve_path_cls_def)
next
  case False
  obtain r where r: "heap s 0 = Some r" using assms(2) by (auto simp: root_up_def)
  have "''..'' \<notin> set (path_names path)" "''.'' \<notin> set (path_names path)"
    using assms(3) False by (auto simp: path_names_eq dotdot_free_def)
  from resolve_walk_not_None [OF assms(1) this r, of user grp "()"] show ?thesis
    using assms(2) False
    by (auto simp: root_up_def fskit_entry_resolve_path_def fskit_entry_resolve_path_cls_def
      fskit_core_resolve_root_def fskit_entry_ent_eval_def)
qed

text \<open>An error is a negative code.\<close>

lemma resolve_walk_err: "resolve_walk None user grp names cur cls s = Some (Inl rc, cls', s') \<Longrightarrow> rc < 0"
proof (induction names arbitrary: cur)
  case Nil
  then show ?case
    by (auto simp: resolve_walk.simps [of _ _ _ "[]"] errno_defs split: option.splits if_splits)
next
  case (Cons n ns)
  then show ?case
    by (subst (asm) resolve_walk.simps)
      (auto simp: fskit_entry_ent_eval_def errno_defs split: option.splits if_splits)
qed

lemma resolve_path_err: "fskit_entry_resolve_path V path user grp s = Some (Inl rc) \<Longrightarrow> rc < 0"
  by (auto simp: fskit_entry_resolve_path_def fskit_entry_resolve_path_cls_def fskit_entry_ent_eval_def errno_defs
      split: option.splits if_splits dest: resolve_walk_err)

subsection \<open>What resolution looks at\<close>

definition walk_view :: "entry \<Rightarrow> ftype \<times> (u32 \<times> u64 \<times> u64) \<times> entry_set \<times> bool \<times> bool" where
  "walk_view e = (etype e, (emode e, owner e, egroup e), children e, link_count e = 0, deletion_in_progress e)"

lemma walk_view_searchable:
  "walk_view e = walk_view e' \<Longrightarrow> FSKIT_ENTRY_IS_DIR_SEARCHABLE e u g = FSKIT_ENTRY_IS_DIR_SEARCHABLE e' u g"
  by (simp add: walk_view_def FSKIT_ENTRY_IS_DIR_SEARCHABLE_def)

lemma resolve_walk_frame:
  assumes F: "\<And>a. map_option walk_view (heap s' a) = map_option walk_view (heap s a)"
  shows "map_option fst (resolve_walk None user grp names cur cls s') =
    map_option fst (resolve_walk None user grp names cur cls s)"
proof (induction names arbitrary: cur)
  case Nil
  show ?case
  proof (cases "heap s cur")
    case None
    then show ?thesis using F [of cur] by (simp add: resolve_walk.simps)
  next
    case (Some e)
    then obtain e' where e': "heap s' cur = Some e'" "walk_view e' = walk_view e" using F [of cur] by auto
    then have "etype e' = etype e" by (simp add: walk_view_def)
    then show ?thesis using Some e' walk_view_searchable [OF e'(2), of user grp] by (simp add: resolve_walk.simps)
  qed
next
  case (Cons n ns)
  show ?case
  proof (cases "heap s cur")
    case None
    then show ?thesis using F [of cur] by (simp add: resolve_walk.simps)
  next
    case (Some e)
    then obtain e' where e': "heap s' cur = Some e'" "walk_view e' = walk_view e" using F [of cur] by auto
    note w = walk_view_searchable [OF e'(2), of user grp]
    have c: "etype e' = etype e" "children e' = children e" using e'(2) by (simp_all add: walk_view_def)
    show ?thesis
    proof (cases "fskit_entry_set_find_name (children e) n")
      case None
      then show ?thesis using Some e'(1) w c by (simp add: resolve_walk.simps)
    next
      case (Some b)
      note f = \<open>heap s cur = Some e\<close> e'(1) w c Some
      show ?thesis
      proof (cases "heap s b")
        case None
        then show ?thesis using f F [of b] by (simp add: resolve_walk.simps)
      next
        case (Some x)
        then obtain x' where x': "heap s' b = Some x'" "walk_view x' = walk_view x" using F [of b] by auto
        then have v: "deletion_in_progress x' = deletion_in_progress x" "etype x' = etype x"
            "(link_count x' = 0) = (link_count x = 0)"
          by (simp_all add: walk_view_def)
        show ?thesis using f Some x'(1) v Cons.IH [of b]
          by (simp add: resolve_walk.simps [of _ _ _ "n # ns"] fskit_entry_ent_eval_def)
      qed
    qed
  qed
qed

lemma resolve_path_frame:
  assumes F: "\<And>a. map_option walk_view (heap s' a) = map_option walk_view (heap s a)"
  shows "fskit_entry_resolve_path V path user grp s' = fskit_entry_resolve_path V path user grp s"
proof (cases "heap s 0")
  case None
  then show ?thesis using F [of 0]
    by (simp add: fskit_entry_resolve_path_def fskit_entry_resolve_path_cls_def fskit_core_resolve_root_def)
next
  case (Some r)
  then obtain r' where r': "heap s' 0 = Some r'" "walk_view r' = walk_view r" using F [of 0] by auto
  then have v: "deletion_in_progress r' = deletion_in_progress r" "etype r' = etype r"
      "(link_count r' = 0) = (link_count r = 0)"
    by (simp_all add: walk_view_def)
  show ?thesis
    using Some r'(1) v resolve_walk_frame [OF F, where user = user and grp = grp and names = "path_names path"
        and cur = 0 and cls = "()"]
    by (simp add: fskit_entry_resolve_path_def fskit_entry_resolve_path_cls_def fskit_core_resolve_root_def
        fskit_entry_ent_eval_def)
qed

end
