(* ===== verification/Lifecycle.thy ===== *)
theory Lifecycle
  imports Route Resolve
begin

text \<open>
  The life of an inode after its last name is gone (\<open>libfskit/entry.c\<close>, and the referencing
  functions of \<open>libfskit/path.c\<close>): the detach and destroy callbacks, the destruction of an inode
  whose link count and open count have reached zero, garbage collection, and the mass detachment of
  a directory tree.

  A buffer of \<open>FSKIT_FILESYSTEM_NAMEMAX + 1\<close> bytes that a longer base name would overrun is the
  outcome \<open>None\<close>, as are the library's own calls of \<open>exit(1)\<close> on negative counts; the lemmas show
  that the invariant of \<open>Refs\<close> excludes the latter.
\<close>

definition name_buf :: "string \<Rightarrow> string option" where
  "name_buf path = fskit_basename_into (FSKIT_FILESYSTEM_NAMEMAX + 1) path"

subsection \<open>Callbacks\<close>

definition fskit_run_user_detach ::
    "env \<Rightarrow> string \<Rightarrow> addr option \<Rightarrow> addr \<Rightarrow> fs \<Rightarrow> (int \<times> fs) option" where
  "fskit_run_user_detach V path parent fent s =
     do {
       name \<leftarrow> name_buf path;
       e \<leftarrow> heap s fent;
       (rc, cbrc, da, s) \<leftarrow> fskit_route_call_detach V path (Some fent)
          (fskit_route_detach_args parent name (deletion_in_progress e) (deletion_through_rename e) (app_data e)) s;
       if rc = - EPERM \<or> rc = - ENOSYS then Some (0, s)
       else if cbrc \<noteq> 0 then Some (cbrc, s)
       else Some (0, s)
     }"

definition fskit_run_user_destroy ::
    "env \<Rightarrow> string \<Rightarrow> addr option \<Rightarrow> addr \<Rightarrow> fs \<Rightarrow> (int \<times> fs) option" where
  "fskit_run_user_destroy V path parent fent s =
     do {
       name \<leftarrow> name_buf path;
       e \<leftarrow> heap s fent;
       (rc, cbrc, da, s) \<leftarrow> fskit_route_call_destroy V path (Some fent)
          (fskit_route_destroy_args parent name (deletion_through_rename e) (app_data e)) s;
       if rc = - EPERM \<or> rc = - ENOSYS then Some (0, s)
       else if cbrc \<noteq> 0 then Some (cbrc, s)
       else Some (0, s)
     }"

subsection \<open>Destruction\<close>

definition fskit_entry_destroy :: "addr \<Rightarrow> fs \<Rightarrow> fs option" where
  "fskit_entry_destroy fent s =
     upd fent (\<lambda>e. if etype e = T_DEAD then e
                   else e\<lparr>etype := T_DEAD, children := Leaf, symlink_target := None, xattrs := Leaf\<rparr>) s"

definition fskit_entry_try_destroy ::
    "env \<Rightarrow> string \<Rightarrow> addr option \<Rightarrow> addr \<Rightarrow> int \<Rightarrow> fs \<Rightarrow> (int \<times> int \<times> fs) option" where
  "fskit_entry_try_destroy V path parent fent cbrc s =
     do {
       e \<leftarrow> heap s fent;
       if link_count e \<le> 0 \<and> open_count e \<le> 0 then
         (if link_count e < 0 then None
          else if open_count e < 0 then None
          else do {
            s \<leftarrow> upd fent (\<lambda>e. e\<lparr>open_count := open_count e + 1\<rparr>) s;
            (cbrc, s) \<leftarrow> fskit_run_user_destroy V path parent fent s;
            s \<leftarrow> fskit_entry_destroy fent s;
            Some (1, cbrc, s)
          })
       else Some (0, cbrc, s)
     }"

definition fskit_entry_try_destroy_and_free_ex ::
    "env \<Rightarrow> string \<Rightarrow> addr option \<Rightarrow> addr \<Rightarrow> int \<Rightarrow> fs \<Rightarrow> (int \<times> int \<times> fs) option" where
  "fskit_entry_try_destroy_and_free_ex V path parent fent cbrc s =
     do {
       (rc, cbrc, s) \<leftarrow> fskit_entry_try_destroy V path parent fent cbrc s;
       if rc > 0 then do { s \<leftarrow> free_entry fent s; Some (rc, cbrc, s) }
       else Some (rc, cbrc, s)
     }"

definition fskit_entry_try_destroy_and_free ::
    "env \<Rightarrow> string \<Rightarrow> addr option \<Rightarrow> addr \<Rightarrow> fs \<Rightarrow> (int \<times> fs) option" where
  "fskit_entry_try_destroy_and_free V path parent fent s =
     do {
       (rc, cbrc, s) \<leftarrow> fskit_entry_try_destroy_and_free_ex V path parent fent 0 s;
       Some (rc, s)
     }"

subsection \<open>Garbage collection\<close>

definition fskit_entry_try_garbage_collect ::
    "env \<Rightarrow> string \<Rightarrow> addr \<Rightarrow> addr \<Rightarrow> fs \<Rightarrow> (int \<times> fs) option" where
  "fskit_entry_try_garbage_collect V path parent child s =
     do {
       c \<leftarrow> heap s child;
       if deletion_in_progress c then
         do {
           path_basename \<leftarrow> name_buf path;
           (rc, s) \<leftarrow> fskit_entry_detach_lowlevel V parent path_basename s;
           let rc = (if rc < 0
                     then (if rc = - ENOENT then 0 else if rc \<noteq> - ENOTEMPTY then - EIO else rc)
                     else rc);
           if rc = 0 then
             do {
               (rc, s) \<leftarrow> fskit_entry_try_destroy_and_free V path (Some parent) child s;
               if rc \<ge> 0 then
                 (if rc > 0 then
                    do {
                      s \<leftarrow> upd parent (\<lambda>e. e\<lparr>children := fst (fskit_entry_set_remove (children e) path_basename),
                                              num_children := num_children e - 1\<rparr>) s;
                      Some (rc, s)
                    }
                  else Some (rc, s))
               else Some (- EIO, s)
             }
           else Some (rc, s)
         }
       else Some (- EEXIST, s)
     }"

subsection \<open>Referencing\<close>

definition fskit_entry_ref_entry :: "addr \<Rightarrow> fs \<Rightarrow> fs option" where
  "fskit_entry_ref_entry fent s = upd fent (\<lambda>e. e\<lparr>open_count := open_count e + 1\<rparr>) s"

definition fskit_entry_ref :: "env \<Rightarrow> string \<Rightarrow> fs \<Rightarrow> ((int + addr) \<times> fs) option" where
  "fskit_entry_ref V fs_path s =
     do {
       r \<leftarrow> fskit_entry_resolve_path V fs_path 0 0 s;
       case r of
         Inl rc \<Rightarrow> Some (Inl rc, s)
       | Inr fent \<Rightarrow> do { s \<leftarrow> fskit_entry_ref_entry fent s; Some (Inr fent, s) }
     }"

definition fskit_entry_unref :: "env \<Rightarrow> string \<Rightarrow> addr \<Rightarrow> fs \<Rightarrow> (int \<times> fs) option" where
  "fskit_entry_unref V fs_path fent s =
     do {
       s \<leftarrow> upd fent (\<lambda>e. e\<lparr>open_count := open_count e - 1\<rparr>) s;
       e \<leftarrow> heap s fent;
       if open_count e \<le> 0 \<and> link_count e \<le> 0 then
         do {
           (rc, s) \<leftarrow> fskit_entry_try_destroy_and_free V fs_path None fent s;
           Some (if rc < 0 then rc else 0, s)
         }
       else Some (0, s)
     }"

subsection \<open>Mass detachment\<close>

text \<open>
  The detach queue with its flags. \<open>dc_stale\<close> says that the tail pointer points to a freed queue
  entry: popping the last entry does not reset it. \<open>ev_garbage\<close> of the loop below is what an
  uninitialised buffer holds.
\<close>

record detach_ctx =
  dc_queue :: "(string \<times> addr) list"
  dc_stale :: bool
  dc_cb_fail :: bool
  dc_cbrc :: int

definition fskit_detach_ctx_init :: detach_ctx where
  "fskit_detach_ctx_init = \<lparr>dc_queue = [], dc_stale = False, dc_cb_fail = False, dc_cbrc = 0\<rparr>"

definition fskit_detach_queue_child ::
    "env \<Rightarrow> detach_ctx \<Rightarrow> string \<Rightarrow> string \<Rightarrow> addr \<Rightarrow> detach_ctx \<times> int" where
  "fskit_detach_queue_child V ctx dir_path name child =
     (if \<not> mem_ok V ''fskit_detach_queue_child'' then (ctx, - ENOMEM)
      else (ctx\<lparr>dc_queue := dc_queue ctx @ [(fskit_fullpath dir_path name, child)], dc_stale := False\<rparr>, 0))"

text \<open>The loop over the children; each must still be allocated, because its type is read.\<close>

fun queue_children_loop ::
    "env \<Rightarrow> detach_ctx \<Rightarrow> string \<Rightarrow> (string \<times> addr) list \<Rightarrow> fs \<Rightarrow> (detach_ctx \<times> int) option" where
  "queue_children_loop V ctx dir_path [] s = Some (ctx, 0)"
| "queue_children_loop V ctx dir_path ((name, child) # rest) s =
     (if strcmp name ''.'' = 0 \<or> strcmp name ''..'' = 0 then queue_children_loop V ctx dir_path rest s
      else
        (case heap s child of
           None \<Rightarrow> None
         | Some c \<Rightarrow>
             if etype c = T_DEAD then queue_children_loop V ctx dir_path rest s
             else
               (case fskit_detach_queue_child V ctx dir_path name child of
                  (ctx, rc) \<Rightarrow>
                    if rc \<noteq> 0 then Some (ctx, rc) else queue_children_loop V ctx dir_path rest s)))"

text \<open>
  Afterwards the entries from the old tail on are removed from the set by the directory name of
  their paths, computed into a buffer of 256 bytes that was never cleared.
\<close>

fun erase_queued :: "string \<Rightarrow> (string \<times> addr) list \<Rightarrow> entry_set \<Rightarrow> entry_set option" where
  "erase_queued buf [] cs = Some cs"
| "erase_queued buf ((path, a) # rest) cs =
     (case fskit_dirname_into buf path of
        None \<Rightarrow> None
      | Some buf \<Rightarrow> erase_queued buf rest (fst (fskit_entry_set_remove cs (cstr buf))))"

definition fskit_detach_queue_children ::
    "env \<Rightarrow> string \<Rightarrow> detach_ctx \<Rightarrow> string \<Rightarrow> entry_set \<Rightarrow> fs \<Rightarrow> (entry_set \<times> detach_ctx \<times> int) option" where
  "fskit_detach_queue_children V garbage ctx dir_path dir_children s =
     (case queue_children_loop V ctx dir_path (es_entries dir_children) s of
        None \<Rightarrow> None
      | Some (ctx', rc) \<Rightarrow>
          if rc \<noteq> 0 then Some (dir_children, ctx', rc)
          else if dc_queue ctx = [] \<and> dc_stale ctx then None
          else
            let old = length (dc_queue ctx);
                erased = (if old = 0 then [] else drop (old - 1) (dc_queue ctx'))
            in (case erase_queued (fit (FSKIT_FILESYSTEM_NAMEMAX + 1) NUL garbage) erased dir_children of
                  None \<Rightarrow> None
                | Some cs \<Rightarrow> Some (cs, ctx', 0)))"

text \<open>One round of the loop: the outcome is an error code, or 0 with the queue popped.\<close>

definition detach_step ::
    "env \<Rightarrow> string \<Rightarrow> detach_ctx \<Rightarrow> int \<Rightarrow> fs \<Rightarrow> (int \<times> int \<times> detach_ctx \<times> fs) option" where
  "detach_step V garbage ctx cbrc s =
     (case dc_queue ctx of
        [] \<Rightarrow> Some (0, cbrc, ctx, s)
      | (fent_path, fent) # _ \<Rightarrow>
          do {
            e \<leftarrow> heap s fent;
            (rc, ctx, s) \<leftarrow>
              (if etype e = T_DIR then
                 do {
                   (rc, children, s) \<leftarrow> fskit_entry_tag_garbage V fent s;
                   if rc \<noteq> 0 then Some (rc, ctx, s)
                   else do {
                     (cs, ctx, rc) \<leftarrow> fskit_detach_queue_children V garbage ctx fent_path children s;
                     Some (rc, ctx, s)
                   }
                 }
               else Some (0, ctx, s));
            if rc \<noteq> 0 then Some (rc, cbrc, ctx, s)
            else do {
              s \<leftarrow> upd fent (\<lambda>e. e\<lparr>link_count := link_count e - 1\<rparr>) s;
              s \<leftarrow> upd fent (\<lambda>e. if etype e = T_DIR then e\<lparr>deletion_in_progress := True\<rparr> else e) s;
              (rc, cbrc, s) \<leftarrow> fskit_entry_try_destroy_and_free_ex V fent_path None fent cbrc s;
              if dc_cb_fail ctx \<and> cbrc < 0 then
                do { fskit_entry_unlock (Some fent) s; Some (- EFAULT, cbrc, ctx\<lparr>dc_cbrc := cbrc\<rparr>, s) }
              else if rc \<ge> 0 then
                Some (0, cbrc, ctx\<lparr>dc_queue := tl (dc_queue ctx), dc_stale := (tl (dc_queue ctx) = [])\<rparr>, s)
              else Some (rc, cbrc, ctx, s)
            }
          })"

partial_function (option) detach_loop ::
    "env \<Rightarrow> string \<Rightarrow> detach_ctx \<Rightarrow> int \<Rightarrow> fs \<Rightarrow> (int \<times> detach_ctx \<times> fs) option" where
  "detach_loop V garbage ctx cbrc s =
     (if dc_queue ctx = [] then Some (0, ctx, s)
      else
        Option.bind (detach_step V garbage ctx cbrc s)
          (\<lambda>(rc, cbrc, ctx, s).
             if rc \<noteq> 0 then Some (rc, ctx, s) else detach_loop V garbage ctx cbrc s))"

definition fskit_detach_all_ex ::
    "env \<Rightarrow> string \<Rightarrow> string \<Rightarrow> entry_set option \<Rightarrow> detach_ctx \<Rightarrow> fs \<Rightarrow>
     (int \<times> entry_set option \<times> detach_ctx \<times> fs) option" where
  "fskit_detach_all_ex V garbage dir_path dir_children ctx s =
     (case (case dir_children of
              None \<Rightarrow> Some (None, ctx, 0)
            | Some cs \<Rightarrow>
                map_option (\<lambda>(cs, ctx, rc). (Some cs, ctx, rc))
                  (fskit_detach_queue_children V garbage ctx dir_path cs s)) of
        None \<Rightarrow> None
      | Some (cs, ctx, rc) \<Rightarrow>
          if rc \<noteq> 0 then Some (rc, cs, ctx, s)
          else map_option (\<lambda>(rc, ctx, s). (rc, cs, ctx, s)) (detach_loop V garbage ctx 0 s))"

text \<open>The loop of \<open>fskit_detach_all\<close> tries again for as long as memory runs out.\<close>

partial_function (option) detach_all_retry ::
    "env \<Rightarrow> string \<Rightarrow> string \<Rightarrow> entry_set option \<Rightarrow> detach_ctx \<Rightarrow> fs \<Rightarrow> (int \<times> fs) option" where
  "detach_all_retry V garbage root_path dir_children ctx s =
     Option.bind (fskit_detach_all_ex V garbage root_path dir_children ctx s)
       (\<lambda>(rc, cs, ctx, s).
          if rc = - ENOMEM then detach_all_retry V garbage root_path cs ctx s else Some (rc, s))"

definition fskit_detach_all :: "env \<Rightarrow> string \<Rightarrow> string \<Rightarrow> fs \<Rightarrow> (int \<times> fs) option" where
  "fskit_detach_all V garbage root_path s =
     do {
       r \<leftarrow> fskit_entry_resolve_path V root_path 0 0 s;
       case r of
         Inl rc \<Rightarrow> Some (rc, s)
       | Inr dent \<Rightarrow>
           do {
             (rc, dir_children, s) \<leftarrow> fskit_entry_tag_garbage V dent s;
             if rc \<noteq> 0 then Some (rc, s)
             else detach_all_retry V garbage root_path (Some dir_children) fskit_detach_ctx_init s
           }
     }"

subsection \<open>Destruction of an inode\<close>

lemma run_user_destroy_trace:
  "fskit_run_user_destroy V path parent fent s = Some (rc, s') \<Longrightarrow> \<exists>t. s' = s\<lparr>trace := t\<rparr>"
  unfolding fskit_run_user_destroy_def fskit_route_call_destroy_def
  by (auto simp: bind_eq_Some split: if_splits dest!: route_call_no_cont)

lemma run_user_detach_trace:
  "fskit_run_user_detach V path parent fent s = Some (rc, s') \<Longrightarrow> \<exists>t. s' = s\<lparr>trace := t\<rparr>"
  unfolding fskit_run_user_detach_def fskit_route_call_detach_def
  by (auto simp: bind_eq_Some split: if_splits dest!: route_call_no_cont)

text \<open>Either the inode is still referenced and nothing changes, or it is gone and nothing else is.\<close>

lemma try_destroy_and_free_ex_cases:
  assumes "fskit_entry_try_destroy_and_free_ex V path parent fent cb s = Some (rc, cbrc, s')"
  obtains (kept) e where "heap s fent = Some e" and "\<not> (link_count e \<le> 0 \<and> open_count e \<le> 0)"
      and "rc = 0" and "cbrc = cb" and "s' = s"
  | (freed) e t where "heap s fent = Some e" and "link_count e = 0" and "open_count e = 0" and "rc = 1"
      and "fent \<noteq> 0" and "s' = s\<lparr>heap := (heap s)(fent := None), trace := t\<rparr>"
proof -
  obtain e where e: "heap s fent = Some e"
    using assms by (auto simp: fskit_entry_try_destroy_and_free_ex_def fskit_entry_try_destroy_def bind_eq_Some)
  show ?thesis
  proof (cases "link_count e \<le> 0 \<and> open_count e \<le> 0")
    case False
    then show ?thesis
      using assms e kept
      by (auto simp: fskit_entry_try_destroy_and_free_ex_def fskit_entry_try_destroy_def)
  next
    case True
    let ?s = "s\<lparr>heap := (heap s)(fent \<mapsto> e\<lparr>open_count := open_count e + 1\<rparr>)\<rparr>"
    obtain s1 s2 where d: "fskit_run_user_destroy V path parent fent ?s = Some (cbrc, s1)"
      and f: "fskit_entry_destroy fent s1 = Some s2" and fr: "free_entry fent s2 = Some s'"
      and z: "link_count e = 0" "open_count e = 0" and rc: "rc = 1"
      using assms e True
      by (auto simp: fskit_entry_try_destroy_and_free_ex_def fskit_entry_try_destroy_def upd_simp
          bind_eq_Some split: if_splits)
    obtain t where "s1 = ?s\<lparr>trace := t\<rparr>" using run_user_destroy_trace [OF d] by blast
    then have "s' = s\<lparr>heap := (heap s)(fent := None), trace := t\<rparr>" "fent \<noteq> 0"
      using f fr by (auto simp: fskit_entry_destroy_def upd_Some free_entry_def split: if_splits)
    then show ?thesis using freed e z rc by blast
  qed
qed

lemma try_destroy_and_free_cases:
  assumes "fskit_entry_try_destroy_and_free V path parent fent s = Some (rc, s')"
  obtains (kept) e where "heap s fent = Some e" and "\<not> (link_count e \<le> 0 \<and> open_count e \<le> 0)"
      and "rc = 0" and "s' = s"
  | (freed) e t where "heap s fent = Some e" and "link_count e = 0" and "open_count e = 0" and "rc = 1"
      and "fent \<noteq> 0" and "s' = s\<lparr>heap := (heap s)(fent := None), trace := t\<rparr>"
proof -
  obtain cbrc where "fskit_entry_try_destroy_and_free_ex V path parent fent 0 s = Some (rc, cbrc, s')"
    using assms by (auto simp: fskit_entry_try_destroy_and_free_def bind_eq_Some)
  then show ?thesis by (cases rule: try_destroy_and_free_ex_cases) (use that in blast)+
qed

lemma inv_freed:
  assumes "rinv L R s" and "heap s a = Some e" and "link_count e = 0" and "open_count e = 0" and "a \<noteq> 0"
  shows "rinv L R (s\<lparr>heap := (heap s)(a := None)\<rparr>)"
  using assms inv_link_count [OF assms(1,2)] inv_open_count [OF assms(1,2)]
  by (intro inv_free [OF assms(1), of a]) (simp_all add: free_entry_def)

lemma inv_try_destroy_ex:
  "rinv L R s \<Longrightarrow> fskit_entry_try_destroy_and_free_ex V path parent fent cb s = Some (rc, cbrc, s') \<Longrightarrow> rinv L R s'"
  by (erule try_destroy_and_free_ex_cases) (auto intro: inv_freed)

lemma inv_try_destroy:
  "rinv L R s \<Longrightarrow> fskit_entry_try_destroy_and_free V path parent fent s = Some (rc, s') \<Longrightarrow> rinv L R s'"
  by (erule try_destroy_and_free_cases) (auto intro: inv_freed)

text \<open>A name fits the 256 byte buffers.\<close>

definition name_fits :: "string \<Rightarrow> bool" where
  "name_fits path = (fskit_basename_len path \<le> FSKIT_FILESYSTEM_NAMEMAX)"

lemma name_buf_Some: "name_fits path \<Longrightarrow> name_buf path = Some (fskit_basename path)"
  by (simp add: name_fits_def name_buf_def fskit_basename_into_def)

lemma run_user_destroy_not_None:
  assumes "table_ok (routes s)" and "no_holes (routes s)" and "name_fits path" and "heap s a = Some e"
  shows "\<exists>rc s'. fskit_run_user_destroy V path parent a s = Some (rc, s')"
  using route_call_not_None [OF assms(1,2,4), of FSKIT_ROUTE_MATCH_DESTROY V path
      "fskit_route_destroy_args parent (fskit_basename path) (deletion_through_rename e) (app_data e)"] assms(3,4)
  by (auto simp: fskit_run_user_destroy_def fskit_route_call_destroy_def name_buf_Some)

lemma run_user_detach_not_None:
  assumes "table_ok (routes s)" and "no_holes (routes s)" and "name_fits path" and "heap s a = Some e"
  shows "\<exists>rc s'. fskit_run_user_detach V path parent a s = Some (rc, s')"
  using route_call_not_None [OF assms(1,2,4), of FSKIT_ROUTE_MATCH_DETACH V path
      "fskit_route_detach_args parent (fskit_basename path) (deletion_in_progress e) (deletion_through_rename e) (app_data e)"] assms(3,4)
  by (auto simp: fskit_run_user_detach_def fskit_route_call_detach_def name_buf_Some)

text \<open>Under the invariant the negative counts that make the code exit do not occur.\<close>

lemma try_destroy_not_None:
  assumes I: "rinv L R s" and "table_ok (routes s)" and "no_holes (routes s)" and "name_fits path"
    and e: "heap s a = Some e"
  shows "\<exists>rc s'. fskit_entry_try_destroy_and_free V path parent a s = Some (rc, s')"
proof (cases "link_count e \<le> 0 \<and> open_count e \<le> 0")
  case False
  then show ?thesis using e
    by (auto simp: fskit_entry_try_destroy_and_free_def fskit_entry_try_destroy_and_free_ex_def
        fskit_entry_try_destroy_def)
next
  case True
  let ?s = "s\<lparr>heap := (heap s)(a \<mapsto> e\<lparr>open_count := open_count e + 1\<rparr>)\<rparr>"
  have z: "link_count e = 0" "open_count e = 0" using inv_counts_nonneg [OF I e] True by simp_all
  have a: "a \<noteq> 0" using inv_root [OF I] e z by (cases "a = 0") auto
  obtain rc s1 where d: "fskit_run_user_destroy V path parent a ?s = Some (rc, s1)"
    using run_user_destroy_not_None [of ?s path a "e\<lparr>open_count := open_count e + 1\<rparr>" V parent] assms by auto
  obtain t where "s1 = ?s\<lparr>trace := t\<rparr>" using run_user_destroy_trace [OF d] by blast
  then show ?thesis using e z a d
    by (simp add: fskit_entry_try_destroy_and_free_def fskit_entry_try_destroy_and_free_ex_def
        fskit_entry_try_destroy_def upd_simp fskit_entry_destroy_def upd_def free_entry_def)
qed

subsection \<open>Garbage collection and references keep the invariant\<close>

lemma set_links_remove_le:
  "count (set_links a (fst (fskit_entry_set_remove t n))) b \<le> count (set_links a t) b"
proof (cases "snd (fskit_entry_set_remove t n)")
  case True
  then show ?thesis
    using mset_entry_set_remove [of t n "fst (fskit_entry_set_remove t n)" True]
    by (auto simp: set_links_def prod_eq_iff)
next
  case False
  then show ?thesis
    using mset_entry_set_remove [of t n "fst (fskit_entry_set_remove t n)" False] by (simp add: prod_eq_iff)
qed

text \<open>
  The outcomes of garbage collection: not collectable; detached or already gone and still
  referenced; detached and destroyed, and then the name removed once more; or not detached.
\<close>

lemma gc_cases:
  assumes G: "fskit_entry_try_garbage_collect V path parent child s = Some (rc, s')"
  obtains (exists) c where "heap s child = Some c" and "\<not> deletion_in_progress c" and "rc = - EEXIST" and "s' = s"
  | (detached) nm rc1 s1 where "name_buf path = Some nm"
      and "fskit_entry_detach_lowlevel V parent nm s = Some (rc1, s1)" and "rc1 = 0 \<or> rc1 = - ENOENT"
      and "fskit_entry_try_destroy_and_free V path (Some parent) child s1 = Some (0, s')" and "rc = 0"
  | (collected) nm rc1 s1 s2 where "name_buf path = Some nm"
      and "fskit_entry_detach_lowlevel V parent nm s = Some (rc1, s1)" and "rc1 = 0 \<or> rc1 = - ENOENT"
      and "fskit_entry_try_destroy_and_free V path (Some parent) child s1 = Some (1, s2)" and "rc = 1"
      and "upd parent (\<lambda>e. e\<lparr>children := fst (fskit_entry_set_remove (children e) nm),
             num_children := num_children e - 1\<rparr>) s2 = Some s'"
  | (busy) nm where "name_buf path = Some nm"
      and "fskit_entry_detach_lowlevel V parent nm s = Some (- ENOTEMPTY, s)" and "rc = - ENOTEMPTY" and "s' = s"
proof -
  obtain c where c: "heap s child = Some c"
    using G by (auto simp: fskit_entry_try_garbage_collect_def bind_eq_Some)
  show ?thesis
  proof (cases "deletion_in_progress c")
    case False
    then have "rc = - EEXIST \<and> s' = s" using G c by (simp add: fskit_entry_try_garbage_collect_def)
    then show ?thesis using exists [OF c False] by blast
  next
    case True
    obtain nm where nm: "name_buf path = Some nm"
      using G c True by (auto simp: fskit_entry_try_garbage_collect_def bind_eq_Some)
    obtain rc1 s1 where d: "fskit_entry_detach_lowlevel V parent nm s = Some (rc1, s1)"
      using G c True nm
      by (cases "fskit_entry_detach_lowlevel V parent nm s") (auto simp: fskit_entry_try_garbage_collect_def)
    have r: "(rc1 = - ENOTEMPTY \<and> s1 = s) \<or> rc1 = 0 \<or> rc1 = - ENOENT" using d by (cases rule: detach_cases) auto
    show ?thesis
    proof (cases "rc1 = - ENOTEMPTY")
      case True
      then have e: "s1 = s" using r by (simp add: errno_defs)
      then have "rc = - ENOTEMPTY \<and> s' = s" using G c \<open>deletion_in_progress c\<close> nm d True
        by (simp add: fskit_entry_try_garbage_collect_def errno_defs)
      moreover have "fskit_entry_detach_lowlevel V parent nm s = Some (- ENOTEMPTY, s)" using d True e by simp
      ultimately show ?thesis using busy [OF nm] by blast
    next
      case False
      then have r: "rc1 = 0 \<or> rc1 = - ENOENT" using r by blast
      then obtain rc2 s2 where t: "fskit_entry_try_destroy_and_free V path (Some parent) child s1 = Some (rc2, s2)"
        using G c True nm d
        by (cases "fskit_entry_try_destroy_and_free V path (Some parent) child s1")
          (auto simp: fskit_entry_try_garbage_collect_def errno_defs)
      have r2: "rc2 = 0 \<or> rc2 = 1" using t by (cases rule: try_destroy_and_free_cases) auto
      show ?thesis
      proof (cases "rc2 = 0")
        case True
        then have "s' = s2" "rc = 0" using G c \<open>deletion_in_progress c\<close> nm d t r
          by (auto simp: fskit_entry_try_garbage_collect_def errno_defs)
        then show ?thesis using detached nm d r t True by blast
      next
        case False
        then have "rc2 = 1" using r2 by simp
        then have "upd parent (\<lambda>e. e\<lparr>children := fst (fskit_entry_set_remove (children e) nm),
             num_children := num_children e - 1\<rparr>) s2 = Some s'" "rc = 1"
          using G c \<open>deletion_in_progress c\<close> nm d t r
          by (auto simp: fskit_entry_try_garbage_collect_def errno_defs bind_eq_Some)
        then show ?thesis using collected nm d r t \<open>rc2 = 1\<close> by blast
      qed
    qed
  qed
qed

lemma inv_gc:
  assumes I: "rinv L R s" and G: "fskit_entry_try_garbage_collect V path parent child s = Some (rc, s')"
  shows "rinv L R s'"
  using G
proof (cases rule: gc_cases)
  case (detached nm rc1 s1)
  then show ?thesis using inv_try_destroy [OF inv_detach [OF I]] by blast
next
  case (collected nm rc1 s1 s2)
  have I2: "rinv L R s2" using inv_try_destroy [OF inv_detach [OF I collected(2)] collected(4)] .
  obtain p where p: "heap s2 parent = Some p" and s': "s' = s2\<lparr>heap := (heap s2)(parent \<mapsto>
      p\<lparr>children := fst (fskit_entry_set_remove (children p) nm), num_children := num_children p - 1\<rparr>)\<rparr>"
    using collected(6) by (auto simp: upd_Some)
  show ?thesis
    unfolding s' by (rule inv_update [OF I2 p]) (simp_all add: links_of_def set_links_remove_le)
qed (use I in simp_all)

lemma inv_ref_entry: "rinv L R s \<Longrightarrow> fskit_entry_ref_entry a s = Some s' \<Longrightarrow> rinv L (add_mset a R) s'"
  unfolding fskit_entry_ref_entry_def by (rule inv_ref)

lemma inv_unref_entry:
  assumes "rinv L (add_mset a R) s" and "fskit_entry_unref V path a s = Some (rc, s')"
  shows "rinv L R s'"
proof -
  obtain s1 where u: "upd a (\<lambda>e. e\<lparr>open_count := open_count e - 1\<rparr>) s = Some s1"
    and r: "s' = s1 \<or> (\<exists>rc. fskit_entry_try_destroy_and_free V path None a s1 = Some (rc, s'))"
    using assms(2) by (auto simp: fskit_entry_unref_def bind_eq_Some split: if_splits)
  have "rinv L R s1" by (rule inv_unref [OF assms(1) u])
  then show ?thesis using r inv_try_destroy by auto
qed

lemma inv_ref_path:
  "rinv L R s \<Longrightarrow> fskit_entry_ref V path s = Some (Inr a, s') \<Longrightarrow> rinv L (add_mset a R) s'"
  unfolding fskit_entry_ref_def bind_eq_Some
  by (elim exE conjE, rename_tac r, case_tac r) (auto simp: bind_eq_Some intro: inv_ref_entry)

lemma ref_path_Inl: "fskit_entry_ref V path s = Some (Inl rc, s') \<Longrightarrow> s' = s"
  unfolding fskit_entry_ref_def bind_eq_Some
  by (elim exE conjE, rename_tac r, case_tac r) (auto simp: bind_eq_Some)

lemma unref_not_None:
  assumes "rinv L (add_mset a R) s" and "table_ok (routes s)" and "no_holes (routes s)" and "name_fits path"
  shows "\<exists>rc s'. fskit_entry_unref V path a s = Some (rc, s')"
proof -
  obtain e where e: "heap s a = Some e" using inv_R_heap [OF assms(1), of a] by auto
  let ?s = "s\<lparr>heap := (heap s)(a \<mapsto> e\<lparr>open_count := open_count e - 1\<rparr>)\<rparr>"
  have u: "upd a (\<lambda>e. e\<lparr>open_count := open_count e - 1\<rparr>) s = Some ?s" by (simp add: upd_simp [OF e])
  have "rinv L R ?s" by (rule inv_unref [OF assms(1) u])
  then obtain rc s' where "fskit_entry_try_destroy_and_free V path None a ?s = Some (rc, s')"
    using try_destroy_not_None [of L R ?s path a "e\<lparr>open_count := open_count e - 1\<rparr>" V None] assms by auto
  then show ?thesis by (simp add: fskit_entry_unref_def u)
qed

subsection \<open>Mass detachment keeps the invariant and ends\<close>

text \<open>No directory has an entry for itself besides \<open>"."\<close> and \<open>".."\<close>.\<close>

definition no_self :: "fs \<Rightarrow> bool" where
  "no_self s = (\<forall>a e. heap s a = Some e \<longrightarrow> (\<forall>n. (n, a) \<in> set (es_entries (children e)) \<longrightarrow> n = ''.'' \<or> n = ''..''))"

definition qrefs :: "detach_ctx \<Rightarrow> addr multiset" where
  "qrefs ctx = mset (map snd (dc_queue ctx))"

definition all_mem :: "'z sys_scheme \<Rightarrow> bool" where
  "all_mem S = (\<forall>site. mem_ok S site)"

definition queued :: "fs \<Rightarrow> string \<Rightarrow> (string \<times> addr) list \<Rightarrow> (string \<times> addr) list" where
  "queued s dir_path xs = map (\<lambda>(n, b). (fskit_fullpath dir_path n, b))
     (filter (\<lambda>(n, b). n \<noteq> ''.'' \<and> n \<noteq> ''..'' \<and> etype (the (heap s b)) \<noteq> T_DEAD) xs)"

lemma queue_children_loop_eq:
  assumes "all_mem V" and "queue_children_loop V ctx dir_path xs s = Some (ctx', rc)"
  shows "rc = 0 \<and> dc_queue ctx' = dc_queue ctx @ queued s dir_path xs \<and> dc_cb_fail ctx' = dc_cb_fail ctx"
  using assms(2)
proof (induction xs arbitrary: ctx)
  case Nil
  then show ?case by (simp add: queued_def)
next
  case (Cons x xs)
  obtain n b where x: "x = (n, b)" by (cases x)
  show ?case
  proof (cases "n = ''.'' \<or> n = ''..''")
    case True
    then show ?thesis using Cons by (auto simp: x queued_def)
  next
    case False
    then obtain c where c: "heap s b = Some c" using Cons.prems by (auto simp: x split: option.splits)
    show ?thesis
    proof (cases "etype c = T_DEAD")
      case True
      then show ?thesis using Cons False c by (auto simp: x queued_def)
    next
      case alive: False
      let ?ctx = "ctx\<lparr>dc_queue := dc_queue ctx @ [(fskit_fullpath dir_path n, b)], dc_stale := False\<rparr>"
      have "queue_children_loop V ?ctx dir_path xs s = Some (ctx', rc)"
        using Cons.prems False c alive assms(1)
        by (simp add: x fskit_detach_queue_child_def all_mem_def)
      from Cons.IH [OF this] show ?thesis using False c alive by (simp add: x queued_def)
    qed
  qed
qed

lemma queue_children_eq:
  assumes "all_mem V" and "fskit_detach_queue_children V g ctx dir_path cs s = Some (cs', ctx', rc)"
  shows "rc = 0 \<and> dc_queue ctx' = dc_queue ctx @ queued s dir_path (es_entries cs) \<and>
    dc_cb_fail ctx' = dc_cb_fail ctx"
proof -
  obtain ctx1 rc1 where q: "queue_children_loop V ctx dir_path (es_entries cs) s = Some (ctx1, rc1)"
    using assms(2) by (auto simp: fskit_detach_queue_children_def split: option.splits)
  then show ?thesis
    using queue_children_loop_eq [OF assms(1) q] assms(2)
    by (auto simp: fskit_detach_queue_children_def Let_def split: option.splits if_splits)
qed

lemma mset_map_filter_subset:
  "(\<And>x. P x \<Longrightarrow> x \<in> set xs \<Longrightarrow> Q x) \<Longrightarrow> image_mset f (mset (filter P xs)) \<subseteq># image_mset f (filter_mset Q (mset xs))"
  unfolding mset_filter
  by (intro image_mset_subseteq_mono mset_subset_eqI) (auto simp: count_filter_mset not_in_iff [symmetric])

text \<open>The addresses queued are link references that the old child set held.\<close>

lemma queued_links:
  assumes "\<And>n. (n, a) \<in> set (es_entries cs) \<Longrightarrow> n = ''.'' \<or> n = ''..''"
  shows "mset (map snd (queued s dir_path (es_entries cs))) \<subseteq># set_links a cs"
proof -
  let ?P = "\<lambda>(n, b). n \<noteq> ''.'' \<and> n \<noteq> ''..'' \<and> etype (the (heap s b)) \<noteq> T_DEAD"
  have "map snd (queued s dir_path (es_entries cs)) = map snd (filter ?P (es_entries cs))"
    by (simp add: queued_def comp_def case_prod_beta)
  moreover have "image_mset snd (mset (filter ?P (es_entries cs))) \<subseteq># set_links a cs"
    unfolding set_links_def by (rule mset_map_filter_subset) (use assms in auto)
  ultimately show ?thesis by simp
qed

lemma no_self_upd:
  "no_self s \<Longrightarrow> upd a f s = Some s' \<Longrightarrow> (\<And>e. children (f e) = children e) \<Longrightarrow> no_self s'"
proof -
  assume N: "no_self s" and u: "upd a f s = Some s'" and c: "\<And>e. children (f e) = children e"
  obtain e where e: "heap s a = Some e" "s' = s\<lparr>heap := (heap s)(a \<mapsto> f e)\<rparr>" using u by (auto simp: upd_Some)
  have "\<exists>e0. heap s b = Some e0 \<and> children e' = children e0" if "heap s' b = Some e'" for b e'
    using that e c by (cases "b = a") auto
  then show "no_self s'" using N unfolding no_self_def by metis
qed

lemma no_self_tag:
  assumes "no_self s" and "fskit_entry_tag_garbage V a s = Some (rc, cs, s')"
  shows "no_self s'"
proof -
  obtain e where e: "heap s a = Some e"
    using assms(2) by (auto simp: fskit_entry_tag_garbage_def bind_eq_Some)
  have new: "(n, b) \<in> set (es_entries t) \<Longrightarrow> n = ''.'' \<or> n = ''..''"
    if "fskit_entry_set_new V a p = Some t" for t p n b
    using mset_entry_set_new [OF that] by (metis (no_types, lifting) add_mset_add_single fst_conv insert_iff
        set_mset_add_mset_insert set_mset_mset singletonD set_mset_single)
  show ?thesis
    using assms e new
    by (auto simp: fskit_entry_tag_garbage_def no_self_def upd_Some bind_eq_Some
        split: option.splits if_splits) blast+
qed

lemma tag_links: "fskit_entry_tag_garbage V a s = Some (rc, cs, s') \<Longrightarrow> heap s a = Some e \<Longrightarrow>
    cs = Leaf \<or> cs = children e"
  by (auto simp: fskit_entry_tag_garbage_def bind_eq_Some split: option.splits if_splits)

lemma qrefs_Cons: "dc_queue ctx = (p, a) # q \<Longrightarrow> qrefs ctx = add_mset a (mset (map snd q))"
  by (simp add: qrefs_def)

text \<open>The first half of a round: the head is tagged and its children are queued.\<close>

lemma detach_step_queue:
  assumes mem: "all_mem V" and I: "rinv (L + qrefs ctx) R s" and N: "no_self s" and e: "heap s a = Some e"
    and T: "fskit_entry_tag_garbage V a s = Some (0, cs, s1)"
    and Q: "fskit_detach_queue_children V g ctx dir_path cs s1 = Some (cs', ctx1, rc)"
  shows "rc = 0" and "rinv (L + qrefs ctx1) R s1" and "no_self s1"
    and "dc_queue ctx1 = dc_queue ctx @ queued s1 dir_path (es_entries cs)"
proof -
  note q = queue_children_eq [OF mem Q]
  show "rc = 0" "dc_queue ctx1 = dc_queue ctx @ queued s1 dir_path (es_entries cs)" using q by simp_all
  have "\<And>n. (n, a) \<in> set (es_entries cs) \<Longrightarrow> n = ''.'' \<or> n = ''..''"
    using tag_links [OF T e] N e by (auto simp: no_self_def es_entries_def)
  then have "mset (map snd (queued s1 dir_path (es_entries cs))) \<subseteq># set_links a cs" by (rule queued_links)
  then have "L + qrefs ctx1 \<subseteq># L + qrefs ctx + set_links a cs" using q by (simp add: qrefs_def)
  then show "rinv (L + qrefs ctx1) R s1" using inv_mono [OF inv_tag [OF I T]] by simp
  show "no_self s1" by (rule no_self_tag [OF N T])
qed

lemma no_self_freed: "no_self s \<Longrightarrow> no_self (s\<lparr>heap := (heap s)(a := None), trace := t\<rparr>)"
  by (simp add: no_self_def)

lemma detach_step_inv:
  assumes mem: "all_mem V" and I: "rinv (L + qrefs ctx) R s" and N: "no_self s"
    and S: "detach_step V g ctx cbrc s = Some (rc, cbrc', ctx', s')"
  shows "rinv (if rc = 0 then L + qrefs ctx' else L) R s' \<and> no_self s'"
proof (cases "dc_queue ctx")
  case Nil
  then show ?thesis using S I N by (auto simp: detach_step_def)
next
  case (Cons x q)
  obtain p a where x: "x = (p, a)" by (cases x)
  obtain e where e: "heap s a = Some e" using S by (auto simp: detach_step_def Cons x bind_eq_Some)
  have IL: "rinv L R s" by (rule inv_mono [OF I]) simp_all
  let ?mid = "if etype e = T_DIR then
                 do {
                   (rc, children, s) \<leftarrow> fskit_entry_tag_garbage V a s;
                   if rc \<noteq> 0 then Some (rc, ctx, s)
                   else do {
                     (cs, ctx, rc) \<leftarrow> fskit_detach_queue_children V g ctx p children s;
                     Some (rc, ctx, s)
                   }
                 }
               else Some (0, ctx, s)"
  obtain rc1 ctx1 s1 where mid: "?mid = Some (rc1, ctx1, s1)"
    using S e by (cases ?mid) (auto simp: detach_step_def Cons x)
  have M: "no_self s1 \<and> (if rc1 = 0 then rinv (L + qrefs ctx1) R s1 \<and> (\<exists>ys. dc_queue ctx1 = (p, a) # q @ ys)
      else rinv L R s1)"
  proof (cases "etype e = T_DIR")
    case False
    then show ?thesis using mid I N Cons x by auto
  next
    case True
    then obtain rc0 cs s0 where T: "fskit_entry_tag_garbage V a s = Some (rc0, cs, s0)"
      using mid by (auto simp: bind_eq_Some)
    show ?thesis
    proof (cases "rc0 = 0")
      case False
      moreover have "rinv L R s0" by (rule inv_mono [OF inv_tag [OF I T]]) simp_all
      ultimately show ?thesis using mid True T no_self_tag [OF N T] by auto
    next
      case z: True
      have B: "Option.bind (fskit_detach_queue_children V g ctx p cs s0)
          (\<lambda>(cs, ctx, rc). Some (rc, ctx, s0)) = Some (rc1, ctx1, s1)"
        using mid by (simp add: True T z)
      obtain cs' ctx2 rc2 where "fskit_detach_queue_children V g ctx p cs s0 = Some (cs', ctx2, rc2)"
        using B by (cases "fskit_detach_queue_children V g ctx p cs s0") auto
      then have Q: "fskit_detach_queue_children V g ctx p cs s0 = Some (cs', ctx1, rc2)"
        and r: "rc1 = rc2" "s1 = s0" using B by auto
      note D = detach_step_queue [OF mem I N e T [unfolded z] Q]
      then show ?thesis using r Cons x by auto
    qed
  qed
  show ?thesis
  proof (cases "rc1 = 0")
    case False
    then have "s' = s1 \<and> rc = rc1" using S e mid by (simp add: detach_step_def Cons x)
    then show ?thesis using M False by simp
  next
    case True
    then obtain ys where q1: "dc_queue ctx1 = (p, a) # q @ ys" and I1: "rinv (L + qrefs ctx1) R s1" and N1: "no_self s1"
      using M by auto
    obtain s2 s3 rc4 s4 cb where u2: "upd a (\<lambda>e. e\<lparr>link_count := link_count e - 1\<rparr>) s1 = Some s2"
      and u3: "upd a (\<lambda>e. if etype e = T_DIR then e\<lparr>deletion_in_progress := True\<rparr> else e) s2 = Some s3"
      and t: "fskit_entry_try_destroy_and_free_ex V p None a cbrc s3 = Some (rc4, cb, s4)"
      and fin: "(if dc_cb_fail ctx1 \<and> cb < 0 then
                do { fskit_entry_unlock (Some a) s4; Some (- EFAULT, cb, ctx1\<lparr>dc_cbrc := cb\<rparr>, s4) }
              else if rc4 \<ge> 0 then
                Some (0, cb, ctx1\<lparr>dc_queue := tl (dc_queue ctx1), dc_stale := (tl (dc_queue ctx1) = [])\<rparr>, s4)
              else Some (rc4, cb, ctx1, s4)) = Some (rc, cbrc', ctx', s')"
      using S e mid True by (auto simp: detach_step_def Cons x bind_eq_Some simp del: if_split)
    let ?L = "L + mset (map snd (q @ ys))"
    have "L + qrefs ctx1 = add_mset a ?L" using q1 by (simp add: qrefs_def)
    then have "rinv ?L R s2" using inv_unlink [OF _ u2] I1 by simp
    then have "rinv ?L R s3" by (rule inv_upd_frame [OF _ u3]) auto
    then have I4: "rinv ?L R s4" by (rule inv_try_destroy_ex [OF _ t])
    have N3: "no_self s3" by (rule no_self_upd [OF no_self_upd [OF N1 u2] u3]) auto
    have N4: "no_self s4" using t by (cases rule: try_destroy_and_free_ex_cases) (auto simp: N3 no_self_freed)
    have "s' = s4 \<and> (rc = 0 \<longrightarrow> dc_queue ctx' = q @ ys)"
      using fin q1 by (auto simp: bind_eq_Some EFAULT_def split: if_splits)
    then show ?thesis using I4 N4 inv_mono [OF I4, of L R] by (auto simp: qrefs_def)
  qed
qed

lemma detach_loop_inv_aux:
  "detach_loop V g ctx cbrc s = Some y \<Longrightarrow>
    all_mem V \<longrightarrow> rinv (L + qrefs ctx) R s \<longrightarrow> no_self s \<longrightarrow> rinv L R (snd (snd y)) \<and> no_self (snd (snd y))"
proof (erule detach_loop.raw_induct [of "\<lambda>V g ctx cbrc s y. all_mem V \<longrightarrow> rinv (L + qrefs ctx) R s \<longrightarrow>
    no_self s \<longrightarrow> rinv L R (snd (snd y)) \<and> no_self (snd (snd y))", rotated], goal_cases)
  case (1 lp V g ctx cbrc s y)
  show ?case
  proof (intro impI)
    assume A: "all_mem V" "rinv (L + qrefs ctx) R s" "no_self s"
    show "rinv L R (snd (snd y)) \<and> no_self (snd (snd y))"
    proof (cases "dc_queue ctx = []")
      case True
      then show ?thesis using 1(2) A by (auto simp: qrefs_def)
    next
      case False
      then obtain rc cb ctx1 s1 where S: "detach_step V g ctx cbrc s = Some (rc, cb, ctx1, s1)"
        and y: "(if rc \<noteq> 0 then Some (rc, ctx1, s1) else lp V g ctx1 cb s1) = Some y"
        using 1(2) by (auto simp: bind_eq_Some)
      note D = detach_step_inv [OF A S]
      show ?thesis
      proof (cases "rc = 0")
        case True
        then show ?thesis using 1(1) [of V g ctx1 cb s1 y] y D A(1) by simp
      next
        case False
        then show ?thesis using y D by auto
      qed
    qed
  qed
qed

lemma detach_loop_inv:
  "detach_loop V g ctx cbrc s = Some (rc, ctx', s') \<Longrightarrow> all_mem V \<Longrightarrow> rinv (L + qrefs ctx) R s \<Longrightarrow> no_self s \<Longrightarrow>
    rinv L R s' \<and> no_self s'"
  using detach_loop_inv_aux [of V g ctx cbrc s "(rc, ctx', s')" L R] by simp

text \<open>
  A measure that every round lowers: the entries of the directories that are left, and the queue.
\<close>

definition proper_count :: "entry_set \<Rightarrow> nat" where
  "proper_count t = length (filter (\<lambda>(n, b). n \<noteq> ''.'' \<and> n \<noteq> ''..'') (es_entries t))"

definition entries_left :: "fs \<Rightarrow> nat" where
  "entries_left s = (\<Sum>a\<in>dom (heap s). proper_count (children (the (heap s a))))"

lemma entries_left_upd:
  assumes "finite (dom (heap s))" and "heap s a = Some e"
  shows "entries_left (s\<lparr>heap := (heap s)(a \<mapsto> e')\<rparr>) + proper_count (children e) =
    entries_left s + proper_count (children e')"
proof -
  let ?s = "s\<lparr>heap := (heap s)(a \<mapsto> e')\<rparr>"
  let ?R = "\<Sum>x\<in>dom (heap s) - {a}. proper_count (children (the (heap s x)))"
  have d: "dom (heap ?s) = dom (heap s)" using assms(2) by auto
  have "entries_left s = proper_count (children e) + ?R"
    unfolding entries_left_def using assms by (subst sum.remove [of _ a]) auto
  moreover have "entries_left ?s = proper_count (children e') + ?R"
    unfolding entries_left_def d using assms by (subst sum.remove [of _ a]) (auto intro: sum.cong)
  ultimately show ?thesis by simp
qed

lemma entries_left_frame:
  "finite (dom (heap s)) \<Longrightarrow> upd a f s = Some s' \<Longrightarrow> (\<And>e. children (f e) = children e) \<Longrightarrow>
    entries_left s' = entries_left s \<and> finite (dom (heap s'))"
proof -
  assume f: "finite (dom (heap s))" and u: "upd a f s = Some s'" and c: "\<And>e. children (f e) = children e"
  obtain e where e: "heap s a = Some e" "s' = s\<lparr>heap := (heap s)(a \<mapsto> f e)\<rparr>" using u by (auto simp: upd_Some)
  show ?thesis using entries_left_upd [OF f e(1), of "f e"] f by (simp add: e(2) c)
qed

lemma entries_left_freed:
  assumes "finite (dom (heap s))"
  shows "entries_left (s\<lparr>heap := (heap s)(a := None), trace := t\<rparr>) \<le> entries_left s"
proof -
  have "(\<Sum>x\<in>dom (heap s) - {a}. proper_count (children (the (((heap s)(a := None)) x)))) =
      (\<Sum>x\<in>dom (heap s) - {a}. proper_count (children (the (heap s x))))"
    by (rule sum.cong) auto
  also have "\<dots> \<le> (\<Sum>x\<in>dom (heap s). proper_count (children (the (heap s x))))"
    using assms by (intro sum_mono2) auto
  finally show ?thesis by (simp add: entries_left_def)
qed

lemma proper_count_new: "fskit_entry_set_new S a p = Some t \<Longrightarrow> proper_count t = 0"
proof -
  assume "fskit_entry_set_new S a p = Some t"
  from mset_entry_set_new [OF this] have "set_mset (mset (es_entries t)) = {(''.'', a), (''..'', p)}" by simp
  then have "set (es_entries t) = {(''.'', a), (''..'', p)}" by simp
  then show ?thesis by (auto simp: proper_count_def filter_empty_conv)
qed

lemma entries_left_tag:
  assumes f: "finite (dom (heap s))" and T: "fskit_entry_tag_garbage V a s = Some (0, cs, s')"
  shows "entries_left s' + proper_count cs = entries_left s" and "finite (dom (heap s'))"
proof -
  obtain e where e: "heap s a = Some e" using T by (auto simp: fskit_entry_tag_garbage_def bind_eq_Some)
  have "entries_left s' + proper_count cs = entries_left s \<and> finite (dom (heap s'))"
  proof (cases "etype e = T_DIR")
    case True
    then obtain p t where t: "fskit_entry_set_new V a p = Some t" and cs: "cs = children e"
      and u: "s' = s\<lparr>heap := (heap s)(a \<mapsto> e\<lparr>children := t, num_children := 0, deletion_in_progress := True\<rparr>)\<rparr>"
      using T e by (auto simp: fskit_entry_tag_garbage_def upd_simp errno_defs split: option.splits)
    show ?thesis using entries_left_upd [OF f e, of "e\<lparr>children := t, num_children := 0, deletion_in_progress := True\<rparr>"]
        proper_count_new [OF t] f by (simp add: u cs)
  next
    case False
    then have "cs = Leaf" and "upd a (\<lambda>e. e\<lparr>deletion_in_progress := True\<rparr>) s = Some s'"
      using T e by (auto simp: fskit_entry_tag_garbage_def bind_eq_Some)
    then show ?thesis using entries_left_frame [OF f] by (simp add: proper_count_def es_entries_def)
  qed
  then show "entries_left s' + proper_count cs = entries_left s" "finite (dom (heap s'))" by simp_all
qed

lemma length_queued: "length (queued s dir_path (es_entries cs)) \<le> proper_count cs"
proof -
  have "length (filter (\<lambda>(n, b). n \<noteq> ''.'' \<and> n \<noteq> ''..'' \<and> etype (the (heap s b)) \<noteq> T_DEAD) xs) \<le>
      length (filter (\<lambda>(n, b). n \<noteq> ''.'' \<and> n \<noteq> ''..'') xs)" for xs :: "(string \<times> addr) list"
    by (induction xs) auto
  then show ?thesis by (simp add: queued_def proper_count_def)
qed

definition detach_work :: "detach_ctx \<Rightarrow> fs \<Rightarrow> nat" where
  "detach_work ctx s = entries_left s + length (dc_queue ctx)"

lemma detach_step_work:
  assumes mem: "all_mem V" and f: "finite (dom (heap s))" and ne: "dc_queue ctx \<noteq> []"
    and S: "detach_step V g ctx cbrc s = Some (0, cbrc', ctx', s')"
  shows "detach_work ctx' s' < detach_work ctx s \<and> finite (dom (heap s'))"
proof -
  obtain p a q where x: "dc_queue ctx = (p, a) # q" using ne by (cases "dc_queue ctx") auto
  obtain e where e: "heap s a = Some e" using S by (auto simp: detach_step_def x bind_eq_Some)
  let ?mid = "if etype e = T_DIR then
                 do {
                   (rc, children, s) \<leftarrow> fskit_entry_tag_garbage V a s;
                   if rc \<noteq> 0 then Some (rc, ctx, s)
                   else do {
                     (cs, ctx, rc) \<leftarrow> fskit_detach_queue_children V g ctx p children s;
                     Some (rc, ctx, s)
                   }
                 }
               else Some (0, ctx, s)"
  obtain rc1 ctx1 s1 where mid: "?mid = Some (rc1, ctx1, s1)"
    using S e by (cases ?mid) (auto simp: detach_step_def x)
  have z: "rc1 = 0" using S e mid by (auto simp: detach_step_def x split: if_splits)
  have M: "entries_left s1 + length (dc_queue ctx1) \<le> detach_work ctx s \<and> finite (dom (heap s1)) \<and>
      (\<exists>ys. dc_queue ctx1 = (p, a) # q @ ys)"
  proof (cases "etype e = T_DIR")
    case False
    then show ?thesis using mid f x by (auto simp: detach_work_def)
  next
    case True
    then obtain cs cs' where T: "fskit_entry_tag_garbage V a s = Some (0, cs, s1)"
      and Q: "fskit_detach_queue_children V g ctx p cs s1 = Some (cs', ctx1, 0)"
      using mid z by (auto simp: bind_eq_Some split: if_splits)
    show ?thesis
      using entries_left_tag [OF f T] queue_children_eq [OF mem Q] length_queued [of s1 p cs] x
      by (auto simp: detach_work_def)
  qed
  then obtain ys where q1: "dc_queue ctx1 = (p, a) # q @ ys" by blast
  obtain s2 s3 rc4 s4 cb where u2: "upd a (\<lambda>e. e\<lparr>link_count := link_count e - 1\<rparr>) s1 = Some s2"
    and u3: "upd a (\<lambda>e. if etype e = T_DIR then e\<lparr>deletion_in_progress := True\<rparr> else e) s2 = Some s3"
    and t: "fskit_entry_try_destroy_and_free_ex V p None a cbrc s3 = Some (rc4, cb, s4)"
    and fin: "(if dc_cb_fail ctx1 \<and> cb < 0 then
              do { fskit_entry_unlock (Some a) s4; Some (- EFAULT, cb, ctx1\<lparr>dc_cbrc := cb\<rparr>, s4) }
            else if rc4 \<ge> 0 then
              Some (0, cb, ctx1\<lparr>dc_queue := tl (dc_queue ctx1), dc_stale := (tl (dc_queue ctx1) = [])\<rparr>, s4)
            else Some (rc4, cb, ctx1, s4)) = Some (0, cbrc', ctx', s')"
    using S e mid z by (auto simp: detach_step_def x bind_eq_Some simp del: if_split)
  have E2: "entries_left s2 = entries_left s1 \<and> finite (dom (heap s2))"
    by (rule entries_left_frame [OF _ u2]) (use M in simp_all)
  have E3: "entries_left s3 = entries_left s2 \<and> finite (dom (heap s3))"
    by (rule entries_left_frame [OF _ u3]) (use E2 in simp_all)
  have "entries_left s4 \<le> entries_left s3 \<and> finite (dom (heap s4))"
    using t
  proof (cases rule: try_destroy_and_free_ex_cases)
    case (freed e t)
    then show ?thesis using entries_left_freed [of s3 t a] E3 by simp
  qed (use E3 in simp)
  then have "entries_left s4 \<le> entries_left s1 \<and> finite (dom (heap s4))" using E2 E3 by simp
  moreover have "s' = s4 \<and> dc_queue ctx' = q @ ys"
    using fin q1 by (auto simp: bind_eq_Some EFAULT_def split: if_splits)
  ultimately show ?thesis using M q1 by (simp add: detach_work_def)
qed

text \<open>With memory available the loop ends after at most that many rounds.\<close>

fun detach_rounds ::
    "nat \<Rightarrow> env \<Rightarrow> string \<Rightarrow> detach_ctx \<Rightarrow> int \<Rightarrow> fs \<Rightarrow> (int \<times> detach_ctx \<times> fs) option option" where
  "detach_rounds n V garbage ctx cbrc s =
     (if dc_queue ctx = [] then Some (Some (0, ctx, s))
      else
        (case n of
           0 \<Rightarrow> None
         | Suc m \<Rightarrow>
             (case detach_step V garbage ctx cbrc s of
                None \<Rightarrow> Some None
              | Some (rc, cbrc, ctx, s) \<Rightarrow>
                  if rc \<noteq> 0 then Some (Some (rc, ctx, s)) else detach_rounds m V garbage ctx cbrc s)))"

lemma detach_rounds_enough:
  "all_mem V \<Longrightarrow> finite (dom (heap s)) \<Longrightarrow> detach_work ctx s \<le> n \<Longrightarrow>
    detach_rounds n V g ctx cbrc s = Some (detach_loop V g ctx cbrc s)"
proof (induction n arbitrary: ctx cbrc s)
  case 0
  then show ?case by (simp add: detach_work_def detach_loop.simps)
next
  case (Suc n)
  show ?case
  proof (cases "dc_queue ctx = []")
    case True
    then show ?thesis by (simp add: detach_loop.simps)
  next
    case ne: False
    show ?thesis
    proof (cases "detach_step V g ctx cbrc s")
      case None
      then show ?thesis using ne by (simp add: detach_loop.simps [of V g ctx])
    next
      case (Some r)
      obtain rc cb ctx1 s1 where r: "r = (rc, cb, ctx1, s1)" by (cases r)
      show ?thesis
      proof (cases "rc = 0")
        case False
        then show ?thesis using ne Some r by (simp add: detach_loop.simps [of V g ctx])
      next
        case True
        have "detach_work ctx1 s1 < detach_work ctx s \<and> finite (dom (heap s1))"
          using detach_step_work [OF Suc.prems(1,2) ne] Some r True by simp
        then have "detach_rounds n V g ctx1 cb s1 = Some (detach_loop V g ctx1 cb s1)"
          using Suc.IH [OF Suc.prems(1), of s1 ctx1 cb] Suc.prems(3) by simp
        then show ?thesis using ne Some r True
          by (simp add: detach_loop.simps [of V g ctx] detach_rounds.simps [of "Suc n"] del: detach_rounds.simps)
      qed
    qed
  qed
qed

lemma entry_set_new_mem: "all_mem V \<Longrightarrow> \<exists>t. fskit_entry_set_new V a p = Some t"
  by (simp add: fskit_entry_set_new_def fskit_entry_set_insert_def all_mem_def)

lemma tag_mem: "all_mem V \<Longrightarrow> fskit_entry_tag_garbage V a s = Some (rc, cs, s') \<Longrightarrow> rc = 0 \<or> rc = - EIO"
  using entry_set_new_mem [of V]
  by (auto simp: fskit_entry_tag_garbage_def bind_eq_Some split: option.splits if_splits) metis

lemma detach_step_rc:
  assumes mem: "all_mem V" and S: "detach_step V g ctx cbrc s = Some (rc, cbrc', ctx', s')"
    and c: "\<not> dc_cb_fail ctx"
  shows "(rc = 0 \<or> rc = - EIO) \<and> \<not> dc_cb_fail ctx'"
proof (cases "dc_queue ctx")
  case Nil
  then show ?thesis using S c by (auto simp: detach_step_def)
next
  case (Cons x q)
  obtain p a where x: "x = (p, a)" by (cases x)
  obtain e where e: "heap s a = Some e" using S by (auto simp: detach_step_def Cons x bind_eq_Some)
  let ?mid = "if etype e = T_DIR then
                 do {
                   (rc, children, s) \<leftarrow> fskit_entry_tag_garbage V a s;
                   if rc \<noteq> 0 then Some (rc, ctx, s)
                   else do {
                     (cs, ctx, rc) \<leftarrow> fskit_detach_queue_children V g ctx p children s;
                     Some (rc, ctx, s)
                   }
                 }
               else Some (0, ctx, s)"
  obtain rc1 ctx1 s1 where mid: "?mid = Some (rc1, ctx1, s1)"
    using S e by (cases ?mid) (auto simp: detach_step_def Cons x)
  have M: "(rc1 = 0 \<or> rc1 = - EIO) \<and> \<not> dc_cb_fail ctx1"
  proof (cases "etype e = T_DIR")
    case False
    then show ?thesis using mid c by simp
  next
    case True
    then obtain rc0 cs s0 where T: "fskit_entry_tag_garbage V a s = Some (rc0, cs, s0)"
      using mid by (cases "fskit_entry_tag_garbage V a s") auto
    show ?thesis
    proof (cases "rc0 = 0")
      case False
      then show ?thesis using mid True T tag_mem [OF mem T] c by auto
    next
      case z: True
      then obtain cs' ctx2 rc2 where Q: "fskit_detach_queue_children V g ctx p cs s0 = Some (cs', ctx2, rc2)"
        using mid True T by (cases "fskit_detach_queue_children V g ctx p cs s0") auto
      then show ?thesis using mid True T z queue_children_eq [OF mem Q] c by auto
    qed
  qed
  show ?thesis
  proof (cases "rc1 = 0")
    case False
    then show ?thesis using S e mid M by (simp add: detach_step_def Cons x)
  next
    case True
    obtain s2 s3 rc4 s4 cb where t: "fskit_entry_try_destroy_and_free_ex V p None a cbrc s3 = Some (rc4, cb, s4)"
      and fin: "(if dc_cb_fail ctx1 \<and> cb < 0 then
                do { fskit_entry_unlock (Some a) s4; Some (- EFAULT, cb, ctx1\<lparr>dc_cbrc := cb\<rparr>, s4) }
              else if rc4 \<ge> 0 then
                Some (0, cb, ctx1\<lparr>dc_queue := tl (dc_queue ctx1), dc_stale := (tl (dc_queue ctx1) = [])\<rparr>, s4)
              else Some (rc4, cb, ctx1, s4)) = Some (rc, cbrc', ctx', s')"
      using S e mid True by (auto simp: detach_step_def Cons x bind_eq_Some simp del: if_split)
    have "rc4 \<ge> 0" using t by (cases rule: try_destroy_and_free_ex_cases) auto
    then show ?thesis using fin M by auto
  qed
qed

lemma detach_loop_rc_aux:
  "detach_loop V g ctx cbrc s = Some y \<Longrightarrow> all_mem V \<longrightarrow> \<not> dc_cb_fail ctx \<longrightarrow> fst y = 0 \<or> fst y = - EIO"
proof (erule detach_loop.raw_induct [of "\<lambda>V g ctx cbrc s y. all_mem V \<longrightarrow> \<not> dc_cb_fail ctx \<longrightarrow>
    fst y = 0 \<or> fst y = - EIO", rotated], goal_cases)
  case (1 lp V g ctx cbrc s y)
  show ?case
  proof (intro impI)
    assume A: "all_mem V" "\<not> dc_cb_fail ctx"
    show "fst y = 0 \<or> fst y = - EIO"
    proof (cases "dc_queue ctx = []")
      case True
      then show ?thesis using 1(2) by auto
    next
      case False
      then obtain rc cb ctx1 s1 where S: "detach_step V g ctx cbrc s = Some (rc, cb, ctx1, s1)"
        and y: "(if rc \<noteq> 0 then Some (rc, ctx1, s1) else lp V g ctx1 cb s1) = Some y"
        using 1(2) by (auto simp: bind_eq_Some)
      note D = detach_step_rc [OF A(1) S A(2)]
      show ?thesis
      proof (cases "rc = 0")
        case True
        then show ?thesis using 1(1) [of V g ctx1 cb s1 y] y D A(1) by simp
      next
        case False
        then show ?thesis using y D by auto
      qed
    qed
  qed
qed

text \<open>With memory available the whole operation runs the queue once.\<close>

lemma detach_all_cases:
  assumes "all_mem V" and "fskit_detach_all V g p s = Some (rc, s')"
  obtains (unresolved) "fskit_entry_resolve_path V p 0 0 s = Some (Inl rc)" and "s' = s"
  | (untagged) dent cs where "fskit_entry_resolve_path V p 0 0 s = Some (Inr dent)"
      and "fskit_entry_tag_garbage V dent s = Some (rc, cs, s')" and "rc \<noteq> 0"
  | (looped) dent cs cs' s1 ctx ctx' where "fskit_entry_resolve_path V p 0 0 s = Some (Inr dent)"
      and "fskit_entry_tag_garbage V dent s = Some (0, cs, s1)"
      and "fskit_detach_queue_children V g fskit_detach_ctx_init p cs s1 = Some (cs', ctx, 0)"
      and "detach_loop V g ctx 0 s1 = Some (rc, ctx', s')"
proof (cases "fskit_entry_resolve_path V p 0 0 s")
  case None
  then show ?thesis using assms by (simp add: fskit_detach_all_def)
next
  case (Some r)
  show ?thesis
  proof (cases r)
    case (Inl e)
    have "e = rc" "s' = s" using assms(2) Some Inl by (simp_all add: fskit_detach_all_def)
    then show ?thesis using unresolved Some Inl by blast
  next
    case (Inr dent)
    obtain x where "fskit_entry_tag_garbage V dent s = Some x"
      using assms Some Inr by (cases "fskit_entry_tag_garbage V dent s") (simp_all add: fskit_detach_all_def)
    then obtain rc0 cs s1 where T: "fskit_entry_tag_garbage V dent s = Some (rc0, cs, s1)" by (cases x) auto
    show ?thesis
    proof (cases "rc0 = 0")
      case False
      then have "rc0 = rc" "s1 = s'" using assms(2) Some Inr T by (simp_all add: fskit_detach_all_def)
      then show ?thesis using untagged Some Inr T False by blast
    next
      case True
      have E: "detach_all_retry V g p (Some cs) fskit_detach_ctx_init s1 = Some (rc, s')"
        using assms Some Inr T True by (simp add: fskit_detach_all_def)
      have E1: "Option.bind (fskit_detach_all_ex V g p (Some cs) fskit_detach_ctx_init s1)
          (\<lambda>(rc, cs, ctx, s). if rc = - ENOMEM then detach_all_retry V g p cs ctx s else Some (rc, s)) = Some (rc, s')"
        using E by (simp only: detach_all_retry.simps [of V g p "Some cs" fskit_detach_ctx_init s1])
      then obtain cs' ctx rc1 where Q: "fskit_detach_queue_children V g fskit_detach_ctx_init p cs s1 = Some (cs', ctx, rc1)"
        by (cases "fskit_detach_queue_children V g fskit_detach_ctx_init p cs s1")
          (auto simp: fskit_detach_all_ex_def)
      note q = queue_children_eq [OF assms(1) Q]
      obtain rc2 ctx2 s2 where l: "detach_loop V g ctx 0 s1 = Some (rc2, ctx2, s2)"
        using E1 Q q by (cases "detach_loop V g ctx 0 s1") (auto simp: fskit_detach_all_ex_def)
      have "rc2 = 0 \<or> rc2 = - EIO"
        using detach_loop_rc_aux [OF l] assms(1) q by (simp add: fskit_detach_ctx_init_def)
      then have "rc2 = rc" "s2 = s'" using E1 Q q l
        by (auto simp: fskit_detach_all_ex_def errno_defs)
      then show ?thesis using looped Some Inr T True Q q l by blast
    qed
  qed
qed

lemma inv_detach_all:
  assumes mem: "all_mem V" and I: "rinv L R s" and N: "no_self s"
    and D: "fskit_detach_all V g p s = Some (rc, s')"
  shows "rinv L R s'" and "no_self s'"
proof -
  from mem D have "rinv L R s' \<and> no_self s'"
  proof (cases rule: detach_all_cases)
    case unresolved
    then show ?thesis using I N by simp
  next
    case (untagged dent cs)
    have "rinv L R s'" by (rule inv_mono [OF inv_tag [OF I untagged(2)]]) simp_all
    then show ?thesis using no_self_tag [OF N untagged(2)] by simp
  next
    case (looped dent cs cs' s1 ctx ctx')
    obtain e where e: "heap s dent = Some e"
      using looped(2) by (auto simp: fskit_entry_tag_garbage_def bind_eq_Some)
    have I0: "rinv (L + qrefs fskit_detach_ctx_init) R s" using I by (simp add: qrefs_def fskit_detach_ctx_init_def)
    note Q = detach_step_queue [OF mem I0 N e looped(2,3)]
    show ?thesis by (rule detach_loop_inv [OF looped(4) mem Q(2,3)])
  qed
  then show "rinv L R s'" "no_self s'" by simp_all
qed

subsection \<open>Shutting the core down\<close>

text \<open>
  The destroy route runs on the root with a reference of its own; then the core is zeroed. Inodes
  other than the root are not freed. The result has the application's data.
\<close>

definition fskit_core_destroy :: "env \<Rightarrow> fs \<Rightarrow> (nat \<times> fs) option" where
  "fskit_core_destroy V s =
     do {
       _ \<leftarrow> fskit_entry_lock 0 s;
       s \<leftarrow> upd 0 (\<lambda>e. e\<lparr>open_count := 1, link_count := 0, deletion_in_progress := True\<rparr>) s;
       (_, s) \<leftarrow> fskit_run_user_destroy V ''/'' None 0 s;
       s \<leftarrow> fskit_entry_destroy 0 s;
       Some (app_fs_data s, s\<lparr>heap := (heap s)(0 \<mapsto> zero_entry), routes := Leaf, app_fs_data := 0\<rparr>)
     }"

lemma core_destroy_total:
  assumes I: "rinv L R s" and T: "table_ok (routes s)" "no_holes (routes s)"
  obtains s' where "fskit_core_destroy V s = Some (app_fs_data s, s')" and "fskit_core_resolve_root s' = Some None"
    and "\<And>a. a \<noteq> 0 \<Longrightarrow> heap s' a = heap s a"
proof -
  obtain e where e: "heap s 0 = Some e" using inv_root [OF I] by blast
  let ?e = "e\<lparr>open_count := 1, link_count := 0, deletion_in_progress := True\<rparr>"
  let ?s = "s\<lparr>heap := (heap s)(0 \<mapsto> ?e)\<rparr>"
  have "name_fits ''/''" by code_simp
  then obtain rc s1 where d: "fskit_run_user_destroy V ''/'' None 0 ?s = Some (rc, s1)"
    using run_user_destroy_not_None [of ?s "''/''" 0 ?e V None] T by auto
  obtain t where s1: "s1 = ?s\<lparr>trace := t\<rparr>" using run_user_destroy_trace [OF d] by blast
  obtain s2 where x: "fskit_entry_destroy 0 s1 = Some s2" "\<And>a. a \<noteq> 0 \<Longrightarrow> heap s2 a = heap s a"
      "app_fs_data s2 = app_fs_data s"
    by (auto simp: fskit_entry_destroy_def upd_simp s1)
  show ?thesis
    by (rule that [of "s2\<lparr>heap := (heap s2)(0 \<mapsto> zero_entry), routes := Leaf, app_fs_data := 0\<rparr>"])
      (use e d x in \<open>auto simp: fskit_core_destroy_def fskit_entry_lock_def upd_simp fskit_core_resolve_root_def
        zero_entry_def\<close>)
qed

end
