(* ===== verification/Steps.thy ===== *)
theory Steps
  imports Lifecycle
begin

text \<open>
  A small calculus for the operations. \<open>post Q m\<close> says that \<open>m\<close>, if the process survives it, ends
  with an outcome in \<open>Q\<close>. Its rules follow the shape of the operations (sequence, conditional, case
  distinction) and form the collection \<open>vc\<close>; the collection \<open>wp\<close> has one rule for each primitive: what the primitive does
  to the reference invariant. An operation's own rule is then proved by applying the collections to
  its body, and joins the collection.

  The second half is the part that mkdir, mknod, create and symlink share: making a new inode,
  running the user's callback with a temporary reference, and attaching or discarding the inode.
\<close>

named_theorems vc
named_theorems wp

definition post :: "('a \<Rightarrow> bool) \<Rightarrow> 'a option \<Rightarrow> bool" where
  "post Q m = (\<forall>x. m = Some x \<longrightarrow> Q x)"

lemma postI: "(\<And>x. m = Some x \<Longrightarrow> Q x) \<Longrightarrow> post Q m"
  by (simp add: post_def)

lemma postD: "post Q m \<Longrightarrow> m = Some x \<Longrightarrow> Q x"
  by (simp add: post_def)

lemma post_any: "(\<And>x. Q x) \<Longrightarrow> post Q m"
  by (simp add: post_def)

lemma post_via: "post P m \<Longrightarrow> (\<And>x. P x \<Longrightarrow> Q x) \<Longrightarrow> post Q m"
  by (simp add: post_def)

lemma post_SomeI [vc]: "Q x \<Longrightarrow> post Q (Some x)"
  by (simp add: post_def)

lemma post_None [vc]: "post Q None"
  by (simp add: post_def)

lemma post_bind [vc]: "post (\<lambda>x. post Q (f x)) m \<Longrightarrow> post Q (Option.bind m f)"
  by (auto simp: post_def bind_eq_Some)

lemma post_if [vc]: "(b \<Longrightarrow> post Q x) \<Longrightarrow> (\<not> b \<Longrightarrow> post Q y) \<Longrightarrow> post Q (if b then x else y)"
  by simp

lemma post_pair [vc]: "post Q (f a b) \<Longrightarrow> post Q (case (a, b) of (x, y) \<Rightarrow> f x y)"
  by simp

lemma post_case_option [vc]:
  "(m = None \<Longrightarrow> post Q x) \<Longrightarrow> (\<And>y. m = Some y \<Longrightarrow> post Q (f y)) \<Longrightarrow>
    post Q (case m of None \<Rightarrow> x | Some y \<Rightarrow> f y)"
  by (cases m) auto

lemma post_case_list [vc]:
  "(xs = [] \<Longrightarrow> post Q x) \<Longrightarrow> (\<And>y ys. xs = y # ys \<Longrightarrow> post Q (f y ys)) \<Longrightarrow>
    post Q (case xs of [] \<Rightarrow> x | y # ys \<Rightarrow> f y ys)"
  by (cases xs) auto

lemma post_case_sum [vc]:
  "(\<And>e. m = Inl e \<Longrightarrow> post Q (f e)) \<Longrightarrow> (\<And>x. m = Inr x \<Longrightarrow> post Q (g x)) \<Longrightarrow>
    post Q (case m of Inl e \<Rightarrow> f e | Inr x \<Rightarrow> g x)"
  by (cases m) auto

lemma post_Inl: "post Q (f e) \<Longrightarrow> post Q (case Inl e of Inl e \<Rightarrow> f e | Inr x \<Rightarrow> g x)"
  by simp

lemma post_Inr: "post Q (g x) \<Longrightarrow> post Q (case Inr x of Inl e \<Rightarrow> f e | Inr x \<Rightarrow> g x)"
  by simp

lemma post_let [vc]: "post Q (f x) \<Longrightarrow> post Q (let y = x in f y)"
  by simp

lemma post_prod: "(\<And>a b. p = (a, b) \<Longrightarrow> post Q (f a b)) \<Longrightarrow> post Q (case p of (a, b) \<Rightarrow> f a b)"
  by (cases p) auto

lemma post_prod_fun:
  "(\<And>a b. p = (a, b) \<Longrightarrow> post Q (f a b s)) \<Longrightarrow> post Q ((case p of (a, b) \<Rightarrow> f a b) s)"
  by (cases p) auto

lemma post_heap [vc]: "(\<And>e. heap s a = Some e \<Longrightarrow> Q e) \<Longrightarrow> post Q (heap s a)"
  by (simp add: post_def)

lemma post_fhs [vc]: "(\<And>x. fhs s h = Some x \<Longrightarrow> Q x) \<Longrightarrow> post Q (fhs s h)"
  by (simp add: post_def)

lemma post_dhs [vc]: "(\<And>x. dhs s h = Some x \<Longrightarrow> Q x) \<Longrightarrow> post Q (dhs s h)"
  by (simp add: post_def)

lemma post_unlock [vc]: "(\<And>u. Q u) \<Longrightarrow> post Q (fskit_entry_unlock p s)"
  by (simp add: post_def)

lemma post_lock [vc]: "(\<And>rc. Q rc) \<Longrightarrow> post Q (fskit_entry_lock a s)"
  by (simp add: post_def)

lemma post_name_buf [vc]: "(\<And>n. n = fskit_basename path \<Longrightarrow> Q n) \<Longrightarrow> post Q (name_buf path)"
  by (auto simp: post_def name_buf_def fskit_basename_into_def split: if_splits)

lemma post_dirname [vc]: "(\<And>d. fskit_dirname path = Some d \<Longrightarrow> Q d) \<Longrightarrow> post Q (fskit_dirname path)"
  by (simp add: post_def)

lemma post_resolve [vc]:
  "(\<And>rc. fskit_entry_resolve_path V path user grp s = Some (Inl rc) \<Longrightarrow> Q (Inl rc)) \<Longrightarrow>
   (\<And>a e. fskit_entry_resolve_path V path user grp s = Some (Inr a) \<Longrightarrow> heap s a = Some e \<Longrightarrow>
      link_count e \<noteq> 0 \<Longrightarrow> etype e \<noteq> T_DEAD \<Longrightarrow> \<not> deletion_in_progress e \<Longrightarrow> Q (Inr a)) \<Longrightarrow>
    post Q (fskit_entry_resolve_path V path user grp s)"
  unfolding post_def
proof (intro allI impI)
  fix r
  assume A: "\<And>rc. fskit_entry_resolve_path V path user grp s = Some (Inl rc) \<Longrightarrow> Q (Inl rc)"
    and B: "\<And>a e. fskit_entry_resolve_path V path user grp s = Some (Inr a) \<Longrightarrow> heap s a = Some e \<Longrightarrow>
      link_count e \<noteq> 0 \<Longrightarrow> etype e \<noteq> T_DEAD \<Longrightarrow> \<not> deletion_in_progress e \<Longrightarrow> Q (Inr a)"
    and r: "fskit_entry_resolve_path V path user grp s = Some r"
  show "Q r"
  proof (cases r)
    case (Inl rc)
    then show ?thesis using A r by simp
  next
    case (Inr a)
    then show ?thesis using B r resolve_path_live by blast
  qed
qed

subsection \<open>The primitives and the invariant\<close>

lemma wp_attach [wp]:
  "rinv L R s \<Longrightarrow> (\<And>rc s'. rinv L R s' \<Longrightarrow> Q (rc, s')) \<Longrightarrow> post Q (fskit_entry_attach_lowlevel V parent fent name s)"
  using inv_attach by (fastforce simp: post_def)

lemma wp_detach [wp]:
  "rinv L R s \<Longrightarrow> (\<And>rc s'. rinv L R s' \<Longrightarrow> Q (rc, s')) \<Longrightarrow> post Q (fskit_entry_detach_lowlevel V parent name s)"
  using inv_detach by (fastforce simp: post_def)

lemma wp_try_destroy [wp]:
  "rinv L R s \<Longrightarrow> (\<And>rc s'. rinv L R s' \<Longrightarrow> Q (rc, s')) \<Longrightarrow>
    post Q (fskit_entry_try_destroy_and_free V path parent fent s)"
  using inv_try_destroy by (fastforce simp: post_def)

lemma wp_gc [wp]:
  "rinv L R s \<Longrightarrow> (\<And>rc s'. rinv L R s' \<Longrightarrow> Q (rc, s')) \<Longrightarrow>
    post Q (fskit_entry_try_garbage_collect V path parent child s)"
  using inv_gc by (fastforce simp: post_def)

lemma wp_ref_entry [wp]:
  "rinv L R s \<Longrightarrow> (\<And>s'. rinv L (add_mset a R) s' \<Longrightarrow> Q s') \<Longrightarrow> post Q (fskit_entry_ref_entry a s)"
  using inv_ref_entry by (fastforce simp: post_def)

lemma wp_ref [wp]:
  "rinv L R s \<Longrightarrow> (\<And>rc. Q (Inl rc, s)) \<Longrightarrow> (\<And>a s'. rinv L (add_mset a R) s' \<Longrightarrow> Q (Inr a, s')) \<Longrightarrow>
    post Q (fskit_entry_ref V path s)"
  unfolding post_def
proof (intro allI impI)
  fix x
  assume I: "rinv L R s" and A: "\<And>rc. Q (Inl rc, s)" and B: "\<And>a s'. rinv L (add_mset a R) s' \<Longrightarrow> Q (Inr a, s')"
    and x: "fskit_entry_ref V path s = Some x"
  obtain r s' where r: "x = (r, s')" by (cases x)
  show "Q x"
  proof (cases r)
    case (Inl rc)
    have "s' = s" by (rule ref_path_Inl) (use x r Inl in simp)
    then show ?thesis using Inl r A by simp
  next
    case (Inr a)
    then show ?thesis using inv_ref_path [OF I] x r B by blast
  qed
qed

lemma wp_unref [wp]:
  "rinv L (add_mset a R) s \<Longrightarrow> (\<And>rc s'. rinv L R s' \<Longrightarrow> Q (rc, s')) \<Longrightarrow> post Q (fskit_entry_unref V path a s)"
  using inv_unref_entry by (fastforce simp: post_def)

lemma wp_route_call:
  "rinv L R s \<Longrightarrow> (\<And>rc cbrc da' s'. rinv L R s' \<Longrightarrow> attr_frame s s' \<Longrightarrow> rc = 0 \<or> rc = - EPERM \<Longrightarrow> Q (rc, cbrc, da', s')) \<Longrightarrow>
    post Q (fskit_route_call V t path fent da s)"
  unfolding post_def
proof (intro allI impI)
  fix x
  assume I: "rinv L R s" and x: "fskit_route_call V t path fent da s = Some x"
    and Q: "\<And>rc cbrc da' s'. rinv L R s' \<Longrightarrow> attr_frame s s' \<Longrightarrow> rc = 0 \<or> rc = - EPERM \<Longrightarrow> Q (rc, cbrc, da', s')"
  obtain rc cbrc da' s' where r: "x = (rc, cbrc, da', s')" by (cases x)
  note c = x [unfolded r]
  show "Q x"
    unfolding r
    by (rule Q [OF attr_frame_inv [OF route_call_frame [OF c] I] route_call_frame [OF c]])
      (use route_call_rc [OF c] in blast)
qed

lemmas wp_route_calls [wp] =
  wp_route_call [where t = FSKIT_ROUTE_MATCH_CREATE, folded fskit_route_call_create_def]
  wp_route_call [where t = FSKIT_ROUTE_MATCH_MKDIR, folded fskit_route_call_mkdir_def]
  wp_route_call [where t = FSKIT_ROUTE_MATCH_MKNOD, folded fskit_route_call_mknod_def]
  wp_route_call [where t = FSKIT_ROUTE_MATCH_OPEN, folded fskit_route_call_open_def]
  wp_route_call [where t = FSKIT_ROUTE_MATCH_READDIR, folded fskit_route_call_readdir_def]
  wp_route_call [where t = FSKIT_ROUTE_MATCH_READ, folded fskit_route_call_read_def]
  wp_route_call [where t = FSKIT_ROUTE_MATCH_WRITE, folded fskit_route_call_write_def]
  wp_route_call [where t = FSKIT_ROUTE_MATCH_TRUNC, folded fskit_route_call_trunc_def]
  wp_route_call [where t = FSKIT_ROUTE_MATCH_CLOSE, folded fskit_route_call_close_def]
  wp_route_call [where t = FSKIT_ROUTE_MATCH_DETACH, folded fskit_route_call_detach_def]
  wp_route_call [where t = FSKIT_ROUTE_MATCH_STAT, folded fskit_route_call_stat_def]
  wp_route_call [where t = FSKIT_ROUTE_MATCH_SYNC, folded fskit_route_call_sync_def]
  wp_route_call [where t = FSKIT_ROUTE_MATCH_RENAME, folded fskit_route_call_rename_def]
  wp_route_call [where t = FSKIT_ROUTE_MATCH_LINK, folded fskit_route_call_link_def]
  wp_route_call [where t = FSKIT_ROUTE_MATCH_DESTROY, folded fskit_route_call_destroy_def]
  wp_route_call [where t = FSKIT_ROUTE_MATCH_GETXATTR, folded fskit_route_call_getxattr_def]
  wp_route_call [where t = FSKIT_ROUTE_MATCH_LISTXATTR, folded fskit_route_call_listxattr_def]
  wp_route_call [where t = FSKIT_ROUTE_MATCH_SETXATTR, folded fskit_route_call_setxattr_def]
  wp_route_call [where t = FSKIT_ROUTE_MATCH_REMOVEXATTR, folded fskit_route_call_removexattr_def]
  wp_route_call [where t = FSKIT_ROUTE_MATCH_SETMETADATA, folded fskit_route_call_setmetadata_def]

text \<open>Changes of one inode that touch neither its children nor its counts.\<close>

lemma wp_upd_frame:
  "rinv L R s \<Longrightarrow> (\<And>e. children (f e) = children e \<and> link_count (f e) = link_count e \<and> open_count (f e) = open_count e) \<Longrightarrow>
    (\<And>e s'. rinv L R s' \<Longrightarrow> heap s a = Some e \<Longrightarrow> s' = s\<lparr>heap := (heap s)(a \<mapsto> f e)\<rparr> \<Longrightarrow> Q s') \<Longrightarrow>
    post Q (upd a f s)"
  using inv_upd_frame [of L R s a f] by (auto simp: post_def upd_Some)

subsection \<open>New inodes\<close>

text \<open>An inode that nothing refers to, and that refers to nothing but itself and its parent.\<close>

definition bare :: "addr \<Rightarrow> entry \<Rightarrow> bool" where
  "bare a e = (links_of a e = {#} \<and> link_count e = 0 \<and> open_count e = 0)"

definition fresh :: "addr \<Rightarrow> fs \<Rightarrow> bool" where
  "fresh a s = (a \<noteq> 0 \<and> (\<exists>e. heap s a = Some e \<and> bare a e))"

lemma bare_zero [simp]: "bare a zero_entry"
  by (simp add: bare_def) (simp add: zero_entry_def)

lemma bare_upd [simp]:
  "bare a (e\<lparr>dev := x1\<rparr>) = bare a e" "bare a (e\<lparr>xattrs := x2\<rparr>) = bare a e"
  "bare a (e\<lparr>symlink_target := x3\<rparr>) = bare a e" "bare a (e\<lparr>fsize := x4\<rparr>) = bare a e"
  "bare a (e\<lparr>file_id := x5\<rparr>) = bare a e" "bare a (e\<lparr>app_data := x6\<rparr>) = bare a e"
  "bare a (e\<lparr>ctime := x7\<rparr>) = bare a e" "bare a (e\<lparr>mtime := x7\<rparr>) = bare a e" "bare a (e\<lparr>atime := x7\<rparr>) = bare a e"
  "bare a (e\<lparr>owner := x8\<rparr>) = bare a e" "bare a (e\<lparr>egroup := x8\<rparr>) = bare a e" "bare a (e\<lparr>emode := x9\<rparr>) = bare a e"
  by (simp_all add: bare_def links_of_def)

lemma bare_attr: "attr_norm e' = attr_norm e \<Longrightarrow> bare a e' = bare a e"
  using attr_normD [of e' e] by (simp add: bare_def links_of_def)

lemma bare_init_lowlevel [simp]: "bare a (fskit_entry_init_lowlevel t fid own grp m)"
  by (simp add: fskit_entry_init_lowlevel_def bare_def links_of_def set_links_def es_entries_def zero_entry_def)

lemma bare_init_common: "bare a e \<Longrightarrow> bare a (fst (fskit_entry_init_common V t fid own grp m e))"
  by (auto simp: fskit_entry_init_common_def fskit_entry_set_atime_def fskit_entry_set_ctime_def
      fskit_entry_set_mtime_def now_or_clock_def Let_def split: prod.split)

lemma init_common_fields:
  assumes "fskit_entry_init_common V t fid own grp m e = (c, 0)"
  shows "etype c = t \<and> file_id c = fid \<and> owner c = own \<and> egroup c = grp \<and> emode c = m \<and> num_children c = 0"
proof -
  obtain rc now where k: "clock V ''fskit_entry_init_common'' = (rc, now)" by (cases "clock V ''fskit_entry_init_common''")
  then have "rc = 0" using assms by (auto simp: fskit_entry_init_common_def split: if_splits)
  then show ?thesis using assms k
    by (auto simp: fskit_entry_init_common_def Let_def fskit_entry_init_lowlevel_def fskit_entry_set_atime_def
        fskit_entry_set_ctime_def fskit_entry_set_mtime_def now_or_clock_def)
qed

lemma bare_init:
  "bare a e \<Longrightarrow> bare a (fst (fskit_entry_init_file V fid own grp m e))"
  "bare a e \<Longrightarrow> bare a (fst (fskit_entry_init_fifo V fid own grp m e))"
  "bare a e \<Longrightarrow> bare a (fst (fskit_entry_init_sock V fid own grp m e))"
  "bare a e \<Longrightarrow> bare a (fst (fskit_entry_init_chr V fid own grp m d e))"
  "bare a e \<Longrightarrow> bare a (fst (fskit_entry_init_blk V fid own grp m d e))"
  "bare a e \<Longrightarrow> bare a (fst (fskit_entry_init_symlink V fid lp e))"
  using bare_init_common [of a e V]
  by (auto simp: fskit_entry_init_file_def fskit_entry_init_fifo_def fskit_entry_init_sock_def
      fskit_entry_init_chr_def fskit_entry_init_blk_def fskit_entry_init_symlink_def
      split: prod.split option.split) (metis fst_conv)+

lemma bare_init_dir: "bare a e \<Longrightarrow> bare a (fst (fskit_entry_init_dir V a p fid own grp m e))"
  using bare_init_common [of a e V T_DIR fid own grp m]
  by (auto simp: fskit_entry_init_dir_def bare_def links_of_def set_links_new split: option.split prod.split)

lemma fresh_frame: "attr_frame s s' \<Longrightarrow> fresh a s \<Longrightarrow> fresh a s'"
  unfolding fresh_def using bare_attr by (metis attr_frame_Some)

lemma wp_alloc [wp]:
  assumes I: "rinv L R s"
    and Q: "\<And>a s'. rinv L R s' \<Longrightarrow> fresh a s' \<Longrightarrow> heap s a = None \<Longrightarrow> heap s' = (heap s)(a \<mapsto> zero_entry) \<Longrightarrow> post Q (f a s')"
  shows "post Q (case alloc_entry s of (a, s') \<Rightarrow> f a s')"
proof -
  obtain a s' where a: "alloc_entry s = (a, s')" by (cases "alloc_entry s")
  have "heap s' = (heap s)(a \<mapsto> zero_entry)" using a by (auto simp: alloc_entry_def)
  then show ?thesis
    using Q [of s' a] inv_alloc [OF I a] a by (simp add: fresh_def)
qed

lemma inv_bare:
  assumes I: "rinv L R s" and F: "fresh a s" and e: "bare a e"
  shows "rinv L R (s\<lparr>heap := (heap s)(a \<mapsto> e)\<rparr>)"
proof -
  obtain e0 where "heap s a = Some e0" "bare a e0" using F by (auto simp: fresh_def)
  then show ?thesis using e by (intro inv_update [OF I, of a e0]) (simp_all add: bare_def)
qed

lemma fresh_bare: "fresh a s \<Longrightarrow> bare a e \<Longrightarrow> fresh a (s\<lparr>heap := (heap s)(a \<mapsto> e)\<rparr>)"
  by (simp add: fresh_def)

lemma wp_init:
  "rinv L R s \<Longrightarrow> fresh a s \<Longrightarrow> (\<And>e. bare a e \<Longrightarrow> bare a (f e)) \<Longrightarrow>
    (\<And>e s'. rinv L R s' \<Longrightarrow> fresh a s' \<Longrightarrow> heap s a = Some e \<Longrightarrow> s' = s\<lparr>heap := (heap s)(a \<mapsto> f e)\<rparr> \<Longrightarrow> Q s') \<Longrightarrow>
    post Q (upd a f s)"
  using inv_bare fresh_bare by (fastforce simp: post_def upd_Some fresh_def)

text \<open>A callback under a temporary reference changes nothing but times and sizes.\<close>

lemma referenced_frame:
  assumes "upd a (\<lambda>e. e\<lparr>open_count := open_count e + 1\<rparr>) s = Some s1" and "attr_frame s1 s2"
    and "upd a (\<lambda>e. e\<lparr>open_count := open_count e - 1\<rparr>) s2 = Some s3"
  shows "attr_frame s s3"
proof -
  obtain e where e: "heap s a = Some e" "s1 = s\<lparr>heap := (heap s)(a \<mapsto> e\<lparr>open_count := open_count e + 1\<rparr>)\<rparr>"
    using assms(1) by (auto simp: upd_Some)
  obtain e2 where e2: "heap s2 a = Some e2" "s3 = s2\<lparr>heap := (heap s2)(a \<mapsto> e2\<lparr>open_count := open_count e2 - 1\<rparr>)\<rparr>"
    using assms(3) by (auto simp: upd_Some)
  have "attr_norm e2 = attr_norm (e\<lparr>open_count := open_count e + 1\<rparr>)"
    using assms(2) e e2 by (auto simp: attr_frame_def dest: spec [of _ a])
  then have n: "attr_norm (e2\<lparr>open_count := open_count e2 - 1\<rparr>) = attr_norm e"
    by (cases e, cases e2) (simp add: attr_norm_def)
  show ?thesis
    using assms(2) e e2 n by (auto simp: attr_frame_def)
qed

lemma wp_referenced:
  assumes I: "rinv L R s" and F: "fresh a s"
    and cb: "\<And>s1. post (\<lambda>(err, d, s2). attr_frame s1 s2) (cb s1)"
    and Q: "\<And>err d s3. rinv L R s3 \<Longrightarrow> fresh a s3 \<Longrightarrow> attr_frame s s3 \<Longrightarrow> post Q (f err d s3)"
  shows "post Q (do {
           s1 \<leftarrow> upd a (\<lambda>e. e\<lparr>open_count := open_count e + 1\<rparr>) s;
           (err, d, s2) \<leftarrow> cb s1;
           s3 \<leftarrow> upd a (\<lambda>e. e\<lparr>open_count := open_count e - 1\<rparr>) s2;
           f err d s3
         })"
proof (rule postI)
  fix x
  assume "do {
           s1 \<leftarrow> upd a (\<lambda>e. e\<lparr>open_count := open_count e + 1\<rparr>) s;
           (err, d, s2) \<leftarrow> cb s1;
           s3 \<leftarrow> upd a (\<lambda>e. e\<lparr>open_count := open_count e - 1\<rparr>) s2;
           f err d s3
         } = Some x"
  then obtain s1 err d s2 s3 where u: "upd a (\<lambda>e. e\<lparr>open_count := open_count e + 1\<rparr>) s = Some s1"
      "upd a (\<lambda>e. e\<lparr>open_count := open_count e - 1\<rparr>) s2 = Some s3"
    and c: "cb s1 = Some (err, d, s2)" and x: "f err d s3 = Some x"
    by (auto simp: bind_eq_Some)
  have "attr_frame s s3" using referenced_frame [OF u(1) _ u(2)] postD [OF cb c] by simp
  then show "Q x" using Q [of s3 err d] attr_frame_inv [OF _ I] fresh_frame [OF _ F] x by (auto simp: post_def)
qed

text \<open>Giving up a new inode.\<close>

lemma inv_discard:
  assumes I: "rinv L R s" and F: "fresh a s" and f: "free_entry a s = Some s'"
  shows "rinv L R s'"
proof -
  obtain e where "heap s a = Some e" "link_count e = 0" "open_count e = 0" "a \<noteq> 0"
    using F by (auto simp: fresh_def bare_def)
  from inv_freed [OF I this] show ?thesis using f by (auto simp: free_entry_def split: if_splits)
qed

lemma fresh_destroy: "rinv L R s \<Longrightarrow> fresh a s \<Longrightarrow> fskit_entry_destroy a s = Some s' \<Longrightarrow> rinv L R s' \<and> fresh a s'"
proof -
  assume I: "rinv L R s" and F: "fresh a s" and d: "fskit_entry_destroy a s = Some s'"
  have b: "bare a e \<Longrightarrow> bare a (if etype e = T_DEAD then e
      else e\<lparr>etype := T_DEAD, children := Leaf, symlink_target := None, xattrs := Leaf\<rparr>)" for e
    by (simp add: bare_def links_of_def set_links_def es_entries_def)
  obtain e where e: "heap s a = Some e" "bare a e" using F by (auto simp: fresh_def)
  then have "s' = s\<lparr>heap := (heap s)(a \<mapsto> (if etype e = T_DEAD then e
      else e\<lparr>etype := T_DEAD, children := Leaf, symlink_target := None, xattrs := Leaf\<rparr>))\<rparr>"
    using d by (simp add: fskit_entry_destroy_def upd_simp)
  then show ?thesis using inv_bare [OF I F b [OF e(2)]] fresh_bare [OF F b [OF e(2)]] by simp
qed

lemma wp_free [wp]:
  "rinv L R s \<Longrightarrow> fresh a s \<Longrightarrow> (\<And>s'. rinv L R s' \<Longrightarrow> Q s') \<Longrightarrow> post Q (free_entry a s)"
  by (rule postI) (simp only: inv_discard)

lemma wp_destroy [wp]:
  "rinv L R s \<Longrightarrow> fresh a s \<Longrightarrow> (\<And>s'. rinv L R s' \<Longrightarrow> fresh a s' \<Longrightarrow> Q s') \<Longrightarrow> post Q (fskit_entry_destroy a s)"
  by (rule postI, drule (2) fresh_destroy, elim conjE) simp

text \<open>What attaching an inode to another does to the heap.\<close>

definition attach_child :: "env \<Rightarrow> addr \<Rightarrow> entry \<Rightarrow> entry" where
  "attach_child V parent c = c\<lparr>link_count := link_count c + 1,
     children := (if etype c = T_DIR then fst (fskit_entry_set_replace (children c) ''..'' parent) else children c)\<rparr>"

definition attach_parent :: "env \<Rightarrow> addr \<Rightarrow> string \<Rightarrow> entry \<Rightarrow> entry" where
  "attach_parent V fent name p = p\<lparr>num_children := num_children p + 1,
     mtime := snd (clock V ''fskit_entry_attach_lowlevel''),
     children := fst (fskit_entry_set_insert V (children p) name fent)\<rparr>"

lemma attach_effect:
  assumes "parent \<noteq> fent" and "heap s parent = Some p" and "heap s fent = Some c"
  shows "fskit_entry_attach_lowlevel V parent fent name s =
    Some (snd (fskit_entry_set_insert V (children p) name fent),
      s\<lparr>heap := (heap s)(fent \<mapsto> attach_child V parent c, parent \<mapsto> attach_parent V fent name p)\<rparr>)"
  using assms
  by (auto simp: fskit_entry_attach_lowlevel_def upd_def attach_child_def attach_parent_def fun_upd_twist)

lemma attach_parent_entry:
  "mem_ok V ''fskit_entry_set_insert'' \<Longrightarrow>
    set (es_entries (children (attach_parent V fent name p))) = insert (name, fent) (set (es_entries (children p)))"
proof -
  assume m: "mem_ok V ''fskit_entry_set_insert''"
  have "snd (fskit_entry_set_insert V (children p) name fent) = 0"
    using m by (simp add: fskit_entry_set_insert_def)
  then have "mset (es_entries (fst (fskit_entry_set_insert V (children p) name fent))) =
      add_mset (name, fent) (mset (es_entries (children p)))"
    using mset_entry_set_insert [of V "children p" name fent
        "fst (fskit_entry_set_insert V (children p) name fent)" "snd (fskit_entry_set_insert V (children p) name fent)"]
    by (simp add: prod_eq_iff)
  then have "set_mset (mset (es_entries (fst (fskit_entry_set_insert V (children p) name fent)))) =
      insert (name, fent) (set (es_entries (children p)))" by simp
  then show ?thesis by (simp add: attach_parent_def)
qed

text \<open>
  The name \<open>name\<close> in \<open>parent\<close> stands for a new inode for which \<open>P\<close> holds, with this one link and no
  open handle.
\<close>

definition made :: "addr \<Rightarrow> string \<Rightarrow> (addr \<Rightarrow> entry \<Rightarrow> bool) \<Rightarrow> fs \<Rightarrow> fs \<Rightarrow> bool" where
  "made parent name P s s' =
     (\<exists>a c p. heap s a = None \<and> heap s' a = Some c \<and> P a c \<and> link_count c = 1 \<and> open_count c = 0 \<and>
        heap s' parent = Some p \<and> (name, a) \<in> set (es_entries (children p)))"

lemma wp_attach_made:
  assumes "rinv L R s" and F: "fresh a s" and c: "heap s a = Some c" and p: "heap s parent = Some p"
    and ne: "parent \<noteq> a" and m: "mem_ok V ''fskit_entry_set_insert''" and s0: "heap s0 a = None"
    and P: "P a (attach_child V parent c)"
    and Q: "\<And>rc s'. rinv L R s' \<Longrightarrow> made parent name P s0 s' \<Longrightarrow> Q (rc, s')"
  shows "post Q (fskit_entry_attach_lowlevel V parent a name s)"
proof (rule postI)
  fix x
  assume x: "fskit_entry_attach_lowlevel V parent a name s = Some x"
  have b: "link_count c = 0" "open_count c = 0" using F c by (auto simp: fresh_def bare_def)
  obtain rc s' where r: "x = (rc, s')" by (cases x)
  have "s' = s\<lparr>heap := (heap s)(a \<mapsto> attach_child V parent c, parent \<mapsto> attach_parent V a name p)\<rparr>"
    using x r attach_effect [OF ne p c] by simp
  then have "made parent name P s0 s'"
    using attach_parent_entry [OF m, of a name p] ne b P s0
    by (auto simp: made_def attach_child_def intro!: exI [of _ a])
  then show "Q x" using Q inv_attach [OF assms(1)] x r by simp
qed

end
