(* ===== verification/MakeNode.thy ===== *)
theory MakeNode
  imports Steps
begin

text \<open>
  Making directories and special files (\<open>libfskit/mkdir.c\<close>, \<open>libfskit/mknod.c\<close>). Both resolve the
  parent of the new name, reclaim the name if an inode that is being deleted still holds it, make
  the inode, run the user's callback on it and attach it.
\<close>

subsection \<open>Shared steps\<close>

text \<open>
  The part of the operations that make a name: an entry with that name is garbage-collected if it
  can be. The outcome is 0 when the name is free.
\<close>

definition reclaim_name :: "env \<Rightarrow> string \<Rightarrow> addr \<Rightarrow> string \<Rightarrow> fs \<Rightarrow> (int \<times> fs) option" where
  "reclaim_name V path parent name s =
     do {
       p \<leftarrow> heap s parent;
       (case fskit_entry_set_find_name (children p) name of
          None \<Rightarrow> Some (0, s)
        | Some child \<Rightarrow>
            do {
              _ \<leftarrow> fskit_entry_lock child s;
              (err, s) \<leftarrow> fskit_entry_try_garbage_collect V path parent child s;
              if err \<ge> 0 then
                (if err = 0 then do { _ \<leftarrow> fskit_entry_unlock (Some child) s; Some (0, s) } else Some (0, s))
              else do {
                _ \<leftarrow> fskit_entry_unlock (Some child) s;
                Some (if err = - EEXIST then - EEXIST else - EIO, s)
              }
            })
     }"

definition fskit_core_inode_alloc :: "env \<Rightarrow> fs \<Rightarrow> addr \<Rightarrow> u64" where
  "fskit_core_inode_alloc V s child = ev_inode_alloc V s child"

subsection \<open>mkdir\<close>

definition fskit_run_user_mkdir ::
    "env \<Rightarrow> string \<Rightarrow> addr \<Rightarrow> addr \<Rightarrow> u32 \<Rightarrow> nat \<Rightarrow> fs \<Rightarrow> (int \<times> nat \<times> fs) option" where
  "fskit_run_user_mkdir V path parent fent mode cls s =
     do {
       name \<leftarrow> name_buf path;
       (rc, cbrc, da, s) \<leftarrow> fskit_route_call_mkdir V path (Some fent)
          (fskit_route_mkdir_args (Some parent) name mode cls) s;
       if rc = - EPERM \<or> rc = - ENOSYS then Some (0, 0, s)
       else if cbrc \<noteq> 0 then Some (cbrc, 0, s)
       else Some (0, da_inode_data da, s)
     }"

definition fskit_mkdir_lowlevel ::
    "env \<Rightarrow> string \<Rightarrow> addr \<Rightarrow> string \<Rightarrow> u32 \<Rightarrow> u64 \<Rightarrow> u64 \<Rightarrow> nat \<Rightarrow> fs \<Rightarrow> (int \<times> fs) option" where
  "fskit_mkdir_lowlevel V path parent path_basename mode user grp cls s =
     do {
       (err, s) \<leftarrow> reclaim_name V path parent path_basename s;
       if err \<noteq> 0 then Some (err, s)
       else if \<not> mem_ok V ''fskit_mkdir_lowlevel'' then Some (- ENOMEM, s)
       else
         (case alloc_entry s of
            (child, s) \<Rightarrow>
              (let child_inode = fskit_core_inode_alloc V s child in
               if child_inode = 0 then do { s \<leftarrow> free_entry child s; Some (- EIO, s) }
               else do {
                 c \<leftarrow> heap s child;
                 (let err = snd (fskit_entry_init_dir V child parent child_inode user grp mode c) in
                  do {
                    s \<leftarrow> upd child (\<lambda>c. fst (fskit_entry_init_dir V child parent child_inode user grp mode c)) s;
                    if err \<noteq> 0 then do { s \<leftarrow> free_entry child s; Some (err, s) }
                    else do {
                      s \<leftarrow> upd child (\<lambda>c. c\<lparr>open_count := open_count c + 1\<rparr>) s;
                      (err, app_dir_data, s) \<leftarrow> fskit_run_user_mkdir V path parent child mode cls s;
                      s \<leftarrow> upd child (\<lambda>c. c\<lparr>open_count := open_count c - 1\<rparr>) s;
                      if err \<noteq> 0 then do {
                        s \<leftarrow> fskit_entry_destroy child s;
                        s \<leftarrow> free_entry child s;
                        Some (err, s)
                      }
                      else do {
                        s \<leftarrow> upd child (fskit_entry_set_user_data app_dir_data) s;
                        (_, s) \<leftarrow> fskit_entry_attach_lowlevel V parent child path_basename s;
                        Some (0, s)
                      }
                    }
                  })
               }))
     }"

definition fskit_mkdir_ex :: "env \<Rightarrow> string \<Rightarrow> u32 \<Rightarrow> u64 \<Rightarrow> u64 \<Rightarrow> nat \<Rightarrow> fs \<Rightarrow> (int \<times> fs) option" where
  "fskit_mkdir_ex V path mode user grp cls s =
     (if fskit_basename_len path > FSKIT_FILESYSTEM_NAMEMAX then Some (- ENAMETOOLONG, s)
      else
        let fpath = fskit_sanitize_path path in
        do {
          path_dirname \<leftarrow> fskit_dirname fpath;
          r \<leftarrow> fskit_entry_resolve_path V (fskit_sanitize_path path_dirname) user grp s;
          (case r of
             Inl err \<Rightarrow> Some (err, s)
           | Inr parent \<Rightarrow>
               do {
                 p \<leftarrow> heap s parent;
                 if etype p \<noteq> T_DIR then Some (- ENOTDIR, s)
                 else if \<not> FSKIT_ENTRY_IS_WRITEABLE p user grp then Some (- EACCES, s)
                 else fskit_mkdir_lowlevel V path parent (fskit_basename fpath) mode user grp cls s
               })
        })"

definition fskit_mkdir :: "env \<Rightarrow> string \<Rightarrow> u32 \<Rightarrow> u64 \<Rightarrow> u64 \<Rightarrow> fs \<Rightarrow> (int \<times> fs) option" where
  "fskit_mkdir V path mode user grp s = fskit_mkdir_ex V path mode user grp 0 s"

subsection \<open>mknod\<close>

definition fskit_run_user_mknod ::
    "env \<Rightarrow> string \<Rightarrow> addr \<Rightarrow> addr \<Rightarrow> u32 \<Rightarrow> u64 \<Rightarrow> nat \<Rightarrow> fs \<Rightarrow> (int \<times> nat \<times> fs) option" where
  "fskit_run_user_mknod V path parent fent mode d cls s =
     do {
       name \<leftarrow> name_buf path;
       (rc, cbrc, da, s) \<leftarrow> fskit_route_call_mknod V path (Some fent)
          (fskit_route_mknod_args (Some parent) name mode d cls) s;
       if rc = - EPERM then Some (0, 0, s)
       else if cbrc \<noteq> 0 then Some (cbrc, 0, s)
       else Some (0, da_inode_data da, s)
     }"

definition S_IFMT :: u32 where "S_IFMT = 61440"
definition S_IFREG :: u32 where "S_IFREG = 32768"
definition S_IFIFO :: u32 where "S_IFIFO = 4096"
definition S_IFSOCK :: u32 where "S_IFSOCK = 49152"
definition S_IFCHR :: u32 where "S_IFCHR = 8192"
definition S_IFBLK :: u32 where "S_IFBLK = 24576"

text \<open>The initialiser the mode asks for; \<open>None\<close> for a mode that is none of the five kinds.\<close>

definition mknod_init ::
    "env \<Rightarrow> u32 \<Rightarrow> u64 \<Rightarrow> u64 \<Rightarrow> u64 \<Rightarrow> (entry \<Rightarrow> entry \<times> int) option" where
  "mknod_init V mode d user grp =
     (let fmt = and mode S_IFMT; bits = and mode 511 in
      if fmt = S_IFREG then Some (fskit_entry_init_file V 0 user grp (or bits S_IFREG))
      else if fmt = S_IFIFO then Some (fskit_entry_init_fifo V 0 user grp (or bits S_IFIFO))
      else if fmt = S_IFSOCK then Some (fskit_entry_init_sock V 0 user grp (or bits S_IFSOCK))
      else if fmt = S_IFCHR then Some (fskit_entry_init_chr V 0 user grp (or bits S_IFCHR) d)
      else if fmt = S_IFBLK then Some (fskit_entry_init_blk V 0 user grp (or bits S_IFBLK) d)
      else None)"

definition fskit_mknod_ex ::
    "env \<Rightarrow> string \<Rightarrow> u32 \<Rightarrow> u64 \<Rightarrow> u64 \<Rightarrow> u64 \<Rightarrow> nat \<Rightarrow> fs \<Rightarrow> (int \<times> fs) option" where
  "fskit_mknod_ex V fs_path mode d user grp cls s =
     (if fskit_basename_len fs_path > FSKIT_FILESYSTEM_NAMEMAX then Some (- ENAMETOOLONG, s)
      else
        let path = fskit_sanitize_path fs_path in
        do {
          path_dirname \<leftarrow> fskit_dirname path;
          r \<leftarrow> fskit_entry_resolve_path V path_dirname user grp s;
          (case r of
             Inl err \<Rightarrow> Some (err, s)
           | Inr parent \<Rightarrow>
               do {
                 p \<leftarrow> heap s parent;
                 if \<not> FSKIT_ENTRY_IS_DIR_SEARCHABLE p user grp then Some (- EACCES, s)
                 else if \<not> FSKIT_ENTRY_IS_WRITEABLE p user grp then Some (- EACCES, s)
                 else do {
                   (err, s) \<leftarrow> reclaim_name V path parent (fskit_basename path) s;
                   if err \<noteq> 0 then Some (err, s)
                   else
                     (case alloc_entry s of
                        (child, s) \<Rightarrow>
                          (case mknod_init V mode d user grp of
                             None \<Rightarrow>
                               do {
                                 s \<leftarrow> fskit_entry_destroy child s;
                                 s \<leftarrow> free_entry child s;
                                 Some (- EINVAL, s)
                               }
                           | Some init \<Rightarrow>
                               do {
                                 c \<leftarrow> heap s child;
                                 s \<leftarrow> upd child (\<lambda>c. fst (init c)) s;
                                 if snd (init c) = 0 then
                                   (let fid = fskit_core_inode_alloc V s child in
                                    if fid = 0 then do {
                                      s \<leftarrow> fskit_entry_destroy child s;
                                      s \<leftarrow> free_entry child s;
                                      Some (- EIO, s)
                                    }
                                    else do {
                                      s \<leftarrow> upd child (\<lambda>c. c\<lparr>file_id := fid\<rparr>) s;
                                      s \<leftarrow> upd child (\<lambda>c. c\<lparr>open_count := open_count c + 1\<rparr>) s;
                                      (err, inode_data, s) \<leftarrow> fskit_run_user_mknod V path parent child mode d cls s;
                                      s \<leftarrow> upd child (\<lambda>c. c\<lparr>open_count := open_count c - 1\<rparr>) s;
                                      if err \<noteq> 0 then do {
                                        s \<leftarrow> fskit_entry_destroy child s;
                                        s \<leftarrow> free_entry child s;
                                        Some (err, s)
                                      }
                                      else do {
                                        (_, s) \<leftarrow> fskit_entry_attach_lowlevel V parent child (fskit_basename path) s;
                                        Some (0, s)
                                      }
                                    })
                                 else do {
                                   s \<leftarrow> fskit_entry_destroy child s;
                                   s \<leftarrow> free_entry child s;
                                   Some (snd (init c), s)
                                 }
                               }))
                 }
               })
        })"

definition fskit_mknod :: "env \<Rightarrow> string \<Rightarrow> u32 \<Rightarrow> u64 \<Rightarrow> u64 \<Rightarrow> u64 \<Rightarrow> fs \<Rightarrow> (int \<times> fs) option" where
  "fskit_mknod V fs_path mode d user grp s = fskit_mknod_ex V fs_path mode d user grp 0 s"

subsection \<open>The invariant\<close>

lemma wp_reclaim [wp]:
  assumes "rinv L R s" and Q: "\<And>err s'. rinv L R s' \<Longrightarrow> Q (err, s')"
  shows "post Q (reclaim_name V path parent name s)"
  unfolding reclaim_name_def by (insert assms(1)) (assumption | rule vc wp Q)+

lemma run_user_mkdir_frame: "post (\<lambda>(err, d, s'). attr_frame s s') (fskit_run_user_mkdir V path parent fent mode cls s)"
  by (auto simp: post_def fskit_run_user_mkdir_def fskit_route_call_mkdir_def bind_eq_Some
      split: if_splits dest: route_call_frame)

lemma run_user_mknod_frame: "post (\<lambda>(err, d, s'). attr_frame s s') (fskit_run_user_mknod V path parent fent mode dv cls s)"
  by (auto simp: post_def fskit_run_user_mknod_def fskit_route_call_mknod_def bind_eq_Some
      split: if_splits dest: route_call_frame)

lemma wp_mkdir_lowlevel:
  assumes I: "rinv L R s" and Q: "\<And>err s'. rinv L R s' \<Longrightarrow> Q (err, s')"
  shows "post Q (fskit_mkdir_lowlevel V path parent name mode user grp cls s)"
  unfolding fskit_mkdir_lowlevel_def
  by (insert I) (assumption | rule wp_referenced wp_init bare_init_dir run_user_mkdir_frame vc wp Q |
    simp only: bare_upd fskit_entry_set_user_data_def)+

lemma wp_mkdir [wp]:
  assumes "rinv L R s" and Q: "\<And>err s'. rinv L R s' \<Longrightarrow> Q (err, s')"
  shows "post Q (fskit_mkdir V path mode user grp s)"
  unfolding fskit_mkdir_def fskit_mkdir_ex_def
  by (insert assms(1)) (assumption | rule vc wp wp_mkdir_lowlevel Q)+

lemma bare_mknod_init: "mknod_init V mode d user grp = Some init \<Longrightarrow> bare a e \<Longrightarrow> bare a (fst (init e))"
  by (auto simp: mknod_init_def Let_def split: if_splits intro: bare_init)

lemma wp_mknod [wp]:
  assumes I: "rinv L R s" and Q: "\<And>err s'. rinv L R s' \<Longrightarrow> Q (err, s')"
  shows "post Q (fskit_mknod V path mode d user grp s)"
  unfolding fskit_mknod_def fskit_mknod_ex_def
  by (insert I) (assumption | rule wp_referenced wp_init bare_mknod_init run_user_mknod_frame vc wp Q |
    simp only: bare_upd)+

lemma inv_mkdir: "rinv L R s \<Longrightarrow> fskit_mkdir V path mode user grp s = Some (rc, s') \<Longrightarrow> rinv L R s'"
  using postD [OF wp_mkdir [where Q = "\<lambda>(rc, s'). rinv L R s'"]] by auto

lemma inv_mknod: "rinv L R s \<Longrightarrow> fskit_mknod V path mode d user grp s = Some (rc, s') \<Longrightarrow> rinv L R s'"
  using postD [OF wp_mknod [where Q = "\<lambda>(rc, s'). rinv L R s'"]] by auto

subsection \<open>What mkdir makes\<close>

lemma reclaim_brk:
  assumes "reclaim_name V path parent name s = Some (rc, s')"
  shows "brk s' = brk s"
proof -
  have *: "brk s1 = brk s" if "fskit_entry_try_garbage_collect V path parent child s = Some (rc1, s1)" for child rc1 s1
    using that
  proof (cases rule: gc_cases)
    case (detached nm rc2 s2)
    have n: "brk s2 = brk s" using detached(2) by (cases rule: detach_cases) auto
    show ?thesis using detached(4) by (cases rule: try_destroy_and_free_cases) (use n in auto)
  next
    case (collected nm rc2 s2 s3)
    have n: "brk s2 = brk s" using collected(2) by (cases rule: detach_cases) auto
    have "brk s3 = brk s" using collected(4) by (cases rule: try_destroy_and_free_cases) (use n in auto)
    then show ?thesis using collected(6) by (auto simp: upd_Some)
  qed simp_all
  have gc: "post (\<lambda>(rc, s'). brk s' = brk s) (fskit_entry_try_garbage_collect V path parent child s)" for child
    by (rule postI) (use * in auto)
  have "post (\<lambda>(rc, s'). brk s' = brk s) (reclaim_name V path parent name s)"
    unfolding reclaim_name_def
    by (rule vc post_via [OF gc] | (simp; fail) | clarify)+
  then show ?thesis using postD [OF _ assms(1)] by fastforce
qed

text \<open>The inode that mkdir makes.\<close>

definition new_dir :: "addr \<Rightarrow> u64 \<Rightarrow> u64 \<Rightarrow> u32 \<Rightarrow> addr \<Rightarrow> entry \<Rightarrow> bool" where
  "new_dir parent user grp mode a c =
     (etype c = T_DIR \<and> owner c = user \<and> egroup c = grp \<and> emode c = mode \<and> num_children c = 0 \<and>
      set (es_entries (children c)) = {(''.'', a), (''..'', parent)})"

lemma init_dir_new:
  assumes "fskit_entry_init_dir V a parent fid user grp mode e = (c, 0)"
  shows "new_dir parent user grp mode a c"
proof -
  obtain t where t: "fskit_entry_set_new V a parent = Some t"
    using assms by (auto simp: fskit_entry_init_dir_def ENOMEM_def split: option.splits)
  obtain c1 rc where i: "fskit_entry_init_common V T_DIR fid user grp mode e = (c1, rc)"
    by (cases "fskit_entry_init_common V T_DIR fid user grp mode e")
  have "rc = 0" "c = c1\<lparr>children := t\<rparr>"
    using assms t i by (auto simp: fskit_entry_init_dir_def split: if_splits)
  moreover have "set_mset (mset (es_entries t)) = {(''.'', a), (''..'', parent)}"
    by (simp add: mset_entry_set_new [OF t])
  ultimately show ?thesis using init_common_fields [of V T_DIR fid user grp mode e c1] i by (simp add: new_dir_def)
qed

lemma new_dir_attr: "attr_norm e' = attr_norm e \<Longrightarrow> new_dir p u g m a e' = new_dir p u g m a e"
  by (cases e, cases e') (simp add: attr_norm_def new_dir_def)

lemma new_dir_attached: "new_dir parent user grp mode a c \<Longrightarrow> new_dir parent user grp mode a (attach_child V parent c)"
proof -
  assume new: "new_dir parent user grp mode a c"
  obtain t b where t: "fskit_entry_set_replace (children c) ''..'' parent = (t, b)"
    by (cases "fskit_entry_set_replace (children c) ''..'' parent")
  have S: "set (es_entries (children c)) = {(''.'', a), (''..'', parent)}" using new by (simp add: new_dir_def)
  have "mset (es_entries t) = mset (es_entries (children c))"
  proof (cases b)
    case True
    then obtain x M where M: "mset (es_entries (children c)) = add_mset (''..'', x) M"
        "mset (es_entries t) = add_mset (''..'', parent) M"
      using mset_entry_set_replace [OF t] by auto
    have "(''..'', x) \<in> set_mset (mset (es_entries (children c)))" by (simp add: M(1))
    then have "x = parent" using S by auto
    then show ?thesis using M by simp
  next
    case False
    then show ?thesis using mset_entry_set_replace [OF t] by simp
  qed
  then have "set (es_entries t) = {(''.'', a), (''..'', parent)}" using S by (metis set_mset_mset)
  then show ?thesis using new t by (simp add: new_dir_def attach_child_def)
qed

lemma mkdir_lowlevel_made:
  assumes I: "rinv L R s" and m: "mem_ok V ''fskit_entry_set_insert''"
    and M: "fskit_mkdir_lowlevel V path parent name mode user grp cls s = Some (0, s')"
  shows "made parent name (new_dir parent user grp mode) s s'"
proof -
  obtain s1 where r: "reclaim_name V path parent name s = Some (0, s1)"
    using M by (cases "reclaim_name V path parent name s") (auto simp: fskit_mkdir_lowlevel_def split: if_splits)
  obtain a s2 where al: "alloc_entry s1 = (a, s2)" by (cases "alloc_entry s1")
  have mem: "mem_ok V ''fskit_mkdir_lowlevel''"
    using M r by (auto simp: fskit_mkdir_lowlevel_def ENOMEM_def split: if_splits)
  have z: "heap s2 a = Some zero_entry" using al by (auto simp: alloc_entry_def)
  let ?f = "\<lambda>fid c. fst (fskit_entry_init_dir V a parent fid user grp mode c)"
  obtain fid s3 s4 d s5 where
      i: "snd (fskit_entry_init_dir V a parent fid user grp mode zero_entry) = 0"
    and u3: "upd a (\<lambda>c. c\<lparr>open_count := open_count c + 1\<rparr>) (s2\<lparr>heap := (heap s2)(a \<mapsto> ?f fid zero_entry)\<rparr>) = Some s3"
    and c: "fskit_run_user_mkdir V path parent a mode cls s3 = Some (0, d, s4)"
    and u5: "upd a (\<lambda>c. c\<lparr>open_count := open_count c - 1\<rparr>) s4 = Some s5"
    and rest: "do { s \<leftarrow> upd a (fskit_entry_set_user_data d) s5;
                 (_, s) \<leftarrow> fskit_entry_attach_lowlevel V parent a name s;
                 Some (0, s) } = Some (0, s')"
    using M r al mem z
    by (auto simp: fskit_mkdir_lowlevel_def Let_def upd_simp bind_eq_Some EIO_def split: if_splits)
  let ?c = "?f fid zero_entry" and ?s2 = "s2\<lparr>heap := (heap s2)(a \<mapsto> ?f fid zero_entry)\<rparr>"
  have "rinv L R s1" using postD [OF wp_reclaim [OF I, where Q = "\<lambda>(rc, s'). rinv L R s'"] r] by simp
  then have I2: "rinv L R s2" and F2: "fresh a s2"
    using inv_alloc [OF _ al] z by (auto simp: fresh_def)
  have n: "heap s a = None" using inv_brk [OF I] reclaim_brk [OF r] al by (simp add: alloc_entry_def)
  have b: "bare a ?c" by (rule bare_init_dir) simp
  have fr: "attr_frame ?s2 s5"
    using referenced_frame [OF u3 _ u5] postD [OF run_user_mkdir_frame c] by simp
  have I5: "rinv L R s5" and F5: "fresh a s5"
    using attr_frame_inv [OF fr inv_bare [OF I2 F2 b]] fresh_frame [OF fr fresh_bare [OF F2 b]] by simp_all
  obtain c5 where c5: "heap s5 a = Some c5" "attr_norm c5 = attr_norm ?c"
    by (rule attr_frame_Some [OF fr, of a]) (use that in auto)
  let ?c6 = "fskit_entry_set_user_data d c5" and ?s6 = "s5\<lparr>heap := (heap s5)(a \<mapsto> fskit_entry_set_user_data d c5)\<rparr>"
  have b6: "bare a ?c6" using F5 c5(1) by (simp add: fskit_entry_set_user_data_def fresh_def)
  have "new_dir parent user grp mode a ?c"
    using i by (intro init_dir_new [of V a parent fid user grp mode zero_entry]) (simp add: prod_eq_iff)
  then have new: "new_dir parent user grp mode a ?c6"
    using new_dir_attr [OF c5(2)] by (simp add: fskit_entry_set_user_data_def new_dir_def)
  obtain rc where A: "fskit_entry_attach_lowlevel V parent a name ?s6 = Some (rc, s')"
    using rest c5(1) by (auto simp: upd_simp bind_eq_Some)
  obtain p0 where "heap s parent = Some p0"
    using r by (auto simp: reclaim_name_def bind_eq_Some)
  then have ne: "parent \<noteq> a" using n by auto
  obtain p where p: "heap ?s6 parent = Some p" using A ne
    by (auto simp: fskit_entry_attach_lowlevel_def bind_eq_Some upd_Some)
  have "post (\<lambda>(rc, s'). made parent name (new_dir parent user grp mode) s s')
      (fskit_entry_attach_lowlevel V parent a name ?s6)"
    by (rule wp_attach_made [OF inv_bare [OF I5 F5 b6] fresh_bare [OF F5 b6] _ p ne m n, of ?c6])
      (use new_dir_attached [OF new] in simp_all)
  then show ?thesis using postD [OF _ A] by fastforce
qed

text \<open>Making a directory makes one, in the directory that the path's directory name resolves to.\<close>

lemma mkdir_made:
  assumes I: "rinv L R s" and m: "mem_ok V ''fskit_entry_set_insert''"
    and M: "fskit_mkdir V path mode user grp s = Some (0, s')"
  obtains d parent p where "fskit_dirname (fskit_sanitize_path path) = Some d"
    and "fskit_entry_resolve_path V (fskit_sanitize_path d) user grp s = Some (Inr parent)"
    and "heap s parent = Some p" and "etype p = T_DIR" and "FSKIT_ENTRY_IS_WRITEABLE p user grp"
    and "made parent (fskit_basename (fskit_sanitize_path path)) (new_dir parent user grp mode) s s'"
proof -
  obtain d where d: "fskit_dirname (fskit_sanitize_path path) = Some d"
    using M by (auto simp: fskit_mkdir_def fskit_mkdir_ex_def Let_def bind_eq_Some errno_defs split: if_splits)
  obtain r where r: "fskit_entry_resolve_path V (fskit_sanitize_path d) user grp s = Some r"
    using M d by (auto simp: fskit_mkdir_def fskit_mkdir_ex_def Let_def bind_eq_Some errno_defs split: if_splits)
  have low: "\<exists>p. r = Inr parent \<longrightarrow> heap s parent = Some p \<and> etype p = T_DIR \<and> FSKIT_ENTRY_IS_WRITEABLE p user grp \<and>
      fskit_mkdir_lowlevel V path parent (fskit_basename (fskit_sanitize_path path)) mode user grp 0 s = Some (0, s')" for parent
    using M d r by (auto simp: fskit_mkdir_def fskit_mkdir_ex_def Let_def bind_eq_Some errno_defs split: if_splits)
  show ?thesis
  proof (cases r)
    case (Inl err)
    then have "err = 0"
      using M d r by (auto simp: fskit_mkdir_def fskit_mkdir_ex_def Let_def errno_defs split: if_splits)
    then show ?thesis using resolve_path_err r Inl by fastforce
  next
    case (Inr parent)
    then show ?thesis using that [OF d] r low [of parent] mkdir_lowlevel_made [OF I m] by blast
  qed
qed

lemma mkdir_exists:
  assumes "fskit_basename_len path \<le> FSKIT_FILESYSTEM_NAMEMAX"
    and "fskit_dirname (fskit_sanitize_path path) = Some d"
    and "fskit_entry_resolve_path V (fskit_sanitize_path d) user grp s = Some (Inr parent)"
    and "heap s parent = Some p" and "etype p = T_DIR" and "FSKIT_ENTRY_IS_WRITEABLE p user grp"
    and "fskit_entry_set_find_name (children p) (fskit_basename (fskit_sanitize_path path)) = Some child"
    and "heap s child = Some c" and "\<not> deletion_in_progress c"
  shows "fskit_mkdir V path mode user grp s = Some (- EEXIST, s)"
  using assms
  by (simp add: fskit_mkdir_def fskit_mkdir_ex_def Let_def fskit_mkdir_lowlevel_def reclaim_name_def
      fskit_entry_lock_def fskit_entry_unlock_def fskit_entry_try_garbage_collect_def errno_defs)

end
