(* ===== verification/Handles.thy ===== *)
theory Handles
  imports MakeNode
begin

text \<open>
  Files and directories opened and closed (\<open>libfskit/create.c\<close>, \<open>open.c\<close>, \<open>close.c\<close>, \<open>opendir.c\<close>,
  \<open>closedir.c\<close>, and the callback part of \<open>trunc.c\<close>, which opening with \<open>O_TRUNC\<close> uses). A handle is
  a number that \<open>fhs\<close> or \<open>dhs\<close> maps to the handle structure; opening takes a reference to the inode
  that the handle keeps and closing gives it up, which may destroy the inode.

  The open flags have the values of Linux. An error is \<open>Inl\<close> of what the code stores in \<open>*err\<close>.
\<close>

definition O_RDONLY :: nat where "O_RDONLY = 0"
definition O_WRONLY :: nat where "O_WRONLY = 1"
definition O_RDWR :: nat where "O_RDWR = 2"
definition O_CREAT :: nat where "O_CREAT = 64"
definition O_TRUNC :: nat where "O_TRUNC = 512"

subsection \<open>Callbacks\<close>

definition fskit_run_user_create ::
    "env \<Rightarrow> string \<Rightarrow> addr \<Rightarrow> addr \<Rightarrow> u32 \<Rightarrow> nat \<Rightarrow> fs \<Rightarrow> (int \<times> (nat \<times> nat) \<times> fs) option" where
  "fskit_run_user_create V path parent fent mode cls s =
     do {
       name \<leftarrow> name_buf path;
       (rc, cbrc, da, s) \<leftarrow> fskit_route_call_create V path (Some fent)
          (fskit_route_create_args (Some parent) name mode cls) s;
       if rc = - EPERM \<or> rc = - ENOSYS then Some (0, (0, 0), s)
       else if cbrc \<noteq> 0 then Some (cbrc, (0, 0), s)
       else Some (0, (da_inode_data da, da_handle_data da), s)
     }"

definition fskit_run_user_open :: "env \<Rightarrow> string \<Rightarrow> addr \<Rightarrow> nat \<Rightarrow> fs \<Rightarrow> (int \<times> nat \<times> fs) option" where
  "fskit_run_user_open V path fent flags s =
     do {
       name \<leftarrow> name_buf path;
       (rc, cbrc, da, s) \<leftarrow> fskit_route_call_open V path (Some fent) (fskit_route_open_args name flags) s;
       if rc = - EPERM \<or> rc = - ENOSYS then Some (0, 0, s)
       else if cbrc \<noteq> 0 then Some (cbrc, 0, s)
       else Some (0, da_handle_data da, s)
     }"

definition fskit_run_user_close :: "env \<Rightarrow> string \<Rightarrow> addr \<Rightarrow> nat \<Rightarrow> fs \<Rightarrow> (int \<times> fs) option" where
  "fskit_run_user_close V path fent handle_data s =
     do {
       (rc, cbrc, da, s) \<leftarrow> fskit_route_call_close V path (Some fent) (fskit_route_close_args handle_data) s;
       if rc = - EPERM \<or> rc = - ENOSYS then Some (0, s)
       else if cbrc \<noteq> 0 then Some (cbrc, s)
       else Some (0, s)
     }"

definition fskit_run_user_trunc :: "env \<Rightarrow> string \<Rightarrow> addr option \<Rightarrow> int \<Rightarrow> nat \<Rightarrow> fs \<Rightarrow> (int \<times> fs) option" where
  "fskit_run_user_trunc V path fent new_size handle_data s =
     do {
       name \<leftarrow> name_buf path;
       (rc, cbrc, da, s) \<leftarrow> fskit_route_call_trunc V path fent
          (fskit_route_trunc_args name new_size handle_data (Some fskit_trunc_cont_fn)) s;
       if rc = - EPERM \<or> rc = - ENOSYS then Some (0, s) else Some (cbrc, s)
     }"

subsection \<open>Creating\<close>

definition fskit_do_create ::
    "env \<Rightarrow> addr \<Rightarrow> string \<Rightarrow> u32 \<Rightarrow> u64 \<Rightarrow> u64 \<Rightarrow> nat \<Rightarrow> fs \<Rightarrow> ((int + addr \<times> nat) \<times> fs) option" where
  "fskit_do_create V parent path mode user grp cls s =
     do {
       path_basename \<leftarrow> name_buf path;
       if \<not> mem_ok V ''fskit_do_create'' then Some (Inl (- ENOMEM), s)
       else
         (case alloc_entry s of
            (child, s) \<Rightarrow>
              do {
                c \<leftarrow> heap s child;
                s \<leftarrow> upd child (\<lambda>c. fst (fskit_entry_init_file V 0 user grp mode c)) s;
                let rc = snd (fskit_entry_init_file V 0 user grp mode c) in
                if rc \<noteq> 0 then do {
                  s \<leftarrow> fskit_entry_destroy child s;
                  s \<leftarrow> free_entry child s;
                  Some (Inl rc, s)
                }
                else
                  let child_inode = fskit_core_inode_alloc V s child in
                  if child_inode = 0 then do {
                    s \<leftarrow> fskit_entry_destroy child s;
                    s \<leftarrow> free_entry child s;
                    Some (Inl (- EIO), s)
                  }
                  else do {
                    s \<leftarrow> upd child (fskit_entry_set_file_id child_inode) s;
                    s \<leftarrow> upd child (\<lambda>c. c\<lparr>open_count := open_count c + 1\<rparr>) s;
                    (rc, (inode_data, handle_data), s) \<leftarrow> fskit_run_user_create V path parent child mode cls s;
                    if rc \<noteq> 0 then do {
                      s \<leftarrow> fskit_entry_destroy child s;
                      s \<leftarrow> free_entry child s;
                      Some (Inl rc, s)
                    }
                    else do {
                      s \<leftarrow> upd child (fskit_entry_set_user_data inode_data) s;
                      (_, s) \<leftarrow> fskit_entry_attach_lowlevel V parent child path_basename s;
                      Some (Inr (child, handle_data), s)
                    }
                  }
              })
     }"

subsection \<open>Opening\<close>

definition fskit_check_flags :: "nat \<Rightarrow> int" where
  "fskit_check_flags flags =
     (if \<not> has_flag flags O_RDONLY \<and> has_flag flags O_RDWR \<and> has_flag flags O_WRONLY then - EINVAL
      else if has_flag flags O_RDONLY \<and> has_flag flags O_WRONLY then - EINVAL
      else 0)"

definition fskit_do_parent_check :: "entry \<Rightarrow> nat \<Rightarrow> u64 \<Rightarrow> u64 \<Rightarrow> int" where
  "fskit_do_parent_check parent flags user grp =
     (if etype parent \<noteq> T_DIR then - ENOTDIR
      else if \<not> FSKIT_ENTRY_IS_DIR_SEARCHABLE parent user grp then - EACCES
      else if has_flag flags O_CREAT \<and> \<not> FSKIT_ENTRY_IS_WRITEABLE parent user grp then - EACCES
      else 0)"

text \<open>The checks that \<open>fskit_do_open\<close> makes before it references the file.\<close>

definition do_open_check :: "entry \<Rightarrow> nat \<Rightarrow> u64 \<Rightarrow> u64 \<Rightarrow> int" where
  "do_open_check c flags user grp =
     (if link_count c = 0 \<or> deletion_in_progress c \<or> etype c = T_DEAD then - ENOENT
      else if etype c = T_DIR then - EISDIR
      else if (\<not> has_flag flags O_RDWR \<and> \<not> has_flag flags O_WRONLY) \<and> \<not> FSKIT_ENTRY_IS_READABLE c user grp
      then - EACCES
      else if has_flag flags O_WRONLY \<and> \<not> FSKIT_ENTRY_IS_WRITEABLE c user grp then - EACCES
      else if has_flag flags O_RDWR \<and>
        (\<not> FSKIT_ENTRY_IS_READABLE c user grp \<or> \<not> FSKIT_ENTRY_IS_WRITEABLE c user grp) then - EACCES
      else 0)"

definition fskit_do_open ::
    "env \<Rightarrow> string \<Rightarrow> addr \<Rightarrow> nat \<Rightarrow> u64 \<Rightarrow> u64 \<Rightarrow> fs \<Rightarrow> ((int + nat) \<times> fs) option" where
  "fskit_do_open V path child flags user grp s =
     do {
       c \<leftarrow> heap s child;
       let rc = do_open_check c flags user grp in
       if rc \<noteq> 0 then Some (Inl rc, s)
       else do {
         s \<leftarrow> fskit_entry_ref_entry child s;
         (rc, handle_data, s) \<leftarrow> fskit_run_user_open V path child flags s;
         if rc \<noteq> 0 then do {
           (_, s) \<leftarrow> fskit_entry_unref V path child s;
           Some (Inl rc, s)
         }
         else Some (Inr handle_data, s)
       }
     }"

definition fskit_file_handle_create ::
    "env \<Rightarrow> addr \<Rightarrow> string \<Rightarrow> nat \<Rightarrow> nat \<Rightarrow> fs \<Rightarrow> (nat option \<times> fs) option" where
  "fskit_file_handle_create V ent opened_path flags handle_data s =
     (if \<not> mem_ok V ''fskit_file_handle_create'' then Some (None, s)
      else do {
        e \<leftarrow> heap s ent;
        Some (Some (hbrk s),
          s\<lparr>fhs := (fhs s)(hbrk s \<mapsto> \<lparr>fh_fent = Some ent, fh_path = opened_path, fh_flags = flags,
                                      fh_file_id = file_id e, fh_app_data = handle_data\<rparr>),
            hbrk := hbrk s + 1\<rparr>)
      })"

text \<open>
  The part of \<open>fskit_open_ex\<close> that finds or makes the file: the outcome is the file, whether it was
  created, and the handle data of a created one.
\<close>

definition open_child ::
    "env \<Rightarrow> string \<Rightarrow> string \<Rightarrow> addr \<Rightarrow> entry \<Rightarrow> nat \<Rightarrow> u32 \<Rightarrow> u64 \<Rightarrow> u64 \<Rightarrow> nat \<Rightarrow> fs \<Rightarrow>
     ((int + addr \<times> bool \<times> nat) \<times> fs) option" where
  "open_child V path path_basename parent p flags mode user grp cls s =
     (if has_flag flags O_CREAT then
        do {
          (rc, s) \<leftarrow> reclaim_name V path parent path_basename s;
          if rc \<noteq> 0 then Some (Inl rc, s)
          else do {
            (r, s) \<leftarrow> fskit_do_create V parent path mode user grp cls s;
            (case r of
               Inl rc \<Rightarrow> Some (Inl rc, s)
             | Inr x \<Rightarrow> Some (Inr (fst x, True, snd x), s))
          }
        }
      else
        (case fskit_entry_set_find_name (children p) path_basename of
           None \<Rightarrow> Some (Inl (- ENOENT), s)
         | Some child \<Rightarrow> Some (Inr (child, False, 0), s)))"

definition fskit_open_ex ::
    "env \<Rightarrow> string \<Rightarrow> u64 \<Rightarrow> u64 \<Rightarrow> nat \<Rightarrow> u32 \<Rightarrow> nat \<Rightarrow> fs \<Rightarrow> ((int + nat) \<times> fs) option" where
  "fskit_open_ex V path0 user grp flags mode cls s =
     (if fskit_check_flags flags \<noteq> 0 then Some (Inl (- EINVAL), s)
      else if \<not> mem_ok V ''fskit_open_ex'' then Some (Inl (- ENOMEM), s)
      else
        let path = fskit_sanitize_path path0 in
        if fskit_basename_len path > FSKIT_FILESYSTEM_NAMEMAX then Some (Inl (- ENAMETOOLONG), s)
        else do {
          path_dirname \<leftarrow> fskit_dirname path;
          path_basename \<leftarrow> name_buf path;
          r \<leftarrow> fskit_entry_resolve_path V path_dirname user grp s;
          (case r of
             Inl err \<Rightarrow> Some (Inl err, s)
           | Inr parent \<Rightarrow>
               do {
                 p \<leftarrow> heap s parent;
                 let rc = fskit_do_parent_check p flags user grp in
                 if rc \<noteq> 0 then Some (Inl rc, s)
                 else do {
                   (r, s) \<leftarrow> open_child V path path_basename parent p flags mode user grp cls s;
                   (case r of
                      Inl rc \<Rightarrow> Some (Inl rc, s)
                    | Inr x \<Rightarrow>
                        let child = fst x; created = fst (snd x) in
                        do {
                          (rc, s) \<leftarrow>
                            (if has_flag flags O_TRUNC \<and> has_flag flags (or O_RDWR O_WRONLY)
                             then fskit_run_user_trunc V path (Some child) 0 0 s
                             else Some (0, s));
                          if rc \<noteq> 0 then Some (Inl rc, s)
                          else do {
                            (r, s) \<leftarrow>
                              (if \<not> created then fskit_do_open V path child flags user grp s
                               else Some (Inr (snd (snd x)), s));
                            (case r of
                               Inl rc \<Rightarrow> Some (Inl rc, s)
                             | Inr handle_data \<Rightarrow>
                                 do {
                                   s \<leftarrow> upd child (\<lambda>e. fst (fskit_entry_set_atime V None e)) s;
                                   (h, s) \<leftarrow> fskit_file_handle_create V child path flags handle_data s;
                                   (case h of
                                      None \<Rightarrow> Some (Inl (- ENOMEM), s)
                                    | Some fh \<Rightarrow> Some (Inr fh, s))
                                 })
                          }
                        })
                 }
               })
        })"

definition fskit_open :: "env \<Rightarrow> string \<Rightarrow> u64 \<Rightarrow> u64 \<Rightarrow> nat \<Rightarrow> u32 \<Rightarrow> fs \<Rightarrow> ((int + nat) \<times> fs) option" where
  "fskit_open V path user grp flags mode s = fskit_open_ex V path user grp flags mode 0 s"

definition fskit_create :: "env \<Rightarrow> string \<Rightarrow> u64 \<Rightarrow> u64 \<Rightarrow> u32 \<Rightarrow> fs \<Rightarrow> ((int + nat) \<times> fs) option" where
  "fskit_create V path user grp mode s =
     fskit_open V path user grp (or O_CREAT (or O_WRONLY O_TRUNC)) mode s"

definition fskit_create_ex :: "env \<Rightarrow> string \<Rightarrow> u64 \<Rightarrow> u64 \<Rightarrow> u32 \<Rightarrow> nat \<Rightarrow> fs \<Rightarrow> ((int + nat) \<times> fs) option" where
  "fskit_create_ex V path user grp mode cls s =
     fskit_open_ex V path user grp (or O_CREAT (or O_WRONLY O_TRUNC)) mode cls s"

subsection \<open>Closing\<close>

definition fskit_file_handle_destroy :: "nat \<Rightarrow> fs \<Rightarrow> fs option" where
  "fskit_file_handle_destroy h s =
     (case fhs s h of None \<Rightarrow> None | Some _ \<Rightarrow> Some (s\<lparr>fhs := (fhs s)(h := None)\<rparr>))"

definition fskit_close :: "env \<Rightarrow> nat \<Rightarrow> fs \<Rightarrow> (int \<times> fs) option" where
  "fskit_close V h s =
     do {
       fh \<leftarrow> fhs s h;
       (case fh_fent fh of
          None \<Rightarrow> Some (- EBADF, s)
        | Some fent \<Rightarrow>
            do {
              (rc, s) \<leftarrow> fskit_run_user_close V (fh_path fh) fent (fh_app_data fh) s;
              if rc \<noteq> 0 then Some (rc, s)
              else do {
                rc \<leftarrow> fskit_entry_lock fent s;
                if rc \<noteq> 0 then Some (rc, s)
                else do {
                  s \<leftarrow> upd fent (\<lambda>e. e\<lparr>open_count := open_count e - 1\<rparr>) s;
                  (rc, s) \<leftarrow> fskit_entry_try_destroy_and_free V (fh_path fh) None fent s;
                  if rc < 0 then do { _ \<leftarrow> fskit_entry_unlock (Some fent) s; Some (rc, s) }
                  else do {
                    _ \<leftarrow> (if rc = 0 then fskit_entry_unlock (Some fent) s else Some ());
                    s \<leftarrow> fskit_file_handle_destroy h s;
                    Some (0, s)
                  }
                }
              }
            })
     }"

subsection \<open>Directories\<close>

definition fskit_dir_handle_create :: "env \<Rightarrow> addr \<Rightarrow> string \<Rightarrow> nat \<Rightarrow> fs \<Rightarrow> (nat option \<times> fs) option" where
  "fskit_dir_handle_create V dir path app_handle_data s =
     (if \<not> mem_ok V ''fskit_dir_handle_create'' then Some (None, s)
      else do {
        e \<leftarrow> heap s dir;
        Some (Some (hbrk s),
          s\<lparr>dhs := (dhs s)(hbrk s \<mapsto> \<lparr>dh_dent = Some dir, dh_path = path, dh_file_id = file_id e,
                                      dh_curr_name = [], dh_telldir = [], dh_app_data = app_handle_data,
                                      dh_eof = False\<rparr>),
            hbrk := hbrk s + 1\<rparr>)
      })"

definition fskit_opendir :: "env \<Rightarrow> string \<Rightarrow> u64 \<Rightarrow> u64 \<Rightarrow> fs \<Rightarrow> ((int + nat) \<times> fs) option" where
  "fskit_opendir V path0 user grp s =
     (if length path0 \<ge> PATH_MAX then Some (Inl (- ENAMETOOLONG), s)
      else
        let path = fskit_sanitize_path path0 in
        do {
          r \<leftarrow> fskit_entry_resolve_path V path user grp s;
          (case r of
             Inl err \<Rightarrow> Some (Inl err, s)
           | Inr dir \<Rightarrow>
               do {
                 d \<leftarrow> heap s dir;
                 if etype d \<noteq> T_DIR then Some (Inl (- ENOTDIR), s)
                 else do {
                   s \<leftarrow> fskit_entry_ref_entry dir s;
                   (rc, app_handle_data, s) \<leftarrow> fskit_run_user_open V path dir 0 s;
                   if rc \<noteq> 0 then do {
                     (_, s) \<leftarrow> fskit_entry_unref V path dir s;
                     Some (Inl rc, s)
                   }
                   else do {
                     (h, s) \<leftarrow> fskit_dir_handle_create V dir path app_handle_data s;
                     (case h of
                        None \<Rightarrow> do {
                          (_, s) \<leftarrow> fskit_entry_unref V path dir s;
                          Some (Inl (- ENOMEM), s)
                        }
                      | Some dirh \<Rightarrow> Some (Inr dirh, s))
                   }
                 }
               })
        })"

definition fskit_dir_handle_destroy :: "nat \<Rightarrow> fs \<Rightarrow> fs option" where
  "fskit_dir_handle_destroy h s =
     (case dhs s h of None \<Rightarrow> None | Some _ \<Rightarrow> Some (s\<lparr>dhs := (dhs s)(h := None)\<rparr>))"

definition fskit_closedir :: "env \<Rightarrow> nat \<Rightarrow> fs \<Rightarrow> (int \<times> fs) option" where
  "fskit_closedir V h s =
     do {
       dirh \<leftarrow> dhs s h;
       (case dh_dent dirh of
          None \<Rightarrow> Some (- EBADF, s)
        | Some dent \<Rightarrow>
            do {
              (rc, s) \<leftarrow> fskit_run_user_close V (dh_path dirh) dent (dh_app_data dirh) s;
              if rc \<noteq> 0 then Some (rc, s)
              else do {
                rc \<leftarrow> fskit_entry_lock dent s;
                if rc \<noteq> 0 then Some (rc, s)
                else do {
                  s \<leftarrow> upd dent (\<lambda>e. e\<lparr>open_count := open_count e - 1\<rparr>) s;
                  (rc, s) \<leftarrow> fskit_entry_try_destroy_and_free V (dh_path dirh) None dent s;
                  if rc < 0 then do { _ \<leftarrow> fskit_entry_unlock (Some dent) s; Some (rc, s) }
                  else do {
                    _ \<leftarrow> (if rc = 0 then fskit_entry_unlock (Some dent) s else Some ());
                    s \<leftarrow> fskit_dir_handle_destroy h s;
                    Some (0, s)
                  }
                }
              }
            })
     }"

subsection \<open>The invariant\<close>

text \<open>A new inode with the one open reference that its creator will hand to a handle.\<close>

definition held :: "addr \<Rightarrow> fs \<Rightarrow> bool" where
  "held a s = (a \<noteq> 0 \<and> (\<exists>e. heap s a = Some e \<and> links_of a e = {#} \<and> link_count e = 0 \<and> open_count e = 1))"

lemma wp_held:
  assumes I: "rinv L R s" and F: "fresh a s"
    and cb: "\<And>s1. post (\<lambda>(rc, d, s2). attr_frame s1 s2) (cb s1)"
    and Q: "\<And>rc d s2. rinv L (add_mset a R) s2 \<Longrightarrow> held a s2 \<Longrightarrow> post Q (f rc d s2)"
  shows "post Q (do {
           s1 \<leftarrow> upd a (\<lambda>e. e\<lparr>open_count := open_count e + 1\<rparr>) s;
           (rc, d, s2) \<leftarrow> cb s1;
           f rc d s2
         })"
proof (rule postI)
  fix x
  assume "do {
           s1 \<leftarrow> upd a (\<lambda>e. e\<lparr>open_count := open_count e + 1\<rparr>) s;
           (rc, d, s2) \<leftarrow> cb s1;
           f rc d s2
         } = Some x"
  then obtain s1 rc d s2 where u: "upd a (\<lambda>e. e\<lparr>open_count := open_count e + 1\<rparr>) s = Some s1"
    and c: "cb s1 = Some (rc, d, s2)" and x: "f rc d s2 = Some x"
    by (auto simp: bind_eq_Some)
  have fr: "attr_frame s1 s2" using postD [OF cb c] by simp
  obtain e where e: "heap s a = Some e" "bare a e" "a \<noteq> 0" using F by (auto simp: fresh_def)
  then have "heap s1 a = Some (e\<lparr>open_count := open_count e + 1\<rparr>)" using u by (auto simp: upd_Some)
  then obtain e2 where "heap s2 a = Some e2" "attr_norm e2 = attr_norm (e\<lparr>open_count := open_count e + 1\<rparr>)"
    by (rule attr_frame_Some [OF fr])
  then have "held a s2"
    using e attr_normD [of e2 "e\<lparr>open_count := open_count e + 1\<rparr>"] by (auto simp: held_def bare_def links_of_def)
  then show "Q x" using Q [OF attr_frame_inv [OF fr inv_ref [OF I u]]] x by (auto simp: post_def)
qed

lemma wp_discard_held:
  assumes I: "rinv L (add_mset a R) s" and H: "held a s" and Q: "\<And>s'. rinv L R s' \<Longrightarrow> post Q (f s')"
  shows "post Q (do { s1 \<leftarrow> fskit_entry_destroy a s; s2 \<leftarrow> free_entry a s1; f s2 })"
proof -
  obtain e where e: "heap s a = Some e" "link_count e = 0" "open_count e = 1" "a \<noteq> 0"
    using H by (auto simp: held_def)
  let ?s = "s\<lparr>heap := (heap s)(a \<mapsto> e\<lparr>open_count := open_count e - 1\<rparr>)\<rparr>"
  have "rinv L R ?s" by (rule inv_unref [OF I]) (simp add: upd_simp [OF e(1)])
  from inv_freed [OF this, of a] have "rinv L R (s\<lparr>heap := (heap s)(a := None)\<rparr>)" using e by simp
  then show ?thesis using e by (simp add: fskit_entry_destroy_def upd_simp free_entry_def Q)
qed

lemma held_upd: "held a s \<Longrightarrow> upd a f s = Some s' \<Longrightarrow>
    (\<And>e. children (f e) = children e \<and> link_count (f e) = link_count e \<and> open_count (f e) = open_count e) \<Longrightarrow>
    held a s'"
  by (auto simp: held_def upd_Some links_of_def)

lemma run_user_create_frame: "post (\<lambda>(err, d, s'). attr_frame s s') (fskit_run_user_create V path parent fent mode cls s)"
  by (auto simp: post_def fskit_run_user_create_def fskit_route_call_create_def bind_eq_Some
      split: if_splits dest: route_call_frame)

lemma wp_run_user_open [wp]:
  assumes "rinv L R s" and Q: "\<And>rc d s'. rinv L R s' \<Longrightarrow> attr_frame s s' \<Longrightarrow> Q (rc, d, s')"
  shows "post Q (fskit_run_user_open V path fent flags s)"
  unfolding fskit_run_user_open_def by (insert assms(1)) (assumption | rule vc wp Q)+

lemma wp_run_user_close [wp]:
  assumes "rinv L R s" and Q: "\<And>rc s'. rinv L R s' \<Longrightarrow> attr_frame s s' \<Longrightarrow> Q (rc, s')"
  shows "post Q (fskit_run_user_close V path fent d s)"
  unfolding fskit_run_user_close_def by (insert assms(1)) (assumption | rule vc wp Q)+

lemma wp_run_user_trunc [wp]:
  assumes "rinv L R s" and Q: "\<And>rc s'. rinv L R s' \<Longrightarrow> attr_frame s s' \<Longrightarrow> Q (rc, s')"
  shows "post Q (fskit_run_user_trunc V path fent sz d s)"
  unfolding fskit_run_user_trunc_def by (insert assms(1)) (assumption | rule vc wp Q)+

lemma wp_do_create:
  assumes I: "rinv L R s" and Q: "\<And>rc s'. rinv L R s' \<Longrightarrow> Q (Inl rc, s')"
    and Q': "\<And>c d s'. rinv L (add_mset c R) s' \<Longrightarrow> Q (Inr (c, d), s')"
  shows "post Q (fskit_do_create V parent path mode user grp cls s)"
  unfolding fskit_do_create_def
  by (insert I) (assumption | (rule wp_discard_held, assumption, assumption) |
    (rule wp_init, assumption, assumption) |
    rule wp_held bare_init run_user_create_frame vc wp Q Q' post_prod_fun | rule wp_upd_frame |
    (simp add: fskit_entry_set_file_id_def fskit_entry_set_user_data_def; fail))+

text \<open>Handles that enter and leave the handle tables.\<close>

lemma card_refs_new:
  assumes "finite {k. \<exists>y. m k = Some y \<and> P y}" and "m h = None"
  shows "card {k. \<exists>y. (m(h \<mapsto> x)) k = Some y \<and> P y} = card {k. \<exists>y. m k = Some y \<and> P y} + (if P x then 1 else 0)"
proof -
  have "{k. \<exists>y. (m(h \<mapsto> x)) k = Some y \<and> P y} =
      (if P x then insert h {k. \<exists>y. m k = Some y \<and> P y} else {k. \<exists>y. m k = Some y \<and> P y})"
    using assms(2) by auto
  then show ?thesis using assms by (simp del: fun_upd_apply)
qed

lemma card_refs_drop:
  assumes "finite {k. \<exists>y. m k = Some y \<and> P y}" and "m h = Some x"
  shows "card {k. \<exists>y. (m(h := None)) k = Some y \<and> P y} + (if P x then 1 else 0) = card {k. \<exists>y. m k = Some y \<and> P y}"
proof -
  have e: "{k. \<exists>y. (m(h := None)) k = Some y \<and> P y} = {k. \<exists>y. m k = Some y \<and> P y} - {h}" by auto
  show ?thesis
  proof (cases "P x")
    case True
    then have "h \<in> {k. \<exists>y. m k = Some y \<and> P y}" using assms(2) by simp
    from card_Suc_Diff1 [OF assms(1) this] show ?thesis unfolding e using True by simp
  next
    case False
    then show ?thesis unfolding e using assms(2) by simp
  qed
qed

lemma inv_fhs_finite: "rinv L R s \<Longrightarrow> finite {k. \<exists>y. fhs s k = Some y \<and> P y}"
  by (rule finite_subset [of _ "{..<hbrk s}"]) (force simp: rinv_def not_less [symmetric])+

lemma inv_dhs_finite: "rinv L R s \<Longrightarrow> finite {k. \<exists>y. dhs s k = Some y \<and> P y}"
  by (rule finite_subset [of _ "{..<hbrk s}"]) (force simp: rinv_def not_less [symmetric])+

text \<open>Two states with the same inodes and the same demand for open references.\<close>

lemma inv_handles:
  assumes I: "rinv L R s" and h: "heap s' = heap s" "brk s' = brk s"
    and new: "\<And>k. hbrk s' \<le> k \<Longrightarrow> fhs s' k = None \<and> dhs s' k = None"
    and d: "\<And>b. odem R' s' b = odem R s b"
  shows "rinv L R' s'"
proof -
  have "lnk s' b = lnk s b" for b by (simp add: lnk_def h)
  then have "ldem L s' b = ldem L s b" for b by (simp add: ldem_def)
  then have "refs_ok L R' s' b" for b
    using inv_refs [OF I, of b] d by (simp add: refs_ok_def h split: option.splits)
  then show ?thesis using I new by (simp add: rinv_def h)
qed

lemma inv_new_fh:
  assumes I: "rinv L (add_mset a R) s" and x: "fh_fent x = Some a"
  shows "rinv L R (s\<lparr>fhs := (fhs s)(hbrk s \<mapsto> x), hbrk := hbrk s + 1\<rparr>)"
proof (rule inv_handles [OF I])
  have n: "fhs s (hbrk s) = None" using I by (simp add: rinv_def)
  show "odem R (s\<lparr>fhs := (fhs s)(hbrk s \<mapsto> x), hbrk := hbrk s + 1\<rparr>) b = odem (add_mset a R) s b" for b
    using card_refs_new [OF inv_fhs_finite [OF I] n, where P = "\<lambda>y. fh_fent y = Some b" and x = x] x
    by (simp add: odem_def fh_refs_def dh_refs_def del: fun_upd_apply)
qed (use I in \<open>auto simp: rinv_def\<close>)

lemma inv_new_dh:
  assumes I: "rinv L (add_mset a R) s" and x: "dh_dent x = Some a"
  shows "rinv L R (s\<lparr>dhs := (dhs s)(hbrk s \<mapsto> x), hbrk := hbrk s + 1\<rparr>)"
proof (rule inv_handles [OF I])
  have n: "dhs s (hbrk s) = None" using I by (simp add: rinv_def)
  show "odem R (s\<lparr>dhs := (dhs s)(hbrk s \<mapsto> x), hbrk := hbrk s + 1\<rparr>) b = odem (add_mset a R) s b" for b
    using card_refs_new [OF inv_dhs_finite [OF I] n, where P = "\<lambda>y. dh_dent y = Some b" and x = x] x
    by (simp add: odem_def fh_refs_def dh_refs_def del: fun_upd_apply)
qed (use I in \<open>auto simp: rinv_def\<close>)

lemma inv_drop_fh:
  assumes I: "rinv L R s" and h: "fhs s h = Some x" and x: "fh_fent x = Some a"
  shows "rinv L (add_mset a R) (s\<lparr>fhs := (fhs s)(h := None)\<rparr>)"
proof (rule inv_handles [OF I])
  show "odem (add_mset a R) (s\<lparr>fhs := (fhs s)(h := None)\<rparr>) b = odem R s b" for b
    using card_refs_drop [OF inv_fhs_finite [OF I] h, where P = "\<lambda>y. fh_fent y = Some b"] x
    by (simp add: odem_def fh_refs_def dh_refs_def del: fun_upd_apply split: if_splits)
qed (use I in \<open>auto simp: rinv_def\<close>)

lemma inv_drop_dh:
  assumes I: "rinv L R s" and h: "dhs s h = Some x" and x: "dh_dent x = Some a"
  shows "rinv L (add_mset a R) (s\<lparr>dhs := (dhs s)(h := None)\<rparr>)"
proof (rule inv_handles [OF I])
  show "odem (add_mset a R) (s\<lparr>dhs := (dhs s)(h := None)\<rparr>) b = odem R s b" for b
    using card_refs_drop [OF inv_dhs_finite [OF I] h, where P = "\<lambda>y. dh_dent y = Some b"] x
    by (simp add: odem_def fh_refs_def dh_refs_def del: fun_upd_apply split: if_splits)
qed (use I in \<open>auto simp: rinv_def\<close>)

lemma wp_file_handle_create:
  assumes I: "rinv L (add_mset a R) s" and Q: "\<And>h s'. rinv L R s' \<Longrightarrow> Q (h, s')"
  shows "post Q (fskit_file_handle_create V a path flags d s)"
  unfolding fskit_file_handle_create_def
  by (rule vc Q inv_new_fh [OF I] inv_mono [OF I] | (simp; fail))+

lemma wp_dir_handle_create:
  assumes I: "rinv L (add_mset a R) s" and Q: "\<And>h s'. rinv L R s' \<Longrightarrow> Q (Some h, s')"
    and N: "Q (None, s)"
  shows "post Q (fskit_dir_handle_create V a path d s)"
  unfolding fskit_dir_handle_create_def
  by (rule vc Q N inv_new_dh [OF I] | (simp; fail))+

lemma wp_do_open:
  assumes I: "rinv L R s" and Q: "\<And>rc s'. rinv L R s' \<Longrightarrow> Q (Inl rc, s')"
    and Q': "\<And>d s'. rinv L (add_mset c R) s' \<Longrightarrow> Q (Inr d, s')"
  shows "post Q (fskit_do_open V path c flags user grp s)"
  unfolding fskit_do_open_def
  by (insert I) (assumption | rule vc wp Q Q')+

lemma wp_open_child:
  assumes I: "rinv L R s" and Q: "\<And>rc s'. rinv L R s' \<Longrightarrow> Q (Inl rc, s')"
    and Q1: "\<And>c d s'. rinv L (add_mset c R) s' \<Longrightarrow> Q (Inr (c, True, d), s')"
    and Q2: "\<And>c d s'. rinv L R s' \<Longrightarrow> Q (Inr (c, False, d), s')"
  shows "post Q (open_child V path name parent p flags mode user grp cls s)"
  unfolding open_child_def
  by (insert I) (assumption | simp only: sum.case fst_conv snd_conv | rule wp_do_create vc wp Q Q1 Q2)+

text \<open>Whatever the outcome, an unused reference may be forgotten: the counts are upper bounds.\<close>

lemma inv_forget: "rinv L (add_mset a R) s \<Longrightarrow> rinv L R s"
  by (erule inv_mono) simp_all

lemma wp_open_tail:
  assumes I: "rinv L (add_mset a R) s" and Q: "\<And>r s'. rinv L R s' \<Longrightarrow> Q (r, s')"
  shows "post Q (do {
           s \<leftarrow> upd a (\<lambda>e. fst (fskit_entry_set_atime V None e)) s;
           (h, s) \<leftarrow> fskit_file_handle_create V a path flags d s;
           (case h of None \<Rightarrow> Some (Inl (- ENOMEM), s) | Some fh \<Rightarrow> Some (Inr fh, s))
         })"
proof -
  have f: "children (fst (fskit_entry_set_atime V None e)) = children e \<and>
      link_count (fst (fskit_entry_set_atime V None e)) = link_count e \<and>
      open_count (fst (fskit_entry_set_atime V None e)) = open_count e" for e
    by (auto simp: fskit_entry_set_atime_def split: option.split)
  show ?thesis
    by (insert I) (assumption | rule f wp_upd_frame wp_file_handle_create vc Q)+
qed

lemma wp_open [wp]:
  assumes I: "rinv L R s" and Q: "\<And>r s'. rinv L R s' \<Longrightarrow> Q (r, s')"
  shows "post Q (fskit_open V path user grp flags mode s)"
  unfolding fskit_open_def fskit_open_ex_def
  by (insert I) (assumption | simp only: sum.case fst_conv snd_conv not_True_eq_False not_False_eq_True if_True if_False |
    rule wp_open_tail wp_open_child wp_do_open vc wp Q | (rule inv_forget, assumption))+

text \<open>
  Closing gives up the reference before it frees the handle; in between the inode may be destroyed,
  so the invariant is established for the state without the handle.
\<close>

lemma close_file_tail:
  assumes I: "rinv L R s" and h: "fhs s h = Some x" "fh_fent x = Some a"
    and u: "upd a (\<lambda>e. e\<lparr>open_count := open_count e - 1\<rparr>) s = Some s1"
    and t: "fskit_entry_try_destroy_and_free V path None a s1 = Some (rc, s2)"
  shows "0 \<le> rc \<and> fhs s2 = fhs s \<and> rinv L R (s2\<lparr>fhs := (fhs s)(h := None)\<rparr>)"
proof -
  obtain e where e: "heap s a = Some e" "s1 = s\<lparr>heap := (heap s)(a \<mapsto> e\<lparr>open_count := open_count e - 1\<rparr>)\<rparr>"
    using u by (auto simp: upd_Some)
  have J: "rinv L R (s1\<lparr>fhs := (fhs s)(h := None)\<rparr>)"
    by (rule inv_unref [OF inv_drop_fh [OF I h]]) (simp add: upd_Some e)
  show ?thesis using t
  proof (cases rule: try_destroy_and_free_cases)
    case (kept e)
    then show ?thesis using J e by simp
  next
    case (freed e t)
    let ?t = "s1\<lparr>fhs := (fhs s)(h := None)\<rparr>"
    have K: "rinv L R (?t\<lparr>heap := (heap ?t)(a := None), trace := t\<rparr>)"
      using inv_freed [OF J, of a e] freed e by simp
    have E: "?t\<lparr>heap := (heap ?t)(a := None), trace := t\<rparr> = s2\<lparr>fhs := (fhs s)(h := None)\<rparr>"
      using freed e by (intro fs.equality) simp_all
    show ?thesis using K freed e unfolding E by simp
  qed
qed

lemma close_dir_tail:
  assumes I: "rinv L R s" and h: "dhs s h = Some x" "dh_dent x = Some a"
    and u: "upd a (\<lambda>e. e\<lparr>open_count := open_count e - 1\<rparr>) s = Some s1"
    and t: "fskit_entry_try_destroy_and_free V path None a s1 = Some (rc, s2)"
  shows "0 \<le> rc \<and> dhs s2 = dhs s \<and> rinv L R (s2\<lparr>dhs := (dhs s)(h := None)\<rparr>)"
proof -
  obtain e where e: "heap s a = Some e" "s1 = s\<lparr>heap := (heap s)(a \<mapsto> e\<lparr>open_count := open_count e - 1\<rparr>)\<rparr>"
    using u by (auto simp: upd_Some)
  have J: "rinv L R (s1\<lparr>dhs := (dhs s)(h := None)\<rparr>)"
    by (rule inv_unref [OF inv_drop_dh [OF I h]]) (simp add: upd_Some e)
  show ?thesis using t
  proof (cases rule: try_destroy_and_free_cases)
    case (kept e)
    then show ?thesis using J e by simp
  next
    case (freed e t)
    let ?t = "s1\<lparr>dhs := (dhs s)(h := None)\<rparr>"
    have K: "rinv L R (?t\<lparr>heap := (heap ?t)(a := None), trace := t\<rparr>)"
      using inv_freed [OF J, of a e] freed e by simp
    have E: "?t\<lparr>heap := (heap ?t)(a := None), trace := t\<rparr> = s2\<lparr>dhs := (dhs s)(h := None)\<rparr>"
      using freed e by (intro fs.equality) simp_all
    show ?thesis using K freed e unfolding E by simp
  qed
qed

lemma inv_close:
  assumes I: "rinv L R s" and C: "fskit_close V h s = Some (rc, s')"
  shows "rinv L R s'"
proof -
  obtain fh where fh: "fhs s h = Some fh" using C by (auto simp: fskit_close_def bind_eq_Some)
  show ?thesis
  proof (cases "fh_fent fh")
    case None
    then show ?thesis using C fh I by (auto simp: fskit_close_def)
  next
    case (Some a)
    obtain rc0 s0 where c: "fskit_run_user_close V (fh_path fh) a (fh_app_data fh) s = Some (rc0, s0)"
      using C fh Some by (auto simp: fskit_close_def bind_eq_Some)
    have "rinv L R s0 \<and> attr_frame s s0"
      using postD [OF wp_run_user_close [OF I, where Q = "\<lambda>(rc, s'). rinv L R s' \<and> attr_frame s s'"] c] by simp
    then have I0: "rinv L R s0" and h0: "fhs s0 h = Some fh" using fh by (simp_all add: attr_frame_def)
    show ?thesis
    proof (cases "rc0 = 0 \<and> fskit_entry_lock a s0 = Some 0")
      case True
      then obtain s1 rc2 s2 where u: "upd a (\<lambda>e. e\<lparr>open_count := open_count e - 1\<rparr>) s0 = Some s1"
        and t: "fskit_entry_try_destroy_and_free V (fh_path fh) None a s1 = Some (rc2, s2)"
        using C fh Some c by (auto simp: fskit_close_def bind_eq_Some)
      note T = close_file_tail [OF I0 h0 Some u t]
      then have "s' = s2\<lparr>fhs := (fhs s0)(h := None)\<rparr>"
        using C fh Some c True u t h0
        by (auto simp: fskit_close_def bind_eq_Some fskit_file_handle_destroy_def split: if_splits)
      then show ?thesis using T by simp
    next
      case False
      then have "s' = s0" using C fh Some c by (auto simp: fskit_close_def bind_eq_Some split: if_splits)
      then show ?thesis using I0 by simp
    qed
  qed
qed

lemma inv_closedir:
  assumes I: "rinv L R s" and C: "fskit_closedir V h s = Some (rc, s')"
  shows "rinv L R s'"
proof -
  obtain dh where dh: "dhs s h = Some dh" using C by (auto simp: fskit_closedir_def bind_eq_Some)
  show ?thesis
  proof (cases "dh_dent dh")
    case None
    then show ?thesis using C dh I by (auto simp: fskit_closedir_def)
  next
    case (Some a)
    obtain rc0 s0 where c: "fskit_run_user_close V (dh_path dh) a (dh_app_data dh) s = Some (rc0, s0)"
      using C dh Some by (auto simp: fskit_closedir_def bind_eq_Some)
    have "rinv L R s0 \<and> attr_frame s s0"
      using postD [OF wp_run_user_close [OF I, where Q = "\<lambda>(rc, s'). rinv L R s' \<and> attr_frame s s'"] c] by simp
    then have I0: "rinv L R s0" and h0: "dhs s0 h = Some dh" using dh by (simp_all add: attr_frame_def)
    show ?thesis
    proof (cases "rc0 = 0 \<and> fskit_entry_lock a s0 = Some 0")
      case True
      then obtain s1 rc2 s2 where u: "upd a (\<lambda>e. e\<lparr>open_count := open_count e - 1\<rparr>) s0 = Some s1"
        and t: "fskit_entry_try_destroy_and_free V (dh_path dh) None a s1 = Some (rc2, s2)"
        using C dh Some c by (auto simp: fskit_closedir_def bind_eq_Some)
      note T = close_dir_tail [OF I0 h0 Some u t]
      then have "s' = s2\<lparr>dhs := (dhs s0)(h := None)\<rparr>"
        using C dh Some c True u t h0
        by (auto simp: fskit_closedir_def bind_eq_Some fskit_dir_handle_destroy_def split: if_splits)
      then show ?thesis using T by simp
    next
      case False
      then have "s' = s0" using C dh Some c by (auto simp: fskit_closedir_def bind_eq_Some split: if_splits)
      then show ?thesis using I0 by simp
    qed
  qed
qed

lemma wp_opendir [wp]:
  assumes I: "rinv L R s" and Q: "\<And>r s'. rinv L R s' \<Longrightarrow> Q (r, s')"
  shows "post Q (fskit_opendir V path user grp s)"
  unfolding fskit_opendir_def
  by (insert I) (assumption | simp only: option.case | rule wp_dir_handle_create vc wp Q)+

lemma inv_open: "rinv L R s \<Longrightarrow> fskit_open V path user grp flags mode s = Some (r, s') \<Longrightarrow> rinv L R s'"
  using postD [OF wp_open [where Q = "\<lambda>(rc, s'). rinv L R s'"]] by auto

lemma inv_opendir: "rinv L R s \<Longrightarrow> fskit_opendir V path user grp s = Some (r, s') \<Longrightarrow> rinv L R s'"
  using postD [OF wp_opendir [where Q = "\<lambda>(rc, s'). rinv L R s'"]] by auto

subsection \<open>What opening and closing do\<close>

text \<open>A close that succeeds takes the handle away, drops its reference, and frees the inode with the last one.\<close>

lemma close_effect:
  assumes C: "fskit_close V h s = Some (0, s')" and h: "fhs s h = Some fh" "fh_fent fh = Some a" and e: "heap s a = Some e"
  shows "fhs s' h = None \<and>
    (if link_count e = 0 \<and> open_count e = 1 then heap s' a = None
     else \<exists>e'. heap s' a = Some e' \<and> open_count e' = open_count e - 1 \<and> link_count e' = link_count e)"
proof -
  obtain s0 where c: "fskit_run_user_close V (fh_path fh) a (fh_app_data fh) s = Some (0, s0)"
    and l: "fskit_entry_lock a s0 = Some 0"
    using C h by (auto simp: fskit_close_def bind_eq_Some split: if_splits)
  obtain rc0 cb da where "fskit_route_call_close V (fh_path fh) (Some a) (fskit_route_close_args (fh_app_data fh)) s = Some (rc0, cb, da, s0)"
    using c by (auto simp: fskit_run_user_close_def bind_eq_Some split: if_splits)
  then have fr: "attr_frame s s0" using route_call_frame by (auto simp: fskit_route_call_close_def)
  then obtain e0 where e0: "heap s0 a = Some e0" "attr_norm e0 = attr_norm e" by (rule attr_frame_Some [OF _ e])
  note cnt = attr_normD [OF e0(2)]
  let ?s1 = "s0\<lparr>heap := (heap s0)(a \<mapsto> e0\<lparr>open_count := open_count e0 - 1\<rparr>)\<rparr>"
  obtain rc s2 where t: "fskit_entry_try_destroy_and_free V (fh_path fh) None a ?s1 = Some (rc, s2)" "\<not> rc < 0"
      and s': "s' = s2\<lparr>fhs := (fhs s2)(h := None)\<rparr>"
    using C h c l e0(1)
    by (auto simp: fskit_close_def bind_eq_Some upd_simp fskit_file_handle_destroy_def split: if_splits option.splits)
  show ?thesis using t(1)
  proof (cases rule: try_destroy_and_free_cases)
    case (kept e1)
    then show ?thesis using cnt by (auto simp: s')
  next
    case (freed e1 t)
    then show ?thesis using cnt by (auto simp: s')
  qed
qed

text \<open>
  An open of an existing file, without truncation, that succeeds went through the parent, found the
  file, passed the permission checks, and took one reference for the new handle.
\<close>

lemma open_existing:
  assumes O: "fskit_open V path user grp flags mode s = Some (Inr h, s')"
    and fl: "\<not> has_flag flags O_CREAT" "\<not> has_flag flags O_TRUNC"
  shows "\<exists>d parent p child c c'. fskit_dirname (fskit_sanitize_path path) = Some d \<and>
    fskit_entry_resolve_path V d user grp s = Some (Inr parent) \<and> heap s parent = Some p \<and>
    fskit_do_parent_check p flags user grp = 0 \<and>
    fskit_entry_set_find_name (children p) (fskit_basename (fskit_sanitize_path path)) = Some child \<and>
    heap s child = Some c \<and> do_open_check c flags user grp = 0 \<and> h = hbrk s \<and>
    heap s' child = Some c' \<and> open_count c' = open_count c + 1 \<and> link_count c' = link_count c \<and>
    (\<exists>fh. fhs s' h = Some fh \<and> (\<forall>k. k \<noteq> h \<longrightarrow> fhs s' k = fhs s k) \<and> fh_fent fh = Some child \<and> fh_path fh = fskit_sanitize_path path \<and>
       fh_flags fh = flags)"
proof -
  let ?path = "fskit_sanitize_path path"
  note O' = O [unfolded fskit_open_def fskit_open_ex_def Let_def]
  have pre: "fskit_check_flags flags = 0" "mem_ok V ''fskit_open_ex''"
      "\<not> fskit_basename_len ?path > FSKIT_FILESYSTEM_NAMEMAX"
    using O' by (simp_all split: if_splits)
  obtain d where d: "fskit_dirname ?path = Some d" using O' pre by (cases "fskit_dirname ?path") simp_all
  have nb: "name_buf ?path = Some (fskit_basename ?path)"
    using O' pre d by (cases "name_buf ?path") (auto simp: name_buf_def fskit_basename_into_def split: if_splits)
  obtain parent where r: "fskit_entry_resolve_path V d user grp s = Some (Inr parent)"
    using O' pre d nb
    by (cases "fskit_entry_resolve_path V d user grp s"; cases "the (fskit_entry_resolve_path V d user grp s)") simp_all
  obtain p where p: "heap s parent = Some p" using O' pre d nb r by (cases "heap s parent") simp_all
  have pc: "fskit_do_parent_check p flags user grp = 0" using O' pre d nb r p by (simp split: if_splits)
  obtain child where f: "fskit_entry_set_find_name (children p) (fskit_basename ?path) = Some child"
    using O' pre d nb r p pc fl
    by (cases "fskit_entry_set_find_name (children p) (fskit_basename ?path)") (simp_all add: open_child_def)
  obtain hd0 s1 where o: "fskit_do_open V ?path child flags user grp s = Some (Inr hd0, s1)"
    using O' pre d nb r p pc f fl
    by (cases "fskit_do_open V ?path child flags user grp s";
        cases "fst (the (fskit_do_open V ?path child flags user grp s))") (auto simp: open_child_def)
  obtain s2 where u: "upd child (\<lambda>e. fst (fskit_entry_set_atime V None e)) s1 = Some s2"
      and fh: "fskit_file_handle_create V child ?path flags hd0 s2 = Some (Some h, s')"
    using O' pre d nb r p pc f fl o by (auto simp: open_child_def bind_eq_Some split: option.split_asm)
  obtain c where c: "heap s child = Some c" "do_open_check c flags user grp = 0"
    using o by (auto simp: fskit_do_open_def bind_eq_Some Let_def split: if_splits)
  let ?s1 = "s\<lparr>heap := (heap s)(child \<mapsto> c\<lparr>open_count := open_count c + 1\<rparr>)\<rparr>"
  have "fskit_run_user_open V ?path child flags ?s1 = Some (0, hd0, s1)"
    using o c by (auto simp: fskit_do_open_def bind_eq_Some fskit_entry_ref_entry_def upd_simp split: if_splits)
  then have fr: "attr_frame ?s1 s1"
    by (auto simp: fskit_run_user_open_def fskit_route_call_open_def bind_eq_Some split: if_splits dest: route_call_frame)
  obtain c1 where c1: "heap s1 child = Some c1" "attr_norm c1 = attr_norm (c\<lparr>open_count := open_count c + 1\<rparr>)"
    using attr_frame_Some [OF fr, of child] by auto
  have s2: "s2 = s1\<lparr>heap := (heap s1)(child \<mapsto> fst (fskit_entry_set_atime V None c1))\<rparr>"
    using u c1 by (simp add: upd_simp)
  have at: "open_count (fst (fskit_entry_set_atime V None c1)) = open_count c1 \<and>
      link_count (fst (fskit_entry_set_atime V None c1)) = link_count c1"
    by (auto simp: fskit_entry_set_atime_def split: option.splits)
  have tabs: "fhs s1 = fhs s" "hbrk s1 = hbrk s" using fr by (simp_all add: attr_frame_def)
  show ?thesis
    using d r p pc f c fh s2 c1(1) attr_normD [OF c1(2)] at tabs
    by (auto simp: fskit_file_handle_create_def split: if_splits)
qed

end
