(* ===== verification/Links.thy ===== *)
theory Links
  imports Handles
begin

text \<open>
  Names made and removed (\<open>libfskit/unlink.c\<close>, \<open>rmdir.c\<close>, \<open>link.c\<close>, \<open>symlink.c\<close>, \<open>readlink.c\<close>).

  \<open>fskit_unlink\<close> and \<open>fskit_rmdir\<close> unlock the parent even when it could not be resolved: then it is
  NULL and the process dies, which is the outcome \<open>None\<close>.
\<close>

subsection \<open>unlink and rmdir\<close>

definition fskit_unlink :: "env \<Rightarrow> string \<Rightarrow> u64 \<Rightarrow> u64 \<Rightarrow> fs \<Rightarrow> (int \<times> fs) option" where
  "fskit_unlink V path own grp s =
     do {
       path_dirname \<leftarrow> fskit_dirname path;
       let path_basename = fskit_basename path in
       if length path_basename > FSKIT_FILESYSTEM_NAMEMAX then Some (- ENAMETOOLONG, s)
       else do {
         r \<leftarrow> fskit_entry_resolve_path V path_dirname own grp s;
         (case r of
            Inl err \<Rightarrow> do { _ \<leftarrow> fskit_entry_unlock None s; Some (err, s) }
          | Inr parent \<Rightarrow>
              do {
                p \<leftarrow> heap s parent;
                if etype p \<noteq> T_DIR then Some (- ENOTDIR, s)
                else
                  (case fskit_entry_set_find_name (children p) path_basename of
                     None \<Rightarrow> Some (- ENOENT, s)
                   | Some fent \<Rightarrow>
                       do {
                         (rc, s) \<leftarrow> fskit_entry_detach_lowlevel V parent path_basename s;
                         if rc \<noteq> 0 \<and> rc \<noteq> - ENOENT then Some (rc, s)
                         else do {
                           (_, s) \<leftarrow> fskit_run_user_detach V path (Some parent) fent s;
                           _ \<leftarrow> fskit_entry_lock fent s;
                           (rc, s) \<leftarrow> fskit_entry_try_destroy_and_free V path (Some parent) fent s;
                           if rc > 0 then Some (0, s)
                           else do { _ \<leftarrow> fskit_entry_unlock (Some fent) s; Some (rc, s) }
                         }
                       })
              })
       }
     }"

definition fskit_rmdir :: "env \<Rightarrow> string \<Rightarrow> u64 \<Rightarrow> u64 \<Rightarrow> fs \<Rightarrow> (int \<times> fs) option" where
  "fskit_rmdir V path0 user grp s =
     (if length path0 \<ge> PATH_MAX then Some (- ENAMETOOLONG, s)
      else if fskit_basename_len path0 > FSKIT_FILESYSTEM_NAMEMAX then Some (- ENAMETOOLONG, s)
      else
        let path = fskit_sanitize_path path0 in
        do {
          path_dirname \<leftarrow> fskit_dirname path;
          let path_basename = fskit_basename path in
          do {
            r \<leftarrow> fskit_entry_resolve_path V path_dirname user grp s;
            (case r of
               Inl rc \<Rightarrow> do { _ \<leftarrow> fskit_entry_unlock None s; Some (rc, s) }
             | Inr parent \<Rightarrow>
                 do {
                   p \<leftarrow> heap s parent;
                   if etype p \<noteq> T_DIR then Some (- ENOTDIR, s)
                   else
                     (case fskit_entry_set_find_name (children p) path_basename of
                        None \<Rightarrow> Some (- ENOENT, s)
                      | Some dent \<Rightarrow>
                          do {
                            _ \<leftarrow> fskit_entry_lock dent s;
                            d \<leftarrow> heap s dent;
                            if etype d \<noteq> T_DIR then Some (- ENOTDIR, s)
                            else if fskit_entry_set_count (children d) > 2 then Some (- ENOTEMPTY, s)
                            else do {
                              (rc, s) \<leftarrow> fskit_entry_detach_lowlevel V parent path_basename s;
                              if rc \<noteq> 0 then Some (rc, s)
                              else do {
                                (rc, s) \<leftarrow> fskit_entry_try_destroy_and_free V path (Some parent) dent s;
                                if rc > 0 then Some (0, s)
                                else do { _ \<leftarrow> fskit_entry_unlock (Some dent) s; Some (rc, s) }
                              }
                            }
                          })
                 })
          }
        })"

subsection \<open>link\<close>

definition fskit_run_user_link :: "env \<Rightarrow> string \<Rightarrow> string \<Rightarrow> addr \<Rightarrow> addr \<Rightarrow> fs \<Rightarrow> (int \<times> fs) option" where
  "fskit_run_user_link V path new_path new_parent fent s =
     do {
       name \<leftarrow> name_buf path;
       (rc, cbrc, da, s) \<leftarrow> fskit_route_call_link V path (Some fent)
          (fskit_route_link_args name new_path (Some new_parent)) s;
       if rc = - EPERM \<or> rc = - ENOSYS then Some (0, s) else Some (cbrc, s)
     }"

text \<open>The directory name in a cleared buffer of \<open>PATH_MAX + 1\<close> bytes.\<close>

definition dirname_buf :: "string \<Rightarrow> string option" where
  "dirname_buf path = map_option cstr (fskit_dirname_into (replicate (PATH_MAX + 1) NUL) path)"

definition fskit_link :: "env \<Rightarrow> string \<Rightarrow> string \<Rightarrow> u64 \<Rightarrow> u64 \<Rightarrow> fs \<Rightarrow> (int \<times> fs) option" where
  "fskit_link V frm to uid gid s =
     do {
       to_parent \<leftarrow> dirname_buf to;
       to_child \<leftarrow> name_buf to;
       r \<leftarrow> fskit_entry_resolve_path V frm uid gid s;
       (case r of
          Inl err \<Rightarrow> Some (err, s)
        | Inr from_fent \<Rightarrow>
            do {
              f \<leftarrow> heap s from_fent;
              if etype f = T_DIR then Some (- EPERM, s)
              else do {
                r \<leftarrow> fskit_entry_resolve_path V to_parent uid gid s;
                (case r of
                   Inl err \<Rightarrow> Some (err, s)
                 | Inr to_parent_fent \<Rightarrow>
                     do {
                       p \<leftarrow> heap s to_parent_fent;
                       if etype p \<noteq> T_DIR then Some (- ENOTDIR, s)
                       else if \<not> FSKIT_ENTRY_IS_WRITEABLE p uid gid then Some (- EACCES, s)
                       else if fskit_entry_set_find_name (children p) to_child \<noteq> None then Some (- EEXIST, s)
                       else do {
                         (_, s) \<leftarrow> fskit_entry_attach_lowlevel V to_parent_fent from_fent to_child s;
                         s \<leftarrow> fskit_entry_ref_entry from_fent s;
                         (err, s) \<leftarrow> fskit_run_user_link V frm to to_parent_fent from_fent s;
                         s \<leftarrow> (if err \<noteq> 0 then do {
                                  (_, s) \<leftarrow> fskit_entry_detach_lowlevel V to_parent_fent to_child s;
                                  Some s
                                }
                                else Some s);
                         (_, s) \<leftarrow> fskit_entry_unref V frm from_fent s;
                         Some (err, s)
                       }
                     })
              }
            })
     }"

subsection \<open>symlink and readlink\<close>

definition fskit_symlink :: "env \<Rightarrow> string option \<Rightarrow> string \<Rightarrow> u64 \<Rightarrow> u64 \<Rightarrow> fs \<Rightarrow> (int \<times> fs) option" where
  "fskit_symlink V target linkpath user grp s =
     do {
       parent_path \<leftarrow> dirname_buf linkpath;
       child_name \<leftarrow> name_buf linkpath;
       r \<leftarrow> fskit_entry_resolve_path V parent_path user grp s;
       (case r of
          Inl err \<Rightarrow> Some (err, s)
        | Inr parent \<Rightarrow>
            do {
              p \<leftarrow> heap s parent;
              if \<not> FSKIT_ENTRY_IS_WRITEABLE p user grp then Some (- EACCES, s)
              else if etype p \<noteq> T_DIR then Some (- ENOTDIR, s)
              else if fskit_entry_set_find_name (children p) child_name \<noteq> None then Some (- EEXIST, s)
              else if \<not> mem_ok V ''fskit_symlink'' then Some (- ENOMEM, s)
              else
                (case alloc_entry s of
                   (child, s) \<Rightarrow>
                     (let fid = fskit_core_inode_alloc V s child in
                      if fid = 0 then do { s \<leftarrow> free_entry child s; Some (- EIO, s) }
                      else do {
                        c \<leftarrow> heap s child;
                        s \<leftarrow> upd child (\<lambda>c. fst (fskit_entry_init_symlink V fid target c)) s;
                        if snd (fskit_entry_init_symlink V fid target c) \<noteq> 0 then do {
                          s \<leftarrow> fskit_entry_destroy child s;
                          s \<leftarrow> free_entry child s;
                          Some (- EIO, s)
                        }
                        else do {
                          (rc, s) \<leftarrow> fskit_entry_attach_lowlevel V parent child child_name s;
                          if rc \<noteq> 0 then do {
                            s \<leftarrow> fskit_entry_destroy child s;
                            s \<leftarrow> free_entry child s;
                            Some (- EIO, s)
                          }
                          else Some (0, s)
                        }
                      }))
            })
     }"

text \<open>
  The number of bytes that \<open>MIN\<close> picks: \<open>buflen\<close> is cast to a signed number first, and the size is
  truncated to 32 bits. Copying more bytes than the target string has, with its NUL, reads past it.
\<close>

definition readlink_len :: "nat \<Rightarrow> int \<Rightarrow> nat" where
  "readlink_len buflen sz =
     (let n = nat ((sz mod 2 ^ 32 + 1) mod 2 ^ 32) in
      if (if buflen < 2 ^ 63 then int buflen else int buflen - 2 ^ 64) > int n then n else buflen)"

definition fskit_readlink :: "env \<Rightarrow> string \<Rightarrow> u64 \<Rightarrow> u64 \<Rightarrow> nat \<Rightarrow> fs \<Rightarrow> (int + string) option" where
  "fskit_readlink V path user grp buflen s =
     do {
       r \<leftarrow> fskit_entry_resolve_path V path user grp s;
       (case r of
          Inl err \<Rightarrow> Some (Inl err)
        | Inr fent \<Rightarrow>
            do {
              f \<leftarrow> heap s fent;
              if etype f \<noteq> T_LNK then Some (Inl (- EINVAL))
              else
                (case symlink_target f of
                   None \<Rightarrow> Some (Inl (- EIO))
                 | Some target \<Rightarrow>
                     let num_read = readlink_len buflen (fsize f) in
                     if num_read > length target + 1 then None
                     else Some (Inr (take num_read (target @ [NUL]))))
            })
     }"

subsection \<open>The invariant\<close>

lemma wp_run_user_detach [wp]:
  assumes "rinv L R s" and Q: "\<And>rc s'. rinv L R s' \<Longrightarrow> attr_frame s s' \<Longrightarrow> Q (rc, s')"
  shows "post Q (fskit_run_user_detach V path parent fent s)"
  unfolding fskit_run_user_detach_def by (insert assms(1)) (assumption | rule vc wp Q)+

lemma wp_run_user_link [wp]:
  assumes "rinv L R s" and Q: "\<And>rc s'. rinv L R s' \<Longrightarrow> attr_frame s s' \<Longrightarrow> Q (rc, s')"
  shows "post Q (fskit_run_user_link V path new_path new_parent fent s)"
  unfolding fskit_run_user_link_def by (insert assms(1)) (assumption | rule vc wp Q)+

lemma wp_unlink [wp]:
  assumes "rinv L R s" and Q: "\<And>rc s'. rinv L R s' \<Longrightarrow> Q (rc, s')"
  shows "post Q (fskit_unlink V path own grp s)"
  unfolding fskit_unlink_def by (insert assms(1)) (assumption | rule vc wp Q)+

lemma wp_rmdir [wp]:
  assumes "rinv L R s" and Q: "\<And>rc s'. rinv L R s' \<Longrightarrow> Q (rc, s')"
  shows "post Q (fskit_rmdir V path own grp s)"
  unfolding fskit_rmdir_def by (insert assms(1)) (assumption | rule vc wp Q)+

lemma post_dirname_buf: "(\<And>d. dirname_buf path = Some d \<Longrightarrow> Q d) \<Longrightarrow> post Q (dirname_buf path)"
  by (simp add: post_def)

lemma wp_link [wp]:
  assumes "rinv L R s" and Q: "\<And>rc s'. rinv L R s' \<Longrightarrow> Q (rc, s')"
  shows "post Q (fskit_link V frm to uid gid s)"
  unfolding fskit_link_def by (insert assms(1)) (assumption | rule vc wp Q post_dirname_buf)+

text \<open>
  A failed insertion of a symlink: the inode is freed although its link count is 1, which is right
  because the entry was not made.
\<close>

lemma wp_attach_fresh:
  assumes I: "rinv L R s" and F: "fresh a s" and Q0: "\<And>s'. rinv L R s' \<Longrightarrow> Q (0, s')"
    and Q1: "\<And>rc s'. rc \<noteq> 0 \<Longrightarrow> a \<noteq> 0 \<Longrightarrow> heap s' a \<noteq> None \<Longrightarrow>
      rinv L R (s'\<lparr>heap := (heap s')(a := None)\<rparr>) \<Longrightarrow> Q (rc, s')"
    and ne: "parent \<noteq> a"
  shows "post Q (fskit_entry_attach_lowlevel V parent a name s)"
proof (rule postI)
  fix x
  assume A: "fskit_entry_attach_lowlevel V parent a name s = Some x"
  obtain rc s' where x: "x = (rc, s')" by (cases x)
  obtain c where c: "heap s a = Some c" "link_count c = 0" "open_count c = 0" "a \<noteq> 0"
    using F by (auto simp: fresh_def bare_def)
  obtain p where p: "heap s parent = Some p"
    using A ne by (auto simp: fskit_entry_attach_lowlevel_def bind_eq_Some upd_Some)
  note E = attach_effect [OF ne p c(1), of V name]
  show "Q x"
  proof (cases "rc = 0")
    case True
    then show ?thesis using Q0 inv_attach [OF I] A x by simp
  next
    case False
    then have "fst (fskit_entry_set_insert V (children p) name a) = children p"
      using A x E by (auto simp: fskit_entry_set_insert_def split: if_splits)
    then have k: "children (attach_parent V a name p) = children p" by (simp add: attach_parent_def)
    let ?t = "s\<lparr>heap := (heap s)(a := None)\<rparr>"
    have "rinv L R ?t" by (rule inv_freed [OF I c])
    then have J: "rinv L R (?t\<lparr>heap := (heap ?t)(parent \<mapsto> attach_parent V a name p)\<rparr>)"
      by (rule inv_update [of _ _ _ parent p]) (use p ne k in \<open>simp_all add: links_of_def attach_parent_def\<close>)
    have s': "s' = s\<lparr>heap := (heap s)(a \<mapsto> attach_child V parent c, parent \<mapsto> attach_parent V a name p)\<rparr>"
      using A x E by simp
    have "?t\<lparr>heap := (heap ?t)(parent \<mapsto> attach_parent V a name p)\<rparr> = s'\<lparr>heap := (heap s')(a := None)\<rparr>"
      using ne by (simp add: s' fun_upd_twist)
    then have "rinv L R (s'\<lparr>heap := (heap s')(a := None)\<rparr>)" using J by simp
    moreover have "heap s' a \<noteq> None" using ne by (simp add: s')
    ultimately show ?thesis using Q1 [OF False c(4)] x by simp
  qed
qed

lemma wp_drop:
  assumes "a \<noteq> 0" and "heap s a \<noteq> None" and I: "rinv L R (s\<lparr>heap := (heap s)(a := None)\<rparr>)"
    and Q: "\<And>s'. rinv L R s' \<Longrightarrow> post Q (f s')"
  shows "post Q (do { s1 \<leftarrow> fskit_entry_destroy a s; s2 \<leftarrow> free_entry a s1; f s2 })"
  using assms by (auto simp: fskit_entry_destroy_def upd_simp free_entry_def)

lemma wp_symlink [wp]:
  assumes I: "rinv L R s" and Q: "\<And>rc s'. rinv L R s' \<Longrightarrow> Q (rc, s')"
  shows "post Q (fskit_symlink V target linkpath user grp s)"
  unfolding fskit_symlink_def
  by (insert I) (assumption | (rule wp_drop, assumption, assumption, assumption) |
    (rule wp_init, assumption, assumption) | (rule wp_attach_fresh, assumption, assumption) |
    rule bare_init vc wp Q post_dirname_buf | (auto; fail))+

lemma inv_unlink_op: "rinv L R s \<Longrightarrow> fskit_unlink V path own grp s = Some (rc, s') \<Longrightarrow> rinv L R s'"
  using postD [OF wp_unlink [where Q = "\<lambda>(rc, s'). rinv L R s'"]] by auto

lemma inv_rmdir: "rinv L R s \<Longrightarrow> fskit_rmdir V path own grp s = Some (rc, s') \<Longrightarrow> rinv L R s'"
  using postD [OF wp_rmdir [where Q = "\<lambda>(rc, s'). rinv L R s'"]] by auto

lemma inv_link_op: "rinv L R s \<Longrightarrow> fskit_link V frm to uid gid s = Some (rc, s') \<Longrightarrow> rinv L R s'"
  using postD [OF wp_link [where Q = "\<lambda>(rc, s'). rinv L R s'"]] by auto

lemma inv_symlink: "rinv L R s \<Longrightarrow> fskit_symlink V target path user grp s = Some (rc, s') \<Longrightarrow> rinv L R s'"
  using postD [OF wp_symlink [where Q = "\<lambda>(rc, s'). rinv L R s'"]] by auto

subsection \<open>What unlink does\<close>


text \<open>What removing a name does to the two inodes.\<close>

definition detach_parent :: "env \<Rightarrow> string \<Rightarrow> entry \<Rightarrow> entry" where
  "detach_parent V name p = p\<lparr>children := fst (fskit_entry_set_remove (children p) name),
     mtime := snd (clock V ''fskit_entry_detach_lowlevel''), num_children := num_children p - 1\<rparr>"

definition detach_child :: "entry \<Rightarrow> entry" where
  "detach_child c = c\<lparr>link_count := (if link_count c - 1 < 0 then 0 else link_count c - 1)\<rparr>"

lemma detach_effect:
  assumes "heap s parent = Some p" and "fskit_entry_set_find_name (children p) name = Some a" and "parent \<noteq> a"
    and "heap s a = Some c" and "\<not> (etype c = T_DIR \<and> fskit_entry_get_num_children c > 2)"
    and "snd (fskit_entry_set_remove (children p) name)"
  shows "fskit_entry_detach_lowlevel V parent name s =
    Some (0, s\<lparr>heap := (heap s)(parent \<mapsto> detach_parent V name p, a \<mapsto> detach_child c)\<rparr>)"
  using assms by (auto simp: fskit_entry_detach_lowlevel_def upd_def detach_parent_def detach_child_def)

text \<open>
  \<open>gone a e s s'\<close>: the inode \<open>a\<close> of \<open>s\<close>, which is \<open>e\<close>, is freed in \<open>s'\<close> if nothing references it,
  and otherwise left alone; nothing else changes.
\<close>

definition gone :: "addr \<Rightarrow> entry \<Rightarrow> fs \<Rightarrow> fs \<Rightarrow> bool" where
  "gone a e s s' =
     (if link_count e \<le> 0 \<and> open_count e \<le> 0 then \<exists>t. s' = s\<lparr>heap := (heap s)(a := None), trace := t\<rparr>
      else s' = s)"

lemma try_destroy_total:
  assumes "rinv L R s" and "table_ok (routes s)" and "no_holes (routes s)" and "name_fits path"
    and e: "heap s a = Some e"
  obtains rc s' where "fskit_entry_try_destroy_and_free V path parent a s = Some (rc, s')" and "0 \<le> rc"
    and "gone a e s s'" and "rc = 0 \<longrightarrow> s' = s"
proof -
  obtain rc s' where t: "fskit_entry_try_destroy_and_free V path parent a s = Some (rc, s')"
    using try_destroy_not_None [OF assms] by blast
  then show ?thesis
  proof (cases rule: try_destroy_and_free_cases)
    case (kept f)
    then show ?thesis using e by (intro that [OF t]) (auto simp: gone_def)
  next
    case (freed f t')
    then show ?thesis using e by (intro that [OF t]) (auto simp: gone_def)
  qed
qed

lemma unlink_total:
  assumes I: "rinv {#} {#} s" and T: "table_ok (routes s)" "no_holes (routes s)" and n: "name_fits path"
    and d: "fskit_dirname path = Some d" and r: "fskit_entry_resolve_path V d own grp s = Some (Inr parent)"
    and p: "heap s parent = Some p" "etype p = T_DIR"
    and f: "fskit_entry_set_find_name (children p) (fskit_basename path) = Some a" and ne: "parent \<noteq> a"
    and c: "heap s a = Some c" and k: "etype c = T_DIR \<longrightarrow> fskit_entry_get_num_children c \<le> 2"
    and rm: "snd (fskit_entry_set_remove (children p) (fskit_basename path))"
  shows "\<exists>t s'. fskit_unlink V path own grp s = Some (0, s') \<and>
    gone a (detach_child c)
      (s\<lparr>heap := (heap s)(parent \<mapsto> detach_parent V (fskit_basename path) p, a \<mapsto> detach_child c), trace := t\<rparr>) s'"
proof -
  let ?n = "fskit_basename path"
  let ?s = "s\<lparr>heap := (heap s)(parent \<mapsto> detach_parent V ?n p, a \<mapsto> detach_child c)\<rparr>"
  have D: "fskit_entry_detach_lowlevel V parent ?n s = Some (0, ?s)"
    by (rule detach_effect [OF p(1) f ne c _ rm]) (use k in auto)
  have I1: "rinv {#} {#} ?s" by (rule inv_detach [OF I D])
  obtain rc1 s1 where u: "fskit_run_user_detach V path (Some parent) a ?s = Some (rc1, s1)"
    using run_user_detach_not_None [of ?s path a "detach_child c" V "Some parent"] T n by auto
  obtain t where s1: "s1 = ?s\<lparr>trace := t\<rparr>" using run_user_detach_trace [OF u] by blast
  have a1: "heap s1 a = Some (detach_child c)" by (simp add: s1)
  have "rinv {#} {#} s1" using I1 by (simp add: s1)
  then obtain rc2 s2 where t: "fskit_entry_try_destroy_and_free V path (Some parent) a s1 = Some (rc2, s2)"
    and "0 \<le> rc2" and g: "gone a (detach_child c) s1 s2" and "rc2 = 0 \<longrightarrow> s2 = s1"
    by (rule try_destroy_total [of _ _ _ path a "detach_child c" V "Some parent"]) (use T n a1 in \<open>simp_all add: s1\<close>)
  have len: "\<not> FSKIT_FILESYSTEM_NAMEMAX < length ?n"
    using n by (simp add: name_fits_def fskit_basename_def)
  have "fskit_unlink V path own grp s = Some (0, s2)"
    using p f D u t a1 \<open>0 \<le> rc2\<close> \<open>rc2 = 0 \<longrightarrow> s2 = s1\<close> len
    by (auto simp: fskit_unlink_def d r fskit_entry_lock_def fskit_entry_unlock_def)
  then show ?thesis using g unfolding s1 by blast
qed

subsection \<open>What symlink makes\<close>

definition new_link :: "string \<Rightarrow> addr \<Rightarrow> entry \<Rightarrow> bool" where
  "new_link target a c =
     (etype c = T_LNK \<and> symlink_target c = Some target \<and> fsize c = int (length target))"

lemma init_symlink_new:
  assumes "fskit_entry_init_symlink V fid (Some target) e = (c, 0)"
  shows "new_link target a c"
proof -
  obtain c1 rc where i: "fskit_entry_init_common V T_LNK fid 0 0 511 e = (c1, rc)"
    by (cases "fskit_entry_init_common V T_LNK fid 0 0 511 e")
  have "mem_ok V ''fskit_entry_init_symlink''" "rc = 0"
      "c = c1\<lparr>symlink_target := Some target, fsize := int (length target)\<rparr>"
    using assms i by (auto simp: fskit_entry_init_symlink_def ENOMEM_def split: if_splits)
  then show ?thesis using init_common_fields [of V T_LNK fid 0 0 511 e c1] i by (simp add: new_link_def)
qed

lemma symlink_made:
  assumes I: "rinv L R s" and m: "mem_ok V ''fskit_entry_set_insert''"
    and M: "fskit_symlink V (Some target) path user grp s = Some (0, s')"
  obtains d parent p where "dirname_buf path = Some d"
    and "fskit_entry_resolve_path V d user grp s = Some (Inr parent)"
    and "heap s parent = Some p" and "etype p = T_DIR" and "FSKIT_ENTRY_IS_WRITEABLE p user grp"
    and "fskit_entry_set_find_name (children p) (fskit_basename path) = None"
    and "made parent (fskit_basename path) (new_link target) s s'"
proof -
  obtain d where d: "dirname_buf path = Some d"
    using M by (auto simp: fskit_symlink_def bind_eq_Some)
  obtain nb where nb: "name_buf path = Some nb" using M d by (auto simp: fskit_symlink_def bind_eq_Some)
  have n: "nb = fskit_basename path"
    using nb by (auto simp: name_buf_def fskit_basename_into_def split: if_splits)
  obtain r where r: "fskit_entry_resolve_path V d user grp s = Some r"
    using M d nb by (auto simp: fskit_symlink_def bind_eq_Some)
  obtain parent where P: "r = Inr parent"
    using M d nb r resolve_path_err [of V d user grp s] by (cases r) (force simp: fskit_symlink_def)+
  obtain p where p: "heap s parent = Some p" using M d nb r P by (auto simp: fskit_symlink_def bind_eq_Some)
  obtain a s1 where al: "alloc_entry s = (a, s1)" by (cases "alloc_entry s")
  have z: "heap s1 a = Some zero_entry" "s1 = s\<lparr>heap := (heap s)(a \<mapsto> zero_entry), brk := brk s + 1\<rparr>" "a = brk s"
    using al by (auto simp: alloc_entry_def)
  let ?fid = "fskit_core_inode_alloc V s1 a"
  let ?c = "fst (fskit_entry_init_symlink V ?fid (Some target) zero_entry)"
  let ?s2 = "s1\<lparr>heap := (heap s1)(a \<mapsto> ?c)\<rparr>"
  have w: "FSKIT_ENTRY_IS_WRITEABLE p user grp" "etype p = T_DIR"
      "fskit_entry_set_find_name (children p) nb = None" "snd (fskit_entry_init_symlink V ?fid (Some target) zero_entry) = 0"
    and A0: "\<exists>rc. fskit_entry_attach_lowlevel V parent a nb ?s2 = Some (rc, s')"
    using M d nb r P p al z(1)
    by (auto simp: fskit_symlink_def Let_def upd_simp bind_eq_Some errno_defs split: if_splits)
  have n0: "heap s a = None" using inv_brk [OF I] z(3) by auto
  then have ne: "parent \<noteq> a" using p by auto
  have I1: "rinv L R s1" and F1: "fresh a s1" using inv_alloc [OF I al] z(1) by (auto simp: fresh_def)
  have b: "bare a ?c" by (rule bare_init) simp
  have new: "new_link target a ?c" using w(4) by (intro init_symlink_new) (simp add: prod_eq_iff)
  then have at: "new_link target a (attach_child V parent ?c)" by (simp add: new_link_def attach_child_def)
  obtain rc where A: "fskit_entry_attach_lowlevel V parent a nb ?s2 = Some (rc, s')" using A0 by blast
  have "post (\<lambda>(rc, s'). made parent nb (new_link target) s s') (fskit_entry_attach_lowlevel V parent a nb ?s2)"
    by (rule wp_attach_made [OF inv_bare [OF I1 F1 b] fresh_bare [OF F1 b] _ _ ne m n0, of ?c p])
      (use p ne z at in simp_all)
  then have "made parent nb (new_link target) s s'" using postD [OF _ A] by fastforce
  then show ?thesis using that [OF d r [unfolded P] p w(2) w(1)] w(3) n by simp
qed

text \<open>Reading a link gives its target, with the NUL if the buffer has room for it.\<close>

lemma readlink_target:
  assumes "fskit_entry_resolve_path V path user grp s = Some (Inr a)" and "heap s a = Some e"
    and "new_link target a e" and "length target + 1 < 2 ^ 32" and "n < 2 ^ 63"
  shows "fskit_readlink V path user grp n s = Some (Inr (take n (target @ [NUL])))"
proof -
  have "(int (length target) mod 2 ^ 32 + 1) mod 2 ^ 32 = int (length target) + 1" using assms(4) by simp
  then have r: "readlink_len n (int (length target)) = min n (length target + 1)"
    using assms(5) by (auto simp: readlink_len_def Let_def min_def nat_add_distrib)
  have "take (min n (length target + 1)) (target @ [NUL]) = take n (target @ [NUL])" by (simp add: min_def)
  then show ?thesis using assms(1-3) by (simp add: fskit_readlink_def new_link_def r)
qed

subsection \<open>What rmdir refuses\<close>

lemma rmdir_not_empty:
  assumes "length path < PATH_MAX" and "fskit_basename_len path \<le> FSKIT_FILESYSTEM_NAMEMAX"
    and "fskit_dirname (fskit_sanitize_path path) = Some d"
    and "fskit_entry_resolve_path V d user grp s = Some (Inr parent)"
    and "heap s parent = Some p" and "etype p = T_DIR"
    and "fskit_entry_set_find_name (children p) (fskit_basename (fskit_sanitize_path path)) = Some a"
    and "heap s a = Some c"
  shows "etype c = T_DIR \<Longrightarrow> 2 < fskit_entry_set_count (children c) \<Longrightarrow>
      fskit_rmdir V path user grp s = Some (- ENOTEMPTY, s)"
    and "etype c \<noteq> T_DIR \<Longrightarrow> fskit_rmdir V path user grp s = Some (- ENOTDIR, s)"
  using assms by (auto simp: fskit_rmdir_def Let_def fskit_entry_lock_def)

end
