(* ===== verification/Attrs.thy ===== *)
theory Attrs
  imports Links
begin

text \<open>
  The attributes of an inode: mode (\<open>libfskit/chmod.c\<close>), owner and group (\<open>chown.c\<close>), times
  (\<open>utime.c\<close>), \<open>stat.c\<close>, \<open>access.c\<close> and \<open>statvfs.c\<close>. The operations that change attributes ask the
  application first; the lemmas say who may change what, that nothing else changes, and that
  \<open>access\<close> decides by the permission bits.
\<close>

subsection \<open>Mode, owner and group\<close>

definition fskit_entry_set_mode :: "u32 \<Rightarrow> entry \<Rightarrow> entry" where
  "fskit_entry_set_mode mode e = e\<lparr>emode := mode\<rparr>"

definition fskit_entry_set_owner_and_group :: "u64 \<Rightarrow> u64 \<Rightarrow> entry \<Rightarrow> entry" where
  "fskit_entry_set_owner_and_group new_user new_group e = e\<lparr>owner := new_user, egroup := new_group\<rparr>"

definition fskit_entry_set_owner :: "u64 \<Rightarrow> entry \<Rightarrow> entry" where
  "fskit_entry_set_owner new_user e = e\<lparr>owner := new_user\<rparr>"

definition fskit_entry_set_group :: "u64 \<Rightarrow> entry \<Rightarrow> entry" where
  "fskit_entry_set_group new_group e = e\<lparr>egroup := new_group\<rparr>"

definition fskit_run_user_setmetadata ::
    "env \<Rightarrow> string \<Rightarrow> addr \<Rightarrow> inode_metadata \<Rightarrow> fs \<Rightarrow> (int \<times> fs) option" where
  "fskit_run_user_setmetadata V path fent imd s =
     do {
       (rc, cbrc, da, s) \<leftarrow> fskit_route_call_setmetadata V path (Some fent) (fskit_route_setmetadata_args imd) s;
       if rc = - EPERM \<or> rc = - ENOSYS then Some (0, s)
       else if cbrc \<noteq> 0 then Some (cbrc, s)
       else Some (0, s)
     }"

definition fskit_chmod :: "env \<Rightarrow> string \<Rightarrow> u64 \<Rightarrow> u64 \<Rightarrow> u32 \<Rightarrow> fs \<Rightarrow> (int \<times> fs) option" where
  "fskit_chmod V path user grp mode s =
     (if \<not> mem_ok V ''fskit_inode_metadata_new'' then Some (- ENOMEM, s)
      else do {
        r \<leftarrow> fskit_entry_resolve_path V path user grp s;
        (case r of
           Inl err \<Rightarrow> Some (err, s)
         | Inr fent \<Rightarrow>
             do {
               f \<leftarrow> heap s fent;
               if owner f \<noteq> user then Some (- EPERM, s)
               else do {
                 (err, s) \<leftarrow> fskit_run_user_setmetadata V path fent
                    (fskit_inode_metadata_set_mode mode fskit_inode_metadata_new) s;
                 if err \<noteq> 0 then Some (err, s)
                 else do {
                   s \<leftarrow> upd fent (fskit_entry_set_mode mode) s;
                   Some (err, s)
                 }
               }
             })
      })"

definition fskit_chown ::
    "env \<Rightarrow> string \<Rightarrow> u64 \<Rightarrow> u64 \<Rightarrow> u64 \<Rightarrow> u64 \<Rightarrow> fs \<Rightarrow> (int \<times> fs) option" where
  "fskit_chown V path user grp new_user new_group s =
     (if \<not> mem_ok V ''fskit_inode_metadata_new'' then Some (- ENOMEM, s)
      else do {
        r \<leftarrow> fskit_entry_resolve_path V path user grp s;
        (case r of
           Inl err \<Rightarrow> Some (err, s)
         | Inr fent \<Rightarrow>
             do {
               f \<leftarrow> heap s fent;
               if owner f \<noteq> user then Some (- EPERM, s)
               else do {
                 (err, s) \<leftarrow> fskit_run_user_setmetadata V path fent
                    (fskit_inode_metadata_set_group new_group
                      (fskit_inode_metadata_set_owner new_user fskit_inode_metadata_new)) s;
                 if err \<noteq> 0 then Some (err, s)
                 else do {
                   s \<leftarrow> upd fent (fskit_entry_set_owner_and_group new_user new_group) s;
                   Some (err, s)
                 }
               }
             })
      })"

subsection \<open>Times\<close>

text \<open>
  Nanoseconds are kept in a signed 32-bit field. A time is a pair of seconds and microseconds, and
  \<open>None\<close> is the NULL argument that asks for the current time.
\<close>

definition wrap32 :: "int \<Rightarrow> int" where
  "wrap32 x = (x + 2 ^ 31) mod 2 ^ 32 - 2 ^ 31"

definition fskit_utimes ::
    "env \<Rightarrow> string \<Rightarrow> u64 \<Rightarrow> u64 \<Rightarrow> ((int \<times> int) \<times> (int \<times> int)) option \<Rightarrow> fs \<Rightarrow> (int \<times> fs) option" where
  "fskit_utimes V path user grp utimes s =
     do {
       r \<leftarrow> fskit_entry_resolve_path V path user grp s;
       (case r of
          Inl rc \<Rightarrow> Some (rc, s)
        | Inr fent \<Rightarrow>
            do {
              f \<leftarrow> heap s fent;
              if \<not> FSKIT_ENTRY_IS_WRITEABLE f user grp then Some (- EACCES, s)
              else
                (case (case utimes of
                         None \<Rightarrow>
                           (case clock V ''fskit_utimes'' of
                              (rc, sec, nsec) \<Rightarrow>
                                if rc \<noteq> 0 then None
                                else Some ((sec, nsec div 1000), (sec, nsec div 1000)))
                       | Some (a, m) \<Rightarrow> Some (a, m)) of
                   None \<Rightarrow> Some (- ev_errno V, s)
                 | Some (a, m) \<Rightarrow>
                     do {
                       s \<leftarrow> upd fent (\<lambda>e. e\<lparr>atime := (fst a, wrap32 (snd a * 1000)),
                                             mtime := (fst m, wrap32 (snd m * 1000))\<rparr>) s;
                       Some (0, s)
                     })
            })
     }"

definition fskit_utime :: "env \<Rightarrow> string \<Rightarrow> u64 \<Rightarrow> u64 \<Rightarrow> int \<Rightarrow> int \<Rightarrow> fs \<Rightarrow> (int \<times> fs) option" where
  "fskit_utime V path user grp actime modtime s =
     fskit_utimes V path user grp (Some ((actime, 0), (modtime, 0))) s"

subsection \<open>stat\<close>

definition S_IFDIR :: u32 where "S_IFDIR = 0x4000"
definition S_IFLNK :: u32 where "S_IFLNK = 0xA000"

definition fskit_fullmode :: "ftype \<Rightarrow> u32 \<Rightarrow> u32" where
  "fskit_fullmode fskit_type mode =
     (case fskit_type of
        T_FILE \<Rightarrow> or S_IFREG mode
      | T_DIR \<Rightarrow> or S_IFDIR mode
      | T_FIFO \<Rightarrow> or S_IFIFO mode
      | T_SOCK \<Rightarrow> or S_IFSOCK mode
      | T_BLK \<Rightarrow> or S_IFBLK mode
      | T_CHR \<Rightarrow> or S_IFCHR mode
      | T_LNK \<Rightarrow> or S_IFLNK mode
      | T_DEAD \<Rightarrow> word_of_int (- EINVAL))"

definition fskit_entry_fstat :: "entry \<Rightarrow> stat_buf" where
  "fskit_entry_fstat fent =
     \<lparr>st_ino = file_id fent, st_mode = fskit_fullmode (etype fent) (emode fent), st_nlink = link_count fent,
      st_uid = owner fent, st_gid = egroup fent, st_rdev = dev fent, st_size = fsize fent,
      st_atim = atime fent, st_mtim = mtime fent, st_ctim = ctime fent\<rparr>"

definition fskit_do_user_stat ::
    "env \<Rightarrow> string \<Rightarrow> addr option \<Rightarrow> stat_buf \<Rightarrow> fs \<Rightarrow> (int \<times> stat_buf \<times> fs) option" where
  "fskit_do_user_stat V fs_path fent sb s =
     do {
       name \<leftarrow> name_buf fs_path;
       (rc, cbrc, da, s) \<leftarrow> fskit_route_call_stat V fs_path fent (fskit_route_stat_args name sb True) s;
       if rc = - EPERM \<or> rc = - ENOSYS then Some (0, da_sb da, s) else Some (cbrc, da_sb da, s)
     }"

definition fskit_fstat ::
    "env \<Rightarrow> string \<Rightarrow> addr \<Rightarrow> stat_buf \<Rightarrow> fs \<Rightarrow> (int \<times> stat_buf \<times> fs) option" where
  "fskit_fstat V fs_path fent sb s =
     do {
       _ \<leftarrow> fskit_entry_lock fent s;
       f \<leftarrow> heap s fent;
       fskit_do_user_stat V fs_path (Some fent) (fskit_entry_fstat f) s
     }"

text \<open>\<open>sb\<close> is what the caller's buffer holds before the call.\<close>

definition fskit_stat ::
    "env \<Rightarrow> string \<Rightarrow> u64 \<Rightarrow> u64 \<Rightarrow> stat_buf \<Rightarrow> fs \<Rightarrow> (int \<times> stat_buf \<times> fs) option" where
  "fskit_stat V fs_path user grp sb s =
     (if fskit_basename_len fs_path \<ge> FSKIT_FILESYSTEM_NAMEMAX then Some (- ENAMETOOLONG, sb, s)
      else do {
        (r, s) \<leftarrow> fskit_entry_ref V fs_path s;
        (case r of
           Inl err \<Rightarrow> fskit_do_user_stat V fs_path None sb s
         | Inr fent \<Rightarrow>
             do {
               (rc, sb, s) \<leftarrow> fskit_fstat V fs_path fent sb s;
               (_, s) \<leftarrow> fskit_entry_unref V fs_path fent s;
               Some (rc, sb, s)
             })
      })"

subsection \<open>access and statvfs\<close>

definition R_OK :: nat where "R_OK = 4"
definition W_OK :: nat where "W_OK = 2"
definition X_OK :: nat where "X_OK = 1"

text \<open>The permission macros read a mode, an owner and a group, here those of the stat buffer.\<close>

definition of_stat :: "stat_buf \<Rightarrow> entry" where
  "of_stat sb = zero_entry\<lparr>emode := st_mode sb, owner := st_uid sb, egroup := st_gid sb\<rparr>"

definition fskit_access :: "env \<Rightarrow> string \<Rightarrow> u64 \<Rightarrow> u64 \<Rightarrow> nat \<Rightarrow> fs \<Rightarrow> (int \<times> fs) option" where
  "fskit_access V path user grp mode s =
     do {
       r \<leftarrow> fskit_entry_resolve_path V path user grp s;
       (case r of
          Inl err \<Rightarrow> Some (err, s)
        | Inr fent \<Rightarrow>
            do {
              f \<leftarrow> heap s fent;
              let sb = fskit_entry_fstat f in
              Some (if has_flag mode R_OK \<and> \<not> FSKIT_ENTRY_IS_READABLE (of_stat sb) user grp then - EACCES
                    else if has_flag mode W_OK \<and> \<not> FSKIT_ENTRY_IS_WRITEABLE (of_stat sb) user grp then - EACCES
                    else if has_flag mode X_OK \<and> \<not> FSKIT_ENTRY_IS_DIR_SEARCHABLE (of_stat sb) user grp then - EACCES
                    else 0, s)
            })
     }"

record statvfs_buf =
  f_bsize :: nat
  f_frsize :: nat
  f_blocks :: nat
  f_bfree :: nat
  f_bavail :: nat
  f_files :: nat
  f_ffree :: nat
  f_favail :: nat
  f_fsid :: nat
  f_flag :: nat
  f_namemax :: nat

definition FSKIT_FILESYSTEM_TYPE :: nat where "FSKIT_FILESYSTEM_TYPE = 0x19880119"

definition fskit_fstatvfs :: statvfs_buf where
  "fskit_fstatvfs =
     \<lparr>f_bsize = 0, f_frsize = 0, f_blocks = 0, f_bfree = 0, f_bavail = 0, f_files = 0, f_ffree = 0,
      f_favail = 0, f_fsid = FSKIT_FILESYSTEM_TYPE, f_flag = 0, f_namemax = FSKIT_FILESYSTEM_NAMEMAX\<rparr>"

definition fskit_statvfs :: "env \<Rightarrow> string \<Rightarrow> u64 \<Rightarrow> u64 \<Rightarrow> fs \<Rightarrow> (int + statvfs_buf) option" where
  "fskit_statvfs V fs_path user grp s =
     do {
       r \<leftarrow> fskit_entry_resolve_path V fs_path user grp s;
       (case r of
          Inl err \<Rightarrow> Some (Inl err)
        | Inr fent \<Rightarrow> do { _ \<leftarrow> heap s fent; Some (Inr fskit_fstatvfs) })
     }"

subsection \<open>The invariant\<close>

lemma setmetadata_trace:
  "fskit_run_user_setmetadata V path fent imd s = Some (rc, s') \<Longrightarrow> \<exists>t. s' = s\<lparr>trace := t\<rparr>"
  unfolding fskit_run_user_setmetadata_def fskit_route_call_setmetadata_def
  by (auto simp: bind_eq_Some split: if_splits dest!: route_call_no_cont)

lemma user_stat_trace:
  "fskit_do_user_stat V path fent sb s = Some (rc, sb', s') \<Longrightarrow> \<exists>t. s' = s\<lparr>trace := t\<rparr>"
  unfolding fskit_do_user_stat_def fskit_route_call_stat_def
  by (auto simp: bind_eq_Some split: if_splits dest!: route_call_no_cont)

lemma wp_setmetadata [wp]:
  assumes "rinv L R s" and Q: "\<And>rc s'. rinv L R s' \<Longrightarrow> attr_frame s s' \<Longrightarrow> Q (rc, s')"
  shows "post Q (fskit_run_user_setmetadata V path fent imd s)"
  unfolding fskit_run_user_setmetadata_def by (insert assms(1)) (assumption | rule vc wp Q)+

lemma wp_chmod [wp]:
  assumes "rinv L R s" and Q: "\<And>rc s'. rinv L R s' \<Longrightarrow> Q (rc, s')"
  shows "post Q (fskit_chmod V path user grp mode s)"
  unfolding fskit_chmod_def
  by (insert assms(1)) (assumption | rule vc wp Q | rule wp_upd_frame | (simp add: fskit_entry_set_mode_def; fail))+

lemma wp_chown [wp]:
  assumes "rinv L R s" and Q: "\<And>rc s'. rinv L R s' \<Longrightarrow> Q (rc, s')"
  shows "post Q (fskit_chown V path user grp u g s)"
  unfolding fskit_chown_def
  by (insert assms(1)) (assumption | rule vc wp Q | rule wp_upd_frame |
    (simp add: fskit_entry_set_owner_and_group_def; fail))+

lemma wp_utimes [wp]:
  assumes "rinv L R s" and Q: "\<And>rc s'. rinv L R s' \<Longrightarrow> Q (rc, s')"
  shows "post Q (fskit_utimes V path user grp utimes s)"
  unfolding fskit_utimes_def
  by (insert assms(1)) (assumption | rule vc wp Q post_prod | rule wp_upd_frame | (simp; fail))+

lemma wp_user_stat [wp]:
  assumes "rinv L R s" and Q: "\<And>rc sb' s'. rinv L R s' \<Longrightarrow> Q (rc, sb', s')"
  shows "post Q (fskit_do_user_stat V path fent sb s)"
  unfolding fskit_do_user_stat_def by (insert assms(1)) (assumption | rule vc wp Q)+

lemma wp_fstat [wp]:
  assumes "rinv L R s" and Q: "\<And>rc sb' s'. rinv L R s' \<Longrightarrow> Q (rc, sb', s')"
  shows "post Q (fskit_fstat V path fent sb s)"
  unfolding fskit_fstat_def by (insert assms(1)) (assumption | rule vc wp Q)+

lemma wp_stat [wp]:
  assumes "rinv L R s" and Q: "\<And>rc sb' s'. rinv L R s' \<Longrightarrow> Q (rc, sb', s')"
  shows "post Q (fskit_stat V path user grp sb s)"
  unfolding fskit_stat_def by (insert assms(1)) (assumption | rule post_Inl post_Inr | rule vc wp Q)+

lemma inv_chmod: "rinv L R s \<Longrightarrow> fskit_chmod V path user grp mode s = Some (rc, s') \<Longrightarrow> rinv L R s'"
  using postD [OF wp_chmod [where Q = "\<lambda>(rc, s'). rinv L R s'"]] by auto

lemma inv_chown: "rinv L R s \<Longrightarrow> fskit_chown V path user grp u g s = Some (rc, s') \<Longrightarrow> rinv L R s'"
  using postD [OF wp_chown [where Q = "\<lambda>(rc, s'). rinv L R s'"]] by auto

lemma inv_utimes: "rinv L R s \<Longrightarrow> fskit_utimes V path user grp t s = Some (rc, s') \<Longrightarrow> rinv L R s'"
  using postD [OF wp_utimes [where Q = "\<lambda>(rc, s'). rinv L R s'"]] by auto

lemma inv_stat: "rinv L R s \<Longrightarrow> fskit_stat V path user grp sb s = Some (rc, sb', s') \<Longrightarrow> rinv L R s'"
  using postD [OF wp_stat [where Q = "\<lambda>(rc, sb', s'). rinv L R s'"]] by auto

lemma inv_fstat: "rinv L R s \<Longrightarrow> fskit_fstat V path a sb s = Some (rc, sb', s') \<Longrightarrow> rinv L R s'"
  using postD [OF wp_fstat [where Q = "\<lambda>(rc, sb', s'). rinv L R s'"]] by auto

subsection \<open>What access, chmod and stat do\<close>

lemma has_mode_or: "and S b = 0 \<Longrightarrow> has_mode (or S m) b = has_mode m b"
  by (simp add: has_mode_def bit.conj_disj_distrib2)

lemma has_mode_fullmode:
  assumes "t \<noteq> T_DEAD" and "b \<in> {1, 2, 4, 8, 16, 32, 64, 128, 256}"
  shows "has_mode (fskit_fullmode t m) b = has_mode m b"
  using assms
  by (cases t) (auto simp: fskit_fullmode_def S_IFREG_def S_IFDIR_def S_IFIFO_def S_IFSOCK_def S_IFBLK_def
      S_IFCHR_def S_IFLNK_def intro!: has_mode_or)

lemma of_stat_perms:
  assumes "etype e \<noteq> T_DEAD"
  shows "FSKIT_ENTRY_IS_READABLE (of_stat (fskit_entry_fstat e)) u g = FSKIT_ENTRY_IS_READABLE e u g"
    and "FSKIT_ENTRY_IS_WRITEABLE (of_stat (fskit_entry_fstat e)) u g = FSKIT_ENTRY_IS_WRITEABLE e u g"
    and "FSKIT_ENTRY_IS_DIR_SEARCHABLE (of_stat (fskit_entry_fstat e)) u g = FSKIT_ENTRY_IS_DIR_SEARCHABLE e u g"
  using has_mode_fullmode [OF assms]
  by (simp_all add: of_stat_def fskit_entry_fstat_def FSKIT_ENTRY_IS_READABLE_def
      FSKIT_ENTRY_IS_WRITEABLE_def FSKIT_ENTRY_IS_DIR_SEARCHABLE_def)

lemma access_eq:
  assumes "fskit_entry_resolve_path V path user grp s = Some (Inr a)" and "heap s a = Some e"
  shows "fskit_access V path user grp mode s =
    Some (if (has_flag mode R_OK \<longrightarrow> FSKIT_ENTRY_IS_READABLE e user grp) \<and>
             (has_flag mode W_OK \<longrightarrow> FSKIT_ENTRY_IS_WRITEABLE e user grp) \<and>
             (has_flag mode X_OK \<longrightarrow> FSKIT_ENTRY_IS_DIR_SEARCHABLE e user grp)
          then 0 else - EACCES, s)"
proof -
  have "etype e \<noteq> T_DEAD" using resolve_path_live [OF assms(1)] assms(2) by simp
  then show ?thesis using assms by (simp add: fskit_access_def Let_def of_stat_perms)
qed

lemma resolve_okE:
  assumes "do { r \<leftarrow> fskit_entry_resolve_path V path user grp s;
             (case r of Inl err \<Rightarrow> Some (err, s) | Inr a \<Rightarrow> f a) } = Some (0, s')"
  obtains a where "fskit_entry_resolve_path V path user grp s = Some (Inr a)" and "f a = Some (0, s')"
proof -
  obtain r where r: "fskit_entry_resolve_path V path user grp s = Some r" using assms by (auto simp: bind_eq_Some)
  show ?thesis
  proof (cases r)
    case (Inl err)
    then have "err = 0" using assms r by simp
    then show ?thesis using resolve_path_err r Inl by fastforce
  next
    case (Inr a)
    then show ?thesis using that [of a] assms r by simp
  qed
qed

lemma chmod_effect:
  assumes "fskit_chmod V path user grp mode s = Some (0, s')"
  obtains a e t where "fskit_entry_resolve_path V path user grp s = Some (Inr a)" and "heap s a = Some e"
    and "owner e = user" and "s' = s\<lparr>trace := t, heap := (heap s)(a \<mapsto> e\<lparr>emode := mode\<rparr>)\<rparr>"
proof -
  obtain a where r: "fskit_entry_resolve_path V path user grp s = Some (Inr a)"
    using assms by (auto simp: fskit_chmod_def errno_defs split: if_splits elim!: resolve_okE)
  obtain e s1 where e: "heap s a = Some e" "owner e = user"
    and m: "\<exists>imd. fskit_run_user_setmetadata V path a imd s = Some (0, s1)"
    and u: "upd a (fskit_entry_set_mode mode) s1 = Some s'"
    using assms r by (auto simp: fskit_chmod_def bind_eq_Some errno_defs split: if_splits)
  from m obtain t where s1: "s1 = s\<lparr>trace := t\<rparr>" using setmetadata_trace by blast
  have "s' = s\<lparr>trace := t, heap := (heap s)(a \<mapsto> e\<lparr>emode := mode\<rparr>)\<rparr>"
    using u e by (auto simp: s1 upd_simp fskit_entry_set_mode_def)
  then show ?thesis by (rule that [OF r e])
qed

lemma chmod_not_owner:
  assumes "fskit_entry_resolve_path V path user grp s = Some (Inr a)" and "heap s a = Some e"
    and "owner e \<noteq> user" and "mem_ok V ''fskit_inode_metadata_new''"
  shows "fskit_chmod V path user grp mode s = Some (- EPERM, s)"
    and "fskit_chown V path user grp u g s = Some (- EPERM, s)"
  using assms by (simp_all add: fskit_chmod_def fskit_chown_def)

lemma chown_effect:
  assumes "fskit_chown V path user grp u g s = Some (0, s')"
  obtains a e t where "fskit_entry_resolve_path V path user grp s = Some (Inr a)" and "heap s a = Some e"
    and "owner e = user" and "s' = s\<lparr>trace := t, heap := (heap s)(a \<mapsto> e\<lparr>owner := u, egroup := g\<rparr>)\<rparr>"
proof -
  obtain a where r: "fskit_entry_resolve_path V path user grp s = Some (Inr a)"
    using assms by (auto simp: fskit_chown_def errno_defs split: if_splits elim!: resolve_okE)
  obtain e s1 where e: "heap s a = Some e" "owner e = user"
    and m: "\<exists>imd. fskit_run_user_setmetadata V path a imd s = Some (0, s1)"
    and u: "upd a (fskit_entry_set_owner_and_group u g) s1 = Some s'"
    using assms r by (auto simp: fskit_chown_def bind_eq_Some errno_defs split: if_splits)
  from m obtain t where s1: "s1 = s\<lparr>trace := t\<rparr>" using setmetadata_trace by blast
  have "s' = s\<lparr>trace := t, heap := (heap s)(a \<mapsto> e\<lparr>owner := u, egroup := g\<rparr>)\<rparr>"
    using u e by (auto simp: s1 upd_simp fskit_entry_set_owner_and_group_def)
  then show ?thesis by (rule that [OF r e])
qed

text \<open>Without a stat route, stat describes the inode and leaves the file system alone.\<close>

lemma stat_no_route:
  assumes I: "rinv L R s" and r: "fskit_entry_resolve_path V path 0 0 s = Some (Inr a)" and e: "heap s a = Some e"
    and m: "fskit_route_match V (routes s) FSKIT_ROUTE_MATCH_STAT path = Some None"
    and n: "fskit_basename_len path < FSKIT_FILESYSTEM_NAMEMAX"
  shows "fskit_stat V path user grp sb s = Some (0, fskit_entry_fstat e, s)"
proof -
  let ?e1 = "e\<lparr>open_count := open_count e + 1\<rparr>" and ?s1 = "s\<lparr>heap := (heap s)(a \<mapsto> e\<lparr>open_count := open_count e + 1\<rparr>)\<rparr>"
  have b: "fskit_basename_len path \<le> FSKIT_FILESYSTEM_NAMEMAX" using n by simp
  have nb: "\<exists>x. name_buf path = Some x"
    using b name_buf_Some [of path] by (auto simp: name_fits_def)
  have "link_count e \<noteq> 0" using resolve_path_live [OF r] e by simp
  then have l: "0 < link_count e" using inv_counts_nonneg [OF I e] by simp
  have ref: "fskit_entry_ref V path s = Some (Inr a, ?s1)"
    using e by (simp add: fskit_entry_ref_def r fskit_entry_ref_entry_def upd_simp)
  have f: "fskit_entry_fstat ?e1 = fskit_entry_fstat e" by (simp add: fskit_entry_fstat_def)
  have call: "fskit_route_call_stat V path (Some a) da ?s1 = Some (- EPERM, 0, da, ?s1)" for da
    by (simp add: fskit_route_call_stat_def fskit_route_call_def m)
  have st: "fskit_fstat V path a sb ?s1 = Some (0, fskit_entry_fstat e, ?s1)"
    using nb by (auto simp: fskit_fstat_def fskit_entry_lock_def fskit_do_user_stat_def call f fskit_route_stat_args_def)
  have "(heap s)(a \<mapsto> e) = heap s" using e by (simp add: fun_upd_idem)
  then have un: "fskit_entry_unref V path a ?s1 = Some (0, s)"
    using l e by (simp add: fskit_entry_unref_def upd_simp)
  show ?thesis using n by (simp add: fskit_stat_def ref st un)
qed

end
