(* ===== verification/FileIO.thy ===== *)
theory FileIO
  imports Attrs
begin

text \<open>
  Reading, writing, truncating and syncing (\<open>libfskit/read.c\<close>, \<open>write.c\<close>, \<open>trunc.c\<close>, \<open>sync.c\<close>). The
  data itself is the application's: the routes move the bytes, and the library keeps the inode's
  size and times. The lemmas compute the size after a write and after a truncation.
\<close>

subsection \<open>Operations\<close>

text \<open>\<open>buf\<close> is the caller's buffer; the callback may fill it.\<close>

definition fskit_run_user_read ::
    "env \<Rightarrow> string \<Rightarrow> addr option \<Rightarrow> string \<Rightarrow> nat \<Rightarrow> int \<Rightarrow> nat \<Rightarrow> fs \<Rightarrow> (int \<times> string \<times> fs) option" where
  "fskit_run_user_read V path fent buf buflen offset handle_data s =
     do {
       (rc, cbrc, da, s) \<leftarrow> fskit_route_call_read V path fent
          (fskit_route_io_args buf buflen offset handle_data None) s;
       if rc = - EPERM \<or> rc = - ENOSYS then Some (0, da_iobuf da, s) else Some (cbrc, da_iobuf da, s)
     }"

text \<open>An inode pointer of a handle: dereferencing NULL kills the process.\<close>

definition deref :: "addr option \<Rightarrow> (entry \<Rightarrow> entry) \<Rightarrow> fs \<Rightarrow> fs option" where
  "deref p f s = (case p of None \<Rightarrow> None | Some a \<Rightarrow> upd a f s)"

definition fskit_read :: "env \<Rightarrow> nat \<Rightarrow> string \<Rightarrow> nat \<Rightarrow> int \<Rightarrow> fs \<Rightarrow> (int \<times> string \<times> fs) option" where
  "fskit_read V h buf buflen offset s =
     do {
       fh \<leftarrow> fhs s h;
       if has_flag (fh_flags fh) O_WRONLY then Some (- EBADF, buf, s)
       else do {
         (num_read, buf, s) \<leftarrow> fskit_run_user_read V (fh_path fh) (fh_fent fh) buf buflen offset (fh_app_data fh) s;
         s \<leftarrow> (if num_read \<ge> 0 then deref (fh_fent fh) (\<lambda>e. fst (fskit_entry_set_atime V None e)) s else Some s);
         Some (num_read, buf, s)
       }
     }"

definition fskit_run_user_write ::
    "env \<Rightarrow> string \<Rightarrow> addr option \<Rightarrow> string \<Rightarrow> nat \<Rightarrow> int \<Rightarrow> nat \<Rightarrow> fs \<Rightarrow> (int \<times> fs) option" where
  "fskit_run_user_write V path fent buf buflen offset handle_data s =
     do {
       (rc, cbrc, da, s) \<leftarrow> fskit_route_call_write V path fent
          (fskit_route_io_args buf buflen offset handle_data (Some fskit_write_cont_fn)) s;
       if rc = - EPERM \<or> rc = - ENOSYS then Some (0, s) else Some (cbrc, s)
     }"

text \<open>
  The new size of a written file. The sum of \<open>offset\<close> and \<open>buflen\<close> is unsigned with 64 bits; it is cut
  to 32 bits for the comparison with the size, and the outcome is converted back to a signed number.
\<close>

definition written_size :: "int \<Rightarrow> nat \<Rightarrow> int \<Rightarrow> int" where
  "written_size offset buflen sz =
     (let sum = (offset + int buflen) mod 2 ^ 64 in
      if sum mod 2 ^ 32 > sz then (if sum < 2 ^ 63 then sum else sum - 2 ^ 64) else sz)"

definition fskit_write :: "env \<Rightarrow> nat \<Rightarrow> string \<Rightarrow> nat \<Rightarrow> int \<Rightarrow> fs \<Rightarrow> (int \<times> fs) option" where
  "fskit_write V h buf buflen offset s =
     do {
       fh \<leftarrow> fhs s h;
       if \<not> has_flag (fh_flags fh) (or O_RDWR O_WRONLY) then Some (- EBADF, s)
       else do {
         (num_written, s) \<leftarrow>
            fskit_run_user_write V (fh_path fh) (fh_fent fh) buf buflen offset (fh_app_data fh) s;
         s \<leftarrow> (if num_written \<ge> 0 then
                 deref (fh_fent fh) (\<lambda>e.
                   let e = fst (fskit_entry_set_mtime V None e);
                       e = fst (fskit_entry_set_atime V None e)
                   in e\<lparr>fsize := written_size offset buflen (fsize e)\<rparr>) s
               else Some s);
         Some (num_written, s)
       }
     }"

definition fskit_entry_set_size :: "int \<Rightarrow> entry \<Rightarrow> entry" where
  "fskit_entry_set_size sz e = e\<lparr>fsize := sz\<rparr>"

definition fskit_ftrunc :: "env \<Rightarrow> nat \<Rightarrow> int \<Rightarrow> fs \<Rightarrow> (int \<times> fs) option" where
  "fskit_ftrunc V h new_size s =
     do {
       fh \<leftarrow> fhs s h;
       if \<not> has_flag (fh_flags fh) (or O_RDWR O_WRONLY) then Some (- EBADF, s)
       else fskit_run_user_trunc V (fh_path fh) (fh_fent fh) new_size (fh_app_data fh) s
     }"

text \<open>The route's return code is overwritten by the one of the clean-up.\<close>

definition fskit_trunc :: "env \<Rightarrow> string \<Rightarrow> u64 \<Rightarrow> u64 \<Rightarrow> int \<Rightarrow> fs \<Rightarrow> (int \<times> fs) option" where
  "fskit_trunc V path user grp new_size s =
     (if fskit_basename_len path > FSKIT_FILESYSTEM_NAMEMAX then Some (- ENAMETOOLONG, s)
      else do {
        r \<leftarrow> fskit_entry_resolve_path V path user grp s;
        (case r of
           Inl err \<Rightarrow> Some (err, s)
         | Inr fent \<Rightarrow>
             do {
               s \<leftarrow> upd fent (\<lambda>e. e\<lparr>open_count := open_count e + 1\<rparr>) s;
               (_, s) \<leftarrow> fskit_run_user_trunc V path (Some fent) new_size 0 s;
               s \<leftarrow> upd fent (\<lambda>e. e\<lparr>open_count := open_count e - 1\<rparr>) s;
               (rc, s) \<leftarrow> fskit_entry_try_destroy_and_free V path None fent s;
               if rc > 0 then Some (0, s)
               else if rc < 0 then do { _ \<leftarrow> fskit_entry_unlock (Some fent) s; Some (rc, s) }
               else do { _ \<leftarrow> fskit_entry_unlock (Some fent) s; Some (rc, s) }
             })
      })"

definition fskit_do_user_sync :: "env \<Rightarrow> string \<Rightarrow> addr option \<Rightarrow> fs \<Rightarrow> (int \<times> fs) option" where
  "fskit_do_user_sync V path fent s =
     do {
       (rc, cbrc, da, s) \<leftarrow> fskit_route_call_sync V path fent fskit_route_sync_args s;
       if rc = - EPERM \<or> rc = - ENOSYS then Some (0, s) else Some (cbrc, s)
     }"

definition fskit_fsync :: "env \<Rightarrow> nat \<Rightarrow> fs \<Rightarrow> (int \<times> fs) option" where
  "fskit_fsync V h s = do { fh \<leftarrow> fhs s h; fskit_do_user_sync V (fh_path fh) (fh_fent fh) s }"

subsection \<open>The invariant\<close>

lemma wp_deref:
  "rinv L R s \<Longrightarrow> (\<And>e. children (f e) = children e \<and> link_count (f e) = link_count e \<and> open_count (f e) = open_count e) \<Longrightarrow>
    (\<And>s'. rinv L R s' \<Longrightarrow> Q s') \<Longrightarrow> post Q (deref p f s)"
  by (cases p) (auto simp: deref_def post_None intro!: wp_upd_frame)

lemma set_times_frame:
  "children (fst (fskit_entry_set_atime V t e)) = children e" "children (fst (fskit_entry_set_mtime V t e)) = children e"
  "link_count (fst (fskit_entry_set_atime V t e)) = link_count e" "link_count (fst (fskit_entry_set_mtime V t e)) = link_count e"
  "open_count (fst (fskit_entry_set_atime V t e)) = open_count e" "open_count (fst (fskit_entry_set_mtime V t e)) = open_count e"
  "fsize (fst (fskit_entry_set_atime V t e)) = fsize e" "fsize (fst (fskit_entry_set_mtime V t e)) = fsize e"
  by (auto simp: fskit_entry_set_atime_def fskit_entry_set_mtime_def split: option.split)

lemma wp_count_up:
  "rinv L R s \<Longrightarrow> (\<And>s'. rinv L (add_mset a R) s' \<Longrightarrow> Q s') \<Longrightarrow>
    post Q (upd a (\<lambda>e. e\<lparr>open_count := open_count e + 1\<rparr>) s)"
  by (rule postI) (simp add: inv_ref)

lemma wp_count_down:
  "rinv L (add_mset a R) s \<Longrightarrow> (\<And>s'. rinv L R s' \<Longrightarrow> Q s') \<Longrightarrow>
    post Q (upd a (\<lambda>e. e\<lparr>open_count := open_count e - 1\<rparr>) s)"
  by (rule postI) (simp add: inv_unref)

lemma wp_read [wp]:
  assumes "rinv L R s" and Q: "\<And>rc b s'. rinv L R s' \<Longrightarrow> Q (rc, b, s')"
  shows "post Q (fskit_read V h buf n off s)"
  unfolding fskit_read_def fskit_run_user_read_def
  by (insert assms(1)) (assumption | rule vc wp Q wp_deref | (simp add: set_times_frame; fail))+

lemma wp_write [wp]:
  assumes "rinv L R s" and Q: "\<And>rc s'. rinv L R s' \<Longrightarrow> Q (rc, s')"
  shows "post Q (fskit_write V h buf n off s)"
  unfolding fskit_write_def fskit_run_user_write_def
  by (insert assms(1)) (assumption | rule vc wp Q wp_deref | (simp add: set_times_frame Let_def; fail))+

lemma wp_ftrunc [wp]:
  assumes "rinv L R s" and Q: "\<And>rc s'. rinv L R s' \<Longrightarrow> Q (rc, s')"
  shows "post Q (fskit_ftrunc V h sz s)"
  unfolding fskit_ftrunc_def by (insert assms(1)) (assumption | rule vc wp Q)+

lemma wp_trunc [wp]:
  assumes "rinv L R s" and Q: "\<And>rc s'. rinv L R s' \<Longrightarrow> Q (rc, s')"
  shows "post Q (fskit_trunc V path user grp sz s)"
  unfolding fskit_trunc_def by (insert assms(1)) (assumption | rule vc wp Q wp_count_up wp_count_down)+

lemma wp_fsync [wp]:
  assumes "rinv L R s" and Q: "\<And>rc s'. rinv L R s' \<Longrightarrow> Q (rc, s')"
  shows "post Q (fskit_fsync V h s)"
  unfolding fskit_fsync_def fskit_do_user_sync_def by (insert assms(1)) (assumption | rule vc wp Q)+

lemma inv_read: "rinv L R s \<Longrightarrow> fskit_read V h buf n off s = Some (rc, b, s') \<Longrightarrow> rinv L R s'"
  using postD [OF wp_read [where Q = "\<lambda>(rc, b, s'). rinv L R s'"]] by auto

lemma inv_write: "rinv L R s \<Longrightarrow> fskit_write V h buf n off s = Some (rc, s') \<Longrightarrow> rinv L R s'"
  using postD [OF wp_write [where Q = "\<lambda>(rc, s'). rinv L R s'"]] by auto

lemma inv_ftrunc: "rinv L R s \<Longrightarrow> fskit_ftrunc V h sz s = Some (rc, s') \<Longrightarrow> rinv L R s'"
  using postD [OF wp_ftrunc [where Q = "\<lambda>(rc, s'). rinv L R s'"]] by auto

lemma inv_trunc: "rinv L R s \<Longrightarrow> fskit_trunc V path user grp sz s = Some (rc, s') \<Longrightarrow> rinv L R s'"
  using postD [OF wp_trunc [where Q = "\<lambda>(rc, s'). rinv L R s'"]] by auto

lemma inv_fsync: "rinv L R s \<Longrightarrow> fskit_fsync V h s = Some (rc, s') \<Longrightarrow> rinv L R s'"
  using postD [OF wp_fsync [where Q = "\<lambda>(rc, s'). rinv L R s'"]] by auto

subsection \<open>The size of a file\<close>

lemma written_size_max:
  "0 \<le> off \<Longrightarrow> off + int n < 2 ^ 32 \<Longrightarrow> written_size off n sz = max sz (off + int n)"
  by (auto simp: written_size_def Let_def max_def)

lemma write_cont_size:
  assumes "run_io_cont V (Some fskit_write_cont_fn) (Some a) off rc s = Some s'" and "heap s a = Some e"
  shows "\<exists>e'. heap s' a = Some e' \<and> fsize e' = (if rc \<ge> 0 then max (fsize e) (off + rc) else fsize e)"
  using assms
  by (auto simp: run_io_cont_def fskit_write_cont_def upd_simp Let_def set_times_frame max_def split: if_splits)

lemma write_call_size:
  assumes "fskit_route_call_write V path (Some a) (fskit_route_io_args buf n off hda (Some fskit_write_cont_fn)) s =
      Some (rc, cbrc, da', s')"
    and e: "heap s a = Some e"
  shows "\<exists>e'. heap s' a = Some e' \<and>
    (fsize e' = fsize e \<or> 0 \<le> cbrc \<and> fsize e' = max (fsize e) (off + cbrc))"
proof (cases "fskit_route_match V (routes s) FSKIT_ROUTE_MATCH_WRITE path")
  case None
  then show ?thesis using assms by (simp add: fskit_route_call_write_def fskit_route_call_def)
next
  case (Some m)
  let ?da = "fskit_route_io_args buf n off hda (Some fskit_write_cont_fn)"
  show ?thesis
  proof (cases "\<exists>rm route. fskit_route_dispatch V rm route (Some a) ?da s = Some (cbrc, da', s')")
    case False
    then have "s' = s"
      using assms Some by (auto simp: fskit_route_call_write_def fskit_route_call_def bind_eq_Some
          split: option.splits prod.splits if_splits)
    then show ?thesis using e by simp
  next
    case True
    then obtain rm route where d: "fskit_route_dispatch V rm route (Some a) ?da s = Some (cbrc, da', s')" by blast
    obtain rc1 da1 s1 where sd: "fskit_safe_dispatch V rm route (Some a) ?da s = (rc1, da1, s1)"
      by (metis prod_cases3)
    obtain t where s1: "s1 = s\<lparr>trace := t\<rparr>" using safe_dispatch_trace [OF sd] by blast
    have k: "da_io_cont ?da = Some fskit_write_cont_fn" "da_iooff ?da = off"
      by (simp_all add: fskit_route_io_args_def)
    show ?thesis
    proof (cases "\<exists>r. run_io_cont V (Some fskit_write_cont_fn) (Some a) off cbrc s1 = Some s'")
      case True
      then show ?thesis using write_cont_size [of V a off cbrc s1 s' e] e by (auto simp: s1 split: if_splits)
    next
      case False
      then have "heap s' = heap s"
        using d sd k by (auto simp: fskit_route_dispatch_def bind_eq_Some s1 split: if_splits)
      then show ?thesis using e by simp
    qed
  qed
qed

lemma write_size:
  assumes W: "fskit_write V h buf n off s = Some (rc, s')" and fh: "fhs s h = Some fh" "fh_fent fh = Some a"
    and e: "heap s a = Some e"
  shows "rc \<ge> 0 \<Longrightarrow> rc \<le> int n \<Longrightarrow> 0 \<le> off \<Longrightarrow> off + int n < 2 ^ 32 \<Longrightarrow>
      \<exists>e'. heap s' a = Some e' \<and> fsize e' = max (fsize e) (off + int n)"
    and "rc < 0 \<Longrightarrow> \<exists>e'. heap s' a = Some e' \<and> fsize e' = fsize e"
proof -
  show "\<exists>e'. heap s' a = Some e' \<and> fsize e' = fsize e" if "rc < 0"
    using W fh e that
    by (auto simp: fskit_write_def fskit_run_user_write_def bind_eq_Some split: if_splits dest!: write_call_size)
  assume rc: "rc \<ge> 0" "rc \<le> int n" and o: "0 \<le> off" "off + int n < 2 ^ 32"
  obtain s1 where w: "fskit_run_user_write V (fh_path fh) (Some a) buf n off (fh_app_data fh) s = Some (rc, s1)"
    and u: "deref (Some a) (\<lambda>e. let e = fst (fskit_entry_set_mtime V None e); e = fst (fskit_entry_set_atime V None e)
        in e\<lparr>fsize := written_size off n (fsize e)\<rparr>) s1 = Some s'"
    using W fh rc by (auto simp: fskit_write_def bind_eq_Some EBADF_def split: if_splits)
  have "\<exists>e1. heap s1 a = Some e1 \<and> (fsize e1 = fsize e \<or> fsize e1 = max (fsize e) (off + rc))"
  proof -
    obtain r cb da where c: "fskit_route_call_write V (fh_path fh) (Some a)
        (fskit_route_io_args buf n off (fh_app_data fh) (Some fskit_write_cont_fn)) s = Some (r, cb, da, s1)"
      and r: "(r = - EPERM \<or> r = - ENOSYS) \<and> rc = 0 \<or> \<not> (r = - EPERM \<or> r = - ENOSYS) \<and> rc = cb"
      using w by (auto simp: fskit_run_user_write_def bind_eq_Some split: if_splits)
    have "r = 0 \<or> r = - EPERM" using route_call_rc [OF c [unfolded fskit_route_call_write_def]] by blast
    moreover have "r = - EPERM \<Longrightarrow> s1 = s"
      using c by (auto simp: fskit_route_call_write_def fskit_route_call_def EPERM_def bind_eq_Some
          split: option.splits prod.splits if_splits)
    ultimately show ?thesis using write_call_size [OF c e] r e by (auto simp: EPERM_def ENOSYS_def)
  qed
  then obtain e1 where e1: "heap s1 a = Some e1" "fsize e1 = fsize e \<or> fsize e1 = max (fsize e) (off + rc)" by blast
  have "written_size off n (fsize e1) = max (fsize e) (off + int n)"
    unfolding written_size_max [OF o] using e1(2) rc by (auto simp: max_def split: if_splits)
  then show "\<exists>e'. heap s' a = Some e' \<and> fsize e' = max (fsize e) (off + int n)"
    using u e1(1) by (auto simp: deref_def upd_simp Let_def set_times_frame)
qed

text \<open>A truncation that a route handles sets the size.\<close>

lemma trunc_call_size:
  assumes c: "fskit_route_call_trunc V path (Some a) (fskit_route_trunc_args name sz hda (Some fskit_trunc_cont_fn)) s =
      Some (rc, 0, da', s')"
    and e: "heap s a = Some e" "etype e \<noteq> T_DEAD" and T: "table_ok (routes s)"
    and m: "fskit_route_match V (routes s) FSKIT_ROUTE_MATCH_TRUNC path = Some (Some m)"
    and ok: "mem_ok V ''fskit_route_metadata_populate''"
  shows "\<exists>e'. heap s' a = Some e' \<and> fsize e' = sz"
proof -
  let ?da = "fskit_route_trunc_args name sz hda (Some fskit_trunc_cont_fn)"
  obtain route rm where r: "m = (route, rm)" by (cases m)
  have ty: "pr_type route = FSKIT_ROUTE_MATCH_TRUNC"
    using route_match_type [OF T m [unfolded r]] by simp
  obtain rm' where "fskit_route_dispatch V rm' route (Some a) ?da s = Some (0, da', s')"
    using c m ok r by (auto simp: fskit_route_call_trunc_def fskit_route_call_def fskit_route_metadata_populate_def
        bind_eq_Some split: if_splits)
  moreover obtain rc1 da1 s1 where sd: "fskit_safe_dispatch V rm' route (Some a) ?da s = (rc1, da1, s1)"
    by (metis prod_cases3)
  moreover have "fskit_route_enter route (Some a) ?da s \<in> {None, Some 0}"
    using e by (auto simp: fskit_route_enter_def fskit_entry_lock_def bind_eq_None_conv split: if_splits)
  ultimately have k: "run_io_cont V (Some fskit_trunc_cont_fn) (Some a) sz 0 s1 = Some s'"
    using ty by (auto simp: fskit_route_dispatch_def bind_eq_Some fskit_route_trunc_args_def split: if_splits)
  obtain t where "s1 = s\<lparr>trace := t\<rparr>" using safe_dispatch_trace [OF sd] by blast
  then show ?thesis using k e by (auto simp: run_io_cont_def fskit_trunc_cont_def upd_simp Let_def)
qed

lemma ftrunc_size:
  assumes W: "fskit_ftrunc V h sz s = Some (0, s')" and fh: "fhs s h = Some fh" "fh_fent fh = Some a"
    and e: "heap s a = Some e" "etype e \<noteq> T_DEAD" and T: "table_ok (routes s)"
    and m: "fskit_route_match V (routes s) FSKIT_ROUTE_MATCH_TRUNC (fh_path fh) = Some (Some m)"
    and ok: "mem_ok V ''fskit_route_metadata_populate''"
  shows "\<exists>e'. heap s' a = Some e' \<and> fsize e' = sz"
proof -
  obtain name rc cbrc da where
      c: "fskit_route_call_trunc V (fh_path fh) (Some a)
        (fskit_route_trunc_args name sz (fh_app_data fh) (Some fskit_trunc_cont_fn)) s = Some (rc, cbrc, da, s')"
    and r: "rc \<noteq> - EPERM \<and> rc \<noteq> - ENOSYS \<longrightarrow> cbrc = 0"
    using W fh by (auto simp: fskit_ftrunc_def fskit_run_user_trunc_def bind_eq_Some EBADF_def split: if_splits)
  have "rc = 0"
    using c m ok by (cases m) (auto simp: fskit_route_call_trunc_def fskit_route_call_def
        fskit_route_metadata_populate_def bind_eq_Some split: if_splits)
  then have "cbrc = 0" using r by (simp add: errno_defs)
  then show ?thesis using trunc_call_size [OF _ e T m ok] c by simp
qed

end
