(* ===== verification/Xattrs.thy ===== *)
theory Xattrs
  imports FileIO
begin

text \<open>
  Extended attributes (\<open>libfskit/getxattr.c\<close>, \<open>setxattr.c\<close>, \<open>listxattr.c\<close>, \<open>removexattr.c\<close>): the
  route may serve a request, and otherwise the inode's attribute set does. A buffer argument is
  \<open>None\<close> when the caller passes NULL; writing more bytes than the buffer holds kills the process.

  The lemmas show that an attribute that was set is read back by path, that the list holds exactly
  the names that are set, and what the flags refuse.
\<close>

subsection \<open>getxattr\<close>

definition buf_bytes :: "string option \<Rightarrow> string" where
  "buf_bytes buf = (case buf of None \<Rightarrow> [] | Some b \<Rightarrow> b)"

definition fskit_run_user_getxattr ::
    "env \<Rightarrow> string \<Rightarrow> addr \<Rightarrow> string \<Rightarrow> string option \<Rightarrow> nat \<Rightarrow> fs \<Rightarrow> (int \<times> string option \<times> fs) option" where
  "fskit_run_user_getxattr V path fent xattr_name xattr_buf xattr_buf_len s =
     do {
       (rc, cbrc, da, s) \<leftarrow> fskit_route_call_getxattr V path (Some fent)
          (fskit_route_getxattr_args xattr_name (buf_bytes xattr_buf) xattr_buf_len) s;
       let buf = map_option (\<lambda>_. da_xattr_buf da) xattr_buf in
       Some (if rc = - EPERM then 0 else if rc < 0 then rc else cbrc, buf, s)
     }"

definition fskit_xattr_fgetxattr ::
    "entry \<Rightarrow> string \<Rightarrow> string option \<Rightarrow> nat \<Rightarrow> (int \<times> string option) option" where
  "fskit_xattr_fgetxattr fent name value_buf sz =
     (case fskit_xattr_set_find (xattrs fent) name of
        None \<Rightarrow> Some (- ENODATA, value_buf)
      | Some v \<Rightarrow>
          (case value_buf of
             None \<Rightarrow> Some (wrap32 (int (length v)), value_buf)
           | Some b \<Rightarrow>
               if sz = 0 then Some (wrap32 (int (length v)), value_buf)
               else if length v > sz then Some (- ERANGE, value_buf)
               else do { b \<leftarrow> buf_copy b v; Some (wrap32 (int (length v)), Some b) }))"

definition fskit_fgetxattr ::
    "env \<Rightarrow> string \<Rightarrow> addr \<Rightarrow> string \<Rightarrow> string option \<Rightarrow> nat \<Rightarrow> fs \<Rightarrow> (int \<times> string option \<times> fs) option" where
  "fskit_fgetxattr V path fent name value_buf sz s =
     do {
       (rc, value_buf, s) \<leftarrow> fskit_run_user_getxattr V path fent name value_buf sz s;
       if rc > 0 then Some (rc, value_buf, s)
       else if rc < 0 then Some (rc, value_buf, s)
       else do {
         f \<leftarrow> heap s fent;
         (rc, value_buf) \<leftarrow> fskit_xattr_fgetxattr f name value_buf sz;
         Some (rc, value_buf, s)
       }
     }"

definition fskit_getxattr ::
    "env \<Rightarrow> string \<Rightarrow> u64 \<Rightarrow> u64 \<Rightarrow> string \<Rightarrow> string option \<Rightarrow> nat \<Rightarrow> fs \<Rightarrow>
     (int \<times> string option \<times> fs) option" where
  "fskit_getxattr V path user grp name value sz s =
     do {
       r \<leftarrow> fskit_entry_resolve_path V path user grp s;
       (case r of
          Inl err \<Rightarrow> Some (err, value, s)
        | Inr fent \<Rightarrow> fskit_fgetxattr V path fent name value sz s)
     }"

subsection \<open>listxattr\<close>

definition fskit_run_user_listxattr ::
    "env \<Rightarrow> string \<Rightarrow> addr \<Rightarrow> string option \<Rightarrow> nat \<Rightarrow> fs \<Rightarrow> (int \<times> string option \<times> fs) option" where
  "fskit_run_user_listxattr V path fent xattr_buf xattr_buf_len s =
     do {
       (rc, cbrc, da, s) \<leftarrow> fskit_route_call_listxattr V path (Some fent)
          (fskit_route_listxattr_args (buf_bytes xattr_buf) xattr_buf_len) s;
       let buf = map_option (\<lambda>_. da_xattr_buf da) xattr_buf in
       Some (if rc = - EPERM then 0 else if rc < 0 then rc else cbrc, buf, s)
     }"

fun listxattr_len :: "xs_node list \<Rightarrow> int" where
  "listxattr_len [] = 0"
| "listxattr_len (x # xs) = int (length (xs_name x)) + 1 + listxattr_len xs"

definition fskit_listxattr_len :: "xattr_set \<Rightarrow> int" where
  "fskit_listxattr_len set0 = wrap32 (listxattr_len (inorder set0))"

fun listxattr_copy :: "xs_node list \<Rightarrow> string" where
  "listxattr_copy [] = []"
| "listxattr_copy (x # xs) = xs_name x @ NUL # listxattr_copy xs"

definition fskit_listxattr_copy_names :: "xattr_set \<Rightarrow> string \<Rightarrow> string option" where
  "fskit_listxattr_copy_names set0 list = buf_copy list (listxattr_copy (inorder set0))"

definition fskit_xattr_flistxattr :: "entry \<Rightarrow> string option \<Rightarrow> nat \<Rightarrow> (int \<times> string option) option" where
  "fskit_xattr_flistxattr fent list sz =
     (let total_size = fskit_listxattr_len (xattrs fent) in
      case list of
        None \<Rightarrow> Some (total_size, list)
      | Some b \<Rightarrow>
          if sz = 0 then Some (total_size, list)
          else if total_size mod 2 ^ 32 > int sz then Some (- ERANGE, list)
          else do { b \<leftarrow> fskit_listxattr_copy_names (xattrs fent) b; Some (total_size, Some b) })"

definition fskit_flistxattr ::
    "env \<Rightarrow> string \<Rightarrow> addr \<Rightarrow> string option \<Rightarrow> nat \<Rightarrow> fs \<Rightarrow> (int \<times> string option \<times> fs) option" where
  "fskit_flistxattr V path fent list sz s =
     do {
       (rc, list, s) \<leftarrow> fskit_run_user_listxattr V path fent list sz s;
       if rc < 0 then Some (rc, list, s)
       else if rc > 0 then Some (rc, list, s)
       else do {
         f \<leftarrow> heap s fent;
         (rc, list) \<leftarrow> fskit_xattr_flistxattr f list sz;
         Some (rc, list, s)
       }
     }"

definition fskit_listxattr ::
    "env \<Rightarrow> string \<Rightarrow> u64 \<Rightarrow> u64 \<Rightarrow> string option \<Rightarrow> nat \<Rightarrow> fs \<Rightarrow> (int \<times> string option \<times> fs) option" where
  "fskit_listxattr V path user grp list sz s =
     do {
       r \<leftarrow> fskit_entry_resolve_path V path user grp s;
       (case r of
          Inl err \<Rightarrow> Some (err, list, s)
        | Inr fent \<Rightarrow> fskit_flistxattr V path fent list sz s)
     }"

subsection \<open>setxattr and removexattr\<close>

definition fskit_run_user_setxattr ::
    "env \<Rightarrow> string \<Rightarrow> addr \<Rightarrow> string \<Rightarrow> string \<Rightarrow> nat \<Rightarrow> fs \<Rightarrow> (int \<times> fs) option" where
  "fskit_run_user_setxattr V path fent xattr_name xattr_value flags s =
     do {
       (rc, cbrc, da, s) \<leftarrow> fskit_route_call_setxattr V path (Some fent)
          (fskit_route_setxattr_args xattr_name xattr_value flags) s;
       Some (if rc = - EPERM then 1 else if rc < 0 then rc else cbrc, s)
     }"

definition fskit_xattr_fsetxattr :: "env \<Rightarrow> entry \<Rightarrow> string \<Rightarrow> string \<Rightarrow> nat \<Rightarrow> entry \<times> int" where
  "fskit_xattr_fsetxattr V fent name value flags =
     (case fskit_xattr_set_insert V (xattrs fent) name value flags of
        (set1, rc) \<Rightarrow> (fent\<lparr>xattrs := set1\<rparr>, if rc = - ENOMEM then - ENOSPC else rc))"

definition fskit_fsetxattr ::
    "env \<Rightarrow> string \<Rightarrow> addr \<Rightarrow> string \<Rightarrow> string \<Rightarrow> nat \<Rightarrow> fs \<Rightarrow> (int \<times> fs) option" where
  "fskit_fsetxattr V path fent name value flags s =
     (if has_flag flags XATTR_REPLACE \<and> has_flag flags XATTR_CREATE then Some (- EINVAL, s)
      else do {
        (rc, s) \<leftarrow> fskit_run_user_setxattr V path fent name value flags s;
        if rc < 0 then Some (- EPERM, s)
        else if rc = 0 then Some (0, s)
        else do {
          f \<leftarrow> heap s fent;
          s \<leftarrow> upd fent (\<lambda>e. fst (fskit_xattr_fsetxattr V e name value flags)) s;
          Some (snd (fskit_xattr_fsetxattr V f name value flags), s)
        }
      })"

definition fskit_setxattr ::
    "env \<Rightarrow> string \<Rightarrow> u64 \<Rightarrow> u64 \<Rightarrow> string \<Rightarrow> string \<Rightarrow> nat \<Rightarrow> fs \<Rightarrow> (int \<times> fs) option" where
  "fskit_setxattr V path user grp name value flags s =
     do {
       r \<leftarrow> fskit_entry_resolve_path V path user grp s;
       (case r of
          Inl err \<Rightarrow> Some (err, s)
        | Inr fent \<Rightarrow> fskit_fsetxattr V path fent name value flags s)
     }"

definition fskit_run_user_removexattr :: "env \<Rightarrow> string \<Rightarrow> addr \<Rightarrow> string \<Rightarrow> fs \<Rightarrow> (int \<times> fs) option" where
  "fskit_run_user_removexattr V path fent xattr_name s =
     do {
       (rc, cbrc, da, s) \<leftarrow> fskit_route_call_removexattr V path (Some fent)
          (fskit_route_removexattr_args xattr_name) s;
       Some (if rc = - EPERM then 0 else if rc < 0 then rc else cbrc, s)
     }"

definition fskit_xattr_fremovexattr :: "entry \<Rightarrow> string \<Rightarrow> entry \<times> int" where
  "fskit_xattr_fremovexattr fent name =
     (case fskit_xattr_set_remove (xattrs fent) name of
        (set1, removed) \<Rightarrow> (fent\<lparr>xattrs := set1\<rparr>, if removed then 0 else - ENODATA))"

definition fskit_fremovexattr :: "env \<Rightarrow> string \<Rightarrow> addr \<Rightarrow> string \<Rightarrow> fs \<Rightarrow> (int \<times> fs) option" where
  "fskit_fremovexattr V path fent name s =
     do {
       (rc, s) \<leftarrow> fskit_run_user_removexattr V path fent name s;
       if rc < 0 then Some (- EPERM, s)
       else if rc = 0 then Some (0, s)
       else do {
         f \<leftarrow> heap s fent;
         s \<leftarrow> upd fent (\<lambda>e. fst (fskit_xattr_fremovexattr e name)) s;
         Some (snd (fskit_xattr_fremovexattr f name), s)
       }
     }"

definition fskit_removexattr :: "env \<Rightarrow> string \<Rightarrow> u64 \<Rightarrow> u64 \<Rightarrow> string \<Rightarrow> fs \<Rightarrow> (int \<times> fs) option" where
  "fskit_removexattr V path user grp name s =
     do {
       r \<leftarrow> fskit_entry_resolve_path V path user grp s;
       (case r of
          Inl err \<Rightarrow> Some (err, s)
        | Inr fent \<Rightarrow> fskit_fremovexattr V path fent name s)
     }"

subsection \<open>The invariant\<close>

lemma wp_getxattr [wp]:
  assumes "rinv L R s" and Q: "\<And>rc b s'. rinv L R s' \<Longrightarrow> Q (rc, b, s')"
  shows "post Q (fskit_getxattr V path user grp name buf sz s)"
  unfolding fskit_getxattr_def fskit_fgetxattr_def fskit_run_user_getxattr_def
  by (insert assms(1)) (assumption | rule vc wp Q | (rule postI, (auto simp: Q post_SomeI split: prod.split; fail)))+

lemma wp_listxattr [wp]:
  assumes "rinv L R s" and Q: "\<And>rc b s'. rinv L R s' \<Longrightarrow> Q (rc, b, s')"
  shows "post Q (fskit_listxattr V path user grp buf sz s)"
  unfolding fskit_listxattr_def fskit_flistxattr_def fskit_run_user_listxattr_def
  by (insert assms(1)) (assumption | rule vc wp Q | (rule postI, (auto simp: Q post_SomeI split: prod.split; fail)))+

lemma wp_setxattr [wp]:
  assumes "rinv L R s" and Q: "\<And>rc s'. rinv L R s' \<Longrightarrow> Q (rc, s')"
  shows "post Q (fskit_setxattr V path user grp name value flags s)"
  unfolding fskit_setxattr_def fskit_fsetxattr_def fskit_run_user_setxattr_def
  by (insert assms(1)) (assumption | rule vc wp Q | rule wp_upd_frame |
    (simp add: fskit_xattr_fsetxattr_def split: prod.split; fail))+

lemma wp_removexattr [wp]:
  assumes "rinv L R s" and Q: "\<And>rc s'. rinv L R s' \<Longrightarrow> Q (rc, s')"
  shows "post Q (fskit_removexattr V path user grp name s)"
  unfolding fskit_removexattr_def fskit_fremovexattr_def fskit_run_user_removexattr_def
  by (insert assms(1)) (assumption | rule vc wp Q | rule wp_upd_frame |
    (simp add: fskit_xattr_fremovexattr_def split: prod.split; fail))+

lemma inv_getxattr: "rinv L R s \<Longrightarrow> fskit_getxattr V path u g n b z s = Some (rc, b', s') \<Longrightarrow> rinv L R s'"
  using postD [OF wp_getxattr [where Q = "\<lambda>(rc, b, s'). rinv L R s'"]] by auto

lemma inv_listxattr: "rinv L R s \<Longrightarrow> fskit_listxattr V path u g b z s = Some (rc, b', s') \<Longrightarrow> rinv L R s'"
  using postD [OF wp_listxattr [where Q = "\<lambda>(rc, b, s'). rinv L R s'"]] by auto

lemma inv_setxattr: "rinv L R s \<Longrightarrow> fskit_setxattr V path u g n v f s = Some (rc, s') \<Longrightarrow> rinv L R s'"
  using postD [OF wp_setxattr [where Q = "\<lambda>(rc, s'). rinv L R s'"]] by auto

lemma inv_removexattr: "rinv L R s \<Longrightarrow> fskit_removexattr V path u g n s = Some (rc, s') \<Longrightarrow> rinv L R s'"
  using postD [OF wp_removexattr [where Q = "\<lambda>(rc, s'). rinv L R s'"]] by auto

subsection \<open>Attributes by path\<close>

lemma setxattr_effect:
  assumes S: "fskit_setxattr V path user grp name val flags s = Some (0, s')"
    and m: "fskit_route_match V (routes s) FSKIT_ROUTE_MATCH_SETXATTR path = Some None"
  obtains a e where "fskit_entry_resolve_path V path user grp s = Some (Inr a)" and "heap s a = Some e"
    and "snd (fskit_xattr_set_insert V (xattrs e) name val flags) = 0"
    and "s' = s\<lparr>heap := (heap s)(a \<mapsto> e\<lparr>xattrs := fst (fskit_xattr_set_insert V (xattrs e) name val flags)\<rparr>)\<rparr>"
proof -
  obtain a where r: "fskit_entry_resolve_path V path user grp s = Some (Inr a)"
    using S by (auto simp: fskit_setxattr_def elim!: resolve_okE)
  have u: "fskit_run_user_setxattr V path a name val flags s = Some (1, s)"
    by (simp add: fskit_run_user_setxattr_def fskit_route_call_setxattr_def fskit_route_call_def m EPERM_def)
  obtain e where e: "heap s a = Some e" using resolve_path_live [OF r] by blast
  obtain t rc where i: "fskit_xattr_set_insert V (xattrs e) name val flags = (t, rc)"
    by (cases "fskit_xattr_set_insert V (xattrs e) name val flags")
  have "rc = 0 \<and> s' = s\<lparr>heap := (heap s)(a \<mapsto> e\<lparr>xattrs := t\<rparr>)\<rparr>"
    using S r u e i by (auto simp: fskit_setxattr_def fskit_fsetxattr_def fskit_xattr_fsetxattr_def upd_simp errno_defs
        split: if_splits)
  then show ?thesis using that [OF r e] i by simp
qed

lemma getxattr_value:
  assumes r: "fskit_entry_resolve_path V path user grp s = Some (Inr a)" and e: "heap s a = Some e"
    and v: "fskit_xattr_set_find (xattrs e) name = Some v" and l: "length v < 2 ^ 31"
    and m: "fskit_route_match V (routes s) FSKIT_ROUTE_MATCH_GETXATTR path = Some None"
  shows "fskit_getxattr V path user grp name None n s = Some (int (length v), None, s)"
    and "length v \<le> length b \<Longrightarrow> b \<noteq> [] \<Longrightarrow>
      fskit_getxattr V path user grp name (Some b) (length b) s =
        Some (int (length v), Some (v @ drop (length v) b), s)"
    and "length b < length v \<Longrightarrow> b \<noteq> [] \<Longrightarrow>
      fskit_getxattr V path user grp name (Some b) (length b) s = Some (- ERANGE, Some b, s)"
proof -
  have w: "wrap32 (int (length v)) = int (length v)" using l by (simp add: wrap32_def)
  have u: "fskit_run_user_getxattr V path a name buf z s = Some (0, buf, s)" for buf z
    by (cases buf) (simp_all add: fskit_run_user_getxattr_def fskit_route_call_getxattr_def fskit_route_call_def m
        EPERM_def fskit_route_getxattr_args_def buf_bytes_def)
  note d = fskit_getxattr_def fskit_fgetxattr_def fskit_xattr_fgetxattr_def
  show "fskit_getxattr V path user grp name None n s = Some (int (length v), None, s)"
    by (simp add: d r u e v w)
  show "length v \<le> length b \<Longrightarrow> b \<noteq> [] \<Longrightarrow>
      fskit_getxattr V path user grp name (Some b) (length b) s =
        Some (int (length v), Some (v @ drop (length v) b), s)"
    by (simp add: d r u e v w buf_copy_def)
  show "length b < length v \<Longrightarrow> b \<noteq> [] \<Longrightarrow>
      fskit_getxattr V path user grp name (Some b) (length b) s = Some (- ERANGE, Some b, s)"
    by (simp add: d r u e v)
qed

lemma setxattr_then_getxattr:
  assumes S: "fskit_setxattr V path user grp name val flags s = Some (0, s')"
    and m: "fskit_route_match V (routes s) FSKIT_ROUTE_MATCH_SETXATTR path = Some None"
      "fskit_route_match V (routes s) FSKIT_ROUTE_MATCH_GETXATTR path = Some None"
    and ok: "\<And>a e. heap s a = Some e \<Longrightarrow> xs_ok (xattrs e)"
    and l: "length val < 2 ^ 31" "length val \<le> length b" "b \<noteq> []"
  shows "fskit_getxattr V path user grp name (Some b) (length b) s' =
    Some (int (length val), Some (val @ drop (length val) b), s')"
proof -
  obtain a e where r: "fskit_entry_resolve_path V path user grp s = Some (Inr a)" and e: "heap s a = Some e"
    and i: "snd (fskit_xattr_set_insert V (xattrs e) name val flags) = 0"
    and s': "s' = s\<lparr>heap := (heap s)(a \<mapsto> e\<lparr>xattrs := fst (fskit_xattr_set_insert V (xattrs e) name val flags)\<rparr>)\<rparr>"
    using setxattr_effect [OF S m(1)] by blast
  have "fskit_entry_resolve_path V path user grp s' = Some (Inr a)"
    using resolve_path_frame [of s' s V path user grp] r e by (auto simp: s' walk_view_def)
  moreover have "fskit_xattr_set_find (fst (fskit_xattr_set_insert V (xattrs e) name val flags)) name = Some val"
    using xattr_set_insert_ok [OF ok [OF e], of V name val flags] i by (simp add: prod_eq_iff find_xs_map)
  ultimately show ?thesis
    using getxattr_value(2) [of V path user grp s' a _ name val b] m(2) l by (simp add: s')
qed

text \<open>The list of names: every name that is set, in order, each with its NUL.\<close>

lemma listxattr_len_copy: "listxattr_len xs = int (length (listxattr_copy xs))"
  by (induction xs) auto

lemma listxattr_copy_concat: "listxattr_copy xs = concat (map (\<lambda>x. xs_name x @ [NUL]) xs)"
  by (induction xs) auto

lemma listxattr_names:
  assumes r: "fskit_entry_resolve_path V path user grp s = Some (Inr a)" and e: "heap s a = Some e"
    and m: "fskit_route_match V (routes s) FSKIT_ROUTE_MATCH_LISTXATTR path = Some None"
    and ok: "xs_ok (xattrs e)"
  obtains names where "sorted_wrt (<) names" and "set names = dom (xs_map (xattrs e))"
    and "length (concat (map (\<lambda>n. n @ [NUL]) names)) < 2 ^ 31 \<Longrightarrow>
      fskit_listxattr V path user grp None z s = Some (int (length (concat (map (\<lambda>n. n @ [NUL]) names))), None, s)"
    and "length (concat (map (\<lambda>n. n @ [NUL]) names)) < 2 ^ 31 \<Longrightarrow> b \<noteq> [] \<Longrightarrow>
      fskit_listxattr V path user grp (Some b) (length b) s =
        (let out = concat (map (\<lambda>n. n @ [NUL]) names) in
         if length out \<le> length b then Some (int (length out), Some (out @ drop (length out) b), s)
         else Some (- ERANGE, Some b, s))"
proof -
  let ?names = "map xs_name (inorder (xattrs e))"
  let ?out = "concat (map (\<lambda>n. n @ [NUL]) ?names)"
  have o: "?out = listxattr_copy (inorder (xattrs e))" by (simp add: listxattr_copy_concat comp_def)
  have u: "fskit_run_user_listxattr V path a buf z s = Some (0, buf, s)" for buf z
    by (cases buf) (simp_all add: fskit_run_user_listxattr_def fskit_route_call_listxattr_def fskit_route_call_def m
        EPERM_def fskit_route_listxattr_args_def buf_bytes_def)
  have w: "wrap32 (int (length ?out)) = int (length ?out)" if "length ?out < 2 ^ 31" using that by (simp add: wrap32_def)
  note d = fskit_listxattr_def fskit_flistxattr_def fskit_xattr_flistxattr_def fskit_listxattr_len_def
    listxattr_len_copy fskit_listxattr_copy_names_def
  show ?thesis
  proof (rule that [of ?names])
    show "sorted_wrt (<) ?names" using xs_ok_bst [OF ok] by (simp add: bst_def sorted_wrt_map)
    show "set ?names = dom (xs_map (xattrs e))"
      using dom_tree_map [of xs_name "xattrs e"] by (auto simp: xs_map_def dom_def)
    show "fskit_listxattr V path user grp None z s = Some (int (length ?out), None, s)" if "length ?out < 2 ^ 31"
      using w [OF that] by (simp add: d r u e o del: map_map)
    show "fskit_listxattr V path user grp (Some b) (length b) s =
        (let out = ?out in
         if length out \<le> length b then Some (int (length out), Some (out @ drop (length out) b), s)
         else Some (- ERANGE, Some b, s))" if "length ?out < 2 ^ 31" "b \<noteq> []"
      using w [OF that(1)] that by (simp add: d r u e o buf_copy_def Let_def del: map_map)
  qed
qed

text \<open>What the flags refuse; the attributes stay as they are.\<close>

lemma setxattr_refused:
  assumes r: "fskit_entry_resolve_path V path user grp s = Some (Inr a)" and e: "heap s a = Some e"
    and m: "fskit_route_match V (routes s) FSKIT_ROUTE_MATCH_SETXATTR path = Some None" and ok: "xs_ok (xattrs e)"
  shows "has_flag flags XATTR_CREATE \<Longrightarrow> \<not> has_flag flags XATTR_REPLACE \<Longrightarrow> xs_map (xattrs e) name \<noteq> None \<Longrightarrow>
      fskit_setxattr V path user grp name val flags s = Some (- EEXIST, s)"
    and "has_flag flags XATTR_REPLACE \<Longrightarrow> \<not> has_flag flags XATTR_CREATE \<Longrightarrow> xs_map (xattrs e) name = None \<Longrightarrow>
      xattrs e \<noteq> Leaf \<Longrightarrow> fskit_setxattr V path user grp name val flags s = Some (- ENODATA, s)"
    and "has_flag flags XATTR_REPLACE \<Longrightarrow> has_flag flags XATTR_CREATE \<Longrightarrow>
      fskit_setxattr V path user grp name val flags s = Some (- EINVAL, s)"
proof -
  have u: "fskit_run_user_setxattr V path a name val flags s = Some (1, s)"
    by (simp add: fskit_run_user_setxattr_def fskit_route_call_setxattr_def fskit_route_call_def m EPERM_def)
  have f: "find_member xattr_set_cmp (xs_lookup_node name) (xattrs e) = tree_map xs_name (xattrs e) name"
    using xs.find_member_tree_map [OF xs_ok_bst [OF ok], of "xs_lookup_node name"] by simp
  have x: "xs_map (xattrs e) name = None \<longleftrightarrow> tree_map xs_name (xattrs e) name = None" by (simp add: xs_map_def)
  have keep: "upd a (\<lambda>e. fst (fskit_xattr_fsetxattr V e name val flags)) s = Some s"
    if "fskit_xattr_set_insert V (xattrs e) name val flags = (xattrs e, rc)" for rc
    using that e by (simp add: upd_simp fskit_xattr_fsetxattr_def fun_upd_idem)
  note d = fskit_setxattr_def fskit_fsetxattr_def
  show "fskit_setxattr V path user grp name val flags s = Some (- EEXIST, s)"
    if c: "has_flag flags XATTR_CREATE" "\<not> has_flag flags XATTR_REPLACE" "xs_map (xattrs e) name \<noteq> None"
  proof -
    have "xattrs e \<noteq> Leaf" using c(3) by (auto simp: xs_map_def)
    then have i: "fskit_xattr_set_insert V (xattrs e) name val flags = (xattrs e, - EEXIST)"
      using c f x by (simp add: fskit_xattr_set_insert_def)
    show ?thesis using c keep [OF i] by (simp add: d r u e) (simp add: fskit_xattr_fsetxattr_def i errno_defs)
  qed
  show "fskit_setxattr V path user grp name val flags s = Some (- ENODATA, s)"
    if c: "has_flag flags XATTR_REPLACE" "\<not> has_flag flags XATTR_CREATE" "xs_map (xattrs e) name = None" "xattrs e \<noteq> Leaf"
  proof -
    have i: "fskit_xattr_set_insert V (xattrs e) name val flags = (xattrs e, - ENODATA)"
      using c f x by (simp add: fskit_xattr_set_insert_def)
    show ?thesis using c keep [OF i] by (simp add: d r u e) (simp add: fskit_xattr_fsetxattr_def i errno_defs)
  qed
  show "fskit_setxattr V path user grp name val flags s = Some (- EINVAL, s)"
    if "has_flag flags XATTR_REPLACE" "has_flag flags XATTR_CREATE"
    using that by (simp add: d r)
qed

text \<open>Without a route, removing an attribute reports success and removes nothing.\<close>

lemma removexattr_no_route:
  assumes "fskit_entry_resolve_path V path user grp s = Some (Inr a)"
    and "fskit_route_match V (routes s) FSKIT_ROUTE_MATCH_REMOVEXATTR path = Some None"
  shows "fskit_removexattr V path user grp name s = Some (0, s)"
  using assms by (simp add: fskit_removexattr_def fskit_fremovexattr_def fskit_run_user_removexattr_def
      fskit_route_call_removexattr_def fskit_route_call_def)

text \<open>When the route hands the request back, the attribute is removed, and only that one.\<close>

lemma fremovexattr_effect:
  assumes "fskit_run_user_removexattr V path a name s = Some (1, s1)" and "heap s1 a = Some e" and ok: "xs_ok (xattrs e)"
  shows "\<exists>t. fskit_fremovexattr V path a name s =
      Some (if xs_map (xattrs e) name = None then - ENODATA else 0, s1\<lparr>heap := (heap s1)(a \<mapsto> e\<lparr>xattrs := t\<rparr>)\<rparr>) \<and>
    xs_ok t \<and> xs_map t = (xs_map (xattrs e))(name := None)"
proof -
  obtain t b where i: "fskit_xattr_set_remove (xattrs e) name = (t, b)" by (cases "fskit_xattr_set_remove (xattrs e) name")
  note xattr_set_remove_ok [OF ok i]
  then show ?thesis
    using assms(1,2) i by (auto simp: fskit_fremovexattr_def fskit_xattr_fremovexattr_def upd_simp)
qed

end
