(* ===== verification/Rename.thy ===== *)
theory Rename
  imports Xattrs
begin

text \<open>
  Renaming (\<open>libfskit/rename.c\<close>). The set of inodes on the way to the new parent is a red-black tree
  of inode numbers. Two things about it are kept as they are in the code: the members are allocated
  zeroed and their number is never filled in, and the membership test looks up the number 0 whatever
  it is asked. The errors of detaching and attaching are ignored, as in the code.
\<close>

subsection \<open>The inode set\<close>

definition inode_set_cmp :: "u64 \<Rightarrow> u64 \<Rightarrow> int" where
  "inode_set_cmp i1 i2 = (if i1 < i2 then -1 else if i1 = i2 then 0 else 1)"

interpretation inode_set: sglib_comparator inode_set_cmp "\<lambda>i. i"
  by unfold_locales (auto simp: inode_set_cmp_def)

definition fskit_inode_set_contains :: "u64 rbtree \<Rightarrow> u64 \<Rightarrow> bool" where
  "fskit_inode_set_contains inode_set fid = (find_member inode_set_cmp 0 inode_set \<noteq> None)"

definition fskit_entry_resolve_inodes_cb :: "env \<Rightarrow> (u64 rbtree) ent_eval" where
  "fskit_entry_resolve_inodes_cb V fent inode_set s =
     (if inode_set = Leaf \<and> \<not> mem_ok V ''fskit_entry_resolve_inodes_cb set'' then Some (- ENOMEM, inode_set, s)
      else
        let new_inode_set = (inode_set = Leaf);
            inode_set = (if new_inode_set then Node BLACK Leaf 0 Leaf else inode_set)
        in
          if \<not> mem_ok V ''fskit_entry_resolve_inodes_cb member'' then Some (- ENOMEM, inode_set, s)
          else do {
            f \<leftarrow> heap s fent;
            if \<not> new_inode_set \<and> find_member inode_set_cmp (file_id f) inode_set \<noteq> None then None
            else Some (0, sglib_add inode_set_cmp (ev_inode_ptr_less V) 0 inode_set, s)
          })"

definition fskit_entry_resolve_inodes ::
    "env \<Rightarrow> string \<Rightarrow> u64 \<Rightarrow> u64 \<Rightarrow> fs \<Rightarrow> ((int + addr) \<times> u64 rbtree) option" where
  "fskit_entry_resolve_inodes V path user grp s =
     do {
       (r, inode_set, _) \<leftarrow>
          fskit_entry_resolve_path_cls V (Some (fskit_entry_resolve_inodes_cb V)) path user grp Leaf s;
       Some (r, inode_set)
     }"

subsection \<open>Renaming\<close>

definition fskit_run_user_rename ::
    "env \<Rightarrow> string \<Rightarrow> addr \<Rightarrow> addr \<Rightarrow> string \<Rightarrow> addr \<Rightarrow> addr option \<Rightarrow> fs \<Rightarrow> (int \<times> fs) option" where
  "fskit_run_user_rename V path old_parent old_fent new_path new_parent dest s =
     do {
       name \<leftarrow> name_buf path;
       (rc, cbrc, da, s) \<leftarrow> fskit_route_call_rename V path (Some old_fent)
          (fskit_route_rename_args (Some old_parent) name new_path (Some new_parent) dest) s;
       if rc = - EPERM \<or> rc = - ENOSYS then Some (0, s) else Some (cbrc, s)
     }"

definition fskit_entry_rename_in_directory ::
    "env \<Rightarrow> addr \<Rightarrow> addr \<Rightarrow> string \<Rightarrow> string \<Rightarrow> fs \<Rightarrow> (int \<times> fs) option" where
  "fskit_entry_rename_in_directory V fent_parent fent old_name new_name s =
     do {
       p \<leftarrow> heap s fent_parent;
       if fskit_entry_set_find_name (children p) old_name \<noteq> Some fent then Some (- ENOENT, s)
       else do {
         s \<leftarrow> upd fent_parent (\<lambda>e. e\<lparr>children :=
                 (let set1 = fst (fskit_entry_set_remove (children e) old_name);
                      set2 = fst (fskit_entry_set_remove set1 new_name)
                  in fst (fskit_entry_set_insert V set2 new_name fent))\<rparr>) s;
         Some (0, s)
       }
     }"

text \<open>
  The parents of the two paths: the deeper path's parent is resolved first, the new one's with the
  inode set. Two equal parents are one common parent. The result has the old and the new parent,
  the two error codes and the inode set.
\<close>

definition rename_parents ::
    "env \<Rightarrow> string \<Rightarrow> string \<Rightarrow> string \<Rightarrow> string \<Rightarrow> u64 \<Rightarrow> u64 \<Rightarrow> fs \<Rightarrow>
     (addr option \<times> addr option \<times> int \<times> int \<times> u64 rbtree) option" where
  "rename_parents V old_path new_path dir_old dir_new user grp s =
     (let err = (\<lambda>r. case r of Inl rc \<Rightarrow> rc | Inr _ \<Rightarrow> 0);
          fent = (\<lambda>r. case r of Inl rc \<Rightarrow> None | Inr a \<Rightarrow> Some a) in
      if fskit_depth old_path > fskit_depth new_path then
        do {
          r \<leftarrow> fskit_entry_resolve_path V dir_old user grp s;
          (case r of
             Inl rc \<Rightarrow> Some (None, None, rc, 0, Leaf)
           | Inr old_parent \<Rightarrow>
               do {
                 (r, inodes) \<leftarrow> fskit_entry_resolve_inodes V dir_new user grp s;
                 Some (Some old_parent, fent r, 0, err r, inodes)
               })
        }
      else if fskit_depth old_path = fskit_depth new_path \<and> strcmp dir_old dir_new = 0 then
        do {
          r \<leftarrow> fskit_entry_resolve_path V dir_old user grp s;
          Some (fent r, fent r, err r, 0, Leaf)
        }
      else
        do {
          (rn, inodes) \<leftarrow> fskit_entry_resolve_inodes V dir_new user grp s;
          ro \<leftarrow> fskit_entry_resolve_path V dir_old user grp s;
          Some (fent ro, fent rn, err ro, err rn, inodes)
        })"

definition rename_check :: "entry \<Rightarrow> entry option \<Rightarrow> u64 rbtree \<Rightarrow> int" where
  "rename_check old new inodes =
     (case new of
        None \<Rightarrow> 0
      | Some n \<Rightarrow>
          let err = (if etype n \<noteq> etype old then (if etype n = T_DIR then - EISDIR else - ENOTDIR) else 0);
              err = (if etype n = T_DIR \<and> num_children n > 0 then - ENOTEMPTY else err)
          in if err = 0 \<and> inodes \<noteq> Leaf \<and> fskit_inode_set_contains inodes (file_id n) then - EINVAL
             else err)"

definition rename_perform ::
    "env \<Rightarrow> string \<Rightarrow> addr \<Rightarrow> string \<Rightarrow> addr \<Rightarrow> string \<Rightarrow> addr \<Rightarrow> addr option \<Rightarrow> fs \<Rightarrow> (int \<times> fs) option"
where
  "rename_perform V new_path old_parent old_name new_parent new_name fent_old fent_new s =
     do {
       (_, s) \<leftarrow> fskit_entry_detach_lowlevel V old_parent old_name s;
       s \<leftarrow> (case fent_new of
               None \<Rightarrow> Some s
             | Some _ \<Rightarrow> do { (_, s) \<leftarrow> fskit_entry_detach_lowlevel V new_parent new_name s; Some s });
       (_, s) \<leftarrow> fskit_entry_attach_lowlevel V new_parent fent_old new_name s;
       (case fent_new of
          None \<Rightarrow> Some (0, s)
        | Some n \<Rightarrow>
            do {
              s \<leftarrow> upd n (\<lambda>e. e\<lparr>deletion_through_rename := True\<rparr>) s;
              (rc, s) \<leftarrow> fskit_entry_try_destroy_and_free V new_path (Some new_parent) n s;
              s \<leftarrow> (if rc = 0 then upd n (\<lambda>e. e\<lparr>deletion_through_rename := False\<rparr>) s else Some s);
              Some (0, s)
            })
     }"

definition fskit_rename :: "env \<Rightarrow> string \<Rightarrow> string \<Rightarrow> u64 \<Rightarrow> u64 \<Rightarrow> fs \<Rightarrow> (int \<times> fs) option" where
  "fskit_rename V old_path new_path user grp s =
     (if fskit_basename_len old_path > FSKIT_FILESYSTEM_NAMEMAX then Some (- ENAMETOOLONG, s)
      else if fskit_basename_len new_path > FSKIT_FILESYSTEM_NAMEMAX then Some (- ENAMETOOLONG, s)
      else do {
        dir_old \<leftarrow> fskit_dirname old_path;
        dir_new \<leftarrow> fskit_dirname new_path;
        (old_parent, new_parent, err_old, err_new, inodes) \<leftarrow>
          rename_parents V old_path new_path dir_old dir_new user grp s;
        if err_new \<noteq> 0 then Some (err_new, s)
        else if err_old \<noteq> 0 then Some (err_old, s)
        else do {
          old_parent \<leftarrow> old_parent;
          new_parent \<leftarrow> new_parent;
          op \<leftarrow> heap s old_parent;
          np \<leftarrow> heap s new_parent;
          if \<not> FSKIT_ENTRY_IS_DIR_SEARCHABLE np user grp \<or> \<not> FSKIT_ENTRY_IS_WRITEABLE np user grp \<or>
             \<not> FSKIT_ENTRY_IS_DIR_SEARCHABLE op user grp \<or> \<not> FSKIT_ENTRY_IS_WRITEABLE op user grp
          then Some (- EACCES, s)
          else
            let new_name = fskit_basename new_path;
                old_name = fskit_basename old_path;
                fent_new = fskit_entry_set_find_name (children np) new_name in
            (case fskit_entry_set_find_name (children op) old_name of
               None \<Rightarrow> Some (- ENOENT, s)
             | Some fent_old \<Rightarrow>
                 if fent_new = Some fent_old then Some (0, s)
                 else do {
                   old \<leftarrow> heap s fent_old;
                   new \<leftarrow> (case fent_new of
                             None \<Rightarrow> Some None
                           | Some n \<Rightarrow> do { e \<leftarrow> heap s n; Some (Some e) });
                   let err = rename_check old new inodes in
                   if err \<noteq> 0 then Some (err, s)
                   else do {
                     (err, s) \<leftarrow> fskit_run_user_rename V old_path old_parent fent_old new_path new_parent fent_new s;
                     if err \<noteq> 0 then Some (err, s)
                     else rename_perform V new_path old_parent old_name new_parent new_name fent_old fent_new s
                   }
                 })
        }
      })"

subsection \<open>The invariant\<close>

lemma wp_run_user_rename [wp]:
  assumes "rinv L R s" and Q: "\<And>rc s'. rinv L R s' \<Longrightarrow> attr_frame s s' \<Longrightarrow> Q (rc, s')"
  shows "post Q (fskit_run_user_rename V path op f np n d s)"
  unfolding fskit_run_user_rename_def by (insert assms(1)) (assumption | rule vc wp Q)+

lemma wp_rename_perform [wp]:
  assumes "rinv L R s" and Q: "\<And>rc s'. rinv L R s' \<Longrightarrow> Q (rc, s')"
  shows "post Q (rename_perform V path op on np nn f n s)"
  unfolding rename_perform_def
  by (insert assms(1)) (assumption | rule vc wp Q | rule wp_upd_frame | (simp; fail))+

lemma wp_rename [wp]:
  assumes "rinv L R s" and Q: "\<And>rc s'. rinv L R s' \<Longrightarrow> Q (rc, s')"
  shows "post Q (fskit_rename V old new user grp s)"
  unfolding fskit_rename_def
  by (insert assms(1)) (assumption | rule vc wp Q post_prod | (rule post_any))+

lemma inv_rename: "rinv L R s \<Longrightarrow> fskit_rename V old new user grp s = Some (rc, s') \<Longrightarrow> rinv L R s'"
  using postD [OF wp_rename [where Q = "\<lambda>(rc, s'). rinv L R s'"]] by auto

subsection \<open>Renaming within a directory\<close>

lemma run_user_rename_no_route:
  assumes "fskit_route_match V (routes s) FSKIT_ROUTE_MATCH_RENAME path = Some None" and "name_fits path"
  shows "fskit_run_user_rename V path op f np n d s = Some (0, s)"
  using assms by (simp add: fskit_run_user_rename_def name_buf_Some fskit_route_call_rename_def fskit_route_call_def)

lemma entry_set_move:
  assumes "es_ok t" and "es_map t old = Some a" and "es_map t new = None" and "old \<noteq> ''.''" and "old \<noteq> ''..''"
    and m: "mem_ok V ''fskit_entry_set_insert''"
  shows "snd (fskit_entry_set_remove t old)"
    and "es_map (fst (fskit_entry_set_insert V (fst (fskit_entry_set_remove t old)) new a)) = (es_map t)(old := None, new \<mapsto> a)"
proof -
  let ?t = "fst (fskit_entry_set_remove t old)"
  have r: "es_ok ?t \<and> es_map ?t = (es_map t)(old := None) \<and> snd (fskit_entry_set_remove t old) = (es_map t old \<noteq> None)"
    using entry_set_remove_ok [OF assms(1,4,5), of ?t "snd (fskit_entry_set_remove t old)"] by simp
  then show "snd (fskit_entry_set_remove t old)" using assms(2) by simp
  obtain u where u: "fskit_entry_set_insert V ?t new a = (u, 0)" using m by (simp add: fskit_entry_set_insert_def)
  have "es_map ?t new = None" using r assms(3) by simp
  then show "es_map (fst (fskit_entry_set_insert V ?t new a)) = (es_map t)(old := None, new \<mapsto> a)"
    using entry_set_insert_ok [OF _ _ u] r u by simp
qed

lemma rename_in_dir:
  assumes I: "rinv L R s"
    and n: "name_fits old_path" "name_fits new_path"
    and d: "fskit_dirname old_path = Some d" "fskit_dirname new_path = Some d"
    and depth: "fskit_depth old_path = fskit_depth new_path"
    and r: "fskit_entry_resolve_path V d user grp s = Some (Inr parent)" and p: "heap s parent = Some p"
    and perm: "FSKIT_ENTRY_IS_DIR_SEARCHABLE p user grp" "FSKIT_ENTRY_IS_WRITEABLE p user grp"
    and ok: "es_ok (children p)" "es_map (children p) (fskit_basename old_path) = Some a"
      "es_map (children p) (fskit_basename new_path) = None"
    and dots: "fskit_basename old_path \<noteq> ''.''" "fskit_basename old_path \<noteq> ''..''" and ne: "a \<noteq> parent"
    and c: "heap s a = Some c" "etype c = T_DIR \<longrightarrow> fskit_entry_get_num_children c \<le> 2"
    and route: "fskit_route_match V (routes s) FSKIT_ROUTE_MATCH_RENAME old_path = Some None"
    and mem: "mem_ok V ''fskit_entry_set_insert''"
  obtains s' p' c' where "fskit_rename V old_path new_path user grp s = Some (0, s')"
    and "heap s' parent = Some p'"
    and "es_map (children p') = (es_map (children p))(fskit_basename old_path := None, fskit_basename new_path \<mapsto> a)"
    and "num_children p' = num_children p" and "heap s' a = Some c'" and "link_count c' = link_count c"
    and "\<And>b. b \<noteq> a \<Longrightarrow> b \<noteq> parent \<Longrightarrow> heap s' b = heap s b"
proof -
  let ?old = "fskit_basename old_path" and ?new = "fskit_basename new_path"
  have fo: "fskit_entry_set_find_name (children p) ?old = Some a" and fn: "fskit_entry_set_find_name (children p) ?new = None"
    using ok by (simp_all add: find_name_es_map)
  note mv = entry_set_move [OF ok dots mem]
  let ?p1 = "detach_parent V ?old p" and ?c1 = "detach_child c"
  let ?s1 = "s\<lparr>heap := (heap s)(parent \<mapsto> ?p1, a \<mapsto> ?c1)\<rparr>"
  have D: "fskit_entry_detach_lowlevel V parent ?old s = Some (0, ?s1)"
    by (rule detach_effect [OF p fo _ c(1) _ mv(1)]) (use c ne in auto)
  let ?p2 = "attach_parent V a ?new ?p1" and ?c2 = "attach_child V parent ?c1"
  let ?s2 = "?s1\<lparr>heap := (heap ?s1)(a \<mapsto> ?c2, parent \<mapsto> ?p2)\<rparr>"
  have A: "\<exists>rc. fskit_entry_attach_lowlevel V parent a ?new ?s1 = Some (rc, ?s2)"
    using attach_effect [of parent a ?s1 ?p1 ?c1 V ?new] ne by auto
  have l: "1 \<le> link_count c"
    using inv_link_heap [OF I p, of a] find_name_link [OF fo dots ne] c(1) by auto
  have perf: "rename_perform V new_path parent ?old parent ?new a None s = Some (0, ?s2)"
    using D A by (auto simp: rename_perform_def)
  have "rename_parents V old_path new_path d d user grp s = Some (Some parent, Some parent, 0, 0, Leaf)"
    by (simp add: rename_parents_def Let_def depth r)
  then have "fskit_rename V old_path new_path user grp s = Some (0, ?s2)"
    using n d p perm fo fn c perf run_user_rename_no_route [OF route n(1)]
    by (simp add: fskit_rename_def name_fits_def rename_check_def)
  then show ?thesis
  proof (rule that)
    show "heap ?s2 parent = Some ?p2" by simp
    show "es_map (children ?p2) = (es_map (children p))(?old := None, ?new \<mapsto> a)"
      using mv(2) by (simp add: attach_parent_def detach_parent_def)
    show "num_children ?p2 = num_children p" by (simp add: attach_parent_def detach_parent_def)
    show "heap ?s2 a = Some ?c2" using ne by simp
    show "link_count ?c2 = link_count c" using l by (simp add: attach_child_def detach_child_def)
    show "heap ?s2 b = heap s b" if "b \<noteq> a" "b \<noteq> parent" for b using that by simp
  qed
qed

subsection \<open>The inode set forgets its members\<close>

definition zeros :: "u64 rbtree \<Rightarrow> bool" where
  "zeros t = (t \<noteq> Leaf \<and> set (inorder t) \<subseteq> {0})"

lemma zeros_contains: "zeros t \<Longrightarrow> fskit_inode_set_contains t fid"
  by (cases t) (auto simp: zeros_def fskit_inode_set_contains_def inode_set_cmp_def)

lemma resolve_inodes_cb_zeros:
  assumes "fskit_entry_resolve_inodes_cb V a t s = Some (0, t', s')" and "t = Leaf \<or> zeros t"
  shows "zeros t' \<and> s' = s"
proof -
  let ?t = "if t = Leaf then Node BLACK Leaf 0 Leaf else t"
  have "set (inorder ?t) \<subseteq> {0}" using assms(2) by (auto simp: zeros_def)
  then have "set (inorder (sglib_add inode_set_cmp (ev_inode_ptr_less V) 0 ?t)) \<subseteq> {0}" by (simp add: set_sglib_add)
  moreover have "inorder (sglib_add inode_set_cmp (ev_inode_ptr_less V) 0 ?t) \<noteq> []"
    using set_sglib_add [of inode_set_cmp "ev_inode_ptr_less V" 0 ?t] by (metis empty_set insert_not_empty)
  moreover have "t' = sglib_add inode_set_cmp (ev_inode_ptr_less V) 0 ?t" "s' = s"
    using assms(1) by (auto simp: fskit_entry_resolve_inodes_cb_def Let_def bind_eq_Some ENOMEM_def split: if_splits)
  ultimately show ?thesis by (auto simp: zeros_def)
qed

lemma resolve_walk_zeros:
  "resolve_walk (Some (fskit_entry_resolve_inodes_cb V)) user grp names cur t s = Some (Inr a, t', s') \<Longrightarrow>
    zeros t \<Longrightarrow> zeros t'"
proof (induction names arbitrary: cur t s)
  case Nil
  then show ?case by (subst (asm) resolve_walk.simps) (auto split: option.splits if_splits)
next
  case (Cons n ns)
  then obtain b t1 s1 where "fskit_entry_resolve_inodes_cb V b t s = Some (0, t1, s1)"
      "resolve_walk (Some (fskit_entry_resolve_inodes_cb V)) user grp ns b t1 s1 = Some (Inr a, t', s')"
    by (subst (asm) (2) resolve_walk.simps)
      (auto simp: fskit_entry_ent_eval_def split: option.splits if_splits)
  then show ?case using Cons.IH Cons.prems(2) resolve_inodes_cb_zeros by blast
qed

lemma resolve_inodes_zeros:
  assumes "fskit_entry_resolve_inodes V path user grp s = Some (Inr a, t)"
  shows "zeros t"
  using assms
  by (auto simp: fskit_entry_resolve_inodes_def fskit_entry_resolve_path_cls_def fskit_entry_ent_eval_def bind_eq_Some
      split: option.splits if_splits dest!: resolve_walk_zeros dest: resolve_inodes_cb_zeros)

lemma resolve_walk_nonzero:
  "resolve_walk ev user grp names cur cls s = Some (Inl rc, cls', s') \<Longrightarrow> rc \<noteq> 0"
proof (induction names arbitrary: cur cls s rc)
  case Nil
  then show ?case by (subst (asm) resolve_walk.simps) (auto simp: errno_defs split: option.splits if_splits)
next
  case (Cons n ns)
  show ?case
    using Cons.prems Cons.IH
    by (subst (asm) resolve_walk.simps [of _ _ _ "n # ns"])
      (auto simp: fskit_entry_ent_eval_def errno_defs split: option.splits if_splits, blast+)
qed

lemma resolve_inodes_nonzero:
  "fskit_entry_resolve_inodes V path user grp s = Some (Inl rc, t) \<Longrightarrow> rc \<noteq> 0"
  by (auto simp: fskit_entry_resolve_inodes_def fskit_entry_resolve_path_cls_def fskit_entry_ent_eval_def bind_eq_Some
      errno_defs split: option.splits if_splits dest!: resolve_walk_nonzero)

lemma rename_parents_apart:
  assumes P: "rename_parents V old_path new_path d1 d2 user grp s = Some (op, np, 0, 0, t)" and d: "d1 \<noteq> d2"
  obtains a b where "op = Some a" and "np = Some b" and "fskit_entry_resolve_path V d1 user grp s = Some (Inr a)"
    and "fskit_entry_resolve_inodes V d2 user grp s = Some (Inr b, t)"
proof -
  obtain r where r: "fskit_entry_resolve_path V d1 user grp s = Some r"
    using P by (auto simp: rename_parents_def Let_def bind_eq_Some split: if_splits)
  obtain a where a: "r = Inr a"
    using P r d resolve_path_err [of V d1 user grp s]
    by (cases r) (force simp: rename_parents_def Let_def bind_eq_Some split: if_splits)+
  obtain q u where q: "fskit_entry_resolve_inodes V d2 user grp s = Some (q, u)"
    using P r a d by (auto simp: rename_parents_def Let_def bind_eq_Some split: if_splits)
  obtain b where b: "q = Inr b"
    using P r a q d resolve_inodes_nonzero [of V d2 user grp s]
    by (cases q) (auto simp: rename_parents_def Let_def split: if_splits)
  show ?thesis
    by (rule that [of a b]) (use P r a q b d in \<open>auto simp: rename_parents_def Let_def split: if_splits\<close>)
qed

text \<open>So renaming onto an existing entry of another directory never succeeds.\<close>

lemma rename_over_other_dir:
  assumes d: "fskit_dirname old_path = Some d1" "fskit_dirname new_path = Some d2" "d1 \<noteq> d2"
    and r: "fskit_entry_resolve_path V d1 user grp s = Some (Inr a)"
      "fskit_entry_resolve_inodes V d2 user grp s = Some (Inr b, t)"
    and h: "heap s a = Some p" "heap s b = Some q"
    and f: "fskit_entry_set_find_name (children p) (fskit_basename old_path) = Some x"
      "fskit_entry_set_find_name (children q) (fskit_basename new_path) = Some y" "x \<noteq> y"
  shows "fskit_rename V old_path new_path user grp s \<noteq> Some (0, s')"
proof
  assume R: "fskit_rename V old_path new_path user grp s = Some (0, s')"
  have z: "zeros t" by (rule resolve_inodes_zeros [OF r(2)])
  have P: "rename_parents V old_path new_path d1 d2 user grp s = Some (Some a, Some b, 0, 0, t)"
    using r d(3) by (simp add: rename_parents_def Let_def)
  have c: "rename_check e (Some n) t \<noteq> 0" for e n
    using z zeros_contains [OF z] by (auto simp: rename_check_def Let_def zeros_def errno_defs)
  show False
    using R d P h f c
    by (auto simp: fskit_rename_def Let_def bind_eq_Some errno_defs split: if_splits)
qed

end
