(* ===== verification/Cmwc.thy ===== *)
theory Cmwc
  imports Prelude
begin

text \<open>
  The pseudo-random generator of \<open>libfskit/random.c\<close>, which picks the offsets that \<open>telldir\<close> hands
  out: a complementary multiply-with-carry generator with 4096 lagged words. The state is the static
  variables of the file and of the function. \<open>fskit_random_init\<close> fills the words from \<open>/dev/urandom\<close>;
  what the calls on that device give is a parameter. The library's start and end (\<open>libfskit/fskit.c\<close>)
  do no more than that.

  The lemma shows that one step computes the recurrence of the method, a division with remainder by
  \<open>2 ^ 32 - 1\<close>, although the code never divides.
\<close>

record cmwc =
  rnd_Q :: "u32 list"
  rnd_c :: u32
  rnd_i :: u32

definition fskit_random32 :: "cmwc \<Rightarrow> u32 \<times> cmwc" where
  "fskit_random32 st =
     (let a = 18782 :: u64;
          r = 0xfffffffe :: u32;
          i = and (rnd_i st + 1) 4095;
          t = a * ucast (rnd_Q st ! unat i) + ucast (rnd_c st);
          c = ucast (drop_bit 32 t) :: u32;
          x = ucast (t + ucast c) :: u32;
          (x, c) = (if x < c then (x + 1, c + 1) else (x, c));
          Q = (rnd_Q st)[unat i := r - x]
      in (Q ! unat i, \<lparr>rnd_Q = Q, rnd_c = c, rnd_i = i\<rparr>))"

text \<open>
  The results of \<open>open\<close>, \<open>errno\<close> and \<open>read\<close> on the device, and the words that the buffer holds after the
  read, which may be short.
\<close>

record rnd_device =
  rd_fd :: int
  rd_errno :: int
  rd_nr :: int
  rd_words :: "u32 list"

definition fskit_random_init :: "rnd_device \<Rightarrow> cmwc \<Rightarrow> int \<times> cmwc" where
  "fskit_random_init dv st =
     (if rd_fd dv < 0 then (- rd_errno dv, st)
      else if rd_nr dv < 0 then (- rd_errno dv, st)
      else
        let st = st\<lparr>rnd_Q := rd_words dv\<rparr> in
        if rd_nr dv \<noteq> 4096 * 4 then (- ENODATA, st) else (0, st))"

definition fskit_library_init :: "rnd_device \<Rightarrow> cmwc \<Rightarrow> int \<times> cmwc" where
  "fskit_library_init dv st =
     (let (rc, st) = fskit_random_init dv st in if rc \<noteq> 0 then (rc, st) else (0, st))"

definition fskit_library_shutdown :: int where
  "fskit_library_shutdown = 0"

definition rnd_ok :: "cmwc \<Rightarrow> bool" where
  "rnd_ok st = (length (rnd_Q st) = 4096)"

text \<open>One multiply-with-carry step on natural numbers.\<close>

lemma cmwc_step:
  fixes q c :: u32
  defines "t \<equiv> 18782 * ucast q + ucast c :: u64"
  defines "c1 \<equiv> ucast (drop_bit 32 t) :: u32"
  defines "x1 \<equiv> ucast (t + ucast c1) :: u32"
  shows "18782 * unat q + unat c =
    unat (if x1 < c1 then c1 + 1 else c1) * (2 ^ 32 - 1) + unat (if x1 < c1 then x1 + 1 else x1)"
proof -
  have q: "unat q < 2 ^ 32" "unat c < 2 ^ 32" using unsigned_less [of q] unsigned_less [of c] by simp_all
  have t: "unat t = 18782 * unat q + unat c"
    unfolding t_def using q by (simp add: unat_word_ariths unsigned_ucast_eq take_bit_eq_mod)
  let ?lo = "unat t mod 2 ^ 32" and ?h = "unat t div 2 ^ 32"
  have h: "?h \<le> 18782" using t q by (auto simp: less_mult_imp_div_less)
  have c1: "unat c1 = ?h" proof -
    have "unat (drop_bit 32 t) = ?h" by (simp only: unat_drop_bit_eq) (simp add: drop_bit_eq_div)
    then show ?thesis unfolding c1_def using h by (simp add: unsigned_ucast_eq take_bit_eq_mod)
  qed
  have x1: "unat x1 = (?lo + ?h) mod 2 ^ 32"
  proof -
    have "unat t + ?h < 2 ^ 64" using t q h by simp
    then have "unat (t + ucast c1) = unat t + ?h"
      using c1 h by (simp add: unat_word_ariths unsigned_ucast_eq take_bit_eq_mod)
    then show ?thesis unfolding x1_def by (simp add: unsigned_ucast_eq take_bit_eq_mod mod_add_left_eq)
  qed
  obtain k l where k: "unat t = k * 2 ^ 32 + l" "l < 2 ^ 32" "k \<le> 18782" "unat c1 = k"
      "unat x1 = (l + k) mod 2 ^ 32"
    using h c1 x1 by (intro that [of ?h ?lo]) simp_all
  show ?thesis
  proof (cases "l + k < 2 ^ 32")
    case True
    then have "unat x1 = l + k" using k(5) by simp
    then have "\<not> x1 < c1" using k(4) by (simp add: word_less_nat_alt)
    then show ?thesis using k(1,4) t \<open>unat x1 = l + k\<close> by simp
  next
    case False
    then have x: "unat x1 = l + k - 2 ^ 32" using k(2,3,5) by (simp add: le_mod_geq)
    then have less: "x1 < c1" using k(2,4) False by (simp add: word_less_nat_alt)
    have "unat (c1 + 1) = k + 1" using k(3,4) by (simp add: unat_word_ariths)
    moreover have "unat (x1 + 1) = l + k - 2 ^ 32 + 1" using x k(2,3) by (simp add: unat_word_ariths)
    ultimately show ?thesis using less k(1) t False by simp
  qed
qed

lemma random32_step:
  assumes "rnd_ok st" and "fskit_random32 st = (ret, st')"
  shows "rnd_ok st' \<and> unat (rnd_i st') < 4096 \<and>
    rnd_i st' = and (rnd_i st + 1) 4095 \<and>
    rnd_Q st' = (rnd_Q st)[unat (rnd_i st') := ret] \<and>
    18782 * unat (rnd_Q st ! unat (rnd_i st')) + unat (rnd_c st) =
      unat (rnd_c st') * (2 ^ 32 - 1) + unat (0xfffffffe - ret)"
proof -
  have i: "unat (and (rnd_i st + 1) 4095) < 4096"
  proof -
    have "and (rnd_i st + 1) 4095 \<le> (4095 :: u32)" by (rule word_and_le1)
    then have "unat (and (rnd_i st + 1) 4095) \<le> unat (4095 :: u32)" by (simp add: word_le_nat_alt)
    then show ?thesis by simp
  qed
  have e: "(0xfffffffe :: u32) - (0xfffffffd - y) = y + 1" for y by (simp add: algebra_simps)
  from i show ?thesis
    using assms cmwc_step [of "rnd_Q st ! unat (and (rnd_i st + 1) 4095)" "rnd_c st"]
    by (auto simp: fskit_random32_def Let_def rnd_ok_def e split: if_splits)
qed

end
