(* ===== verification/Readdir.thy ===== *)
theory Readdir
  imports Rename Cmwc
begin

text \<open>
  Reading directories (\<open>libfskit/readdir.c\<close>). An iterator over a directory is the list of the set
  nodes it has not passed yet, in order; the pointer it stands on is the head. An open directory
  remembers the name it read last.

  The lemmas show what a read returns: the entries after the last name, without the inodes that are
  being deleted, so that consecutive reads return consecutive pages of the directory.
\<close>

definition UINT64_MAX :: nat where "UINT64_MAX = 2 ^ 64 - 1"

definition fskit_make_dir_entry :: "env \<Rightarrow> entry \<Rightarrow> string \<Rightarrow> dir_entry option" where
  "fskit_make_dir_entry V dent name =
     (if \<not> mem_ok V ''fskit_make_dir_entry'' then None
      else Some \<lparr>de_type = etype dent, de_file_id = file_id dent, de_name = take FSKIT_FILESYSTEM_NAMEMAX name\<rparr>)"

definition fskit_run_user_readdir ::
    "env \<Rightarrow> string \<Rightarrow> addr \<Rightarrow> dir_entry option list \<Rightarrow> nat \<Rightarrow> fs \<Rightarrow> (int \<times> dir_entry option list \<times> fs) option" where
  "fskit_run_user_readdir V path fent dents num_dents s =
     do {
       name \<leftarrow> name_buf path;
       (rc, cbrc, da, s) \<leftarrow> fskit_route_call_readdir V path (Some fent) (fskit_route_readdir_args name dents num_dents) s;
       if rc = - EPERM \<or> rc = - ENOSYS then Some (0, da_dents da, s) else Some (cbrc, da_dents da, s)
     }"

text \<open>Where to go on: at the last name, or at the first name after it when it is gone.\<close>

definition fskit_readdir_find_start :: "string \<Rightarrow> entry_set \<Rightarrow> es_node list" where
  "fskit_readdir_find_start curr_name set0 =
     (case fskit_entry_set_find_itr set0 curr_name of
        None \<Rightarrow> dropWhile (\<lambda>sought. \<not> strcmp curr_name (es_name sought) < 0) (inorder set0)
      | Some member \<Rightarrow> dropWhile (\<lambda>tmp. tmp \<noteq> member) (inorder set0))"

text \<open>The loop gives the entries, or the error code. \<open>n\<close> is how many entries may still be read.\<close>

fun fskit_readdir_itr :: "env \<Rightarrow> fs \<Rightarrow> addr \<Rightarrow> es_node list \<Rightarrow> nat \<Rightarrow> (int + dir_entry list) option" where
  "fskit_readdir_itr V s dent [] n = Some (Inr [])"
| "fskit_readdir_itr V s dent (entry # rest) n =
     (if n = 0 then Some (Inr [])
      else do {
        f \<leftarrow> heap s (es_dirent entry);
        if deletion_in_progress f \<or> etype f = T_DEAD then fskit_readdir_itr V s dent rest n
        else do {
          d \<leftarrow> heap s dent;
          rc \<leftarrow> (if es_name entry = ''.'' then Some 0
                else if es_name entry = ''..'' \<and> dent = es_dirent entry then Some 0
                else fskit_entry_lock (es_dirent entry) s);
          if rc \<noteq> 0 then Some (Inl rc)
          else
            (case fskit_make_dir_entry V (if es_name entry = ''.'' then d else f) (es_name entry) of
               None \<Rightarrow> Some (Inl (- ENOMEM))
             | Some dir_ent \<Rightarrow>
                 do {
                   r \<leftarrow> fskit_readdir_itr V s dent rest (n - 1);
                   Some (map_sum id ((#) dir_ent) r)
                 })
        }
      })"

definition fskit_listdir_locked :: "env \<Rightarrow> addr \<Rightarrow> fs \<Rightarrow> (int + dir_entry list) option" where
  "fskit_listdir_locked V dent s =
     do {
       d \<leftarrow> heap s dent;
       if etype d \<noteq> T_DIR then Some (Inl (- EINVAL))
       else if \<not> mem_ok V ''fskit_readdir_itr'' then Some (Inl (- ENOMEM))
       else fskit_readdir_itr V s dent (inorder (children d)) (fskit_entry_set_count (children d))
     }"

text \<open>
  The low-level read gives the handle as it leaves it, and the entries; \<open>Inr None\<close> is a NULL list
  without an error, the end of the directory. A directory without a set has no first name to copy.
\<close>

definition fskit_readdir_lowlevel ::
    "env \<Rightarrow> dir_handle \<Rightarrow> addr \<Rightarrow> nat \<Rightarrow> fs \<Rightarrow> (dir_handle \<times> (int + dir_entry list option)) option" where
  "fskit_readdir_lowlevel V dirh dent n s =
     (if dh_eof dirh then Some (dirh, Inr None)
      else do {
        d \<leftarrow> heap s dent;
        (dirh, nodes) \<leftarrow>
          (if dh_curr_name dirh = [] then
             (case inorder (children d) of
                [] \<Rightarrow> None
              | x # _ \<Rightarrow> Some (dirh\<lparr>dh_curr_name := take FSKIT_FILESYSTEM_NAMEMAX (es_name x)\<rparr>, inorder (children d)))
           else Some (dirh, tl (fskit_readdir_find_start (dh_curr_name dirh) (children d))));
        if nodes = [] then Some (dirh, Inr None)
        else if \<not> mem_ok V ''fskit_readdir_itr'' then Some (dirh, Inl (- ENOMEM))
        else do {
          r \<leftarrow> fskit_readdir_itr V s dent nodes
                 (if n = UINT64_MAX then fskit_entry_set_count (children d) else n);
          (case r of
             Inl err \<Rightarrow> Some (dirh, Inl err)
           | Inr [] \<Rightarrow> Some (dirh\<lparr>dh_eof := True\<rparr>, Inr None)
           | Inr dents \<Rightarrow> Some (dirh\<lparr>dh_curr_name := de_name (last dents)\<rparr>, Inr (Some dents)))
        }
      })"

definition fskit_seekdir :: "nat \<Rightarrow> int \<Rightarrow> fs \<Rightarrow> fs option" where
  "fskit_seekdir h loc s =
     do {
       dirh \<leftarrow> dhs s h;
       dent \<leftarrow> dh_dent dirh;
       d \<leftarrow> heap s dent;
       let dirh = fold (\<lambda>tent dirh.
             if td_offset tent = loc then
               (case fskit_readdir_find_start (dh_curr_name dirh) (children d) of
                  [] \<Rightarrow> dirh
                | x # _ \<Rightarrow> dirh\<lparr>dh_curr_name := take FSKIT_FILESYSTEM_NAMEMAX (es_name x)\<rparr>)
             else dirh) (dh_telldir dirh) dirh in
       Some (s\<lparr>dhs := (dhs s)(h \<mapsto> dirh)\<rparr>)
     }"

text \<open>\<open>hi\<close> and \<open>lo\<close> are the two random words; the order in which C draws them is not fixed.\<close>

definition fskit_telldir :: "env \<Rightarrow> u32 \<Rightarrow> u32 \<Rightarrow> nat \<Rightarrow> fs \<Rightarrow> (int \<times> fs) option" where
  "fskit_telldir V hi lo h s =
     (let offset = sint (or (push_bit 32 (ucast hi)) (ucast lo) :: u64) in
      if \<not> mem_ok V ''fskit_telldir'' then Some (- EBADF, s)
      else do {
        dirh \<leftarrow> dhs s h;
        Some (offset, s\<lparr>dhs := (dhs s)(h \<mapsto>
          dirh\<lparr>dh_telldir := \<lparr>td_name = dh_curr_name dirh, td_offset = offset\<rparr> # dh_telldir dirh\<rparr>)\<rparr>)
      })"

definition fskit_rewinddir :: "nat \<Rightarrow> fs \<Rightarrow> fs option" where
  "fskit_rewinddir h s =
     do {
       dirh \<leftarrow> dhs s h;
       dent \<leftarrow> dh_dent dirh;
       d \<leftarrow> heap s dent;
       (case inorder (children d) of
          [] \<Rightarrow> None
        | x # _ \<Rightarrow>
            Some (s\<lparr>dhs := (dhs s)(h \<mapsto> dirh\<lparr>dh_curr_name := take FSKIT_FILESYSTEM_NAMEMAX (es_name x)\<rparr>)\<rparr>))
     }"

definition fskit_readdir_omit :: "dir_entry option list \<Rightarrow> nat \<Rightarrow> dir_entry option list" where
  "fskit_readdir_omit dents i = dents[i := None]"

definition fskit_readdir_compactify_list :: "env \<Rightarrow> dir_entry option list \<Rightarrow> int + dir_entry list" where
  "fskit_readdir_compactify_list V entries =
     (if None \<notin> set entries then Inr (map the entries)
      else if \<not> mem_ok V ''fskit_readdir_compactify_list'' then Inl (- ENOMEM)
      else Inr (map the (filter (\<lambda>e. e \<noteq> None) entries)))"

definition fskit_readdir :: "env \<Rightarrow> nat \<Rightarrow> nat \<Rightarrow> fs \<Rightarrow> ((int + dir_entry list option) \<times> fs) option" where
  "fskit_readdir V h n s =
     do {
       dirh \<leftarrow> dhs s h;
       (case dh_dent dirh of
          None \<Rightarrow> Some (Inl (- EBADF), s)
        | Some dent \<Rightarrow>
            do {
              rc \<leftarrow> fskit_entry_lock dent s;
              if rc \<noteq> 0 then Some (Inl rc, s)
              else do {
                (dirh, r) \<leftarrow> fskit_readdir_lowlevel V dirh dent n s;
                let s = s\<lparr>dhs := (dhs s)(h \<mapsto> dirh)\<rparr> in
                (case r of
                   Inl err \<Rightarrow> Some (Inl err, s)
                 | Inr None \<Rightarrow> Some (Inr None, s)
                 | Inr (Some dents) \<Rightarrow>
                     do {
                       (rc, dents, s) \<leftarrow> fskit_run_user_readdir V (dh_path dirh) dent (map Some dents) (length dents) s;
                       if rc \<noteq> 0 then Some (Inl rc, s)
                       else Some (map_sum id Some (fskit_readdir_compactify_list V dents), s)
                     })
              }
            })
     }"

definition fskit_listdir :: "env \<Rightarrow> nat \<Rightarrow> fs \<Rightarrow> ((int + dir_entry list option) \<times> fs) option" where
  "fskit_listdir V h s = fskit_readdir V h UINT64_MAX s"

subsection \<open>The invariant\<close>

lemma inv_dh_upd:
  assumes I: "rinv L R s" and h: "dhs s h = Some x" and d: "dh_dent y = dh_dent x"
  shows "rinv L R (s\<lparr>dhs := (dhs s)(h \<mapsto> y)\<rparr>)"
proof (rule inv_handles [OF I])
  have "{k. \<exists>z. ((dhs s)(h \<mapsto> y)) k = Some z \<and> dh_dent z = Some b} = {k. \<exists>z. dhs s k = Some z \<and> dh_dent z = Some b}" for b
    using h d by auto
  then show "odem R (s\<lparr>dhs := (dhs s)(h \<mapsto> y)\<rparr>) b = odem R s b" for b
    by (simp add: odem_def fh_refs_def dh_refs_def)
  show "fhs (s\<lparr>dhs := (dhs s)(h \<mapsto> y)\<rparr>) k = None \<and> dhs (s\<lparr>dhs := (dhs s)(h \<mapsto> y)\<rparr>) k = None"
    if "hbrk (s\<lparr>dhs := (dhs s)(h \<mapsto> y)\<rparr>) \<le> k" for k
    using that I h by (auto simp: rinv_def)
qed simp_all

lemma post_lowlevel:
  assumes Q: "\<And>dirh' r. dh_dent dirh' = dh_dent dirh \<Longrightarrow> Q (dirh', r)"
  shows "post Q (fskit_readdir_lowlevel V dirh dent n s)"
  unfolding fskit_readdir_lowlevel_def
  by (assumption | rule vc Q | rule post_any | (simp; fail))+

lemma wp_user_readdir [wp]:
  assumes "rinv L R s" and Q: "\<And>rc d' s'. rinv L R s' \<Longrightarrow> Q (rc, d', s')"
  shows "post Q (fskit_run_user_readdir V path fent d n s)"
  unfolding fskit_run_user_readdir_def by (insert assms(1)) (assumption | rule vc wp Q)+

lemma wp_readdir [wp]:
  assumes "rinv L R s" and Q: "\<And>r s'. rinv L R s' \<Longrightarrow> Q (r, s')"
  shows "post Q (fskit_readdir V h n s)"
  unfolding fskit_readdir_def
  by (insert assms(1)) (assumption | (rule inv_dh_upd, assumption, assumption, assumption) | rule vc wp Q post_lowlevel)+

lemma inv_readdir: "rinv L R s \<Longrightarrow> fskit_readdir V h n s = Some (r, s') \<Longrightarrow> rinv L R s'"
  using postD [OF wp_readdir [where Q = "\<lambda>(r, s'). rinv L R s'"]] by auto

lemma seekdir_fold:
  "dh_dent (fold (\<lambda>tent dirh.
      if td_offset tent = loc then
        (case fskit_readdir_find_start (dh_curr_name dirh) set0 of
           [] \<Rightarrow> dirh | x # _ \<Rightarrow> dirh\<lparr>dh_curr_name := take FSKIT_FILESYSTEM_NAMEMAX (es_name x)\<rparr>)
      else dirh) ts dirh) = dh_dent dirh"
  by (induction ts arbitrary: dirh) (auto split: list.split)

lemma inv_seekdir: "rinv L R s \<Longrightarrow> fskit_seekdir h loc s = Some s' \<Longrightarrow> rinv L R s'"
  by (auto simp: fskit_seekdir_def bind_eq_Some Let_def seekdir_fold intro!: inv_dh_upd)

lemma inv_telldir: "rinv L R s \<Longrightarrow> fskit_telldir V hi lo h s = Some (rc, s') \<Longrightarrow> rinv L R s'"
  by (auto simp: fskit_telldir_def bind_eq_Some Let_def split: if_splits intro!: inv_dh_upd)

lemma inv_rewinddir: "rinv L R s \<Longrightarrow> fskit_rewinddir h s = Some s' \<Longrightarrow> rinv L R s'"
  by (auto simp: fskit_rewinddir_def bind_eq_Some neq_Nil_conv split: list.split_asm intro!: inv_dh_upd)

subsection \<open>Pages of a directory\<close>

definition live_node :: "fs \<Rightarrow> es_node \<Rightarrow> bool" where
  "live_node s n =
     (case heap s (es_dirent n) of None \<Rightarrow> False | Some f \<Rightarrow> \<not> deletion_in_progress f \<and> etype f \<noteq> T_DEAD)"

definition entry_of :: "fs \<Rightarrow> entry \<Rightarrow> es_node \<Rightarrow> dir_entry" where
  "entry_of s d n =
     (let f = (if es_name n = ''.'' then d else the (heap s (es_dirent n)))
      in \<lparr>de_type = etype f, de_file_id = file_id f, de_name = take FSKIT_FILESYSTEM_NAMEMAX (es_name n)\<rparr>)"

definition listing :: "fs \<Rightarrow> entry \<Rightarrow> es_node list \<Rightarrow> dir_entry list" where
  "listing s d nodes = map (entry_of s d) (filter (live_node s) nodes)"

text \<open>What is left to read through a handle.\<close>

definition unread :: "fs \<Rightarrow> entry \<Rightarrow> dir_handle \<Rightarrow> dir_entry list" where
  "unread s d dirh =
     (if dh_eof dirh then []
      else listing s d (if dh_curr_name dirh = [] then inorder (children d)
                        else tl (fskit_readdir_find_start (dh_curr_name dirh) (children d))))"

lemma readdir_itr_listing:
  assumes "mem_ok V ''fskit_make_dir_entry''" and "heap s dent = Some d"
    and "\<forall>x\<in>set nodes. heap s (es_dirent x) \<noteq> None"
  shows "fskit_readdir_itr V s dent nodes n = Some (Inr (take n (listing s d nodes)))"
  using assms(3)
proof (induction nodes arbitrary: n)
  case Nil
  then show ?case by (simp add: listing_def)
next
  case (Cons x xs)
  obtain f where f: "heap s (es_dirent x) = Some f" using Cons.prems by auto
  note IH = Cons.IH [OF ballI, of "n - 1"] Cons.IH [OF ballI, of n]
  show ?case
  proof (cases "n = 0 \<or> deletion_in_progress f \<or> etype f = T_DEAD")
    case True
    then show ?thesis using f Cons by (auto simp: listing_def live_node_def)
  next
    case False
    then have l: "live_node s x" and k: "take n (y # ys) = y # take (n - 1) ys" for y :: dir_entry and ys
      using f by (simp_all add: live_node_def take_Cons')
    have rc: "(if es_name x = ''.'' then Some 0
        else if es_name x = ''..'' \<and> dent = es_dirent x then Some 0
        else fskit_entry_lock (es_dirent x) s) = Some 0" using f False by (simp add: fskit_entry_lock_def)
    show ?thesis
      using False f assms(1,2) l Cons
      by (simp add: rc fskit_make_dir_entry_def listing_def entry_of_def k Let_def)
  qed
qed

lemma last_page:
  assumes "0 < n" and "filter P nodes \<noteq> []"
  obtains us m vs where "nodes = us @ m # vs" and "m = last (take n (filter P nodes))"
    and "filter P vs = drop n (filter P nodes)"
  using assms
proof (induction nodes arbitrary: n thesis)
  case Nil
  then show ?case by simp
next
  case (Cons x xs)
  show ?case
  proof (cases "P x \<and> (n = 1 \<or> filter P xs = [])")
    case True
    obtain k where k: "n = Suc k" using Cons.prems(2) by (cases n) auto
    show ?thesis by (rule Cons.prems(1) [of "[]" x xs]) (use True k in auto)
  next
    case False
    let ?k = "if P x then n - 1 else n"
    have "0 < ?k" "filter P xs \<noteq> []" using False Cons.prems(2,3) by auto
    then obtain us m vs where "xs = us @ m # vs" "m = last (take ?k (filter P xs))"
        "filter P vs = drop ?k (filter P xs)"
      using Cons.IH [of ?k] by blast
    moreover have "last (take n (filter P (x # xs))) = last (take ?k (filter P xs))"
      using \<open>0 < ?k\<close> \<open>filter P xs \<noteq> []\<close> Cons.prems(2) by (cases n) auto
    moreover have "drop n (filter P (x # xs)) = drop ?k (filter P xs)"
      using \<open>0 < ?k\<close> by (cases n) auto
    ultimately show ?thesis using Cons.prems(1) [of "x # us" m vs] by simp
  qed
qed

lemma find_start_at:
  assumes ok: "es_ok t" and i: "inorder t = us @ m # vs"
  shows "fskit_readdir_find_start (es_name m) t = m # vs"
proof -
  have b: "bst es_name t" using ok by (rule es_ok_bst)
  then have d: "m \<notin> set us" using i by (auto simp: bst_def sorted_wrt_append)
  have "tree_map es_name t (es_name m) = Some m"
    using tree_map_Some [OF b, of "es_name m" m] i by simp
  then have f: "fskit_entry_set_find_itr t (es_name m) = Some m"
    using es.find_member_tree_map [OF b, of "es_lookup_node (es_name m)"] by (simp add: fskit_entry_set_find_itr_def)
  have "dropWhile (\<lambda>x. x \<noteq> m) (us @ m # vs) = m # vs" using d by (induction us) auto
  then show ?thesis using f i by (simp add: fskit_readdir_find_start_def)
qed

lemma find_start_suffix: "\<exists>us. inorder t = us @ fskit_readdir_find_start c t"
  unfolding fskit_readdir_find_start_def
  by (cases "fskit_entry_set_find_itr t c") (simp_all, (metis takeWhile_dropWhile_id)+)

lemma readdir_lowlevel_page:
  assumes m: "mem_ok V ''fskit_make_dir_entry''" "mem_ok V ''fskit_readdir_itr''"
    and d: "heap s dent = Some d" and ok: "es_ok (children d)"
    and h: "\<forall>x\<in>set (inorder (children d)). heap s (es_dirent x) \<noteq> None \<and> es_name x \<noteq> [] \<and> length (es_name x) \<le> FSKIT_FILESYSTEM_NAMEMAX"
    and ne: "children d \<noteq> Leaf" and n: "0 < n" "n < UINT64_MAX"
  shows "\<exists>dirh'. fskit_readdir_lowlevel V dirh dent n s =
      Some (dirh', Inr (if unread s d dirh = [] then None else Some (take n (unread s d dirh)))) \<and>
    unread s d dirh' = drop n (unread s d dirh) \<and> dh_dent dirh' = dh_dent dirh \<and> dh_path dirh' = dh_path dirh"
proof -
  let ?nodes = "if dh_curr_name dirh = [] then inorder (children d)
      else tl (fskit_readdir_find_start (dh_curr_name dirh) (children d))"
  obtain pre where pre: "inorder (children d) = pre @ ?nodes"
  proof (cases "dh_curr_name dirh = []")
    case False
    obtain us where u: "inorder (children d) = us @ fskit_readdir_find_start (dh_curr_name dirh) (children d)"
      using find_start_suffix by blast
    show ?thesis
      by (cases "fskit_readdir_find_start (dh_curr_name dirh) (children d)")
        (use False u that [of us] that [of "us @ [hd (fskit_readdir_find_start (dh_curr_name dirh) (children d))]"] in auto)
  qed (use that [of "[]"] in simp)
  then have sub: "set ?nodes \<subseteq> set (inorder (children d))" by (metis set_append Un_upper2)
  have itr: "fskit_readdir_itr V s dent ?nodes n = Some (Inr (take n (listing s d ?nodes)))"
    by (rule readdir_itr_listing [OF m(1) d]) (use sub h in blast)
  obtain x0 xs0 where x0: "inorder (children d) = x0 # xs0" using ne by (cases "inorder (children d)") (auto elim: inorder.elims)
  let ?dirh = "if dh_curr_name dirh = [] then dirh\<lparr>dh_curr_name := take FSKIT_FILESYSTEM_NAMEMAX (es_name x0)\<rparr> else dirh"
  have low: "\<not> dh_eof dirh \<Longrightarrow> fskit_readdir_lowlevel V dirh dent n s =
      (if ?nodes = [] then Some (?dirh, Inr None)
       else case take n (listing s d ?nodes) of
         [] \<Rightarrow> Some (?dirh\<lparr>dh_eof := True\<rparr>, Inr None)
       | y # ys \<Rightarrow> Some (?dirh\<lparr>dh_curr_name := de_name (last (y # ys))\<rparr>, Inr (Some (y # ys))))"
    using itr d m(2) n(2) x0 by (cases "dh_curr_name dirh = []") (simp_all add: fskit_readdir_lowlevel_def del: fskit_readdir_itr.simps split: list.split)
  show ?thesis
  proof (cases "unread s d dirh = []")
    case True
    show ?thesis
    proof (cases "dh_eof dirh")
      case True
      then show ?thesis by (simp add: fskit_readdir_lowlevel_def unread_def)
    next
      case False
      then have l: "listing s d ?nodes = []" using True by (simp add: unread_def)
      show ?thesis
      proof (cases "?nodes = []")
        case True
        moreover have "dh_curr_name dirh \<noteq> []" using True x0 by auto
        ultimately show ?thesis using low [OF False] \<open>unread s d dirh = []\<close> by simp
      next
        case nn: False
        then have "fskit_readdir_lowlevel V dirh dent n s = Some (?dirh\<lparr>dh_eof := True\<rparr>, Inr None)"
          using low [OF False] l by simp
        then show ?thesis using \<open>unread s d dirh = []\<close> by (auto simp: unread_def)
      qed
    qed
  next
    case False
    then have e: "\<not> dh_eof dirh" and u: "unread s d dirh = listing s d ?nodes" by (auto simp: unread_def)
    have fl: "filter (live_node s) ?nodes \<noteq> []" using False u by (simp add: listing_def)
    obtain us v vs where v: "?nodes = us @ v # vs" "v = last (take n (filter (live_node s) ?nodes))"
        "filter (live_node s) vs = drop n (filter (live_node s) ?nodes)"
      using last_page [OF n(1) fl] by blast
    have t: "take n (listing s d ?nodes) \<noteq> []" using False u n(1) by simp
    have "last (take n (listing s d ?nodes)) = entry_of s d v"
      using v(2) fl n(1) by (simp add: listing_def take_map last_map)
    moreover have vin: "v \<in> set (inorder (children d))" using sub v(1) by auto
    ultimately have nm: "de_name (last (take n (listing s d ?nodes))) = es_name v"
      using h by (simp add: entry_of_def Let_def)
    have st: "fskit_readdir_find_start (es_name v) (children d) = v # vs"
      by (rule find_start_at [OF ok, of "pre @ us"]) (use pre v(1) in simp)
    let ?d' = "?dirh\<lparr>dh_curr_name := es_name v\<rparr>"
    have "fskit_readdir_lowlevel V dirh dent n s = Some (?d', Inr (Some (take n (listing s d ?nodes))))"
      using low [OF e] t nm v(1) by (cases "take n (listing s d ?nodes)") auto
    moreover have "unread s d ?d' = drop n (listing s d ?nodes)"
      using e st vin h v(3) by (auto simp: unread_def listing_def drop_map)
    ultimately show ?thesis using False u by auto
  qed
qed

lemma readdir_page:
  assumes m: "mem_ok V ''fskit_make_dir_entry''" "mem_ok V ''fskit_readdir_itr''"
    and dh: "dhs s h = Some dirh" "dh_dent dirh = Some dent" and d: "heap s dent = Some d" "etype d \<noteq> T_DEAD"
    and ok: "es_ok (children d)" and ne: "children d \<noteq> Leaf"
    and nodes: "\<forall>x\<in>set (inorder (children d)). heap s (es_dirent x) \<noteq> None \<and> es_name x \<noteq> [] \<and>
      length (es_name x) \<le> FSKIT_FILESYSTEM_NAMEMAX"
    and route: "fskit_route_match V (routes s) FSKIT_ROUTE_MATCH_READDIR (dh_path dirh) = Some None"
    and path: "name_fits (dh_path dirh)" and n: "0 < n" "n < UINT64_MAX"
  obtains dirh' where "fskit_readdir V h n s =
      Some (Inr (if unread s d dirh = [] then None else Some (take n (unread s d dirh))),
        s\<lparr>dhs := (dhs s)(h \<mapsto> dirh')\<rparr>)"
    and "unread s d dirh' = drop n (unread s d dirh)" and "dh_dent dirh' = Some dent"
    and "dh_path dirh' = dh_path dirh"
proof -
  obtain dirh' where low: "fskit_readdir_lowlevel V dirh dent n s =
      Some (dirh', Inr (if unread s d dirh = [] then None else Some (take n (unread s d dirh))))"
    and u: "unread s d dirh' = drop n (unread s d dirh)" and k: "dh_dent dirh' = dh_dent dirh" "dh_path dirh' = dh_path dirh"
    using readdir_lowlevel_page [OF m d(1) ok nodes ne n, of dirh] by blast
  have ur: "fskit_run_user_readdir V (dh_path dirh') dent ds z (s\<lparr>dhs := x\<rparr>) = Some (0, ds, s\<lparr>dhs := x\<rparr>)" for ds z x
    by (simp add: fskit_run_user_readdir_def name_buf_Some [OF path] k fskit_route_call_readdir_def fskit_route_call_def
        route fskit_route_readdir_args_def)
  have l: "fskit_entry_lock dent s = Some 0" using d by (simp add: fskit_entry_lock_def)
  have c: "fskit_readdir_compactify_list V (map Some ds) = Inr ds" for ds
    by (auto simp: fskit_readdir_compactify_list_def comp_def)
  show ?thesis
    by (rule that [of dirh']) (use dh u k low l ur c in \<open>simp_all add: fskit_readdir_def\<close>)
qed

text \<open>
  Going back to the start puts the first name into the handle, so that the next read starts after
  it; and an end that was reached stays reached.
\<close>

lemma rewinddir_skips_first:
  assumes dh: "dhs s h = Some dirh" "dh_dent dirh = Some dent" and d: "heap s dent = Some d" and ok: "es_ok (children d)"
    and x: "inorder (children d) = x # xs" "length (es_name x) \<le> FSKIT_FILESYSTEM_NAMEMAX" "es_name x \<noteq> []"
  obtains dirh' where "fskit_rewinddir h s = Some (s\<lparr>dhs := (dhs s)(h \<mapsto> dirh')\<rparr>)"
    and "unread s d dirh' = (if dh_eof dirh then [] else listing s d xs)"
  using find_start_at [OF ok, of "[]" x xs] assms
  by (intro that [of "dirh\<lparr>dh_curr_name := es_name x\<rparr>"]) (auto simp: fskit_rewinddir_def unread_def)

text \<open>A position is not restored: as long as the name read last exists, seeking changes nothing.\<close>

lemma seekdir_stays:
  assumes dh: "dhs s h = Some dirh" "dh_dent dirh = Some dent" and d: "heap s dent = Some d" and ok: "es_ok (children d)"
    and x: "x \<in> set (inorder (children d))" "es_name x = dh_curr_name dirh"
      "length (es_name x) \<le> FSKIT_FILESYSTEM_NAMEMAX"
  shows "fskit_seekdir h loc s = Some s"
proof -
  obtain us vs where "inorder (children d) = us @ x # vs" using x(1) by (meson split_list)
  then have f: "fskit_readdir_find_start (dh_curr_name dirh) (children d) = x # vs"
    using find_start_at [OF ok, of us x vs] x(2) by simp
  have "fold (\<lambda>tent dirh. if td_offset tent = loc then
      (case fskit_readdir_find_start (dh_curr_name dirh) (children d) of
         [] \<Rightarrow> dirh | x # _ \<Rightarrow> dirh\<lparr>dh_curr_name := take FSKIT_FILESYSTEM_NAMEMAX (es_name x)\<rparr>)
      else dirh) ts dirh = dirh" for ts :: "telldir_entry list"
    using f x(2,3) by (induction ts) simp_all
  then have "fskit_seekdir h loc s = Some (s\<lparr>dhs := (dhs s)(h \<mapsto> dirh)\<rparr>)"
    using dh d by (simp add: fskit_seekdir_def)
  then show ?thesis using dh(1) by (simp add: fun_upd_idem)
qed

end
