(* ===== verification/Demo.thy ===== *)
theory Demo
  imports Readdir
begin

text \<open>
  A concrete environment and a few concrete file systems, on which the properties of the root theory
  are instantiated: memory is always available, the clock stands at 0, no regular expression
  matches unless a route asks for it, and every callback succeeds.
\<close>

definition demo_env :: env where
  "demo_env = \<lparr>mem_ok = (\<lambda>_. True), es_ptr_less = (\<lambda>_ _. False), xs_ptr_less = (\<lambda>_ _. False),
     clock = (\<lambda>_. (0, 0, 0)), ev_call = (\<lambda>_ _ _ _ da. (0, da)), ev_regcomp = (\<lambda>_. True),
     ev_regexec = (\<lambda>_ _ _. None), ev_inode_alloc = (\<lambda>_ a. of_nat a + 1), ev_errno = 0,
     ev_inode_ptr_less = (\<lambda>_ _. False)\<rparr>"

text \<open>A fresh core; then the directory \<open>/a\<close>; then the file \<open>/a/f\<close>, opened for writing.\<close>

definition demo_boot :: fs where
  "demo_boot = snd (fskit_core_init demo_env 0)"

definition demo_dir :: fs where
  "demo_dir = snd (the (fskit_mkdir demo_env ''/a'' 493 0 0 demo_boot))"

definition demo_file :: fs where
  "demo_file = snd (the (fskit_create demo_env ''/a/f'' 0 0 420 demo_dir))"

lemma demo_boot_init: "fskit_core_init demo_env 0 = (0, demo_boot)"
proof -
  have "fst (fskit_core_init demo_env 0) = 0" by code_simp
  then show ?thesis by (simp add: demo_boot_def prod_eq_iff)
qed

lemma demo_dir_mkdir: "fskit_mkdir demo_env ''/a'' 493 0 0 demo_boot = Some (0, demo_dir)"
proof -
  have "map_option fst (fskit_mkdir demo_env ''/a'' 493 0 0 demo_boot) = Some 0" by code_simp
  then show ?thesis by (auto simp: demo_dir_def)
qed

lemma demo_file_create: "fskit_create demo_env ''/a/f'' 0 0 420 demo_dir = Some (Inr 0, demo_file)"
proof -
  have "map_option fst (fskit_create demo_env ''/a/f'' 0 0 420 demo_dir) = Some (Inr 0)" by code_simp
  then show ?thesis by (auto simp: demo_file_def)
qed

subsection \<open>The fresh core satisfies the invariant\<close>

lemma core_init_boot:
  assumes "fskit_core_init V d = (0, s)"
  obtains root t where "fskit_entry_set_new V 0 0 = Some t" and "children root = t" and "link_count root = 1"
    and "open_count root = 0" and "etype root = T_DIR" and "heap s = Map.empty(0 \<mapsto> root)" and "brk s = 1"
    and "fhs s = Map.empty" and "dhs s = Map.empty" and "hbrk s = 0"
proof -
  obtain rt where rt: "fskit_route_table_new V = Some rt"
    using assms by (cases "fskit_route_table_new V") (auto simp: fskit_core_init_def ENOMEM_def)
  obtain r rc where i: "fskit_entry_init_dir V 0 0 0 0 0 493 zero_entry = (r, rc)"
    by (cases "fskit_entry_init_dir V 0 0 0 0 0 493 zero_entry")
  have rc: "rc = 0" and s: "s = empty_core\<lparr>heap := Map.empty(0 \<mapsto> r\<lparr>link_count := 1\<rparr>), routes := rt, app_fs_data := d\<rparr>"
    using assms rt i by (auto simp: fskit_core_init_def split: if_splits)
  obtain t where t: "fskit_entry_set_new V 0 0 = Some t"
    using i rc by (auto simp: fskit_entry_init_dir_def ENOMEM_def split: option.splits)
  have "children r = t" using i rc t by (auto simp: fskit_entry_init_dir_def split: prod.splits if_splits)
  moreover have "open_count r = 0"
    using bare_init_dir [OF bare_zero, of 0 V 0 0 0 0 493] i by (simp add: bare_def)
  moreover have "etype r = T_DIR" using init_dir_new [of V 0 0 0 0 0 493 zero_entry r] i rc by (simp add: new_dir_def)
  ultimately show ?thesis using that [of t "r\<lparr>link_count := 1\<rparr>"] t by (simp add: s empty_core_def)
qed

lemma inv_core_init:
  assumes "fskit_core_init V d = (0, s)"
  shows "rinv {#} {#} s"
  using assms
proof (cases rule: core_init_boot)
  case (1 root t)
  have "links_of 0 root = {#}" using set_links_new [OF 1(1)] 1(2) by (simp add: links_of_def)
  then have "lnk s a = 0" for a by (simp add: lnk_def 1)
  then have "refs_ok {#} {#} s a" for a
    by (simp add: refs_ok_def ldem_def odem_def fh_refs_def dh_refs_def 1)
  then show ?thesis by (simp add: rinv_def 1)
qed

lemma inv_demo: "rinv {#} {#} demo_boot" "rinv {#} {#} demo_dir" "rinv {#} {#} demo_file"
proof -
  show b: "rinv {#} {#} demo_boot" by (rule inv_core_init [OF demo_boot_init])
  show d: "rinv {#} {#} demo_dir" by (rule inv_mkdir [OF b demo_dir_mkdir])
  show "rinv {#} {#} demo_file"
    by (rule inv_open [OF d demo_file_create [unfolded fskit_create_def]])
qed

subsection \<open>Facts about the concrete file systems\<close>

text \<open>The three inodes, the handle and the route table of the last file system, written out.\<close>

definition demo_node :: "u64 \<Rightarrow> ftype \<Rightarrow> u32 \<Rightarrow> int \<Rightarrow> int \<Rightarrow> entry_set \<Rightarrow> entry" where
  "demo_node fid t m opens n chs =
     \<lparr>file_id = fid, etype = t, owner = 0, egroup = 0, emode = m, ctime = (0, 0), mtime = (0, 0),
      atime = (0, 0), open_count = opens, link_count = 1, fsize = 0, deletion_in_progress = False,
      deletion_through_rename = False, num_children = n, children = chs, app_data = 0, dev = 0,
      xattrs = Leaf, symlink_target = None\<rparr>"

definition demo_set :: "addr \<Rightarrow> addr \<Rightarrow> string \<Rightarrow> addr \<Rightarrow> entry_set" where
  "demo_set self parent name child =
     Node BLACK (Node RED Leaf \<lparr>es_name = ''.'', es_dirent = self\<rparr> Leaf)
       \<lparr>es_name = ''..'', es_dirent = parent\<rparr> (Node RED Leaf \<lparr>es_name = name, es_dirent = child\<rparr> Leaf)"

definition demo_root :: entry where "demo_root = demo_node 0 T_DIR 493 0 1 (demo_set 0 0 ''a'' 1)"
definition demo_a :: entry where "demo_a = demo_node 2 T_DIR 493 0 1 (demo_set 1 0 ''f'' 2)"
definition demo_f :: entry where "demo_f = demo_node 3 T_FILE 420 1 0 Leaf"

definition demo_fh :: file_handle where
  "demo_fh = \<lparr>fh_fent = Some 2, fh_path = ''/a/f'', fh_flags = 577, fh_file_id = 3, fh_app_data = 0\<rparr>"

definition demo_routes :: route_table where
  "demo_routes = Node BLACK Leaf \<lparr>rr_type = -1, rr_routes = \<lparr>v_exp = 0, v_len = 0, v_buf = []\<rparr>\<rparr> Leaf"

lemma demo_eval:
  "let s = demo_file; V = demo_env in
     heap s 0 = Some demo_root \<and> heap s 1 = Some demo_a \<and> heap s 2 = Some demo_f \<and>
     fhs s 0 = Some demo_fh \<and> routes s = demo_routes \<and>
     fskit_entry_resolve_path V ''/'' 0 0 s = Some (Inr 0) \<and>
     fskit_entry_resolve_path V ''/a'' 0 0 s = Some (Inr 1) \<and>
     fskit_entry_resolve_path V ''/a/f'' 0 0 s = Some (Inr 2)"
  by code_simp

lemma demo_heap:
  "heap demo_file 0 = Some demo_root" "heap demo_file (Suc 0) = Some demo_a" "heap demo_file 2 = Some demo_f"
  "fhs demo_file 0 = Some demo_fh" "routes demo_file = demo_routes"
  using demo_eval by (simp_all add: Let_def)

lemma demo_resolve:
  "fskit_entry_resolve_path demo_env ''/'' 0 0 demo_file = Some (Inr 0)"
  "fskit_entry_resolve_path demo_env ''/a'' 0 0 demo_file = Some (Inr 1)"
  "fskit_entry_resolve_path demo_env ''/a/f'' 0 0 demo_file = Some (Inr 2)"
  using demo_eval by (simp_all add: Let_def)

lemma demo_mem [simp]: "mem_ok demo_env site"
  by (simp add: demo_env_def)

lemma demo_root_up: "root_up demo_file"
  by (simp add: root_up_def demo_heap) (simp add: demo_root_def demo_node_def)

lemma demo_names: "path_names ''/a/f'' = [''a'', ''f'']"
  by code_simp

lemma demo_routes_ok: "table_ok demo_routes" "no_holes demo_routes"
  by (simp_all add: demo_routes_def table_ok_def sglib_set_ok_def bst_def consistency_check_def root_ok_def row_ok_def
      vec_ok_def row_slots_def no_holes_def)

lemma demo_no_route: "fskit_route_match V demo_routes t path = Some None"
  by (simp add: fskit_route_match_def fskit_route_table_get_row_def demo_routes_def rt_lookup_row_def route_table_cmp_def
      row_slots_def)

lemma demo_sets_ok: "es_ok (children demo_root)" "es_ok (children demo_a)" "xs_ok (xattrs demo_f)" "xs_ok (xattrs demo_a)"
    "xs_ok (xattrs demo_root)"
  by code_simp+

text \<open>The file system with a symbolic link \<open>/l\<close>, and with a route for truncation that takes every
  path.\<close>

definition demo_env_match :: env where
  "demo_env_match = demo_env\<lparr>ev_regexec := (\<lambda>_ path _. Some [(0, int (length path))])\<rparr>"

definition demo_link :: fs where
  "demo_link = snd (the (fskit_symlink demo_env (Some ''a/f'') ''/l'' 0 0 demo_file))"

definition demo_l :: entry where
  "demo_l = (demo_node 4 T_LNK 511 0 0 Leaf)\<lparr>fsize := 3, symlink_target := Some ''a/f''\<rparr>"

lemma demo_link_run:
  "let s = demo_link in fskit_entry_resolve_path demo_env ''/l'' 0 0 s = Some (Inr 3) \<and> heap s 3 = Some demo_l"
  by code_simp

lemma demo_link_tree:
  "let s = demo_link in
     map_option fst (fskit_entry_resolve_inodes demo_env ''/a'' 0 0 s) = Some (Inr 1) \<and>
     fskit_entry_resolve_path demo_env ''/'' 0 0 s = Some (Inr 0) \<and>
     map_option (\<lambda>p. fskit_entry_set_find_name (children p) ''l'') (heap s 0) = Some (Some 3) \<and>
     map_option (\<lambda>p. fskit_entry_set_find_name (children p) ''f'') (heap s 1) = Some (Some 2)"
  by code_simp

lemma demo_link_dirs:
  "\<exists>t p q. fskit_entry_resolve_inodes demo_env ''/a'' 0 0 demo_link = Some (Inr 1, t) \<and>
    heap demo_link 0 = Some p \<and> fskit_entry_set_find_name (children p) ''l'' = Some 3 \<and>
    heap demo_link 1 = Some q \<and> fskit_entry_set_find_name (children q) ''f'' = Some 2 \<and>
    fskit_entry_resolve_path demo_env ''/'' 0 0 demo_link = Some (Inr 0)"
  using demo_link_tree by (auto simp: Let_def)

lemmas demo_link_eval = demo_link_run [unfolded Let_def, THEN conjunct1] demo_link_run [unfolded Let_def, THEN conjunct2]

definition demo_routed :: fs where
  "demo_routed = snd (the (fskit_route_trunc demo_env_match ''.*'' (Some 0) FSKIT_CONCURRENT demo_file))"

lemma demo_runs:
  "let s = demo_file; V = demo_env in
     map_option fst (fskit_symlink V (Some ''a/f'') ''/l'' 0 0 s) = Some 0 \<and>
     map_option fst (fskit_chmod V ''/a/f'' 0 0 256 s) = Some 0 \<and>
     map_option fst (fskit_write V 0 ''hello'' 5 3 s) = Some 0 \<and>
     map_option fst (fskit_setxattr V ''/a/f'' 0 0 ''user.k'' ''v'' 0 s) = Some 0 \<and>
     map_option fst (fskit_unlink V ''/a'' 0 0 s) = Some 0"
  by code_simp

lemma demo_routed_eval:
  "let s = demo_routed; V = demo_env_match in
     map_option fst (fskit_ftrunc V 0 77 s) = Some 0 \<and>
     fskit_route_match V (routes s) FSKIT_ROUTE_MATCH_TRUNC ''/a/f'' \<noteq> Some None \<and>
     map_option etype (heap s 2) = Some T_FILE \<and>
     table_ok (routes s) \<and> no_holes (routes s) \<and> fhs s 0 = Some demo_fh"
  by code_simp

lemma demo_routed_no_holes: "no_holes (routes demo_routed)"
  using demo_routed_eval by (simp add: Let_def)

lemma demo_boot_eval:
  "routes demo_boot = demo_routes \<and> map_option xattrs (heap demo_boot 0) = Some Leaf"
  by code_simp

lemma demo_boot_routes: "routes demo_boot = demo_routes"
  using demo_boot_eval by simp

lemma demo_boot_xattrs: "heap demo_boot a = Some e \<Longrightarrow> xs_ok (xattrs e)"
proof -
  assume e: "heap demo_boot a = Some e"
  have "dom (heap demo_boot) = {0}"
    using demo_boot_init by (elim core_init_boot) simp
  then have "a = 0" using e by auto
  then show ?thesis using e demo_boot_eval demo_sets_ok(3) by (simp add: demo_f_def demo_node_def)
qed

text \<open>The file system with the root directory opened, and what some calls on handles return.\<close>

definition demo_opened :: fs where
  "demo_opened = snd (the (fskit_opendir demo_env ''/'' 0 0 demo_file))"

definition demo_dh :: dir_handle where
  "demo_dh = \<lparr>dh_dent = Some 0, dh_path = ''/'', dh_file_id = 0, dh_curr_name = [], dh_telldir = [],
     dh_app_data = 0, dh_eof = False\<rparr>"

lemma demo_opened_eval:
  "let s = demo_opened; r = demo_root\<lparr>open_count := 1\<rparr> in
     heap s 0 = Some r \<and> dhs s 1 = Some demo_dh \<and> routes s = demo_routes \<and>
     (\<forall>x\<in>set (inorder (children r)). heap s (es_dirent x) \<noteq> None \<and> es_name x \<noteq> [] \<and>
       length (es_name x) \<le> FSKIT_FILESYSTEM_NAMEMAX) \<and> es_ok (children r)"
  by code_simp

lemmas demo_opened_facts = demo_opened_eval [unfolded Let_def, THEN conjunct1]
  demo_opened_eval [unfolded Let_def, THEN conjunct2, THEN conjunct1]
  demo_opened_eval [unfolded Let_def, THEN conjunct2, THEN conjunct2, THEN conjunct1]
  demo_opened_eval [unfolded Let_def, THEN conjunct2, THEN conjunct2, THEN conjunct2, THEN conjunct1]
  demo_opened_eval [unfolded Let_def, THEN conjunct2, THEN conjunct2, THEN conjunct2, THEN conjunct2]

lemma demo_handle_runs:
  "let s = demo_file; V = demo_env in
     map_option fst (fskit_open V ''/a/f'' 0 0 0 0 s) = Some (Inr 1) \<and>
     map_option fst (fskit_close V 0 s) = Some 0"
  by code_simp

end
