(* ===== verification/Reachable.thy ===== *)
theory Reachable
  imports Demo
begin

text \<open>
  The library as a step relation: one step is one call of an operation on the core. Every call has
  an environment of its own, because the clock, the callbacks and the outcome of allocations may
  differ from call to call. The reference invariant is an invariant of this system.

  Calls that only read the core (\<open>access\<close>, \<open>readlink\<close>, \<open>statvfs\<close>, \<open>listdir_locked\<close>, the path iterator)
  are no steps. Detaching a whole directory is a step when no allocation fails and no directory
  contains itself under another name.
\<close>

inductive fs_step :: "fs \<Rightarrow> fs \<Rightarrow> bool" where
  step_mkdir: "fskit_mkdir V path mode user grp s = Some (rc, s') \<Longrightarrow> fs_step s s'"
| step_mknod: "fskit_mknod V path mode d user grp s = Some (rc, s') \<Longrightarrow> fs_step s s'"
| step_open: "fskit_open V path user grp flags mode s = Some (r, s') \<Longrightarrow> fs_step s s'"
| step_close: "fskit_close V h s = Some (rc, s') \<Longrightarrow> fs_step s s'"
| step_opendir: "fskit_opendir V path user grp s = Some (r, s') \<Longrightarrow> fs_step s s'"
| step_closedir: "fskit_closedir V h s = Some (rc, s') \<Longrightarrow> fs_step s s'"
| step_unlink: "fskit_unlink V path user grp s = Some (rc, s') \<Longrightarrow> fs_step s s'"
| step_rmdir: "fskit_rmdir V path user grp s = Some (rc, s') \<Longrightarrow> fs_step s s'"
| step_link: "fskit_link V path new user grp s = Some (rc, s') \<Longrightarrow> fs_step s s'"
| step_symlink: "fskit_symlink V target path user grp s = Some (rc, s') \<Longrightarrow> fs_step s s'"
| step_rename: "fskit_rename V path new user grp s = Some (rc, s') \<Longrightarrow> fs_step s s'"
| step_chmod: "fskit_chmod V path user grp mode s = Some (rc, s') \<Longrightarrow> fs_step s s'"
| step_chown: "fskit_chown V path user grp u g s = Some (rc, s') \<Longrightarrow> fs_step s s'"
| step_utimes: "fskit_utimes V path user grp t s = Some (rc, s') \<Longrightarrow> fs_step s s'"
| step_stat: "fskit_stat V path user grp sb s = Some (rc, sb', s') \<Longrightarrow> fs_step s s'"
| step_fstat: "fskit_fstat V path a sb s = Some (rc, sb', s') \<Longrightarrow> fs_step s s'"
| step_read: "fskit_read V h buf n off s = Some (rc, buf', s') \<Longrightarrow> fs_step s s'"
| step_write: "fskit_write V h buf n off s = Some (rc, s') \<Longrightarrow> fs_step s s'"
| step_ftrunc: "fskit_ftrunc V h sz s = Some (rc, s') \<Longrightarrow> fs_step s s'"
| step_trunc: "fskit_trunc V path user grp sz s = Some (rc, s') \<Longrightarrow> fs_step s s'"
| step_fsync: "fskit_fsync V h s = Some (rc, s') \<Longrightarrow> fs_step s s'"
| step_getxattr: "fskit_getxattr V path user grp n b z s = Some (rc, b', s') \<Longrightarrow> fs_step s s'"
| step_setxattr: "fskit_setxattr V path user grp n v f s = Some (rc, s') \<Longrightarrow> fs_step s s'"
| step_listxattr: "fskit_listxattr V path user grp b z s = Some (rc, b', s') \<Longrightarrow> fs_step s s'"
| step_removexattr: "fskit_removexattr V path user grp n s = Some (rc, s') \<Longrightarrow> fs_step s s'"
| step_readdir: "fskit_readdir V h n s = Some (r, s') \<Longrightarrow> fs_step s s'"
| step_seekdir: "fskit_seekdir h loc s = Some s' \<Longrightarrow> fs_step s s'"
| step_telldir: "fskit_telldir V hi lo h s = Some (rc, s') \<Longrightarrow> fs_step s s'"
| step_rewinddir: "fskit_rewinddir h s = Some s' \<Longrightarrow> fs_step s s'"
| step_route: "fskit_path_route_decl V re t cb disc s = Some (rc, s') \<Longrightarrow> fs_step s s'"
| step_unroute: "fskit_path_route_undecl t i s = Some (rc, s') \<Longrightarrow> fs_step s s'"
| step_unroute_all: "fskit_unroute_all s = (rc, s') \<Longrightarrow> fs_step s s'"
| step_detach_all: "all_mem V \<Longrightarrow> no_self s \<Longrightarrow> fskit_detach_all V g path s = Some (rc, s') \<Longrightarrow> fs_step s s'"

inductive_cases fs_stepE: "fs_step s s'"

definition booted :: "fs \<Rightarrow> bool" where
  "booted s = (\<exists>V d. fskit_core_init V d = (0, s))"

definition reachable :: "fs \<Rightarrow> bool" where
  "reachable s = (\<exists>s0. booted s0 \<and> fs_step\<^sup>*\<^sup>* s0 s)"

lemmas inv_ops = inv_mkdir inv_mknod inv_open inv_close inv_opendir inv_closedir inv_unlink_op inv_rmdir
  inv_link_op inv_symlink inv_rename inv_chmod inv_chown inv_utimes inv_stat inv_fstat inv_read inv_write inv_ftrunc
  inv_trunc inv_fsync inv_getxattr inv_setxattr inv_listxattr inv_removexattr inv_readdir inv_seekdir
  inv_telldir inv_rewinddir inv_detach_all(1)

lemma inv_routes_only:
  "fskit_path_route_decl V re t cb disc s = Some (rc, s') \<Longrightarrow> rinv L R s \<Longrightarrow> rinv L R s'"
  "fskit_path_route_undecl t i s = Some (rc, s') \<Longrightarrow> rinv L R s \<Longrightarrow> rinv L R s'"
  "fskit_unroute_all s = (rc, s') \<Longrightarrow> rinv L R s \<Longrightarrow> rinv L R s'"
  by (auto simp: fskit_path_route_decl_def fskit_path_route_undecl_def fskit_unroute_all_def
      split: if_splits option.splits prod.splits)

lemma step_inv: "fs_step s s' \<Longrightarrow> rinv {#} {#} s \<Longrightarrow> rinv {#} {#} s'"
  by (induction rule: fs_step.induct) (auto intro: inv_ops inv_routes_only)

interpretation core: invariant_system booted fs_step "rinv {#} {#}"
  by unfold_locales (auto simp: booted_def intro: inv_core_init step_inv)

lemma reachable_rinv: "reachable s \<Longrightarrow> rinv {#} {#} s"
  unfolding reachable_def using core.run_good by blast

lemma reachable_boot: "fskit_core_init V d = (0, s) \<Longrightarrow> reachable s"
  by (auto simp: reachable_def booted_def)

lemma reachable_step: "reachable s \<Longrightarrow> fs_step s s' \<Longrightarrow> reachable s'"
  unfolding reachable_def using rtranclp.rtrancl_into_rtrancl by metis

lemma reachable_demo: "reachable demo_boot" "reachable demo_dir" "reachable demo_file"
proof -
  show b: "reachable demo_boot" by (rule reachable_boot [OF demo_boot_init])
  show d: "reachable demo_dir" by (rule reachable_step [OF b step_mkdir [OF demo_dir_mkdir]])
  show "reachable demo_file"
    by (rule reachable_step [OF d step_open [OF demo_file_create [unfolded fskit_create_def]]])
qed

end
