(* ===== verification/HandleFrame.thy ===== *)
theory HandleFrame
  imports Reachable
begin

text \<open>
  What the operations do to the handle tables. An operation other than opening and closing leaves the
  file handles as they are, opens and closes no directory handle, and takes no handle number
  (\<open>handle_view\<close>); opening adds one handle under a new number, and closing removes the one it closes exactly
  when it succeeds. One rule for each operation, in the collection \<open>hf\<close>, on top of the calculus of
  \<open>Steps\<close>.
\<close>

named_theorems hf

definition handle_view :: "fs \<Rightarrow> (nat \<Rightarrow> file_handle option) \<times> nat set \<times> nat" where
  "handle_view s = (fhs s, dom (dhs s), hbrk s)"

lemma view_heap [simp]: "handle_view (s\<lparr>heap := x1\<rparr>) = handle_view s" "handle_view (s\<lparr>brk := x2\<rparr>) = handle_view s"
  "handle_view (s\<lparr>trace := x3\<rparr>) = handle_view s" "handle_view (s\<lparr>routes := x4\<rparr>) = handle_view s"
  by (simp_all add: handle_view_def)

lemma view_attr: "attr_frame s s' \<Longrightarrow> handle_view s' = handle_view s"
  by (simp add: attr_frame_def handle_view_def)

lemma view_same: "same_frame s s' \<Longrightarrow> handle_view s' = handle_view s"
  by (simp add: same_frame_def handle_view_def)

lemma view_dhs: "dhs s h = Some d \<Longrightarrow> handle_view (s\<lparr>dhs := (dhs s)(h \<mapsto> d')\<rparr>) = handle_view s"
  by (auto simp: handle_view_def)

subsection \<open>Primitives\<close>

lemma hf_upd [hf]:
  "handle_view s = k \<Longrightarrow> (\<And>s'. handle_view s' = k \<Longrightarrow> Q s') \<Longrightarrow> post Q (upd a f s)"
  by (auto simp: post_def upd_Some)

lemma hf_free [hf]:
  "handle_view s = k \<Longrightarrow> (\<And>s'. handle_view s' = k \<Longrightarrow> Q s') \<Longrightarrow> post Q (free_entry a s)"
  by (auto simp: post_def free_entry_def split: option.splits)

lemma hf_alloc [hf]:
  "handle_view s = k \<Longrightarrow> (\<And>a s'. handle_view s' = k \<Longrightarrow> post Q (f a s')) \<Longrightarrow>
    post Q (case alloc_entry s of (a, s') \<Rightarrow> f a s')"
  by (simp add: alloc_entry_def)

lemma hf_deref [hf]:
  "handle_view s = k \<Longrightarrow> (\<And>s'. handle_view s' = k \<Longrightarrow> Q s') \<Longrightarrow> post Q (deref a f s)"
  by (cases a) (auto simp: post_def deref_def upd_Some)

lemma hf_destroy [hf]:
  "handle_view s = k \<Longrightarrow> (\<And>s'. handle_view s' = k \<Longrightarrow> Q s') \<Longrightarrow> post Q (fskit_entry_destroy a s)"
  unfolding fskit_entry_destroy_def by (rule hf_upd)

lemma hf_ref_entry [hf]:
  "handle_view s = k \<Longrightarrow> (\<And>s'. handle_view s' = k \<Longrightarrow> Q s') \<Longrightarrow> post Q (fskit_entry_ref_entry a s)"
  unfolding fskit_entry_ref_entry_def by (rule hf_upd)

lemma hf_attach [hf]:
  "handle_view s = k \<Longrightarrow> (\<And>rc s'. handle_view s' = k \<Longrightarrow> Q (rc, s')) \<Longrightarrow>
    post Q (fskit_entry_attach_lowlevel V parent fent name s)"
  by (auto simp: post_def dest!: attach_same_frame view_same)

lemma hf_detach [hf]:
  "handle_view s = k \<Longrightarrow> (\<And>rc s'. handle_view s' = k \<Longrightarrow> Q (rc, s')) \<Longrightarrow>
    post Q (fskit_entry_detach_lowlevel V parent name s)"
  by (auto simp: post_def dest!: detach_same_frame view_same)

lemma hf_route_call:
  "handle_view s = k \<Longrightarrow> (\<And>rc cbrc da' s'. handle_view s' = k \<Longrightarrow> Q (rc, cbrc, da', s')) \<Longrightarrow>
    post Q (fskit_route_call V t path fent da s)"
  by (auto simp: post_def dest!: route_call_frame view_attr)

lemmas hf_route_calls [hf] =
  hf_route_call [where t = FSKIT_ROUTE_MATCH_CREATE, folded fskit_route_call_create_def]
  hf_route_call [where t = FSKIT_ROUTE_MATCH_MKDIR, folded fskit_route_call_mkdir_def]
  hf_route_call [where t = FSKIT_ROUTE_MATCH_MKNOD, folded fskit_route_call_mknod_def]
  hf_route_call [where t = FSKIT_ROUTE_MATCH_OPEN, folded fskit_route_call_open_def]
  hf_route_call [where t = FSKIT_ROUTE_MATCH_READDIR, folded fskit_route_call_readdir_def]
  hf_route_call [where t = FSKIT_ROUTE_MATCH_READ, folded fskit_route_call_read_def]
  hf_route_call [where t = FSKIT_ROUTE_MATCH_WRITE, folded fskit_route_call_write_def]
  hf_route_call [where t = FSKIT_ROUTE_MATCH_TRUNC, folded fskit_route_call_trunc_def]
  hf_route_call [where t = FSKIT_ROUTE_MATCH_CLOSE, folded fskit_route_call_close_def]
  hf_route_call [where t = FSKIT_ROUTE_MATCH_DETACH, folded fskit_route_call_detach_def]
  hf_route_call [where t = FSKIT_ROUTE_MATCH_STAT, folded fskit_route_call_stat_def]
  hf_route_call [where t = FSKIT_ROUTE_MATCH_SYNC, folded fskit_route_call_sync_def]
  hf_route_call [where t = FSKIT_ROUTE_MATCH_RENAME, folded fskit_route_call_rename_def]
  hf_route_call [where t = FSKIT_ROUTE_MATCH_LINK, folded fskit_route_call_link_def]
  hf_route_call [where t = FSKIT_ROUTE_MATCH_DESTROY, folded fskit_route_call_destroy_def]
  hf_route_call [where t = FSKIT_ROUTE_MATCH_GETXATTR, folded fskit_route_call_getxattr_def]
  hf_route_call [where t = FSKIT_ROUTE_MATCH_LISTXATTR, folded fskit_route_call_listxattr_def]
  hf_route_call [where t = FSKIT_ROUTE_MATCH_SETXATTR, folded fskit_route_call_setxattr_def]
  hf_route_call [where t = FSKIT_ROUTE_MATCH_REMOVEXATTR, folded fskit_route_call_removexattr_def]
  hf_route_call [where t = FSKIT_ROUTE_MATCH_SETMETADATA, folded fskit_route_call_setmetadata_def]

subsection \<open>Shared steps\<close>

lemma hf_run_user_destroy [hf]:
  assumes "handle_view s = k" and Q: "\<And>rc s'. handle_view s' = k \<Longrightarrow> Q (rc, s')"
  shows "post Q (fskit_run_user_destroy V path parent fent s)"
  unfolding fskit_run_user_destroy_def
  by (insert assms(1)) (assumption | rule vc hf Q)+

lemma hf_run_user_detach [hf]:
  assumes "handle_view s = k" and Q: "\<And>rc s'. handle_view s' = k \<Longrightarrow> Q (rc, s')"
  shows "post Q (fskit_run_user_detach V path fent d s)"
  unfolding fskit_run_user_detach_def
  by (insert assms(1)) (assumption | rule vc hf Q)+

lemma hf_try_destroy0 [hf]:
  assumes "handle_view s = k" and Q: "\<And>rc d s'. handle_view s' = k \<Longrightarrow> Q (rc, d, s')"
  shows "post Q (fskit_entry_try_destroy V path parent fent cbrc s)"
  unfolding fskit_entry_try_destroy_def
  by (insert assms(1)) (assumption | rule vc hf Q)+

lemma hf_try_destroy_ex [hf]:
  assumes "handle_view s = k" and Q: "\<And>rc d s'. handle_view s' = k \<Longrightarrow> Q (rc, d, s')"
  shows "post Q (fskit_entry_try_destroy_and_free_ex V path parent fent cbrc s)"
  unfolding fskit_entry_try_destroy_and_free_ex_def
  by (insert assms(1)) (assumption | rule vc hf Q)+

lemma hf_try_destroy [hf]:
  assumes "handle_view s = k" and Q: "\<And>rc s'. handle_view s' = k \<Longrightarrow> Q (rc, s')"
  shows "post Q (fskit_entry_try_destroy_and_free V path parent fent s)"
  unfolding fskit_entry_try_destroy_and_free_def
  by (insert assms(1)) (assumption | rule vc hf Q)+

lemma hf_gc [hf]:
  assumes "handle_view s = k" and Q: "\<And>rc s'. handle_view s' = k \<Longrightarrow> Q (rc, s')"
  shows "post Q (fskit_entry_try_garbage_collect V path parent child s)"
  unfolding fskit_entry_try_garbage_collect_def
  by (insert assms(1)) (assumption | rule vc hf Q)+

lemma hf_ref [hf]:
  assumes "handle_view s = k" and Q: "\<And>rc s'. handle_view s' = k \<Longrightarrow> Q (rc, s')"
  shows "post Q (fskit_entry_ref V path s)"
  unfolding fskit_entry_ref_def
  by (insert assms(1)) (assumption | rule vc hf Q)+

lemma hf_unref [hf]:
  assumes "handle_view s = k" and Q: "\<And>rc s'. handle_view s' = k \<Longrightarrow> Q (rc, s')"
  shows "post Q (fskit_entry_unref V path fent s)"
  unfolding fskit_entry_unref_def
  by (insert assms(1)) (assumption | rule vc hf Q)+

lemma hf_reclaim [hf]:
  assumes "handle_view s = k" and Q: "\<And>rc s'. handle_view s' = k \<Longrightarrow> Q (rc, s')"
  shows "post Q (reclaim_name V path parent name s)"
  unfolding reclaim_name_def
  by (insert assms(1)) (assumption | rule vc hf Q)+

subsection \<open>Operations that neither open nor close\<close>

lemma hf_run_user_mkdir [hf]:
  assumes "handle_view s = k" and Q: "\<And>rc d s'. handle_view s' = k \<Longrightarrow> Q (rc, d, s')"
  shows "post Q (fskit_run_user_mkdir V path parent fent mode cls s)"
  unfolding fskit_run_user_mkdir_def
  by (insert assms(1)) (assumption | rule vc hf Q)+

lemma hf_mkdir_lowlevel [hf]:
  assumes "handle_view s = k" and Q: "\<And>rc s'. handle_view s' = k \<Longrightarrow> Q (rc, s')"
  shows "post Q (fskit_mkdir_lowlevel V path parent name mode user grp cls s)"
  unfolding fskit_mkdir_lowlevel_def
  by (insert assms(1)) (assumption | rule vc hf Q)+

lemma hf_mkdir [hf]:
  assumes "handle_view s = k" and Q: "\<And>rc s'. handle_view s' = k \<Longrightarrow> Q (rc, s')"
  shows "post Q (fskit_mkdir V path mode user grp s)"
  unfolding fskit_mkdir_def fskit_mkdir_ex_def
  by (insert assms(1)) (assumption | rule vc hf Q)+

lemma hf_run_user_mknod [hf]:
  assumes "handle_view s = k" and Q: "\<And>rc d s'. handle_view s' = k \<Longrightarrow> Q (rc, d, s')"
  shows "post Q (fskit_run_user_mknod V path parent fent mode d cls s)"
  unfolding fskit_run_user_mknod_def
  by (insert assms(1)) (assumption | rule vc hf Q)+

lemma hf_mknod [hf]:
  assumes "handle_view s = k" and Q: "\<And>rc s'. handle_view s' = k \<Longrightarrow> Q (rc, s')"
  shows "post Q (fskit_mknod V path mode d user grp s)"
  unfolding fskit_mknod_def fskit_mknod_ex_def
  by (insert assms(1)) (assumption | rule vc hf Q post_prod_fun)+

lemma hf_unlink [hf]:
  assumes "handle_view s = k" and Q: "\<And>rc s'. handle_view s' = k \<Longrightarrow> Q (rc, s')"
  shows "post Q (fskit_unlink V path user grp s)"
  unfolding fskit_unlink_def
  by (insert assms(1)) (assumption | rule vc hf Q)+

lemma hf_rmdir [hf]:
  assumes "handle_view s = k" and Q: "\<And>rc s'. handle_view s' = k \<Longrightarrow> Q (rc, s')"
  shows "post Q (fskit_rmdir V path user grp s)"
  unfolding fskit_rmdir_def
  by (insert assms(1)) (assumption | rule vc hf Q)+

lemma hf_run_user_link [hf]:
  assumes "handle_view s = k" and Q: "\<And>rc s'. handle_view s' = k \<Longrightarrow> Q (rc, s')"
  shows "post Q (fskit_run_user_link V path new_path new_parent fent s)"
  unfolding fskit_run_user_link_def
  by (insert assms(1)) (assumption | rule vc hf Q)+

lemma hf_link [hf]:
  assumes "handle_view s = k" and Q: "\<And>rc s'. handle_view s' = k \<Longrightarrow> Q (rc, s')"
  shows "post Q (fskit_link V frm to user grp s)"
  unfolding fskit_link_def
  by (insert assms(1)) (assumption | rule vc hf Q post_dirname_buf)+

lemma hf_symlink [hf]:
  assumes "handle_view s = k" and Q: "\<And>rc s'. handle_view s' = k \<Longrightarrow> Q (rc, s')"
  shows "post Q (fskit_symlink V target path user grp s)"
  unfolding fskit_symlink_def
  by (insert assms(1)) (assumption | rule vc hf Q post_dirname_buf)+

lemma hf_run_user_rename [hf]:
  assumes "handle_view s = k" and Q: "\<And>rc s'. handle_view s' = k \<Longrightarrow> Q (rc, s')"
  shows "post Q (fskit_run_user_rename V path op f np n d s)"
  unfolding fskit_run_user_rename_def
  by (insert assms(1)) (assumption | rule vc hf Q)+

lemma hf_rename_perform [hf]:
  assumes "handle_view s = k" and Q: "\<And>rc s'. handle_view s' = k \<Longrightarrow> Q (rc, s')"
  shows "post Q (rename_perform V path op on np nn f n s)"
  unfolding rename_perform_def
  by (insert assms(1)) (assumption | rule vc hf Q)+

lemma hf_rename [hf]:
  assumes "handle_view s = k" and Q: "\<And>rc s'. handle_view s' = k \<Longrightarrow> Q (rc, s')"
  shows "post Q (fskit_rename V path new user grp s)"
  unfolding fskit_rename_def
  by (insert assms(1)) (assumption | rule vc hf Q post_prod | (rule post_any))+

lemma hf_setmetadata [hf]:
  assumes "handle_view s = k" and Q: "\<And>rc s'. handle_view s' = k \<Longrightarrow> Q (rc, s')"
  shows "post Q (fskit_run_user_setmetadata V path fent imd s)"
  unfolding fskit_run_user_setmetadata_def
  by (insert assms(1)) (assumption | rule vc hf Q)+

lemma hf_chmod [hf]:
  assumes "handle_view s = k" and Q: "\<And>rc s'. handle_view s' = k \<Longrightarrow> Q (rc, s')"
  shows "post Q (fskit_chmod V path user grp mode s)"
  unfolding fskit_chmod_def
  by (insert assms(1)) (assumption | rule vc hf Q)+

lemma hf_chown [hf]:
  assumes "handle_view s = k" and Q: "\<And>rc s'. handle_view s' = k \<Longrightarrow> Q (rc, s')"
  shows "post Q (fskit_chown V path user grp u g s)"
  unfolding fskit_chown_def
  by (insert assms(1)) (assumption | rule vc hf Q)+

lemma hf_utimes [hf]:
  assumes "handle_view s = k" and Q: "\<And>rc s'. handle_view s' = k \<Longrightarrow> Q (rc, s')"
  shows "post Q (fskit_utimes V path user grp t s)"
  unfolding fskit_utimes_def
  by (insert assms(1)) (assumption | rule vc hf Q post_prod)+

lemma hf_utime [hf]:
  assumes "handle_view s = k" and Q: "\<And>rc s'. handle_view s' = k \<Longrightarrow> Q (rc, s')"
  shows "post Q (fskit_utime V path user grp a m s)"
  unfolding fskit_utime_def using assms by (rule hf_utimes)

lemma hf_user_stat [hf]:
  assumes "handle_view s = k" and Q: "\<And>rc d s'. handle_view s' = k \<Longrightarrow> Q (rc, d, s')"
  shows "post Q (fskit_do_user_stat V path fent sb s)"
  unfolding fskit_do_user_stat_def
  by (insert assms(1)) (assumption | rule vc hf Q)+

lemma hf_fstat [hf]:
  assumes "handle_view s = k" and Q: "\<And>rc d s'. handle_view s' = k \<Longrightarrow> Q (rc, d, s')"
  shows "post Q (fskit_fstat V path fent sb s)"
  unfolding fskit_fstat_def
  by (insert assms(1)) (assumption | rule vc hf Q)+

lemma hf_stat [hf]:
  assumes "handle_view s = k" and Q: "\<And>rc d s'. handle_view s' = k \<Longrightarrow> Q (rc, d, s')"
  shows "post Q (fskit_stat V path user grp sb s)"
  unfolding fskit_stat_def
  by (insert assms(1)) (assumption | rule vc hf Q post_Inl post_Inr)+

lemma hf_run_user_open [hf]:
  assumes "handle_view s = k" and Q: "\<And>rc d s'. handle_view s' = k \<Longrightarrow> Q (rc, d, s')"
  shows "post Q (fskit_run_user_open V path fent flags s)"
  unfolding fskit_run_user_open_def
  by (insert assms(1)) (assumption | rule vc hf Q)+

lemma hf_run_user_close [hf]:
  assumes "handle_view s = k" and Q: "\<And>rc s'. handle_view s' = k \<Longrightarrow> Q (rc, s')"
  shows "post Q (fskit_run_user_close V path fent d s)"
  unfolding fskit_run_user_close_def
  by (insert assms(1)) (assumption | rule vc hf Q)+

lemma hf_run_user_trunc [hf]:
  assumes "handle_view s = k" and Q: "\<And>rc s'. handle_view s' = k \<Longrightarrow> Q (rc, s')"
  shows "post Q (fskit_run_user_trunc V path fent sz d s)"
  unfolding fskit_run_user_trunc_def
  by (insert assms(1)) (assumption | rule vc hf Q)+

lemma hf_read [hf]:
  assumes "handle_view s = k" and Q: "\<And>rc d s'. handle_view s' = k \<Longrightarrow> Q (rc, d, s')"
  shows "post Q (fskit_read V h buf n off s)"
  unfolding fskit_read_def fskit_run_user_read_def
  by (insert assms(1)) (assumption | rule vc hf Q)+

lemma hf_write [hf]:
  assumes "handle_view s = k" and Q: "\<And>rc s'. handle_view s' = k \<Longrightarrow> Q (rc, s')"
  shows "post Q (fskit_write V h buf n off s)"
  unfolding fskit_write_def fskit_run_user_write_def
  by (insert assms(1)) (assumption | rule vc hf Q)+

lemma hf_trunc [hf]:
  assumes "handle_view s = k" and Q: "\<And>rc s'. handle_view s' = k \<Longrightarrow> Q (rc, s')"
  shows "post Q (fskit_trunc V path user grp sz s)"
  unfolding fskit_trunc_def
  by (insert assms(1)) (assumption | rule vc hf Q)+

lemma hf_ftrunc [hf]:
  assumes "handle_view s = k" and Q: "\<And>rc s'. handle_view s' = k \<Longrightarrow> Q (rc, s')"
  shows "post Q (fskit_ftrunc V h sz s)"
  unfolding fskit_ftrunc_def
  by (insert assms(1)) (assumption | rule vc hf Q)+

lemma hf_fsync [hf]:
  assumes "handle_view s = k" and Q: "\<And>rc s'. handle_view s' = k \<Longrightarrow> Q (rc, s')"
  shows "post Q (fskit_fsync V h s)"
  unfolding fskit_fsync_def fskit_do_user_sync_def
  by (insert assms(1)) (assumption | rule vc hf Q)+

lemma hf_getxattr [hf]:
  assumes "handle_view s = k" and Q: "\<And>rc d s'. handle_view s' = k \<Longrightarrow> Q (rc, d, s')"
  shows "post Q (fskit_getxattr V path user grp name buf sz s)"
  unfolding fskit_getxattr_def fskit_fgetxattr_def fskit_run_user_getxattr_def
  by (insert assms(1)) (assumption | rule vc hf Q | (rule postI, (auto simp: Q post_SomeI split: prod.split; fail)))+

lemma hf_listxattr [hf]:
  assumes "handle_view s = k" and Q: "\<And>rc d s'. handle_view s' = k \<Longrightarrow> Q (rc, d, s')"
  shows "post Q (fskit_listxattr V path user grp buf sz s)"
  unfolding fskit_listxattr_def fskit_flistxattr_def fskit_run_user_listxattr_def
  by (insert assms(1)) (assumption | rule vc hf Q | (rule postI, (auto simp: Q post_SomeI split: prod.split; fail)))+

lemma hf_setxattr [hf]:
  assumes "handle_view s = k" and Q: "\<And>rc s'. handle_view s' = k \<Longrightarrow> Q (rc, s')"
  shows "post Q (fskit_setxattr V path user grp name value flags s)"
  unfolding fskit_setxattr_def fskit_fsetxattr_def fskit_run_user_setxattr_def
  by (insert assms(1)) (assumption | rule vc hf Q post_prod)+

lemma hf_removexattr [hf]:
  assumes "handle_view s = k" and Q: "\<And>rc s'. handle_view s' = k \<Longrightarrow> Q (rc, s')"
  shows "post Q (fskit_removexattr V path user grp name s)"
  unfolding fskit_removexattr_def fskit_fremovexattr_def fskit_run_user_removexattr_def
  by (insert assms(1)) (assumption | rule vc hf Q post_prod)+

lemma hf_user_readdir [hf]:
  assumes "handle_view s = k" and Q: "\<And>rc d s'. handle_view s' = k \<Longrightarrow> Q (rc, d, s')"
  shows "post Q (fskit_run_user_readdir V path fent d n s)"
  unfolding fskit_run_user_readdir_def
  by (insert assms(1)) (assumption | rule vc hf Q)+

lemma hf_readdir [hf]:
  assumes "handle_view s = k" and Q: "\<And>r s'. handle_view s' = k \<Longrightarrow> Q (r, s')"
  shows "post Q (fskit_readdir V h n s)"
  unfolding fskit_readdir_def
  by (insert assms(1)) (assumption | rule view_dhs [THEN trans] vc hf Q post_lowlevel)+

subsection \<open>Opening and closing\<close>

lemma post_case_Some: "post Q (g x) \<Longrightarrow> post Q (case Some x of None \<Rightarrow> f | Some y \<Rightarrow> g y)"
  by simp

lemma post_case_None: "post Q f \<Longrightarrow> post Q (case None of None \<Rightarrow> f | Some y \<Rightarrow> g y)"
  by simp

lemma hf_run_user_create [hf]:
  assumes "handle_view s = k" and Q: "\<And>rc d s'. handle_view s' = k \<Longrightarrow> Q (rc, d, s')"
  shows "post Q (fskit_run_user_create V path parent fent mode cls s)"
  unfolding fskit_run_user_create_def
  by (insert assms(1)) (assumption | rule vc hf Q)+

lemma post_resolve_nz:
  "(\<And>rc. rc \<noteq> 0 \<Longrightarrow> Q (Inl rc)) \<Longrightarrow> (\<And>a. Q (Inr a)) \<Longrightarrow> post Q (fskit_entry_resolve_path V path user grp s)"
  unfolding post_def by (metis resolve_path_err less_irrefl old.sum.exhaust)

lemma hf_do_create [hf]:
  assumes "handle_view s = k" and Q: "\<And>rc s'. rc \<noteq> 0 \<Longrightarrow> handle_view s' = k \<Longrightarrow> Q (Inl rc, s')"
    and Q': "\<And>x s'. handle_view s' = k \<Longrightarrow> Q (Inr x, s')"
  shows "post Q (fskit_do_create V parent path mode user grp cls s)"
  unfolding fskit_do_create_def
  by (insert assms(1)) (assumption | rule vc hf Q Q' post_prod_fun | (simp add: errno_defs; fail))+

lemma hf_open_child [hf]:
  assumes "handle_view s = k" and Q: "\<And>rc s'. rc \<noteq> 0 \<Longrightarrow> handle_view s' = k \<Longrightarrow> Q (Inl rc, s')"
    and Q': "\<And>x s'. handle_view s' = k \<Longrightarrow> Q (Inr x, s')"
  shows "post Q (open_child V path name parent p flags mode user grp cls s)"
  unfolding open_child_def
  by (insert assms(1)) (assumption | rule post_Inl post_Inr vc hf Q Q' | (simp add: errno_defs; fail))+

lemma hf_do_open [hf]:
  assumes "handle_view s = k" and Q: "\<And>rc s'. rc \<noteq> 0 \<Longrightarrow> handle_view s' = k \<Longrightarrow> Q (Inl rc, s')"
    and Q': "\<And>x s'. handle_view s' = k \<Longrightarrow> Q (Inr x, s')"
  shows "post Q (fskit_do_open V path child flags user grp s)"
  unfolding fskit_do_open_def
  by (insert assms(1)) (assumption | rule vc hf Q Q')+

lemma hf_file_handle_create [hf]:
  assumes "handle_view s = (F, D, n)" and "\<And>s'. handle_view s' = (F, D, n) \<Longrightarrow> Q (None, s')"
    and "\<And>x s'. handle_view s' = (F(n \<mapsto> x), D, Suc n) \<Longrightarrow> Q (Some n, s')"
  shows "post Q (fskit_file_handle_create V ent path flags d s)"
  using assms by (auto simp: fskit_file_handle_create_def handle_view_def post_def bind_eq_Some)

lemma hf_dir_handle_create [hf]:
  assumes "handle_view s = (F, D, n)" and "\<And>s'. handle_view s' = (F, D, n) \<Longrightarrow> Q (None, s')"
    and "\<And>s'. handle_view s' = (F, insert n D, Suc n) \<Longrightarrow> Q (Some n, s')"
  shows "post Q (fskit_dir_handle_create V dir path d s)"
  using assms by (auto simp: fskit_dir_handle_create_def handle_view_def post_def bind_eq_Some)

lemma hf_open [hf]:
  assumes "handle_view s = (F, D, n)" and Q: "\<And>rc s'. rc \<noteq> 0 \<Longrightarrow> handle_view s' = (F, D, n) \<Longrightarrow> Q (Inl rc, s')"
    and Q': "\<And>x s'. handle_view s' = (F(n \<mapsto> x), D, Suc n) \<Longrightarrow> Q (Inr n, s')"
  shows "post Q (fskit_open V path user grp flags mode s)"
  unfolding fskit_open_def fskit_open_ex_def
  by (insert assms(1)) (assumption | rule post_case_Some post_case_None post_Inl post_Inr post_resolve_nz | (simp add: errno_defs; fail) | rule vc hf Q Q')+

lemma hf_opendir [hf]:
  assumes "handle_view s = (F, D, n)" and Q: "\<And>rc s'. rc \<noteq> 0 \<Longrightarrow> handle_view s' = (F, D, n) \<Longrightarrow> Q (Inl rc, s')"
    and Q': "\<And>s'. handle_view s' = (F, insert n D, Suc n) \<Longrightarrow> Q (Inr n, s')"
  shows "post Q (fskit_opendir V path user grp s)"
  unfolding fskit_opendir_def
  by (insert assms(1)) (assumption | rule post_case_Some post_case_None post_Inl post_Inr post_resolve_nz | (simp add: errno_defs; fail) | rule vc hf Q Q')+

lemma hf_close [hf]:
  assumes "handle_view s = (F, D, n)"
    and Q: "\<And>rc s'. rc \<noteq> 0 \<Longrightarrow> handle_view s' = (F, D, n) \<Longrightarrow> Q (rc, s')"
    and Q': "\<And>s'. h \<in> dom F \<Longrightarrow> handle_view s' = (F(h := None), D, n) \<Longrightarrow> Q (0, s')"
  shows "post Q (fskit_close V h s)"
proof -
  have d: "post Q (do { s \<leftarrow> fskit_file_handle_destroy h s; Some (0, s) })" if "handle_view s = (F, D, n)" for s
    using that by (auto simp: post_def bind_eq_Some fskit_file_handle_destroy_def handle_view_def intro!: Q' split: option.splits)
  have n: "- EBADF \<noteq> 0" by (simp add: EBADF_def)
  show ?thesis
    unfolding fskit_close_def
    by (insert assms(1)) (assumption | rule d vc hf Q n | (simp; fail))+
qed

lemma hf_closedir [hf]:
  assumes "handle_view s = (F, D, n)"
    and Q: "\<And>rc s'. rc \<noteq> 0 \<Longrightarrow> handle_view s' = (F, D, n) \<Longrightarrow> Q (rc, s')"
    and Q': "\<And>s'. h \<in> D \<Longrightarrow> handle_view s' = (F, D - {h}, n) \<Longrightarrow> Q (0, s')"
  shows "post Q (fskit_closedir V h s)"
proof -
  have d: "post Q (do { s \<leftarrow> fskit_dir_handle_destroy h s; Some (0, s) })" if "handle_view s = (F, D, n)" for s
    using that by (auto simp: post_def bind_eq_Some fskit_dir_handle_destroy_def handle_view_def intro!: Q' split: option.splits)
  have n: "- EBADF \<noteq> 0" by (simp add: EBADF_def)
  show ?thesis
    unfolding fskit_closedir_def
    by (insert assms(1)) (assumption | rule d vc hf Q n | (simp; fail))+
qed

lemma post_access: "(\<And>rc. Q (rc, s)) \<Longrightarrow> post Q (fskit_access V path user grp mode s)"
  unfolding fskit_access_def by (rule vc | assumption | (simp add: Let_def; fail))+

lemma post_map_option: "post (\<lambda>x. Q (f x)) m \<Longrightarrow> post Q (map_option f m)"
  by (auto simp: post_def)

subsection \<open>Reachability\<close>

text \<open>The calls as steps of the library: each leads from a reachable state to a reachable state.\<close>

named_theorems reach

lemma reach_calls [reach]:
  assumes "reachable s" and "\<And>rc s'. reachable s' \<Longrightarrow> Q (rc, s')"
  shows
    "post Q (fskit_mkdir V path mode user grp s)"
    "post Q (fskit_mknod V path mode d user grp s)"
    "post Q (fskit_close V h s)"
    "post Q (fskit_closedir V h s)"
    "post Q (fskit_unlink V path user grp s)"
    "post Q (fskit_rmdir V path user grp s)"
    "post Q (fskit_link V path new user grp s)"
    "post Q (fskit_symlink V target path user grp s)"
    "post Q (fskit_rename V path new user grp s)"
    "post Q (fskit_chmod V path user grp mode s)"
    "post Q (fskit_chown V path user grp u g s)"
    "post Q (fskit_utimes V path user grp t s)"
    "post Q (fskit_write V h buf k off s)"
    "post Q (fskit_ftrunc V h sz s)"
    "post Q (fskit_trunc V path user grp sz s)"
    "post Q (fskit_fsync V h s)"
    "post Q (fskit_setxattr V path user grp name v fl s)"
    "post Q (fskit_removexattr V path user grp name s)"
  using assms by (auto simp: post_def intro: reachable_step fs_step.intros)

lemma reach_utime [reach]:
  "reachable s \<Longrightarrow> (\<And>rc s'. reachable s' \<Longrightarrow> Q (rc, s')) \<Longrightarrow> post Q (fskit_utime V path user grp a m s)"
  unfolding fskit_utime_def by (rule reach_calls)

lemma reach_handles [reach]:
  assumes "reachable s" and "\<And>r s'. reachable s' \<Longrightarrow> Q (r, s')"
  shows "post Q (fskit_open V path user grp flags mode s)" "post Q (fskit_opendir V path user grp s)"
  using assms by (auto simp: post_def intro: reachable_step fs_step.intros)

lemma reach_readdir [reach]:
  assumes "reachable s" and "\<And>r s'. reachable s' \<Longrightarrow> Q (r, s')"
  shows "post Q (fskit_readdir V h k s)"
  using assms by (auto simp: post_def intro: reachable_step fs_step.intros)

lemma reach_buffers [reach]:
  assumes "reachable s"
  shows "(\<And>rc b s'. reachable s' \<Longrightarrow> Q (rc, b, s')) \<Longrightarrow> post Q (fskit_read V h buf k off s)"
    "(\<And>rc b s'. reachable s' \<Longrightarrow> Q' (rc, b, s')) \<Longrightarrow> post Q' (fskit_getxattr V path user grp name v z s)"
    "(\<And>rc b s'. reachable s' \<Longrightarrow> Q' (rc, b, s')) \<Longrightarrow> post Q' (fskit_listxattr V path user grp v z s)"
    "(\<And>rc b s'. reachable s' \<Longrightarrow> Q'' (rc, b, s')) \<Longrightarrow> post Q'' (fskit_stat V path user grp sb s)"
    "(\<And>rc b s'. reachable s' \<Longrightarrow> Q'' (rc, b, s')) \<Longrightarrow> post Q'' (fskit_fstat V path a sb s)"
  by (auto simp: post_def dest: reachable_step [OF assms step_read] reachable_step [OF assms step_getxattr]
    reachable_step [OF assms step_listxattr] reachable_step [OF assms step_stat]
    reachable_step [OF assms step_fstat])

end
