(* ===== verification/Repl.thy ===== *)
theory Repl
  imports HandleFrame
begin

text \<open>
  The command interpreter of \<open>libfskit/repl.c\<close>, with which the library is tested: it reads a script
  line by line, splits a line into a command and its arguments, parses numbers and modes, keeps the
  open files and directories in two tables of 1024 descriptors, and calls the library. Every command
  of the C dispatcher is a definition of its own here; \<open>fskit_repl_stmt_dispatch\<close> chooses among them
  by name.

  What a command prints is recorded before it is formatted (\<open>repl_out\<close>). Reading the script does not
  fail, except that it ends. Logging is left out.

  The lemmas: a script reaches only states that the library's calls reach; the descriptor tables hold
  live handles, each at most once; lines that are built from a command and its arguments are parsed
  back; and the last argument of \<open>write\<close> and \<open>setxattr\<close> is not kept as a literal.
\<close>

definition FSKIT_REPL_ARGC_MAX :: nat where "FSKIT_REPL_ARGC_MAX = 10"
definition FSKIT_REPL_FILE_HANDLE_MAX :: nat where "FSKIT_REPL_FILE_HANDLE_MAX = 1024"

text \<open>A statement: the strings \<open>argv[0]\<close> to \<open>argv[argc - 1]\<close>, followed by the literal if there is one.\<close>

record repl_stmt =
  rs_cmd :: string
  rs_argv :: "string list"
  rs_argc :: nat

record repl =
  rp_filedes :: "nat option list"
  rp_dirdes :: "nat option list"

datatype repl_out = Out_num int | Out_str string | Out_dirent dir_entry | Out_stat stat_buf | Out_statvfs statvfs_buf

type_synonym repl_result = "(int \<times> repl_out list \<times> repl \<times> fs) option"

definition fskit_repl_new :: "'z sys_scheme \<Rightarrow> repl option" where
  "fskit_repl_new S =
     (if mem_ok S ''fskit_repl_new''
      then Some \<lparr>rp_filedes = replicate FSKIT_REPL_FILE_HANDLE_MAX None, rp_dirdes = replicate FSKIT_REPL_FILE_HANDLE_MAX None\<rparr>
      else None)"

text \<open>Every descriptor is closed; the results are only logged.\<close>

fun close_filedes :: "env \<Rightarrow> nat option list \<Rightarrow> fs \<Rightarrow> fs option" where
  "close_filedes V [] s = Some s"
| "close_filedes V (None # hs) s = close_filedes V hs s"
| "close_filedes V (Some h # hs) s = do { (_, s) \<leftarrow> fskit_close V h s; close_filedes V hs s }"

fun close_dirdes :: "env \<Rightarrow> nat option list \<Rightarrow> fs \<Rightarrow> fs option" where
  "close_dirdes V [] s = Some s"
| "close_dirdes V (None # hs) s = close_dirdes V hs s"
| "close_dirdes V (Some h # hs) s = do { (_, s) \<leftarrow> fskit_closedir V h s; close_dirdes V hs s }"

definition fskit_repl_free :: "env \<Rightarrow> repl \<Rightarrow> fs \<Rightarrow> fs option" where
  "fskit_repl_free V R s = do { s \<leftarrow> close_filedes V (rp_filedes R) s; close_dirdes V (rp_dirdes R) s }"

subsection \<open>Parsing a line\<close>

text \<open>
  \<open>strtok_r\<close> with any set of delimiters, as the next token and what is left; when there is no token,
  nothing is left.
\<close>

fun strtok :: "(char \<Rightarrow> bool) \<Rightarrow> string \<Rightarrow> (string \<times> string) option" where
  "strtok delim [] = None"
| "strtok delim (c # cs) =
     (if delim c then strtok delim cs
      else Some (c # takeWhile (\<lambda>c. \<not> delim c) cs, drop 1 (dropWhile (\<lambda>c. \<not> delim c) cs)))"

definition is_blank :: "char \<Rightarrow> bool" where
  "is_blank c = (c = CHR 0x20 \<or> c = CHR 0x09)"

text \<open>The loop over the arguments: at most \<open>n\<close> of them, and what is left of the line.\<close>

fun parse_args :: "nat \<Rightarrow> string \<Rightarrow> string list \<times> string" where
  "parse_args 0 tmp = ([], tmp)"
| "parse_args (Suc n) tmp =
     (case strtok is_blank tmp of
        None \<Rightarrow> ([], [])
      | Some (arg, tmp) \<Rightarrow> (case parse_args n tmp of (args, tmp) \<Rightarrow> (arg # args, tmp)))"

text \<open>\<open>getline\<close>: a line with its newline, if it has one, and the rest of the input.\<close>

definition getline :: "string \<Rightarrow> (string \<times> string) option" where
  "getline input =
     (if input = [] then None
      else let line = takeWhile (\<lambda>c. c \<noteq> CHR 0x0A) input; rest = dropWhile (\<lambda>c. c \<noteq> CHR 0x0A) input
           in Some (line @ take 1 rest, drop 1 rest))"

text \<open>
  The outcome of reading a statement: an error code, with 0 for a line without a command, or the
  statement; and the rest of the input. The last character of the line is overwritten with a NUL,
  whether it is a newline or not.
\<close>

definition fskit_repl_stmt_parse :: "'z sys_scheme \<Rightarrow> string \<Rightarrow> (int + repl_stmt) \<times> string" where
  "fskit_repl_stmt_parse S input =
     (case getline input of
        None \<Rightarrow> (Inl (- ENODATA), input)
      | Some (line, rest) \<Rightarrow>
          let linebuf = cstr (butlast line) in
          if linebuf = [] then (Inl 0, rest)
          else if \<not> mem_ok S ''fskit_repl_stmt_parse'' then (Inl (- ENOMEM), rest)
          else
            (case strtok is_blank linebuf of
               None \<Rightarrow> (Inl 0, rest)
             | Some (cmd, tmp) \<Rightarrow>
                 let last_arg_is_literal = (if cmd = ''write'' \<or> cmd = ''setxattr'' then 1 else 0);
                     (args, tmp) = parse_args (FSKIT_REPL_ARGC_MAX - last_arg_is_literal) tmp;
                     i = length args
                 in if i = FSKIT_REPL_ARGC_MAX - last_arg_is_literal then (Inl (- EINVAL), rest)
                    else
                      let literal = (if last_arg_is_literal \<noteq> 0 then strtok (\<lambda>_. False) tmp else None)
                      in (Inr \<lparr>rs_cmd = cmd, rs_argv = args @ (case literal of None \<Rightarrow> [] | Some (l, _) \<Rightarrow> [l]),
                               rs_argc = i\<rparr>, rest)))"

subsection \<open>Numbers\<close>

text \<open>
  \<open>strtoul\<close> and \<open>strtoull\<close> for the bases 8 and 10: white space, a sign, digits; too large a number is
  the largest one, a minus sign negates modulo \<open>2 ^ 64\<close>; without digits the value is 0 and the end
  pointer is the start.
\<close>

definition is_space :: "char \<Rightarrow> bool" where
  "is_space c = (c = CHR 0x20 \<or> (9 \<le> (of_char c :: nat) \<and> (of_char c :: nat) \<le> 13))"

definition is_digit :: "nat \<Rightarrow> char \<Rightarrow> bool" where
  "is_digit b c = (48 \<le> (of_char c :: nat) \<and> (of_char c :: nat) < 48 + b)"

definition digits_value :: "int \<Rightarrow> string \<Rightarrow> int" where
  "digits_value b ds = foldl (\<lambda>v c. v * b + (of_char c - 48)) 0 ds"

definition strtoul :: "nat \<Rightarrow> string \<Rightarrow> u64 \<times> string" where
  "strtoul b str =
     (let s1 = dropWhile is_space str;
          neg = (s1 \<noteq> [] \<and> List.hd s1 = CHR ''-'');
          s2 = (if s1 \<noteq> [] \<and> (List.hd s1 = CHR ''-'' \<or> List.hd s1 = CHR ''+'') then tl s1 else s1);
          ds = takeWhile (is_digit b) s2;
          v = digits_value (int b) ds
      in if ds = [] then (0, str)
         else (if v > 18446744073709551615 then -1 else if neg then - of_int v else of_int v, dropWhile (is_digit b) s2))"

definition fskit_repl_stmt_parse_uint64 :: "string \<Rightarrow> int + u64" where
  "fskit_repl_stmt_parse_uint64 str =
     (let (ret, tmp) = strtoul 10 str in if ret = 0 \<and> tmp \<noteq> [] then Inl (- EINVAL) else Inr ret)"

definition fskit_repl_stmt_parse_mode :: "string \<Rightarrow> int + u32" where
  "fskit_repl_stmt_parse_mode modearg =
     (let (v, tmp) = strtoul 8 modearg; mode = ucast v :: u32
      in if mode = 0 \<and> tmp \<noteq> [] then Inl (- EINVAL) else Inr mode)"

definition argn :: "repl_stmt \<Rightarrow> nat \<Rightarrow> string" where
  "argn st i = rs_argv st ! i"

definition fskit_repl_stmt_parse_user_group :: "repl_stmt \<Rightarrow> nat \<Rightarrow> int + u64 \<times> u64" where
  "fskit_repl_stmt_parse_user_group st offset =
     (if rs_argc st < offset + 2 then Inl (- EINVAL)
      else
        (case fskit_repl_stmt_parse_uint64 (argn st offset) of
           Inl rc \<Rightarrow> Inl rc
         | Inr user \<Rightarrow>
             (case fskit_repl_stmt_parse_uint64 (argn st (offset + 1)) of
                Inl rc \<Rightarrow> Inl rc
              | Inr grp \<Rightarrow> Inr (user, grp))))"

subsection \<open>Descriptors\<close>

text \<open>A descriptor arrives as an unsigned number of 64 bits and is cut to an \<open>int\<close>.\<close>

definition to_int :: "u64 \<Rightarrow> int" where
  "to_int x = sint (ucast x :: u32)"

definition slot_insert :: "nat option list \<Rightarrow> nat \<Rightarrow> int + nat \<times> nat option list" where
  "slot_insert slots h =
     (case empty_slot slots of None \<Rightarrow> Inl (- ENFILE) | Some i \<Rightarrow> Inr (i, slots[i := Some h]))"

definition slot_lookup :: "nat option list \<Rightarrow> int \<Rightarrow> nat option" where
  "slot_lookup slots fd = (if fd < 0 \<or> fd \<ge> int FSKIT_REPL_FILE_HANDLE_MAX then None else slots ! nat fd)"

definition fskit_repl_filedes_insert :: "repl \<Rightarrow> nat \<Rightarrow> int + nat \<times> repl" where
  "fskit_repl_filedes_insert R fh =
     map_sum id (\<lambda>(i, slots). (i, R\<lparr>rp_filedes := slots\<rparr>)) (slot_insert (rp_filedes R) fh)"

definition fskit_repl_dirdes_insert :: "repl \<Rightarrow> nat \<Rightarrow> int + nat \<times> repl" where
  "fskit_repl_dirdes_insert R dh =
     map_sum id (\<lambda>(i, slots). (i, R\<lparr>rp_dirdes := slots\<rparr>)) (slot_insert (rp_dirdes R) dh)"

definition fskit_repl_filedes_lookup :: "repl \<Rightarrow> int \<Rightarrow> nat option" where
  "fskit_repl_filedes_lookup R fd = slot_lookup (rp_filedes R) fd"

definition fskit_repl_dirdes_lookup :: "repl \<Rightarrow> int \<Rightarrow> nat option" where
  "fskit_repl_dirdes_lookup R dfd = slot_lookup (rp_dirdes R) dfd"

definition fskit_repl_filedes_close :: "env \<Rightarrow> repl \<Rightarrow> int \<Rightarrow> fs \<Rightarrow> (int \<times> repl \<times> fs) option" where
  "fskit_repl_filedes_close V R fd s =
     (case slot_lookup (rp_filedes R) fd of
        None \<Rightarrow> Some (- EBADF, R, s)
      | Some fh \<Rightarrow>
          do {
            (rc, s) \<leftarrow> fskit_close V fh s;
            Some (rc, if rc = 0 then R\<lparr>rp_filedes := (rp_filedes R)[nat fd := None]\<rparr> else R, s)
          })"

definition fskit_repl_dirdes_close :: "env \<Rightarrow> repl \<Rightarrow> int \<Rightarrow> fs \<Rightarrow> (int \<times> repl \<times> fs) option" where
  "fskit_repl_dirdes_close V R dfd s =
     (case slot_lookup (rp_dirdes R) dfd of
        None \<Rightarrow> Some (- EBADF, R, s)
      | Some dh \<Rightarrow>
          do {
            (rc, s) \<leftarrow> fskit_closedir V dh s;
            Some (rc, if rc = 0 then R\<lparr>rp_dirdes := (rp_dirdes R)[nat dfd := None]\<rparr> else R, s)
          })"

subsection \<open>Commands\<close>

text \<open>
  Every command checks the number of its arguments and parses them, one after the other; the first
  failure is the result.
\<close>

definition parsed :: "int + 'a \<Rightarrow> repl \<Rightarrow> fs \<Rightarrow> ('a \<Rightarrow> repl_result) \<Rightarrow> repl_result" where
  "parsed r R s f = (case r of Inl rc \<Rightarrow> Some (rc, [], R, s) | Inr x \<Rightarrow> f x)"

definition with_args :: "nat \<Rightarrow> repl_stmt \<Rightarrow> repl \<Rightarrow> fs \<Rightarrow> repl_result \<Rightarrow> repl_result" where
  "with_args n st R s r = (if rs_argc st \<noteq> n then Some (- EINVAL, [], R, s) else r)"

definition with_user :: "nat \<Rightarrow> repl_stmt \<Rightarrow> repl \<Rightarrow> fs \<Rightarrow> (u64 \<times> u64 \<Rightarrow> repl_result) \<Rightarrow> repl_result" where
  "with_user n st R s f = with_args n st R s (parsed (fskit_repl_stmt_parse_user_group st 0) R s f)"

definition status :: "repl \<Rightarrow> (int \<times> fs) option \<Rightarrow> repl_result" where
  "status R m = map_option (\<lambda>(rc, s). (rc, [], R, s)) m"

definition repl_access :: "env \<Rightarrow> repl \<Rightarrow> repl_stmt \<Rightarrow> fs \<Rightarrow> repl_result" where
  "repl_access V R st s = with_user 4 st R s (\<lambda>(user_id, group_id).
     parsed (fskit_repl_stmt_parse_mode (argn st 3)) R s (\<lambda>mode.
     status R (fskit_access V (argn st 2) user_id group_id (unat mode) s)))"

definition repl_chmod :: "env \<Rightarrow> repl \<Rightarrow> repl_stmt \<Rightarrow> fs \<Rightarrow> repl_result" where
  "repl_chmod V R st s = with_user 4 st R s (\<lambda>(user_id, group_id).
     parsed (fskit_repl_stmt_parse_mode (argn st 3)) R s (\<lambda>mode.
     status R (fskit_chmod V (argn st 2) user_id group_id mode s)))"

definition repl_chown :: "env \<Rightarrow> repl \<Rightarrow> repl_stmt \<Rightarrow> fs \<Rightarrow> repl_result" where
  "repl_chown V R st s = with_user 5 st R s (\<lambda>(user_id, group_id).
     parsed (fskit_repl_stmt_parse_user_group st 3) R s (\<lambda>(new_user_id, new_group_id).
     status R (fskit_chown V (argn st 2) user_id group_id new_user_id new_group_id s)))"

definition repl_close :: "env \<Rightarrow> repl \<Rightarrow> repl_stmt \<Rightarrow> fs \<Rightarrow> repl_result" where
  "repl_close V R st s = with_args 1 st R s (
     parsed (fskit_repl_stmt_parse_uint64 (argn st 0)) R s (\<lambda>filedes.
     map_option (\<lambda>(rc, R, s). (rc, [], R, s)) (fskit_repl_filedes_close V R (to_int filedes) s)))"

definition repl_closedir :: "env \<Rightarrow> repl \<Rightarrow> repl_stmt \<Rightarrow> fs \<Rightarrow> repl_result" where
  "repl_closedir V R st s = with_args 1 st R s (
     parsed (fskit_repl_stmt_parse_uint64 (argn st 0)) R s (\<lambda>filedes.
     map_option (\<lambda>(rc, R, s). (rc, [], R, s)) (fskit_repl_dirdes_close V R (to_int filedes) s)))"

text \<open>A handle that was opened goes into the table and its descriptor is printed; without room it is closed.\<close>

definition keep_filedes :: "env \<Rightarrow> repl \<Rightarrow> nat \<Rightarrow> (nat \<Rightarrow> int) \<Rightarrow> fs \<Rightarrow> repl_result" where
  "keep_filedes V R fh rc_of s =
     (case fskit_repl_filedes_insert R fh of
        Inl rc \<Rightarrow> do { (_, s) \<leftarrow> fskit_close V fh s; Some (rc, [], R, s) }
      | Inr (i, R) \<Rightarrow> Some (rc_of i, [Out_num (int i)], R, s))"

definition repl_create :: "env \<Rightarrow> repl \<Rightarrow> repl_stmt \<Rightarrow> fs \<Rightarrow> repl_result" where
  "repl_create V R st s = with_user 4 st R s (\<lambda>(user_id, group_id).
     parsed (fskit_repl_stmt_parse_mode (argn st 3)) R s (\<lambda>mode.
     do {
       (r, s) \<leftarrow> fskit_create V (argn st 2) user_id group_id mode s;
       (case r of
          Inl rc \<Rightarrow> Some (0, [], R, s)
        | Inr fh \<Rightarrow> keep_filedes V R fh (\<lambda>_. 0) s)
     }))"

definition repl_getxattr :: "env \<Rightarrow> repl \<Rightarrow> repl_stmt \<Rightarrow> fs \<Rightarrow> repl_result" where
  "repl_getxattr V R st s = with_user 4 st R s (\<lambda>(user_id, group_id).
     do {
       (attrlen, _, s) \<leftarrow> fskit_getxattr V (argn st 2) user_id group_id (argn st 3) None 0 s;
       if attrlen < 0 then Some (attrlen, [], R, s)
       else if \<not> mem_ok V ''fskit_repl_stmt_dispatch'' then Some (- ENOMEM, [], R, s)
       else do {
         (attrlen, attrvalue, s) \<leftarrow> fskit_getxattr V (argn st 2) user_id group_id (argn st 3)
            (Some (replicate (nat attrlen + 1) NUL)) (nat attrlen) s;
         if attrlen < 0 then Some (attrlen, [], R, s)
         else do {
           v \<leftarrow> attrvalue;
           Some (attrlen, [Out_num attrlen, Out_str (cstr v)], R, s)
         }
       }
     })"

definition repl_link :: "env \<Rightarrow> repl \<Rightarrow> repl_stmt \<Rightarrow> fs \<Rightarrow> repl_result" where
  "repl_link V R st s = with_user 4 st R s (\<lambda>(user_id, group_id).
     status R (fskit_link V (argn st 2) (argn st 3) user_id group_id s))"

text \<open>
  The loop that prints the names advances by the length of the first one each time. It runs at most
  as often as there are bytes.
\<close>

fun print_names :: "nat \<Rightarrow> nat \<Rightarrow> string \<Rightarrow> repl_out list" where
  "print_names attrlen 0 attrvalue = []"
| "print_names attrlen (Suc n) attrvalue =
     (let offset = attrlen - Suc n in
      Out_str (cstr (drop offset attrvalue)) # print_names attrlen (n - length (cstr attrvalue)) attrvalue)"

definition repl_listxattr :: "env \<Rightarrow> repl \<Rightarrow> repl_stmt \<Rightarrow> fs \<Rightarrow> repl_result" where
  "repl_listxattr V R st s = with_user 3 st R s (\<lambda>(user_id, group_id).
     do {
       (attrlen, _, s) \<leftarrow> fskit_listxattr V (argn st 2) user_id group_id None 0 s;
       if attrlen < 0 then Some (attrlen, [], R, s)
       else if \<not> mem_ok V ''fskit_repl_stmt_dispatch'' then Some (- ENOMEM, [], R, s)
       else do {
         (attrlen, attrvalue, s) \<leftarrow> fskit_listxattr V (argn st 2) user_id group_id
            (Some (replicate (nat attrlen + 1) NUL)) (nat attrlen) s;
         if attrlen < 0 then Some (0, [], R, s)
         else do {
           v \<leftarrow> attrvalue;
           Some (0, Out_num attrlen # print_names (nat attrlen) (nat attrlen) v, R, s)
         }
       }
     })"

text \<open>
  The call of \<open>fskit_mkdir\<close> has its arguments in another order than the function: the user is passed
  for the mode, the group for the user and the mode for the group.
\<close>

definition repl_mkdir :: "env \<Rightarrow> repl \<Rightarrow> repl_stmt \<Rightarrow> fs \<Rightarrow> repl_result" where
  "repl_mkdir V R st s = with_user 4 st R s (\<lambda>(user_id, group_id).
     parsed (fskit_repl_stmt_parse_mode (argn st 3)) R s (\<lambda>mode.
     status R (fskit_mkdir V (argn st 2) (ucast user_id) group_id (ucast mode) s)))"

definition repl_mknod :: "env \<Rightarrow> repl \<Rightarrow> repl_stmt \<Rightarrow> fs \<Rightarrow> repl_result" where
  "repl_mknod V R st s = with_user 5 st R s (\<lambda>(user_id, group_id).
     parsed (fskit_repl_stmt_parse_mode (argn st 4)) R s (\<lambda>mode.
     parsed (fskit_repl_stmt_parse_uint64 (argn st 3)) R s (\<lambda>d.
     status R (fskit_mknod V (argn st 2) mode d user_id group_id s))))"

definition repl_open :: "env \<Rightarrow> repl \<Rightarrow> repl_stmt \<Rightarrow> fs \<Rightarrow> repl_result" where
  "repl_open V R st s = with_user 4 st R s (\<lambda>(user_id, group_id).
     parsed (fskit_repl_stmt_parse_uint64 (argn st 3)) R s (\<lambda>flags.
     do {
       (r, s) \<leftarrow> fskit_open V (argn st 2) user_id group_id (unat (ucast flags :: u32)) 0 s;
       (case r of
          Inl rc \<Rightarrow> Some (rc, [], R, s)
        | Inr fh \<Rightarrow> keep_filedes V R fh int s)
     }))"

definition repl_opendir :: "env \<Rightarrow> repl \<Rightarrow> repl_stmt \<Rightarrow> fs \<Rightarrow> repl_result" where
  "repl_opendir V R st s = with_user 3 st R s (\<lambda>(user_id, group_id).
     do {
       (r, s) \<leftarrow> fskit_opendir V (argn st 2) user_id group_id s;
       (case r of
          Inl rc \<Rightarrow> Some (0, [], R, s)
        | Inr dh \<Rightarrow>
            (case fskit_repl_dirdes_insert R dh of
               Inl rc \<Rightarrow> do { (_, s) \<leftarrow> fskit_closedir V dh s; Some (rc, [], R, s) }
             | Inr (i, R) \<Rightarrow> Some (0, [Out_num (int i)], R, s)))
     })"

text \<open>
  The buffer has one byte more than is read, of a size that wraps around. The result is cut to an \<open>int\<close>.
\<close>

definition repl_read :: "env \<Rightarrow> repl \<Rightarrow> repl_stmt \<Rightarrow> fs \<Rightarrow> repl_result" where
  "repl_read V R st s = with_args 3 st R s (
     parsed (fskit_repl_stmt_parse_uint64 (argn st 0)) R s (\<lambda>filedes.
     parsed (fskit_repl_stmt_parse_uint64 (argn st 1)) R s (\<lambda>offset.
     parsed (fskit_repl_stmt_parse_uint64 (argn st 2)) R s (\<lambda>len.
     (case fskit_repl_filedes_lookup R (to_int filedes) of
        None \<Rightarrow> Some (- EBADF, [], R, s)
      | Some fh \<Rightarrow>
          if \<not> mem_ok V ''fskit_repl_stmt_dispatch'' then Some (- ENOMEM, [], R, s)
          else do {
            (num_read, buf, s) \<leftarrow> fskit_read V fh (replicate (unat (len + 1)) NUL) (unat len) (sint offset) s;
            let rc = wrap32 num_read in
            (if rc < 0 then Some (rc, [], R, s)
             else Some (0, [Out_num rc, Out_str (cstr buf)], R, s))
          })))))"

definition repl_readdir :: "env \<Rightarrow> repl \<Rightarrow> repl_stmt \<Rightarrow> fs \<Rightarrow> repl_result" where
  "repl_readdir V R st s = with_args 2 st R s (
     parsed (fskit_repl_stmt_parse_uint64 (argn st 0)) R s (\<lambda>filedes.
     parsed (fskit_repl_stmt_parse_uint64 (argn st 1)) R s (\<lambda>num_children.
     (case fskit_repl_dirdes_lookup R (to_int filedes) of
        None \<Rightarrow> Some (- EBADF, [], R, s)
      | Some dh \<Rightarrow>
          do {
            (r, s) \<leftarrow> fskit_readdir V dh (unat num_children) s;
            (case r of
               Inl rc \<Rightarrow> Some (rc, [], R, s)
             | Inr None \<Rightarrow> Some (0, [], R, s)
             | Inr (Some dents) \<Rightarrow>
                 Some (0, Out_num (int (length dents)) # map Out_dirent dents, R, s))
          }))))"

definition repl_readlink :: "env \<Rightarrow> repl \<Rightarrow> repl_stmt \<Rightarrow> fs \<Rightarrow> repl_result" where
  "repl_readlink V R st s = with_user 3 st R s (\<lambda>(user_id, group_id).
     do {
       r \<leftarrow> fskit_readlink V (argn st 2) user_id group_id 4096 s;
       (case r of
          Inl rc \<Rightarrow> Some (rc, [], R, s)
        | Inr pathbuf \<Rightarrow> Some (int (length pathbuf), [Out_str (cstr pathbuf)], R, s))
     })"

definition repl_removexattr :: "env \<Rightarrow> repl \<Rightarrow> repl_stmt \<Rightarrow> fs \<Rightarrow> repl_result" where
  "repl_removexattr V R st s = with_user 4 st R s (\<lambda>(user_id, group_id).
     status R (fskit_removexattr V (argn st 2) user_id group_id (argn st 3) s))"

definition repl_rename :: "env \<Rightarrow> repl \<Rightarrow> repl_stmt \<Rightarrow> fs \<Rightarrow> repl_result" where
  "repl_rename V R st s = with_user 4 st R s (\<lambda>(user_id, group_id).
     status R (fskit_rename V (argn st 2) (argn st 3) user_id group_id s))"

definition repl_rmdir :: "env \<Rightarrow> repl \<Rightarrow> repl_stmt \<Rightarrow> fs \<Rightarrow> repl_result" where
  "repl_rmdir V R st s = with_user 3 st R s (\<lambda>(user_id, group_id).
     status R (fskit_rmdir V (argn st 2) user_id group_id s))"

definition repl_setxattr :: "env \<Rightarrow> repl \<Rightarrow> repl_stmt \<Rightarrow> fs \<Rightarrow> repl_result" where
  "repl_setxattr V R st s = with_user 6 st R s (\<lambda>(user_id, group_id).
     parsed (fskit_repl_stmt_parse_uint64 (argn st 4)) R s (\<lambda>flags.
     status R (fskit_setxattr V (argn st 2) user_id group_id (argn st 3) (argn st 5) (unat (ucast flags :: u32)) s)))"

text \<open>The buffer for \<open>stat\<close> is not initialised by the code; \<open>zero_stat\<close> stands for it.\<close>

definition repl_stat :: "env \<Rightarrow> repl \<Rightarrow> repl_stmt \<Rightarrow> fs \<Rightarrow> repl_result" where
  "repl_stat V R st s = with_user 3 st R s (\<lambda>(user_id, group_id).
     do {
       (rc, sb, s) \<leftarrow> fskit_stat V (argn st 2) user_id group_id zero_stat s;
       Some (rc, if rc < 0 then [] else [Out_stat sb], R, s)
     })"

definition repl_statvfs :: "env \<Rightarrow> repl \<Rightarrow> repl_stmt \<Rightarrow> fs \<Rightarrow> repl_result" where
  "repl_statvfs V R st s = with_user 3 st R s (\<lambda>(user_id, group_id).
     do {
       r \<leftarrow> fskit_statvfs V (argn st 2) user_id group_id s;
       (case r of
          Inl rc \<Rightarrow> Some (rc, [], R, s)
        | Inr svfs \<Rightarrow> Some (0, [Out_statvfs svfs], R, s))
     })"

definition repl_symlink :: "env \<Rightarrow> repl \<Rightarrow> repl_stmt \<Rightarrow> fs \<Rightarrow> repl_result" where
  "repl_symlink V R st s = with_user 4 st R s (\<lambda>(user_id, group_id).
     status R (fskit_symlink V (Some (argn st 2)) (argn st 3) user_id group_id s))"

definition repl_sync :: "env \<Rightarrow> repl \<Rightarrow> repl_stmt \<Rightarrow> fs \<Rightarrow> repl_result" where
  "repl_sync V R st s = with_args 1 st R s (
     parsed (fskit_repl_stmt_parse_uint64 (argn st 0)) R s (\<lambda>filedes.
     (case fskit_repl_filedes_lookup R (to_int filedes) of
        None \<Rightarrow> Some (- EBADF, [], R, s)
      | Some fh \<Rightarrow> status R (fskit_fsync V fh s))))"

definition repl_trunc :: "env \<Rightarrow> repl \<Rightarrow> repl_stmt \<Rightarrow> fs \<Rightarrow> repl_result" where
  "repl_trunc V R st s = with_user 4 st R s (\<lambda>(user_id, group_id).
     parsed (fskit_repl_stmt_parse_uint64 (argn st 3)) R s (\<lambda>size.
     status R (fskit_trunc V (argn st 2) user_id group_id (sint size) s)))"

definition repl_unlink :: "env \<Rightarrow> repl \<Rightarrow> repl_stmt \<Rightarrow> fs \<Rightarrow> repl_result" where
  "repl_unlink V R st s = with_user 3 st R s (\<lambda>(user_id, group_id).
     status R (fskit_unlink V (argn st 2) user_id group_id s))"

definition repl_utime :: "env \<Rightarrow> repl \<Rightarrow> repl_stmt \<Rightarrow> fs \<Rightarrow> repl_result" where
  "repl_utime V R st s = with_user 7 st R s (\<lambda>(user_id, group_id).
     parsed (fskit_repl_stmt_parse_uint64 (argn st 3)) R s (\<lambda>asec.
     parsed (fskit_repl_stmt_parse_uint64 (argn st 4)) R s (\<lambda>ausec.
     parsed (fskit_repl_stmt_parse_uint64 (argn st 5)) R s (\<lambda>msec.
     parsed (fskit_repl_stmt_parse_uint64 (argn st 6)) R s (\<lambda>musec.
     status R (fskit_utimes V (argn st 2) user_id group_id
       (Some ((sint asec, sint ausec), (sint msec, sint musec))) s))))))"

definition repl_write :: "env \<Rightarrow> repl \<Rightarrow> repl_stmt \<Rightarrow> fs \<Rightarrow> repl_result" where
  "repl_write V R st s = with_args 4 st R s (
     parsed (fskit_repl_stmt_parse_uint64 (argn st 0)) R s (\<lambda>filedes.
     parsed (fskit_repl_stmt_parse_uint64 (argn st 1)) R s (\<lambda>offset.
     parsed (fskit_repl_stmt_parse_uint64 (argn st 2)) R s (\<lambda>len.
     (case fskit_repl_filedes_lookup R (to_int filedes) of
        None \<Rightarrow> Some (- EBADF, [], R, s)
      | Some fh \<Rightarrow>
          do {
            (num_written, s) \<leftarrow> fskit_write V fh (argn st 3) (unat len) (sint offset) s;
            let rc = wrap32 num_written in
            Some (rc, if rc < 0 then [] else [Out_num rc], R, s)
          })))))"

subsection \<open>Dispatch and the main loop\<close>

definition repl_commands :: "(string \<times> (env \<Rightarrow> repl \<Rightarrow> repl_stmt \<Rightarrow> fs \<Rightarrow> repl_result)) list" where
  "repl_commands =
     [(''access'', repl_access),
      (''chmod'', repl_chmod),
      (''chown'', repl_chown),
      (''close'', repl_close),
      (''closedir'', repl_closedir),
      (''create'', repl_create),
      (''getxattr'', repl_getxattr),
      (''link'', repl_link),
      (''listxattr'', repl_listxattr),
      (''mkdir'', repl_mkdir),
      (''mknod'', repl_mknod),
      (''open'', repl_open),
      (''opendir'', repl_opendir),
      (''read'', repl_read),
      (''readdir'', repl_readdir),
      (''readlink'', repl_readlink),
      (''removexattr'', repl_removexattr),
      (''rename'', repl_rename),
      (''rmdir'', repl_rmdir),
      (''setxattr'', repl_setxattr),
      (''stat'', repl_stat),
      (''statvfs'', repl_statvfs),
      (''symlink'', repl_symlink),
      (''sync'', repl_sync),
      (''trunc'', repl_trunc),
      (''unlink'', repl_unlink),
      (''utime'', repl_utime),
      (''write'', repl_write)]"

definition fskit_repl_stmt_dispatch :: "env \<Rightarrow> repl \<Rightarrow> repl_stmt \<Rightarrow> fs \<Rightarrow> repl_result" where
  "fskit_repl_stmt_dispatch V R st s =
     (case map_of repl_commands (rs_cmd st) of
        None \<Rightarrow> Some (- EINVAL, [], R, s)
      | Some f \<Rightarrow> f V R st s)"

text \<open>
  The loop. \<open>feof\<close> holds when a read has met the end of the input: when the last line has no newline,
  or when \<open>getline\<close> found nothing. Every line uses up input, so the length of the input bounds the number of
  rounds. The \<open>n\<close>-th line has the environment \<open>Vs n\<close>.
\<close>

definition hits_eof :: "string \<Rightarrow> bool" where
  "hits_eof input = (CHR 0x0A \<notin> set input)"

function repl_loop :: "(nat \<Rightarrow> env) \<Rightarrow> nat \<Rightarrow> int \<Rightarrow> bool \<Rightarrow> string \<Rightarrow> repl \<Rightarrow> fs \<Rightarrow> repl_result" where
  "repl_loop Vs n rc eof input R s =
     (if eof then Some (rc, [], R, s)
      else if input = [] then Some (- ENODATA, [], R, s)
      else
        (case fskit_repl_stmt_parse (Vs n) input of
           (Inl rc, rest) \<Rightarrow> repl_loop Vs (Suc n) rc (hits_eof input) rest R s
         | (Inr st, rest) \<Rightarrow>
             do {
               (rc, out, R, s) \<leftarrow> fskit_repl_stmt_dispatch (Vs n) R st s;
               (rc, out', R, s) \<leftarrow> repl_loop Vs (Suc n) rc (hits_eof input) rest R s;
               Some (rc, out @ out', R, s)
             }))"
  by pat_completeness auto

lemma getline_shorter: "getline input = Some (line, rest) \<Longrightarrow> length rest < length input"
proof -
  assume g: "getline input = Some (line, rest)"
  then have "input \<noteq> []" and r: "rest = drop 1 (dropWhile (\<lambda>c. c \<noteq> CHR 0x0A) input)"
    by (auto simp: getline_def Let_def split: if_splits)
  then show ?thesis using length_dropWhile_le [of "\<lambda>c. c \<noteq> CHR 0x0A" input]
    by (cases "dropWhile (\<lambda>c. c \<noteq> CHR 0x0A) input") auto
qed

lemma parse_rest: "snd (fskit_repl_stmt_parse S input) = (case getline input of None \<Rightarrow> input | Some (_, rest) \<Rightarrow> rest)"
  by (simp add: fskit_repl_stmt_parse_def Let_def split: option.splits prod.splits)

lemma parse_shorter:
  "input \<noteq> [] \<Longrightarrow> fskit_repl_stmt_parse S input = (r, rest) \<Longrightarrow> length rest < length input"
  using parse_rest [of S input] getline_shorter [of input]
  by (cases "getline input") (auto simp: getline_def Let_def)

termination repl_loop
  by (relation "measure (\<lambda>(_, _, _, _, input, _, _). length input)") (auto intro: parse_shorter [OF _ sym])

declare repl_loop.simps [simp del]

definition fskit_repl_main :: "(nat \<Rightarrow> env) \<Rightarrow> string \<Rightarrow> repl \<Rightarrow> fs \<Rightarrow> repl_result" where
  "fskit_repl_main Vs input R s = repl_loop Vs 0 0 False input R s"

subsection \<open>The descriptor tables\<close>

text \<open>
  The invariant of the interpreter, over what \<open>handle_view\<close> sees: the tables have their length, every
  descriptor holds a live handle, no handle has two descriptors, and handle numbers from the next one
  on are unused.
\<close>

definition slots_ok :: "nat option list \<Rightarrow> nat set \<Rightarrow> bool" where
  "slots_ok slots live =
     (length slots = FSKIT_REPL_FILE_HANDLE_MAX \<and>
      (\<forall>i<length slots. \<forall>h. slots ! i = Some h \<longrightarrow> h \<in> live) \<and>
      (\<forall>i<length slots. \<forall>j<length slots. \<forall>h. slots ! i = Some h \<longrightarrow> slots ! j = Some h \<longrightarrow> i = j))"

definition repl_inv :: "repl \<Rightarrow> (nat \<Rightarrow> file_handle option) \<times> nat set \<times> nat \<Rightarrow> bool" where
  "repl_inv R = (\<lambda>(F, D, n). slots_ok (rp_filedes R) (dom F) \<and> slots_ok (rp_dirdes R) D \<and>
     (\<forall>h\<ge>n. h \<notin> dom F \<and> h \<notin> D))"

lemma slots_ok_mono: "slots_ok slots live \<Longrightarrow> live \<subseteq> live' \<Longrightarrow> slots_ok slots live'"
  by (auto simp: slots_ok_def)

lemma slots_ok_upd:
  assumes S: "slots_ok slots live" and i: "i < length slots"
    and new: "\<And>h. v = Some h \<Longrightarrow> h \<in> live' \<and> h \<notin> live"
    and old: "\<And>j h. j < length slots \<Longrightarrow> j \<noteq> i \<Longrightarrow> slots ! j = Some h \<Longrightarrow> h \<in> live'"
  shows "slots_ok (slots[i := v]) live'"
  unfolding slots_ok_def
proof (intro conjI allI impI)
  show "length (slots[i := v]) = FSKIT_REPL_FILE_HANDLE_MAX" using S by (simp add: slots_ok_def)
next
  fix j h
  assume "j < length (slots[i := v])" and "slots[i := v] ! j = Some h"
  then show "h \<in> live'" using new old i by (cases "j = i") auto
next
  fix j k h
  assume j: "j < length (slots[i := v])" "k < length (slots[i := v])"
    and h: "slots[i := v] ! j = Some h" "slots[i := v] ! k = Some h"
  have l: "m < length slots \<Longrightarrow> slots ! m = Some h \<Longrightarrow> h \<in> live" for m using S by (auto simp: slots_ok_def)
  have d: "slots ! j = Some h \<Longrightarrow> slots ! k = Some h \<Longrightarrow> j = k" using S j by (auto simp: slots_ok_def)
  show "j = k"
    using h j d l [of j] l [of k] new [of h] i by (cases "j = i"; cases "k = i") auto
qed

lemma slots_ok_insert:
  assumes "slot_insert slots h = Inr (i, slots')" and "slots_ok slots live" and "h \<notin> live"
  shows "slots_ok slots' (insert h live)"
proof -
  have i: "i < length slots" and s: "slots' = slots[i := Some h]"
    using assms(1) empty_slot_Some [of slots i] by (auto simp: slot_insert_def split: option.splits)
  show ?thesis unfolding s
  proof (rule slots_ok_upd [OF assms(2) i])
    show "k \<in> insert h live" if "j < length slots" "slots ! j = Some k" for j k
      using assms(2) that by (auto simp: slots_ok_def)
  qed (use assms(3) in simp)
qed

lemma slots_ok_at: "slots_ok slots live \<Longrightarrow> slot_lookup slots fd = Some h \<Longrightarrow> nat fd < length slots \<and> slots ! nat fd = Some h"
  by (auto simp: slots_ok_def slot_lookup_def split: if_splits)

lemma slots_ok_close:
  assumes "slots_ok slots live" and "slot_lookup slots fd = Some h"
  shows "slots_ok (slots[nat fd := None]) (live - {h})"
proof (rule slots_ok_upd [OF assms(1)])
  note i = slots_ok_at [OF assms]
  show "nat fd < length slots" using i by simp
  show "k \<in> live - {h}" if "j < length slots" "j \<noteq> nat fd" "slots ! j = Some k" for j k
    using assms(1) i that by (auto simp: slots_ok_def)
qed simp

lemma slot_lookup_live: "slots_ok slots live \<Longrightarrow> slot_lookup slots fd = Some h \<Longrightarrow> h \<in> live"
  using slots_ok_at [of slots live fd h] by (auto simp: slots_ok_def)

lemma slot_lookup_inj:
  "slots_ok slots live \<Longrightarrow> slot_lookup slots fd = Some h \<Longrightarrow> slot_lookup slots fd' = Some h \<Longrightarrow> fd' = fd"
  by (auto simp: slots_ok_def slot_lookup_def split: if_splits) (metis eq_nat_nat_iff nat_less_iff not_le)

lemma repl_inv_new: "fskit_repl_new S = Some R \<Longrightarrow> (\<forall>h\<ge>n. h \<notin> dom F \<and> h \<notin> D) \<Longrightarrow> repl_inv R (F, D, n)"
  by (auto simp: fskit_repl_new_def repl_inv_def slots_ok_def split: if_splits)

lemma repl_inv_open:
  "repl_inv R (F, D, n) \<Longrightarrow> fskit_repl_filedes_insert R n = Inr (i, R') \<Longrightarrow> repl_inv R' (F(n \<mapsto> x), D, Suc n)"
  by (cases "slot_insert (rp_filedes R) n")
    (auto simp: repl_inv_def fskit_repl_filedes_insert_def intro: slots_ok_mono dest!: slots_ok_insert)

lemma repl_inv_opendir:
  "repl_inv R (F, D, n) \<Longrightarrow> fskit_repl_dirdes_insert R n = Inr (i, R') \<Longrightarrow> repl_inv R' (F, insert n D, Suc n)"
  by (cases "slot_insert (rp_dirdes R) n")
    (auto simp: repl_inv_def fskit_repl_dirdes_insert_def intro: slots_ok_mono dest!: slots_ok_insert)

lemma repl_inv_grow:
  "repl_inv R (F, D, n) \<Longrightarrow> repl_inv R (F(n \<mapsto> x), D, Suc n)"
  "repl_inv R (F, D, n) \<Longrightarrow> repl_inv R (F, insert n D, Suc n)"
  by (auto simp: repl_inv_def intro: slots_ok_mono)

lemma repl_inv_undo:
  "repl_inv R (F, D, n) \<Longrightarrow> repl_inv R (F(n := None), D, Suc n)"
  "repl_inv R (F, D, n) \<Longrightarrow> repl_inv R (F, D - {n}, Suc n)"
  by (auto simp: repl_inv_def intro: slots_ok_mono)

lemma repl_inv_close:
  "repl_inv R (F, D, n) \<Longrightarrow> slot_lookup (rp_filedes R) fd = Some h \<Longrightarrow>
    repl_inv (R\<lparr>rp_filedes := (rp_filedes R)[nat fd := None]\<rparr>) (F(h := None), D, n)"
  "repl_inv R (F, D, n) \<Longrightarrow> slot_lookup (rp_dirdes R) fd = Some h \<Longrightarrow>
    repl_inv (R\<lparr>rp_dirdes := (rp_dirdes R)[nat fd := None]\<rparr>) (F, D - {h}, n)"
  using slots_ok_close [of "rp_filedes R" "dom F" fd h] slots_ok_close [of "rp_dirdes R" D fd h]
  by (auto simp: repl_inv_def)

subsection \<open>What every command keeps\<close>

text \<open>
  The rules for the shapes that the commands are made of, and a generic step: a property of the state that
  every call keeps.
\<close>

lemma post_parsed: "(\<And>rc. Q (rc, [], R, s)) \<Longrightarrow> (\<And>x. post Q (f x)) \<Longrightarrow> post Q (parsed r R s f)"
  by (cases r) (simp_all add: parsed_def post_SomeI)

lemma post_with_args: "Q (- EINVAL, [], R, s) \<Longrightarrow> post Q r \<Longrightarrow> post Q (with_args n st R s r)"
  by (simp add: with_args_def post_SomeI)

lemma post_with_user:
  "(\<And>rc. Q (rc, [], R, s)) \<Longrightarrow> (\<And>x y. post Q (f (x, y))) \<Longrightarrow> post Q (with_user n st R s f)"
  unfolding with_user_def by (intro post_with_args post_parsed) auto

lemma post_status: "post (\<lambda>(rc, s'). Q (rc, [], R, s')) m \<Longrightarrow> post Q (status R m)"
  by (auto simp: status_def post_def)

lemmas post_repl = post_parsed post_with_args post_with_user post_status post_map_option post_access

lemmas repl_command_defs =
  repl_access_def repl_chmod_def repl_chown_def repl_close_def repl_closedir_def repl_create_def
  repl_getxattr_def repl_link_def repl_listxattr_def repl_mkdir_def repl_mknod_def repl_open_def
  repl_opendir_def repl_read_def repl_readdir_def repl_readlink_def repl_removexattr_def repl_rename_def
  repl_rmdir_def repl_setxattr_def repl_stat_def repl_statvfs_def repl_symlink_def repl_sync_def
  repl_trunc_def repl_unlink_def repl_utime_def repl_write_def

lemma hf_filedes_close:
  assumes "repl_inv R (F, D, n)" and "handle_view s = (F, D, n)"
    and Q: "\<And>rc R' s'. repl_inv R' (handle_view s') \<Longrightarrow> Q (rc, R', s')"
  shows "post Q (fskit_repl_filedes_close V R fd s)"
  unfolding fskit_repl_filedes_close_def
  by (insert assms(1,2)) (assumption | rule vc hf Q | (simp add: repl_inv_close; fail))+

lemma hf_dirdes_close:
  assumes "repl_inv R (F, D, n)" and "handle_view s = (F, D, n)"
    and Q: "\<And>rc R' s'. repl_inv R' (handle_view s') \<Longrightarrow> Q (rc, R', s')"
  shows "post Q (fskit_repl_dirdes_close V R fd s)"
  unfolding fskit_repl_dirdes_close_def
  by (insert assms(1,2)) (assumption | rule vc hf Q | (simp add: repl_inv_close; fail))+

definition keeps_inv :: "int \<times> repl_out list \<times> repl \<times> fs \<Rightarrow> bool" where
  "keeps_inv = (\<lambda>(rc, out, R, s). repl_inv R (handle_view s))"

lemma hf_keep_filedes:
  assumes "repl_inv R (F, D, n)" and "handle_view s = (F(n \<mapsto> x), D, Suc n)"
  shows "post keeps_inv (keep_filedes V R n rc_of s)"
  unfolding keep_filedes_def
  by (insert assms) (assumption | rule vc hf post_prod |
    (auto simp: keeps_inv_def intro: repl_inv_open repl_inv_grow repl_inv_undo; fail))+

lemma hf_keep_dirdes:
  assumes "repl_inv R (F, D, n)" and "handle_view s = (F, insert n D, Suc n)"
  shows "post keeps_inv
    (case fskit_repl_dirdes_insert R n of
       Inl rc \<Rightarrow> do { (_, s) \<leftarrow> fskit_closedir V n s; Some (rc, [], R, s) }
     | Inr (i, R) \<Rightarrow> Some (0, [Out_num (int i)], R, s))"
  by (insert assms) (assumption | rule vc hf post_prod |
    (auto simp: keeps_inv_def intro: repl_inv_opendir repl_inv_grow repl_inv_undo; fail))+

lemma commands_inv:
  assumes "repl_inv R (F, D, n)" and "handle_view s = (F, D, n)"
  shows
    "post keeps_inv (repl_access V R st s)"
    "post keeps_inv (repl_chmod V R st s)"
    "post keeps_inv (repl_chown V R st s)"
    "post keeps_inv (repl_close V R st s)"
    "post keeps_inv (repl_closedir V R st s)"
    "post keeps_inv (repl_create V R st s)"
    "post keeps_inv (repl_getxattr V R st s)"
    "post keeps_inv (repl_link V R st s)"
    "post keeps_inv (repl_listxattr V R st s)"
    "post keeps_inv (repl_mkdir V R st s)"
    "post keeps_inv (repl_mknod V R st s)"
    "post keeps_inv (repl_open V R st s)"
    "post keeps_inv (repl_opendir V R st s)"
    "post keeps_inv (repl_read V R st s)"
    "post keeps_inv (repl_readdir V R st s)"
    "post keeps_inv (repl_readlink V R st s)"
    "post keeps_inv (repl_removexattr V R st s)"
    "post keeps_inv (repl_rename V R st s)"
    "post keeps_inv (repl_rmdir V R st s)"
    "post keeps_inv (repl_setxattr V R st s)"
    "post keeps_inv (repl_stat V R st s)"
    "post keeps_inv (repl_statvfs V R st s)"
    "post keeps_inv (repl_symlink V R st s)"
    "post keeps_inv (repl_sync V R st s)"
    "post keeps_inv (repl_trunc V R st s)"
    "post keeps_inv (repl_unlink V R st s)"
    "post keeps_inv (repl_utime V R st s)"
    "post keeps_inv (repl_write V R st s)"
  unfolding repl_command_defs fskit_create_def
  by (insert assms) (assumption |
    rule post_Inl post_Inr hf_keep_filedes hf_keep_dirdes post_repl vc hf hf_filedes_close hf_dirdes_close post_prod |
    (simp add: keeps_inv_def; fail) | rule post_any)+

definition keeps_reach :: "int \<times> repl_out list \<times> repl \<times> fs \<Rightarrow> bool" where
  "keeps_reach = (\<lambda>(rc, out, R, s). reachable s)"

lemma commands_reach:
  assumes "reachable s"
  shows
    "post keeps_reach (repl_access V R st s)"
    "post keeps_reach (repl_chmod V R st s)"
    "post keeps_reach (repl_chown V R st s)"
    "post keeps_reach (repl_close V R st s)"
    "post keeps_reach (repl_closedir V R st s)"
    "post keeps_reach (repl_create V R st s)"
    "post keeps_reach (repl_getxattr V R st s)"
    "post keeps_reach (repl_link V R st s)"
    "post keeps_reach (repl_listxattr V R st s)"
    "post keeps_reach (repl_mkdir V R st s)"
    "post keeps_reach (repl_mknod V R st s)"
    "post keeps_reach (repl_open V R st s)"
    "post keeps_reach (repl_opendir V R st s)"
    "post keeps_reach (repl_read V R st s)"
    "post keeps_reach (repl_readdir V R st s)"
    "post keeps_reach (repl_readlink V R st s)"
    "post keeps_reach (repl_removexattr V R st s)"
    "post keeps_reach (repl_rename V R st s)"
    "post keeps_reach (repl_rmdir V R st s)"
    "post keeps_reach (repl_setxattr V R st s)"
    "post keeps_reach (repl_stat V R st s)"
    "post keeps_reach (repl_statvfs V R st s)"
    "post keeps_reach (repl_symlink V R st s)"
    "post keeps_reach (repl_sync V R st s)"
    "post keeps_reach (repl_trunc V R st s)"
    "post keeps_reach (repl_unlink V R st s)"
    "post keeps_reach (repl_utime V R st s)"
    "post keeps_reach (repl_write V R st s)"
  unfolding repl_command_defs fskit_create_def keep_filedes_def fskit_repl_filedes_close_def fskit_repl_dirdes_close_def
  by (insert assms) (assumption | rule post_Inl post_Inr post_repl vc reach post_prod |
    (simp add: keeps_reach_def; fail) | rule post_any)+

subsection \<open>What a script keeps\<close>

text \<open>
  A property of the interpreter and the core that every dispatched statement keeps holds after every
  script.
\<close>

locale repl_property =
  fixes P :: "repl \<Rightarrow> fs \<Rightarrow> bool"
  assumes dispatch: "P R s \<Longrightarrow> post (\<lambda>(rc, out, R, s). P R s) (fskit_repl_stmt_dispatch V R st s)"
begin

lemma loop: "P R s \<Longrightarrow> post (\<lambda>(rc, out, R, s). P R s) (repl_loop Vs n rc eof input R s)"
proof (induction Vs n rc eof input R s rule: repl_loop.induct)
  case (1 Vs n rc eof input R s)
  have d: "post (\<lambda>(rc, out, R, s). P R s)
      (do { (rc, out, R, s) \<leftarrow> fskit_repl_stmt_dispatch (Vs n) R st s;
            (rc, out', R, s) \<leftarrow> repl_loop Vs (Suc n) rc (hits_eof input) rest R s;
            Some (rc, out @ out', R, s) })"
    if "\<not> eof" "input \<noteq> []" "fskit_repl_stmt_parse (Vs n) input = (Inr st, rest)" for st rest
    using dispatch [OF "1.prems", of "Vs n" st] "1.IH"(2) [OF that(1,2) that(3) [symmetric] refl]
    by (fastforce simp: post_def bind_eq_Some)
  show ?case
    using "1.prems" "1.IH"(1) d
    by (subst repl_loop.simps) (auto simp: post_SomeI split: prod.split sum.split)
qed

lemma main: "P R s \<Longrightarrow> fskit_repl_main Vs input R s = Some (rc, out, R', s') \<Longrightarrow> P R' s'"
  using loop [of R s Vs 0 0 False input] by (simp add: fskit_repl_main_def post_def)

end

lemma dispatch_cases:
  assumes "\<And>name f. (name, f) \<in> set repl_commands \<Longrightarrow> post Q (f V R st s)" and "Q (- EINVAL, [], R, s)"
  shows "post Q (fskit_repl_stmt_dispatch V R st s)"
  using assms by (auto simp: fskit_repl_stmt_dispatch_def post_SomeI split: option.split dest: map_of_SomeD)

interpretation tables: repl_property "\<lambda>R s. repl_inv R (handle_view s)"
proof
  fix R s V st
  assume I: "repl_inv R (handle_view s)"
  obtain F D n where v: "handle_view s = (F, D, n)" by (cases "handle_view s")
  note I [unfolded v]
  have "post keeps_inv (fskit_repl_stmt_dispatch V R st s)"
    by (rule dispatch_cases) (use commands_inv [OF I [unfolded v] v] I in \<open>auto simp: repl_commands_def keeps_inv_def\<close>)
  then show "post (\<lambda>(rc, out, R, s). repl_inv R (handle_view s)) (fskit_repl_stmt_dispatch V R st s)"
    by (simp add: keeps_inv_def)
qed

interpretation states: repl_property "\<lambda>R s. reachable s"
proof
  fix R s V st
  assume I: "reachable s"
  have "post keeps_reach (fskit_repl_stmt_dispatch V R st s)"
    by (rule dispatch_cases) (use commands_reach [OF I] I in \<open>auto simp: repl_commands_def keeps_reach_def\<close>)
  then show "post (\<lambda>(rc, out, R, s). reachable s) (fskit_repl_stmt_dispatch V R st s)"
    by (simp add: keeps_reach_def)
qed

subsection \<open>Lines\<close>

text \<open>A line as a script would write it: words with single spaces between them.\<close>

definition is_word :: "string \<Rightarrow> bool" where
  "is_word w = (w \<noteq> [] \<and> (\<forall>c\<in>set w. \<not> is_blank c \<and> c \<noteq> NUL \<and> c \<noteq> CHR 0x0A))"

fun unwords :: "string list \<Rightarrow> string" where
  "unwords [] = []"
| "unwords [w] = w"
| "unwords (w # ws) = w @ CHR 0x20 # unwords ws"

lemma strtok_word_at:
  assumes "w \<noteq> []" and "\<forall>c\<in>set w. \<not> d c"
  shows "strtok d w = Some (w, [])" and "d c \<Longrightarrow> strtok d (w @ c # v) = Some (w, v)"
proof -
  obtain a as where w: "w = a # as" using assms(1) by (cases w) auto
  have "takeWhile (\<lambda>c. \<not> d c) as = as" "dropWhile (\<lambda>c. \<not> d c) as = []" "\<not> d a"
    using assms(2) w by (auto simp: takeWhile_eq_all_conv)
  then show "strtok d w = Some (w, [])" by (simp add: w del: dropWhile_eq_Nil_conv)
  assume c: "d c"
  have "takeWhile (\<lambda>c. \<not> d c) (as @ c # v) = as" "dropWhile (\<lambda>c. \<not> d c) (as @ c # v) = c # v"
    using assms(2) w c by (auto simp: takeWhile_tail dropWhile_append3)
  then show "strtok d (w @ c # v) = Some (w, v)" using \<open>\<not> d a\<close> by (simp add: w)
qed

lemma strtok_unwords: "is_word w \<Longrightarrow> strtok is_blank (unwords (w # ws)) = Some (w, unwords ws)"
  using strtok_word_at [of w is_blank] by (cases ws) (auto simp: is_word_def is_blank_def)

lemma parse_args_unwords:
  "length ws < n \<Longrightarrow> (\<forall>w\<in>set ws. is_word w) \<Longrightarrow> parse_args n (unwords ws) = (ws, [])"
proof (induction ws arbitrary: n)
  case Nil
  then show ?case by (cases n) auto
next
  case (Cons w ws)
  then obtain m where n: "n = Suc m" by (cases n) auto
  have "parse_args m (unwords ws) = (ws, [])" using Cons n by simp
  moreover have "strtok is_blank (unwords (w # ws)) = Some (w, unwords ws)" using Cons.prems by (intro strtok_unwords) simp
  ultimately show ?case unfolding n by (simp del: unwords.simps)
qed

lemma unwords_chars: "\<forall>w\<in>set ws. is_word w \<Longrightarrow> c \<in> set (unwords ws) \<Longrightarrow> c \<noteq> NUL \<and> c \<noteq> CHR 0x0A"
  by (induction ws rule: unwords.induct) (auto simp: is_word_def NUL_def)

lemma cstr_no_nul: "NUL \<notin> set p \<Longrightarrow> cstr p = p"
  by (auto simp: cstr_def takeWhile_eq_all_conv)

lemma getline_line: "CHR 0x0A \<notin> set line \<Longrightarrow> getline (line @ CHR 0x0A # rest) = Some (line @ [CHR 0x0A], rest)"
  by (auto simp: getline_def Let_def takeWhile_append dropWhile_append takeWhile_eq_all_conv dropWhile_eq_Nil_conv)

text \<open>A loop that stops before its limit has used up the line, and its words are blank-free.\<close>

lemma parse_args_stops: "parse_args n tmp = (args, tmp') \<Longrightarrow> length args \<noteq> n \<Longrightarrow> tmp' = []"
proof (induction n arbitrary: tmp args tmp')
  case (Suc n)
  show ?case
  proof (cases "strtok is_blank tmp")
    case (Some p)
    obtain w v as v' where p: "p = (w, v)" and v: "parse_args n v = (as, v')" by (metis surj_pair)
    then show ?thesis using Suc.IH [OF v] Suc.prems Some by auto
  qed (use Suc.prems in simp)
qed simp

lemma strtok_word: "strtok d p = Some (w, rest) \<Longrightarrow> w \<noteq> [] \<and> (\<forall>c\<in>set w. \<not> d c)"
proof (induction p)
  case (Cons a p)
  show ?case
  proof (cases "d a")
    case True
    show ?thesis by (rule Cons.IH) (use True Cons.prems in simp)
  next
    case False
    then have "w = a # takeWhile (\<lambda>c. \<not> d c) p" using Cons.prems by simp
    then show ?thesis using False set_takeWhileD by fastforce
  qed
qed simp

lemma parse_args_words:
  "parse_args n tmp = (args, tmp') \<Longrightarrow> \<forall>w\<in>set args. w \<noteq> [] \<and> (\<forall>c\<in>set w. \<not> is_blank c)"
proof (induction n arbitrary: tmp args tmp')
  case (Suc n)
  show ?case
  proof (cases "strtok is_blank tmp")
    case (Some p)
    obtain w v as v' where p: "p = (w, v)" and v: "parse_args n v = (as, v')" by (metis surj_pair)
    then show ?thesis using Suc.IH [OF v] Suc.prems Some strtok_word [of is_blank tmp w v] by auto
  qed (use Suc.prems in simp)
qed simp

lemma parse_line:
  assumes w: "is_word cmd" "\<forall>w\<in>set args. is_word w" and mem: "mem_ok S ''fskit_repl_stmt_parse''"
    and n: "length args < FSKIT_REPL_ARGC_MAX - (if cmd = ''write'' \<or> cmd = ''setxattr'' then 1 else 0)"
  shows "fskit_repl_stmt_parse S (unwords (cmd # args) @ CHR 0x0A # rest) =
    (Inr \<lparr>rs_cmd = cmd, rs_argv = args, rs_argc = length args\<rparr>, rest)"
proof -
  have c: "CHR 0x0A \<notin> set (unwords (cmd # args))" "NUL \<notin> set (unwords (cmd # args))"
    using unwords_chars [of "cmd # args"] w by auto
  have g: "getline (unwords (cmd # args) @ CHR 0x0A # rest) = Some (unwords (cmd # args) @ [CHR 0x0A], rest)"
    using c by (intro getline_line)
  have ne: "unwords (cmd # args) \<noteq> []" using w by (cases args) (auto simp: is_word_def)
  show ?thesis
    unfolding fskit_repl_stmt_parse_def g
    using ne mem n strtok_unwords [OF w(1), of args] parse_args_unwords [OF n w(2)]
    by (simp add: cstr_no_nul [OF c(2)] butlast_append Let_def del: unwords.simps)
qed

lemma parse_args_done:
  "parse_args n tmp = (args, tmp') \<Longrightarrow> length args \<noteq> n \<Longrightarrow>
    tmp' = [] \<and> (\<forall>w\<in>set args. \<forall>c\<in>set w. \<not> is_blank c)"
  using parse_args_stops [of n tmp args tmp'] parse_args_words [of n tmp args tmp'] by blast

lemma parse_no_literal:
  assumes "fskit_repl_stmt_parse S input = (Inr st, rest)"
  shows "length (rs_argv st) = rs_argc st \<and> (\<forall>arg\<in>set (rs_argv st). \<forall>c\<in>set arg. \<not> is_blank c)"
  using assms unfolding fskit_repl_stmt_parse_def Let_def
  by (auto split: option.split_asm if_split_asm prod.split_asm dest!: parse_args_done)

lemma getline_suffix: "getline input = Some (line, rest) \<Longrightarrow> input = line @ rest"
  by (auto simp: getline_def Let_def split: if_splits)

lemma loop_enodata:
  assumes "\<not> eof" and "input = [] \<or> last input = CHR 0x0A" and "repl_loop Vs n rc eof input R s = Some (rc', out, R', s')"
  shows "rc' = - ENODATA"
  using assms
proof (induction Vs n rc eof input R s arbitrary: rc' out R' s' rule: repl_loop.induct)
  case (1 Vs n rc eof input R s)
  show ?case
  proof (cases "input = []")
    case True
    then show ?thesis using "1.prems" by (simp add: repl_loop.simps)
  next
    case False
    then have h: "\<not> hits_eof input" using "1.prems"(2) last_in_set [of input] by (auto simp: hits_eof_def)
    obtain r rest where p: "fskit_repl_stmt_parse (Vs n) input = (r, rest)" by (cases "fskit_repl_stmt_parse (Vs n) input")
    obtain line where "getline input = Some (line, rest)"
      using parse_rest [of "Vs n" input] p False by (cases "getline input") (auto simp: getline_def Let_def)
    from getline_suffix [OF this] have l: "rest = [] \<or> last rest = CHR 0x0A"
      using "1.prems"(2) False by (cases "rest = []") auto
    show ?thesis
    proof (cases r)
      case (Inl e)
      then show ?thesis
        using "1.IH"(1) [OF "1.prems"(1) False p [symmetric] Inl h l] "1.prems"(1,3) False p
        by (subst (asm) (2) repl_loop.simps) simp
    next
      case (Inr st)
      obtain rc1 out1 R1 s1 out2 where d: "fskit_repl_stmt_dispatch (Vs n) R st s = Some (rc1, out1, R1, s1)"
        and "repl_loop Vs (Suc n) rc1 (hits_eof input) rest R1 s1 = Some (rc', out2, R', s')"
        using "1.prems"(1,3) False p Inr by (auto simp: repl_loop.simps [of Vs n] bind_eq_Some)
      then show ?thesis
        using "1.IH"(2) [OF "1.prems"(1) False p [symmetric] Inr d refl refl refl h l] by simp
    qed
  qed
qed

end
