(* ===== verification/Fuse.thy ===== *)
theory Fuse
  imports HandleFrame Cmwc
begin

text \<open>
  The binding of the library to FUSE (\<open>fuse/fskit_fuse.c\<close>): one handler for each request of the kernel, which
  picks the caller's user and group, calls the library, and turns a library handle into a file info
  that the kernel keeps; and the start, the run and the end of a mounted file system.

  The FUSE library is not part of the repository. What it gives is a parameter: the context of a
  request (\<open>fuse_ctx\<close>), the function that takes directory entries, and the results of its calls when
  a file system is mounted (\<open>fuse_lib\<close>). File infos are kept in memory under numbers that are not reused; the pointer in
  \<open>fi->fh\<close> is such a number. Using the info of a directory as that of a file, or a freed one, kills
  the process.

  The lemmas: whatever requests arrive, every file info belongs to an open handle of its kind, which no
  other info has; and \<open>fskit_fuse_main\<close> undoes what it set up on every path.
\<close>

subsection \<open>State and settings\<close>

definition FSKIT_FUSE_SET_FS_ACCESS :: u64 where "FSKIT_FUSE_SET_FS_ACCESS = 0x1"
definition FSKIT_FUSE_NO_PERMISSIONS :: u64 where "FSKIT_FUSE_NO_PERMISSIONS = 0x2"

definition FSKIT_FUSE_GETATTR :: u64 where "FSKIT_FUSE_GETATTR = 0x1"
definition FSKIT_FUSE_READLINK :: u64 where "FSKIT_FUSE_READLINK = 0x2"
definition FSKIT_FUSE_MKNOD :: u64 where "FSKIT_FUSE_MKNOD = 0x4"
definition FSKIT_FUSE_MKDIR :: u64 where "FSKIT_FUSE_MKDIR = 0x8"
definition FSKIT_FUSE_UNLINK :: u64 where "FSKIT_FUSE_UNLINK = 0x10"
definition FSKIT_FUSE_RMDIR :: u64 where "FSKIT_FUSE_RMDIR = 0x20"
definition FSKIT_FUSE_SYMLINK :: u64 where "FSKIT_FUSE_SYMLINK = 0x40"
definition FSKIT_FUSE_RENAME :: u64 where "FSKIT_FUSE_RENAME = 0x80"
definition FSKIT_FUSE_LINK :: u64 where "FSKIT_FUSE_LINK = 0x100"
definition FSKIT_FUSE_CHMOD :: u64 where "FSKIT_FUSE_CHMOD = 0x200"
definition FSKIT_FUSE_CHOWN :: u64 where "FSKIT_FUSE_CHOWN = 0x400"
definition FSKIT_FUSE_TRUNCATE :: u64 where "FSKIT_FUSE_TRUNCATE = 0x800"
definition FSKIT_FUSE_UTIME :: u64 where "FSKIT_FUSE_UTIME = 0x1000"
definition FSKIT_FUSE_OPEN :: u64 where "FSKIT_FUSE_OPEN = 0x2000"
definition FSKIT_FUSE_READ :: u64 where "FSKIT_FUSE_READ = 0x4000"
definition FSKIT_FUSE_WRITE :: u64 where "FSKIT_FUSE_WRITE = 0x8000"
definition FSKIT_FUSE_STATFS :: u64 where "FSKIT_FUSE_STATFS = 0x10000"
definition FSKIT_FUSE_FLUSH :: u64 where "FSKIT_FUSE_FLUSH = 0x20000"
definition FSKIT_FUSE_RELEASE :: u64 where "FSKIT_FUSE_RELEASE = 0x40000"
definition FSKIT_FUSE_FSYNC :: u64 where "FSKIT_FUSE_FSYNC = 0x80000"
definition FSKIT_FUSE_SETXATTR :: u64 where "FSKIT_FUSE_SETXATTR = 0x100000"
definition FSKIT_FUSE_GETXATTR :: u64 where "FSKIT_FUSE_GETXATTR = 0x200000"
definition FSKIT_FUSE_LISTXATTR :: u64 where "FSKIT_FUSE_LISTXATTR = 0x400000"
definition FSKIT_FUSE_REMOVEXATTR :: u64 where "FSKIT_FUSE_REMOVEXATTR = 0x800000"
definition FSKIT_FUSE_OPENDIR :: u64 where "FSKIT_FUSE_OPENDIR = 0x1000000"
definition FSKIT_FUSE_READDIR :: u64 where "FSKIT_FUSE_READDIR = 0x2000000"
definition FSKIT_FUSE_FSYNCDIR :: u64 where "FSKIT_FUSE_FSYNCDIR = 0x4000000"
definition FSKIT_FUSE_RELEASEDIR :: u64 where "FSKIT_FUSE_RELEASEDIR = 0x8000000"
definition FSKIT_FUSE_ACCESS :: u64 where "FSKIT_FUSE_ACCESS = 0x10000000"
definition FSKIT_FUSE_CREATE :: u64 where "FSKIT_FUSE_CREATE = 0x20000000"
definition FSKIT_FUSE_FTRUNCATE :: u64 where "FSKIT_FUSE_FTRUNCATE = 0x40000000"
definition FSKIT_FUSE_FGETATTR :: u64 where "FSKIT_FUSE_FGETATTR = 0x80000000"

text \<open>The context of a request, with the process id of the file system itself.\<close>

record fuse_ctx =
  fc_getpid :: int
  fc_pid :: int
  fc_uid :: u32
  fc_gid :: u32
  fc_umask :: u32

record fuse_info =
  fi_type :: ftype
  fi_handle :: "nat option"

text \<open>
  \<open>struct fskit_fuse_state\<close>, with the file infos. \<open>fu_core\<close> is \<open>None\<close> for a NULL pointer; \<open>fu_postmount\<close> says
  whether there is a callback.
\<close>

record fuse =
  fu_core :: "fs option"
  fu_settings :: u64
  fu_callbacks :: u64
  fu_mountpoint :: "string option"
  fu_postmount :: bool
  fu_infos :: "nat \<Rightarrow> fuse_info option"
  fu_next :: nat

datatype fuse_reply = No_reply | Re_stat stat_buf | Re_buf string | Re_statvfs statvfs_buf | Re_names "string list" | Re_fh nat

type_synonym fuse_result = "(int \<times> fuse_reply \<times> fuse) option"

definition fskit_fuse_state_new :: "'z sys_scheme \<Rightarrow> fuse option" where
  "fskit_fuse_state_new S =
     (if \<not> mem_ok S ''fskit_fuse_state_new'' then None
      else Some \<lparr>fu_core = None, fu_settings = 0, fu_callbacks = 0, fu_mountpoint = None, fu_postmount = False,
        fu_infos = Map.empty, fu_next = 0\<rparr>)"

definition fskit_fuse_get_uid :: "fuse_ctx \<Rightarrow> fuse \<Rightarrow> u32" where
  "fskit_fuse_get_uid C F =
     (if fc_getpid C = fc_pid C \<and> and (fu_settings F) FSKIT_FUSE_SET_FS_ACCESS \<noteq> 0 then 0
      else if and (fu_settings F) FSKIT_FUSE_NO_PERMISSIONS \<noteq> 0 then 0
      else fc_uid C)"

definition fskit_fuse_get_gid :: "fuse_ctx \<Rightarrow> fuse \<Rightarrow> u32" where
  "fskit_fuse_get_gid C F =
     (if fc_getpid C = fc_pid C \<and> and (fu_settings F) FSKIT_FUSE_SET_FS_ACCESS \<noteq> 0 then 0
      else if and (fu_settings F) FSKIT_FUSE_NO_PERMISSIONS \<noteq> 0 then 0
      else fc_gid C)"

definition fskit_fuse_get_pid :: "fuse_ctx \<Rightarrow> int" where
  "fskit_fuse_get_pid C = fc_pid C"

definition fskit_fuse_get_umask :: "fuse_ctx \<Rightarrow> u32" where
  "fskit_fuse_get_umask C = fc_umask C"

definition fskit_fuse_get_mountpoint :: "fuse \<Rightarrow> string option" where
  "fskit_fuse_get_mountpoint F = fu_mountpoint F"

definition fskit_fuse_setting_enable :: "u64 \<Rightarrow> fuse \<Rightarrow> int \<times> fuse" where
  "fskit_fuse_setting_enable flag F = (0, F\<lparr>fu_settings := or (fu_settings F) flag\<rparr>)"

definition fskit_fuse_setting_disable :: "u64 \<Rightarrow> fuse \<Rightarrow> int \<times> fuse" where
  "fskit_fuse_setting_disable flag F = (0, F\<lparr>fu_settings := and (fu_settings F) (not flag)\<rparr>)"

definition fskit_fuse_callback_enable :: "u64 \<Rightarrow> fuse \<Rightarrow> int \<times> fuse" where
  "fskit_fuse_callback_enable callback_id F = (0, F\<lparr>fu_callbacks := or (fu_callbacks F) callback_id\<rparr>)"

definition fskit_fuse_callback_disable :: "u64 \<Rightarrow> fuse \<Rightarrow> int \<times> fuse" where
  "fskit_fuse_callback_disable callback_id F = (0, F\<lparr>fu_callbacks := and (fu_callbacks F) (not callback_id)\<rparr>)"

definition fskit_fuse_postmount_callback :: "bool \<Rightarrow> fuse \<Rightarrow> int \<times> fuse" where
  "fskit_fuse_postmount_callback cb F = (0, F\<lparr>fu_postmount := cb\<rparr>)"

text \<open>Making a file info; \<open>None\<close> when there is no memory.\<close>

definition make_info :: "env \<Rightarrow> string \<Rightarrow> ftype \<Rightarrow> nat option \<Rightarrow> fuse \<Rightarrow> (nat \<times> fuse) option" where
  "make_info V site t h F =
     (if \<not> mem_ok V site then None
      else Some (fu_next F, F\<lparr>fu_infos := (fu_infos F)(fu_next F \<mapsto> \<lparr>fi_type = t, fi_handle = h\<rparr>), fu_next := fu_next F + 1\<rparr>))"

definition fskit_fuse_make_file_handle :: "env \<Rightarrow> nat option \<Rightarrow> fuse \<Rightarrow> (nat \<times> fuse) option" where
  "fskit_fuse_make_file_handle V fh F = make_info V ''fskit_fuse_make_file_handle'' T_FILE fh F"

definition fskit_fuse_make_dir_handle :: "env \<Rightarrow> nat option \<Rightarrow> fuse \<Rightarrow> (nat \<times> fuse) option" where
  "fskit_fuse_make_dir_handle V dh F = make_info V ''fskit_fuse_make_dir_handle'' T_DIR dh F"

subsection \<open>Requests\<close>

text \<open>
  Every handler first looks whether its callback is enabled. The handlers that name a path act as the caller;
  those that have a file info use the handle in it.
\<close>

definition enabled :: "u64 \<Rightarrow> fuse \<Rightarrow> fuse_result \<Rightarrow> fuse_result" where
  "enabled flag F r = (if and (fu_callbacks F) flag = 0 then Some (- ENOSYS, No_reply, F) else r)"

definition as_caller :: "fuse_ctx \<Rightarrow> fuse \<Rightarrow> (u64 \<Rightarrow> u64 \<Rightarrow> fuse_result) \<Rightarrow> fuse_result" where
  "as_caller C F f = f (ucast (fskit_fuse_get_uid C F)) (ucast (fskit_fuse_get_gid C F))"

definition on_core :: "fuse \<Rightarrow> (fs \<Rightarrow> (int \<times> fs) option) \<Rightarrow> fuse_result" where
  "on_core F m = do { s \<leftarrow> fu_core F; (rc, s) \<leftarrow> m s; Some (rc, No_reply, F\<lparr>fu_core := Some s\<rparr>) }"

definition with_handle :: "nat \<Rightarrow> fuse \<Rightarrow> (nat \<Rightarrow> fuse_result) \<Rightarrow> fuse_result" where
  "with_handle fi F f = do { ffi \<leftarrow> fu_infos F fi; h \<leftarrow> fi_handle ffi; f h }"

definition fskit_fuse_getattr :: "env \<Rightarrow> fuse_ctx \<Rightarrow> string \<Rightarrow> stat_buf \<Rightarrow> fuse \<Rightarrow> fuse_result" where
  "fskit_fuse_getattr V C path statbuf F = enabled FSKIT_FUSE_GETATTR F (
     as_caller C F (\<lambda>uid gid. do {
       s \<leftarrow> fu_core F;
       (rc, statbuf, s) \<leftarrow> fskit_stat V path uid gid statbuf s;
       Some (rc, Re_stat statbuf, F\<lparr>fu_core := Some s\<rparr>)
     }))"

definition fskit_fuse_readlink :: "env \<Rightarrow> fuse_ctx \<Rightarrow> string \<Rightarrow> nat \<Rightarrow> fuse \<Rightarrow> fuse_result" where
  "fskit_fuse_readlink V C path size0 F = enabled FSKIT_FUSE_READLINK F (
     as_caller C F (\<lambda>uid gid. do {
       s \<leftarrow> fu_core F;
       r \<leftarrow> fskit_readlink V path uid gid size0 s;
       (case r of
          Inl rc \<Rightarrow> Some (if rc \<ge> 0 then 0 else rc, No_reply, F)
        | Inr link \<Rightarrow> Some (0, Re_buf link, F))
     }))"

definition fskit_fuse_mknod :: "env \<Rightarrow> fuse_ctx \<Rightarrow> string \<Rightarrow> u32 \<Rightarrow> u64 \<Rightarrow> fuse \<Rightarrow> fuse_result" where
  "fskit_fuse_mknod V C path mode d F = enabled FSKIT_FUSE_MKNOD F (
     as_caller C F (\<lambda>uid gid. on_core F (fskit_mknod V path mode d uid gid)))"

definition fskit_fuse_mkdir :: "env \<Rightarrow> fuse_ctx \<Rightarrow> string \<Rightarrow> u32 \<Rightarrow> fuse \<Rightarrow> fuse_result" where
  "fskit_fuse_mkdir V C path mode F = enabled FSKIT_FUSE_MKDIR F (
     as_caller C F (\<lambda>uid gid. on_core F (fskit_mkdir V path mode uid gid)))"

definition fskit_fuse_unlink :: "env \<Rightarrow> fuse_ctx \<Rightarrow> string \<Rightarrow> fuse \<Rightarrow> fuse_result" where
  "fskit_fuse_unlink V C path F = enabled FSKIT_FUSE_UNLINK F (
     as_caller C F (\<lambda>uid gid. on_core F (fskit_unlink V path uid gid)))"

definition fskit_fuse_rmdir :: "env \<Rightarrow> fuse_ctx \<Rightarrow> string \<Rightarrow> fuse \<Rightarrow> fuse_result" where
  "fskit_fuse_rmdir V C path F = enabled FSKIT_FUSE_RMDIR F (
     as_caller C F (\<lambda>uid gid. on_core F (fskit_rmdir V path uid gid)))"

definition fskit_fuse_symlink :: "env \<Rightarrow> fuse_ctx \<Rightarrow> string \<Rightarrow> string \<Rightarrow> fuse \<Rightarrow> fuse_result" where
  "fskit_fuse_symlink V C target linkpath F = enabled FSKIT_FUSE_SYMLINK F (
     as_caller C F (\<lambda>uid gid. on_core F (fskit_symlink V (Some target) linkpath uid gid)))"

definition fskit_fuse_rename :: "env \<Rightarrow> fuse_ctx \<Rightarrow> string \<Rightarrow> string \<Rightarrow> fuse \<Rightarrow> fuse_result" where
  "fskit_fuse_rename V C path newpath F = enabled FSKIT_FUSE_RENAME F (
     as_caller C F (\<lambda>uid gid. on_core F (fskit_rename V path newpath uid gid)))"

text \<open>The result of the call is dropped.\<close>

definition fskit_fuse_link :: "env \<Rightarrow> fuse_ctx \<Rightarrow> string \<Rightarrow> string \<Rightarrow> fuse \<Rightarrow> fuse_result" where
  "fskit_fuse_link V C path newpath F = enabled FSKIT_FUSE_LINK F (
     as_caller C F (\<lambda>uid gid. do {
       (rc, reply, F) \<leftarrow> on_core F (fskit_link V path newpath uid gid);
       Some (0, reply, F)
     }))"

definition fskit_fuse_chmod :: "env \<Rightarrow> fuse_ctx \<Rightarrow> string \<Rightarrow> u32 \<Rightarrow> fuse \<Rightarrow> fuse_result" where
  "fskit_fuse_chmod V C path mode F = enabled FSKIT_FUSE_CHMOD F (
     as_caller C F (\<lambda>uid gid. on_core F (fskit_chmod V path uid gid mode)))"

definition fskit_fuse_chown :: "env \<Rightarrow> fuse_ctx \<Rightarrow> string \<Rightarrow> u32 \<Rightarrow> u32 \<Rightarrow> fuse \<Rightarrow> fuse_result" where
  "fskit_fuse_chown V C path new_uid new_gid F = enabled FSKIT_FUSE_CHOWN F (
     as_caller C F (\<lambda>uid gid. on_core F (fskit_chown V path uid gid (ucast new_uid) (ucast new_gid))))"

definition fskit_fuse_truncate :: "env \<Rightarrow> fuse_ctx \<Rightarrow> string \<Rightarrow> int \<Rightarrow> fuse \<Rightarrow> fuse_result" where
  "fskit_fuse_truncate V C path newsize F = enabled FSKIT_FUSE_TRUNCATE F (
     as_caller C F (\<lambda>uid gid. on_core F (fskit_trunc V path uid gid newsize)))"

definition fskit_fuse_utime :: "env \<Rightarrow> fuse_ctx \<Rightarrow> string \<Rightarrow> int \<Rightarrow> int \<Rightarrow> fuse \<Rightarrow> fuse_result" where
  "fskit_fuse_utime V C path actime modtime F = enabled FSKIT_FUSE_UTIME F (
     as_caller C F (\<lambda>uid gid. on_core F (fskit_utime V path uid gid actime modtime)))"

text \<open>
  The end of \<open>open\<close>, \<open>create\<close> and \<open>opendir\<close>: the library's handle, or NULL with an error, becomes a file info. Without
  memory for it the handle is closed again.
\<close>

definition finish_open :: "env \<Rightarrow> int + nat \<Rightarrow> fuse \<Rightarrow> fuse_result" where
  "finish_open V r F =
     (let rc = (case r of Inl rc \<Rightarrow> rc | Inr _ \<Rightarrow> 0); h = (case r of Inl _ \<Rightarrow> None | Inr h \<Rightarrow> Some h) in
      if rc \<noteq> 0 then Some (rc, No_reply, F)
      else
        (case fskit_fuse_make_file_handle V h F of
           None \<Rightarrow>
             do {
               s \<leftarrow> fu_core F;
               h \<leftarrow> h;
               (_, s) \<leftarrow> fskit_close V h s;
               Some (- ENOMEM, No_reply, F\<lparr>fu_core := Some s\<rparr>)
             }
         | Some (fi, F) \<Rightarrow> Some (0, Re_fh fi, F)))"

definition finish_opendir :: "env \<Rightarrow> int + nat \<Rightarrow> fuse \<Rightarrow> fuse_result" where
  "finish_opendir V r F =
     (let rc = (case r of Inl rc \<Rightarrow> rc | Inr _ \<Rightarrow> 0); h = (case r of Inl _ \<Rightarrow> None | Inr h \<Rightarrow> Some h) in
      if rc \<noteq> 0 then Some (rc, No_reply, F)
      else
        (case fskit_fuse_make_dir_handle V h F of
           None \<Rightarrow>
             do {
               s \<leftarrow> fu_core F;
               h \<leftarrow> h;
               (_, s) \<leftarrow> fskit_closedir V h s;
               Some (- ENOMEM, No_reply, F\<lparr>fu_core := Some s\<rparr>)
             }
         | Some (fi, F) \<Rightarrow> Some (0, Re_fh fi, F)))"

definition fskit_fuse_open :: "env \<Rightarrow> fuse_ctx \<Rightarrow> string \<Rightarrow> nat \<Rightarrow> fuse \<Rightarrow> fuse_result" where
  "fskit_fuse_open V C path flags F = enabled FSKIT_FUSE_OPEN F (
     as_caller C F (\<lambda>uid gid. do {
       s \<leftarrow> fu_core F;
       (r, s) \<leftarrow> fskit_open V path uid gid flags (not (fskit_fuse_get_umask C)) s;
       finish_open V r (F\<lparr>fu_core := Some s\<rparr>)
     }))"

definition fskit_fuse_read :: "env \<Rightarrow> fuse_ctx \<Rightarrow> nat \<Rightarrow> string \<Rightarrow> nat \<Rightarrow> int \<Rightarrow> fuse \<Rightarrow> fuse_result" where
  "fskit_fuse_read V C fi buf size0 offset F = enabled FSKIT_FUSE_READ F (
     with_handle fi F (\<lambda>fh. do {
       s \<leftarrow> fu_core F;
       (num_read, buf, s) \<leftarrow> fskit_read V fh buf size0 offset s;
       Some (wrap32 num_read, Re_buf buf, F\<lparr>fu_core := Some s\<rparr>)
     }))"

definition fskit_fuse_write :: "env \<Rightarrow> fuse_ctx \<Rightarrow> nat \<Rightarrow> string \<Rightarrow> nat \<Rightarrow> int \<Rightarrow> fuse \<Rightarrow> fuse_result" where
  "fskit_fuse_write V C fi buf size0 offset F = enabled FSKIT_FUSE_WRITE F (
     with_handle fi F (\<lambda>fh. do {
       s \<leftarrow> fu_core F;
       (num_written, s) \<leftarrow> fskit_write V fh buf size0 offset s;
       Some (wrap32 num_written, No_reply, F\<lparr>fu_core := Some s\<rparr>)
     }))"

definition fskit_fuse_statfs :: "env \<Rightarrow> fuse_ctx \<Rightarrow> string \<Rightarrow> fuse \<Rightarrow> fuse_result" where
  "fskit_fuse_statfs V C path F = enabled FSKIT_FUSE_STATFS F (
     as_caller C F (\<lambda>uid gid. do {
       s \<leftarrow> fu_core F;
       r \<leftarrow> fskit_statvfs V path uid gid s;
       (case r of
          Inl rc \<Rightarrow> Some (rc, No_reply, F)
        | Inr statv \<Rightarrow> Some (0, Re_statvfs statv, F))
     }))"

definition fskit_fuse_flush :: "env \<Rightarrow> fuse_ctx \<Rightarrow> nat \<Rightarrow> fuse \<Rightarrow> fuse_result" where
  "fskit_fuse_flush V C fi F = enabled FSKIT_FUSE_FLUSH F (
     do {
       ffi \<leftarrow> fu_infos F fi;
       if fi_type ffi = T_FILE then with_handle fi F (\<lambda>fh. on_core F (fskit_fsync V fh))
       else Some (0, No_reply, F)
     })"

definition fskit_fuse_release :: "env \<Rightarrow> fuse_ctx \<Rightarrow> nat \<Rightarrow> fuse \<Rightarrow> fuse_result" where
  "fskit_fuse_release V C fi F = enabled FSKIT_FUSE_RELEASE F (
     with_handle fi F (\<lambda>fh. do {
       (rc, reply, F) \<leftarrow> on_core F (fskit_close V fh);
       Some (rc, reply, if rc = 0 then F\<lparr>fu_infos := (fu_infos F)(fi := None)\<rparr> else F)
     }))"

definition fskit_fuse_fsync :: "env \<Rightarrow> fuse_ctx \<Rightarrow> nat \<Rightarrow> fuse \<Rightarrow> fuse_result" where
  "fskit_fuse_fsync V C fi F = enabled FSKIT_FUSE_FSYNC F (
     with_handle fi F (\<lambda>fh. on_core F (fskit_fsync V fh)))"

definition fskit_fuse_setxattr :: "env \<Rightarrow> fuse_ctx \<Rightarrow> string \<Rightarrow> string \<Rightarrow> string \<Rightarrow> nat \<Rightarrow> nat \<Rightarrow> fuse \<Rightarrow> fuse_result" where
  "fskit_fuse_setxattr V C path name value size0 flags F = enabled FSKIT_FUSE_SETXATTR F (
     as_caller C F (\<lambda>uid gid. on_core F (fskit_setxattr V path uid gid name (take size0 value) flags)))"

definition fskit_fuse_getxattr :: "env \<Rightarrow> fuse_ctx \<Rightarrow> string \<Rightarrow> string \<Rightarrow> string option \<Rightarrow> nat \<Rightarrow> fuse \<Rightarrow> fuse_result" where
  "fskit_fuse_getxattr V C path name value size0 F = enabled FSKIT_FUSE_GETXATTR F (
     as_caller C F (\<lambda>uid gid. do {
       s \<leftarrow> fu_core F;
       (rc, buf, s) \<leftarrow> fskit_getxattr V path uid gid name value size0 s;
       Some (rc, case buf of None \<Rightarrow> No_reply | Some b \<Rightarrow> Re_buf b, F\<lparr>fu_core := Some s\<rparr>)
     }))"

definition fskit_fuse_listxattr :: "env \<Rightarrow> fuse_ctx \<Rightarrow> string \<Rightarrow> string option \<Rightarrow> nat \<Rightarrow> fuse \<Rightarrow> fuse_result" where
  "fskit_fuse_listxattr V C path list0 size0 F = enabled FSKIT_FUSE_LISTXATTR F (
     as_caller C F (\<lambda>uid gid. do {
       s \<leftarrow> fu_core F;
       (rc, buf, s) \<leftarrow> fskit_listxattr V path uid gid list0 size0 s;
       Some (rc, case buf of None \<Rightarrow> No_reply | Some b \<Rightarrow> Re_buf b, F\<lparr>fu_core := Some s\<rparr>)
     }))"

definition fskit_fuse_removexattr :: "env \<Rightarrow> fuse_ctx \<Rightarrow> string \<Rightarrow> string \<Rightarrow> fuse \<Rightarrow> fuse_result" where
  "fskit_fuse_removexattr V C path name F = enabled FSKIT_FUSE_REMOVEXATTR F (
     as_caller C F (\<lambda>uid gid. on_core F (fskit_removexattr V path uid gid name)))"

definition fskit_fuse_opendir :: "env \<Rightarrow> fuse_ctx \<Rightarrow> string \<Rightarrow> fuse \<Rightarrow> fuse_result" where
  "fskit_fuse_opendir V C path F = enabled FSKIT_FUSE_OPENDIR F (
     as_caller C F (\<lambda>uid gid. do {
       s \<leftarrow> fu_core F;
       (r, s) \<leftarrow> fskit_opendir V path uid gid s;
       finish_opendir V r (F\<lparr>fu_core := Some s\<rparr>)
     }))"

text \<open>The entries are handed to \<open>filler\<close> one by one until it has no room; \<open>i\<close> counts them.\<close>

fun fill_names :: "(nat \<Rightarrow> string \<Rightarrow> int) \<Rightarrow> nat \<Rightarrow> dir_entry list \<Rightarrow> int \<times> string list" where
  "fill_names filler i [] = (0, [])"
| "fill_names filler i (d # ds) =
     (if filler i (de_name d) \<noteq> 0 then (- ENOMEM, [])
      else (case fill_names filler (Suc i) ds of (rc, ns) \<Rightarrow> (rc, de_name d # ns)))"

definition fskit_fuse_readdir :: "env \<Rightarrow> fuse_ctx \<Rightarrow> nat \<Rightarrow> (nat \<Rightarrow> string \<Rightarrow> int) \<Rightarrow> fuse \<Rightarrow> fuse_result" where
  "fskit_fuse_readdir V C fi filler F = enabled FSKIT_FUSE_READDIR F (
     with_handle fi F (\<lambda>fdh. do {
       s \<leftarrow> fu_core F;
       (r, s) \<leftarrow> fskit_listdir V fdh s;
       let F = F\<lparr>fu_core := Some s\<rparr> in
       (case r of
          Inl rc \<Rightarrow> Some (rc, No_reply, F)
        | Inr None \<Rightarrow> Some (0, No_reply, F)
        | Inr (Some dirents) \<Rightarrow>
            (case fill_names filler 0 dirents of
               (rc, ns) \<Rightarrow> Some (if rc > 0 then 0 else rc, Re_names ns, F)))
     }))"

definition fskit_fuse_releasedir :: "env \<Rightarrow> fuse_ctx \<Rightarrow> nat \<Rightarrow> fuse \<Rightarrow> fuse_result" where
  "fskit_fuse_releasedir V C fi F = enabled FSKIT_FUSE_RELEASEDIR F (
     with_handle fi F (\<lambda>dh. do {
       (rc, reply, F) \<leftarrow> on_core F (fskit_closedir V dh);
       Some (rc, reply, F\<lparr>fu_infos := (fu_infos F)(fi := None)\<rparr>)
     }))"

definition fskit_fuse_fsyncdir :: "env \<Rightarrow> fuse_ctx \<Rightarrow> nat \<Rightarrow> fuse \<Rightarrow> fuse_result" where
  "fskit_fuse_fsyncdir V C fi F = enabled FSKIT_FUSE_FSYNCDIR F (
     Some (0, No_reply, F))"

definition fskit_fuse_access :: "env \<Rightarrow> fuse_ctx \<Rightarrow> string \<Rightarrow> nat \<Rightarrow> fuse \<Rightarrow> fuse_result" where
  "fskit_fuse_access V C path amode F = enabled FSKIT_FUSE_ACCESS F (
     as_caller C F (\<lambda>uid gid. on_core F (fskit_access V path uid gid amode)))"

definition fskit_fuse_create :: "env \<Rightarrow> fuse_ctx \<Rightarrow> string \<Rightarrow> u32 \<Rightarrow> fuse \<Rightarrow> fuse_result" where
  "fskit_fuse_create V C path mode F = enabled FSKIT_FUSE_CREATE F (
     as_caller C F (\<lambda>uid gid. do {
       s \<leftarrow> fu_core F;
       (r, s) \<leftarrow> fskit_create V path uid gid mode s;
       finish_open V r (F\<lparr>fu_core := Some s\<rparr>)
     }))"

definition fskit_fuse_ftruncate :: "env \<Rightarrow> fuse_ctx \<Rightarrow> nat \<Rightarrow> int \<Rightarrow> fuse \<Rightarrow> fuse_result" where
  "fskit_fuse_ftruncate V C fi new_size F = enabled FSKIT_FUSE_FTRUNCATE F (
     with_handle fi F (\<lambda>fh. on_core F (fskit_ftrunc V fh new_size)))"

definition fskit_fuse_fgetattr :: "env \<Rightarrow> fuse_ctx \<Rightarrow> nat \<Rightarrow> stat_buf \<Rightarrow> fuse \<Rightarrow> fuse_result" where
  "fskit_fuse_fgetattr V C fi statbuf F = enabled FSKIT_FUSE_FGETATTR F (
     do {
       ffi \<leftarrow> fu_infos F fi;
       h \<leftarrow> fi_handle ffi;
       s \<leftarrow> fu_core F;
       (path, fent) \<leftarrow>
         (if fi_type ffi = T_FILE
          then map_option (\<lambda>fh. (fh_path fh, fh_fent fh)) (fhs s h)
          else map_option (\<lambda>dh. (dh_path dh, dh_dent dh)) (dhs s h));
       fent \<leftarrow> fent;
       (rc, statbuf, s) \<leftarrow> fskit_fstat V path fent statbuf s;
       Some (rc, Re_stat statbuf, F\<lparr>fu_core := Some s\<rparr>)
     })"

subsection \<open>Start, run and end\<close>

definition fskit_fuse_init_fs :: "fs \<Rightarrow> fuse" where
  "fskit_fuse_init_fs s =
     \<lparr>fu_core = Some s, fu_settings = 0, fu_callbacks = -1, fu_mountpoint = None, fu_postmount = False,
      fu_infos = Map.empty, fu_next = 0\<rparr>"

text \<open>The outcome has the random generator, which the library's start fills. On an error the state is as it was.\<close>

definition fskit_fuse_init :: "env \<Rightarrow> rnd_device \<Rightarrow> nat \<Rightarrow> cmwc \<Rightarrow> fuse \<Rightarrow> int \<times> cmwc \<times> fuse" where
  "fskit_fuse_init V dv core_state rnd F =
     (case fskit_library_init dv rnd of
        (rc, rnd) \<Rightarrow>
          if rc \<noteq> 0 then (rc, rnd, F)
          else if \<not> mem_ok V ''fskit_core_new'' then (- ENOMEM, rnd, F)
          else
            (case fskit_core_init V core_state of
               (rc, s) \<Rightarrow> if rc \<noteq> 0 then (rc, rnd, F) else (0, rnd, fskit_fuse_init_fs s)))"

text \<open>
  What the FUSE library's functions give when a file system is mounted. \<open>fl_errno\<close> is \<open>errno\<close> after a failure of mounting or of
  \<open>fuse_new\<close>; the loop serves requests and so changes the state, with or without threads, and so
  may the application's callback. An event is recorded where the code takes or gives back one of
  FUSE's resources.
\<close>

record fuse_lib =
  fl_parse :: int
  fl_mountpoint :: "string option"
  fl_multithreaded :: bool
  fl_mount :: bool
  fl_new :: bool
  fl_errno :: int
  fl_daemonize :: int
  fl_signals :: int
  fl_postmount :: "fuse \<Rightarrow> int \<times> fuse"
  fl_loop :: "bool \<Rightarrow> fuse \<Rightarrow> int \<times> fuse"

datatype fuse_event = Args_freed | Mounted | Made | Unmounted | Destroyed | Looped | Torn_down

definition fskit_fuse_main :: "env \<Rightarrow> fuse_lib \<Rightarrow> fuse \<Rightarrow> int \<times> fuse_event list \<times> fuse" where
  "fskit_fuse_main V lib F =
     (if fl_parse lib < 0 then (fl_parse lib, [Args_freed], F)
      else
        (case fl_mountpoint lib of
           None \<Rightarrow> (fl_parse lib, [Args_freed], F)
         | Some mountpoint \<Rightarrow>
             let F = F\<lparr>fu_mountpoint := (if mem_ok V ''fskit_fuse_main'' then Some mountpoint else None)\<rparr>;
                 failed = (if - fl_errno lib = 0 then - EPERM else - fl_errno lib) in
             if \<not> fl_mount lib then (failed, [Args_freed], F)
             else if \<not> fl_new lib then (failed, [Mounted, Args_freed, Unmounted], F)
             else if fl_daemonize lib \<noteq> 0 then (fl_daemonize lib, [Mounted, Made, Args_freed, Unmounted, Destroyed], F)
             else if fl_signals lib < 0 then (fl_signals lib, [Mounted, Made, Args_freed, Unmounted, Destroyed], F)
             else
               (case (if fu_postmount F then fl_postmount lib F else (0, F)) of
                  (rc, F) \<Rightarrow>
                    if rc \<noteq> 0 then (rc, [Mounted, Made, Args_freed, Unmounted, Destroyed], F)
                    else
                      (case fl_loop lib (fl_multithreaded lib) F of
                         (rc, F) \<Rightarrow> (rc, [Mounted, Made, Args_freed, Looped, Torn_down], F)))))"

text \<open>The results of emptying and of destroying the core are overwritten by the next call's.\<close>

definition fskit_fuse_shutdown :: "env \<Rightarrow> string \<Rightarrow> fuse \<Rightarrow> (int \<times> nat option \<times> fuse) option" where
  "fskit_fuse_shutdown V garbage F =
     (case fu_core F of
        None \<Rightarrow> Some (0, None, F\<lparr>fu_mountpoint := None\<rparr>)
      | Some s \<Rightarrow>
          do {
            (_, s) \<leftarrow> fskit_detach_all V garbage ''/'' s;
            (core_state, s) \<leftarrow> fskit_core_destroy V s;
            Some (fskit_library_shutdown, Some core_state, F\<lparr>fu_core := None, fu_mountpoint := None\<rparr>)
          })"

definition fskit_fuse_get_core :: "fuse \<Rightarrow> fs option" where
  "fskit_fuse_get_core F = fu_core F"

definition fskit_fuse_detach_core :: "fuse \<Rightarrow> fuse" where
  "fskit_fuse_detach_core F = F\<lparr>fu_core := None\<rparr>"

subsection \<open>The table of handlers\<close>

text \<open>A request of the kernel with its arguments, and the handler that the table of operations has for it.\<close>

datatype fuse_request =
    Rq_getattr string stat_buf
  | Rq_readlink string nat
  | Rq_mknod string u32 u64
  | Rq_mkdir string u32
  | Rq_unlink string
  | Rq_rmdir string
  | Rq_symlink string string
  | Rq_rename string string
  | Rq_link string string
  | Rq_chmod string u32
  | Rq_chown string u32 u32
  | Rq_truncate string int
  | Rq_utime string int int
  | Rq_open string nat
  | Rq_read nat string nat int
  | Rq_write nat string nat int
  | Rq_statfs string
  | Rq_flush nat
  | Rq_release nat
  | Rq_fsync nat
  | Rq_setxattr string string string nat nat
  | Rq_getxattr string string "string option" nat
  | Rq_listxattr string "string option" nat
  | Rq_removexattr string string
  | Rq_opendir string
  | Rq_readdir nat "nat \<Rightarrow> string \<Rightarrow> int"
  | Rq_releasedir nat
  | Rq_fsyncdir nat
  | Rq_access string nat
  | Rq_create string u32
  | Rq_ftruncate nat int
  | Rq_fgetattr nat stat_buf

fun fskit_fuse_get_opers :: "fuse_request \<Rightarrow> env \<Rightarrow> fuse_ctx \<Rightarrow> fuse \<Rightarrow> fuse_result" where
  "fskit_fuse_get_opers (Rq_getattr path sb) V C F = fskit_fuse_getattr V C path sb F"
| "fskit_fuse_get_opers (Rq_readlink path n) V C F = fskit_fuse_readlink V C path n F"
| "fskit_fuse_get_opers (Rq_mknod path mode d) V C F = fskit_fuse_mknod V C path mode d F"
| "fskit_fuse_get_opers (Rq_mkdir path mode) V C F = fskit_fuse_mkdir V C path mode F"
| "fskit_fuse_get_opers (Rq_unlink path) V C F = fskit_fuse_unlink V C path F"
| "fskit_fuse_get_opers (Rq_rmdir path) V C F = fskit_fuse_rmdir V C path F"
| "fskit_fuse_get_opers (Rq_symlink target path) V C F = fskit_fuse_symlink V C target path F"
| "fskit_fuse_get_opers (Rq_rename path new) V C F = fskit_fuse_rename V C path new F"
| "fskit_fuse_get_opers (Rq_link path new) V C F = fskit_fuse_link V C path new F"
| "fskit_fuse_get_opers (Rq_chmod path mode) V C F = fskit_fuse_chmod V C path mode F"
| "fskit_fuse_get_opers (Rq_chown path u g) V C F = fskit_fuse_chown V C path u g F"
| "fskit_fuse_get_opers (Rq_truncate path n) V C F = fskit_fuse_truncate V C path n F"
| "fskit_fuse_get_opers (Rq_utime path a m) V C F = fskit_fuse_utime V C path a m F"
| "fskit_fuse_get_opers (Rq_open path flags) V C F = fskit_fuse_open V C path flags F"
| "fskit_fuse_get_opers (Rq_read fi buf n off) V C F = fskit_fuse_read V C fi buf n off F"
| "fskit_fuse_get_opers (Rq_write fi buf n off) V C F = fskit_fuse_write V C fi buf n off F"
| "fskit_fuse_get_opers (Rq_statfs path) V C F = fskit_fuse_statfs V C path F"
| "fskit_fuse_get_opers (Rq_flush fi) V C F = fskit_fuse_flush V C fi F"
| "fskit_fuse_get_opers (Rq_release fi) V C F = fskit_fuse_release V C fi F"
| "fskit_fuse_get_opers (Rq_fsync fi) V C F = fskit_fuse_fsync V C fi F"
| "fskit_fuse_get_opers (Rq_setxattr path name v n flags) V C F = fskit_fuse_setxattr V C path name v n flags F"
| "fskit_fuse_get_opers (Rq_getxattr path name v n) V C F = fskit_fuse_getxattr V C path name v n F"
| "fskit_fuse_get_opers (Rq_listxattr path v n) V C F = fskit_fuse_listxattr V C path v n F"
| "fskit_fuse_get_opers (Rq_removexattr path name) V C F = fskit_fuse_removexattr V C path name F"
| "fskit_fuse_get_opers (Rq_opendir path) V C F = fskit_fuse_opendir V C path F"
| "fskit_fuse_get_opers (Rq_readdir fi filler) V C F = fskit_fuse_readdir V C fi filler F"
| "fskit_fuse_get_opers (Rq_releasedir fi) V C F = fskit_fuse_releasedir V C fi F"
| "fskit_fuse_get_opers (Rq_fsyncdir fi) V C F = fskit_fuse_fsyncdir V C fi F"
| "fskit_fuse_get_opers (Rq_access path amode) V C F = fskit_fuse_access V C path amode F"
| "fskit_fuse_get_opers (Rq_create path mode) V C F = fskit_fuse_create V C path mode F"
| "fskit_fuse_get_opers (Rq_ftruncate fi n) V C F = fskit_fuse_ftruncate V C fi n F"
| "fskit_fuse_get_opers (Rq_fgetattr fi sb) V C F = fskit_fuse_fgetattr V C fi sb F"

text \<open>A session: requests one after the other, each with its environment and its caller.\<close>

fun fuse_serve :: "(env \<times> fuse_ctx \<times> fuse_request) list \<Rightarrow> fuse \<Rightarrow> fuse option" where
  "fuse_serve [] F = Some F"
| "fuse_serve ((V, C, q) # qs) F = do { (_, _, F) \<leftarrow> fskit_fuse_get_opers q V C F; fuse_serve qs F }"

subsection \<open>File infos and handles\<close>

definition info_live :: "nat set \<Rightarrow> nat set \<Rightarrow> fuse_info \<Rightarrow> bool" where
  "info_live files dirs i =
     (case fi_handle i of None \<Rightarrow> False | Some h \<Rightarrow> if fi_type i = T_FILE then h \<in> files else fi_type i = T_DIR \<and> h \<in> dirs)"

definition infos_ok :: "(nat \<Rightarrow> fuse_info option) \<Rightarrow> nat \<Rightarrow> (nat \<Rightarrow> file_handle option) \<times> nat set \<times> nat \<Rightarrow> bool" where
  "infos_ok I m = (\<lambda>(Fh, D, n).
     (\<forall>k\<ge>m. I k = None) \<and> (\<forall>k i. I k = Some i \<longrightarrow> info_live (dom Fh) D i) \<and>
     (\<forall>k k' i i'. I k = Some i \<longrightarrow> I k' = Some i' \<longrightarrow> fi_handle i = fi_handle i' \<longrightarrow> k = k') \<and>
     (\<forall>h\<ge>n. h \<notin> dom Fh \<and> h \<notin> D))"

definition fuse_infos_ok :: "fuse \<Rightarrow> bool" where
  "fuse_infos_ok F = (\<exists>s. fu_core F = Some s \<and> infos_ok (fu_infos F) (fu_next F) (handle_view s))"

lemma info_live_mono: "info_live A B i \<Longrightarrow> A \<subseteq> A' \<Longrightarrow> B \<subseteq> B' \<Longrightarrow> info_live A' B' i"
  by (auto simp: info_live_def split: option.splits if_splits)

lemma info_live_minus: "info_live A B i \<Longrightarrow> fi_handle i \<noteq> Some h \<Longrightarrow> info_live (A - {h}) B i \<and> info_live A (B - {h}) i"
  by (auto simp: info_live_def split: option.splits if_splits)

lemma info_live_old: "info_live A B i \<Longrightarrow> (\<forall>h\<ge>n. h \<notin> A \<and> h \<notin> B) \<Longrightarrow> fi_handle i \<noteq> Some n"
  by (auto simp: info_live_def split: option.splits if_splits)

lemma infos_ok_add:
  assumes I: "infos_ok I m (Fh, D, n)" and i: "fi_handle i = Some n" "info_live (dom Fh') D' i"
    and more: "dom Fh \<subseteq> dom Fh'" "D \<subseteq> D'" "\<forall>h\<ge>n'. h \<notin> dom Fh' \<and> h \<notin> D'"
  shows "infos_ok (I(m \<mapsto> i)) (Suc m) (Fh', D', n')"
proof -
  have old: "info_live (dom Fh') D' j \<and> fi_handle j \<noteq> Some n" if "I k = Some j" for k j
    using I that info_live_old [of "dom Fh" D j n] info_live_mono [of "dom Fh" D j "dom Fh'" D'] more
    by (auto simp: infos_ok_def)
  have inj: "k = k'" if "I k = Some j" "I k' = Some j'" "fi_handle j = fi_handle j'" for k k' j j'
    using I that by (auto simp: infos_ok_def)
  have none: "\<forall>k\<ge>m. I k = None" using I by (simp add: infos_ok_def)
  show ?thesis
    unfolding infos_ok_def prod.case
  proof (intro conjI allI impI)
    show "info_live (dom Fh') D' j" if "(I(m \<mapsto> i)) k = Some j" for k j
      using that i old by (auto split: if_splits)
    show "k = k'" if "(I(m \<mapsto> i)) k = Some j" "(I(m \<mapsto> i)) k' = Some j'" "fi_handle j = fi_handle j'" for k k' j j'
      using that i old inj by (auto split: if_splits)
  qed (use none more in auto)
qed

lemma infos_ok_less:
  assumes I: "infos_ok I m (Fh, D, n)" and sub: "\<And>k i. I' k = Some i \<Longrightarrow> I k = Some i"
    and live: "\<And>k i. I' k = Some i \<Longrightarrow> info_live (dom Fh') D' i" and new: "\<forall>h\<ge>n'. h \<notin> dom Fh' \<and> h \<notin> D'"
  shows "infos_ok I' m (Fh', D', n')"
proof -
  have "I' k = None" if "k \<ge> m" for k
    using I sub [of k] that by (cases "I' k") (auto simp: infos_ok_def)
  moreover have "k = k'" if "I' k = Some j" "I' k' = Some j'" "fi_handle j = fi_handle j'" for k k' j j'
    using I sub that unfolding infos_ok_def by blast
  ultimately show ?thesis using live new by (simp add: infos_ok_def)
qed

lemma infos_ok_closed:
  assumes I: "infos_ok I m (Fh, D, n)" and k: "I k = Some i" "fi_handle i = Some h"
  shows "infos_ok (I(k := None)) m (Fh(h := None), D, n)" and "infos_ok (I(k := None)) m (Fh, D - {h}, n)"
    and "infos_ok (I(k := None)) m (Fh, D, n)"
proof -
  have l: "info_live (dom Fh - {h}) D j \<and> info_live (dom Fh) (D - {h}) j \<and> info_live (dom Fh) D j"
    if "(I(k := None)) k' = Some j" for k' j
  proof -
    have "I k' = Some j" "k' \<noteq> k" using that by (auto split: if_splits)
    then have "info_live (dom Fh) D j" "fi_handle j \<noteq> Some h" using I k by (auto simp: infos_ok_def)
    then show ?thesis using info_live_minus by blast
  qed
  have n: "\<forall>h\<ge>n. h \<notin> dom Fh \<and> h \<notin> D" using I by (simp add: infos_ok_def)
  show "infos_ok (I(k := None)) m (Fh(h := None), D, n)"
    by (rule infos_ok_less [OF I]) (use l n in \<open>auto split: if_splits\<close>)
  show "infos_ok (I(k := None)) m (Fh, D - {h}, n)"
    by (rule infos_ok_less [OF I]) (use l n in \<open>auto split: if_splits\<close>)
  show "infos_ok (I(k := None)) m (Fh, D, n)"
    by (rule infos_ok_less [OF I]) (use l n in \<open>auto split: if_splits\<close>)
qed

lemma infos_ok_grow:
  assumes I: "infos_ok I m (Fh, D, n)"
  shows "infos_ok I m (Fh(n \<mapsto> x), D, Suc n)" "infos_ok I m (Fh, insert n D, Suc n)"
    "infos_ok I m (Fh(n := None), D, Suc n)" "infos_ok I m (Fh, D - {n}, Suc n)"
proof -
  have n: "\<forall>h\<ge>n. h \<notin> dom Fh \<and> h \<notin> D" and l: "I k = Some i \<Longrightarrow> info_live (dom Fh) D i" for k i
    using I by (auto simp: infos_ok_def)
  show "infos_ok I m (Fh(n \<mapsto> x), D, Suc n)"
    by (rule infos_ok_less [OF I]) (use l n in \<open>auto intro: info_live_mono\<close>)
  show "infos_ok I m (Fh, insert n D, Suc n)"
    by (rule infos_ok_less [OF I]) (use l n in \<open>auto intro: info_live_mono\<close>)
  show "infos_ok I m (Fh(n := None), D, Suc n)"
    by (rule infos_ok_less [OF I]) (use l n in \<open>auto intro: info_live_mono\<close>)
  show "infos_ok I m (Fh, D - {n}, Suc n)"
    by (rule infos_ok_less [OF I]) (use l n in \<open>auto intro: info_live_mono\<close>)
qed

text \<open>Rules for the shapes that the handlers are made of.\<close>

lemma post_enabled: "Q (- ENOSYS, No_reply, F) \<Longrightarrow> post Q r \<Longrightarrow> post Q (enabled flag F r)"
  by (simp add: enabled_def post_SomeI)

lemma post_core: "fu_core F = Some s \<Longrightarrow> Q s \<Longrightarrow> post Q (fu_core F)"
  by (simp add: post_SomeI)

lemma post_set_core: "Q s \<Longrightarrow> post Q (fu_core (F\<lparr>fu_core := Some s\<rparr>))"
  by (simp add: post_SomeI)

lemma post_on_core:
  "fu_core F = Some s \<Longrightarrow> post (\<lambda>x. Q (fst x, No_reply, F\<lparr>fu_core := Some (snd x)\<rparr>)) (m s) \<Longrightarrow> post Q (on_core F m)"
  by (auto simp: on_core_def post_def bind_eq_Some)

lemma post_with_handle:
  "(\<And>i h. fu_infos F fi = Some i \<Longrightarrow> fi_handle i = Some h \<Longrightarrow> post Q (f h)) \<Longrightarrow> post Q (with_handle fi F f)"
  by (auto simp: with_handle_def post_def bind_eq_Some)

lemma post_infos: "(\<And>i. fu_infos F fi = Some i \<Longrightarrow> Q i) \<Longrightarrow> post Q (fu_infos F fi)"
  by (simp add: post_def)

lemmas fuse_post = post_enabled post_set_core post_core post_on_core post_with_handle post_infos post_map_option post_access

lemmas handler_defs = as_caller_def fskit_listdir_def fskit_create_def
  fskit_fuse_getattr_def fskit_fuse_readlink_def fskit_fuse_mknod_def fskit_fuse_mkdir_def
  fskit_fuse_unlink_def fskit_fuse_rmdir_def fskit_fuse_symlink_def fskit_fuse_rename_def
  fskit_fuse_link_def fskit_fuse_chmod_def fskit_fuse_chown_def fskit_fuse_truncate_def
  fskit_fuse_utime_def fskit_fuse_open_def fskit_fuse_read_def fskit_fuse_write_def
  fskit_fuse_statfs_def fskit_fuse_flush_def fskit_fuse_release_def fskit_fuse_fsync_def
  fskit_fuse_setxattr_def fskit_fuse_getxattr_def fskit_fuse_listxattr_def fskit_fuse_removexattr_def
  fskit_fuse_opendir_def fskit_fuse_readdir_def fskit_fuse_releasedir_def fskit_fuse_fsyncdir_def
  fskit_fuse_access_def fskit_fuse_create_def fskit_fuse_ftruncate_def fskit_fuse_fgetattr_def

definition keeps_infos :: "int \<times> fuse_reply \<times> fuse \<Rightarrow> bool" where
  "keeps_infos = (\<lambda>(rc, reply, F). fuse_infos_ok F)"

lemma keeps_infosI:
  "infos_ok (fu_infos F) (fu_next F) (Fh, D, n) \<Longrightarrow> fu_core F = Some s \<Longrightarrow> handle_view s = (Fh, D, n) \<Longrightarrow> keeps_infos (rc, reply, F)"
  by (simp add: keeps_infos_def fuse_infos_ok_def)

lemma finish_open_fails: "rc \<noteq> 0 \<Longrightarrow> fuse_infos_ok F \<Longrightarrow> post keeps_infos (finish_open V (Inl rc) F)"
  "rc \<noteq> 0 \<Longrightarrow> fuse_infos_ok F \<Longrightarrow> post keeps_infos (finish_opendir V (Inl rc) F)"
  by (simp_all add: finish_open_def finish_opendir_def keeps_infos_def post_SomeI)

lemma finish_open_infos:
  assumes I: "infos_ok (fu_infos F) (fu_next F) (Fh, D, n)" and s: "fu_core F = Some s" "handle_view s = (Fh(n \<mapsto> x), D, Suc n)"
  shows "post keeps_infos (finish_open V (Inr n) F)"
proof -
  have new: "infos_ok ((fu_infos F)(fu_next F \<mapsto> \<lparr>fi_type = T_FILE, fi_handle = Some n\<rparr>)) (Suc (fu_next F)) (Fh(n \<mapsto> x), D, Suc n)"
    by (rule infos_ok_add [OF I]) (use I in \<open>auto simp: info_live_def infos_ok_def\<close>)
  have close: "post keeps_infos (do { (_, s) \<leftarrow> fskit_close V n s; Some (- ENOMEM, No_reply, F\<lparr>fu_core := Some s\<rparr>) })"
    by (insert s(2)) (assumption | rule vc hf |
      (simp add: keeps_infos_def fuse_infos_ok_def infos_ok_grow [OF I]; fail))+
  show ?thesis
    using new close s by (auto simp: finish_open_def fskit_fuse_make_file_handle_def make_info_def keeps_infos_def
      fuse_infos_ok_def post_SomeI Let_def)
qed

lemma finish_opendir_infos:
  assumes I: "infos_ok (fu_infos F) (fu_next F) (Fh, D, n)" and s: "fu_core F = Some s" "handle_view s = (Fh, insert n D, Suc n)"
  shows "post keeps_infos (finish_opendir V (Inr n) F)"
proof -
  have new: "infos_ok ((fu_infos F)(fu_next F \<mapsto> \<lparr>fi_type = T_DIR, fi_handle = Some n\<rparr>)) (Suc (fu_next F)) (Fh, insert n D, Suc n)"
    by (rule infos_ok_add [OF I]) (use I in \<open>auto simp: info_live_def infos_ok_def\<close>)
  have close: "post keeps_infos (do { (_, s) \<leftarrow> fskit_closedir V n s; Some (- ENOMEM, No_reply, F\<lparr>fu_core := Some s\<rparr>) })"
    by (insert s(2)) (assumption | rule vc hf |
      (simp add: keeps_infos_def fuse_infos_ok_def infos_ok_grow [OF I]; fail))+
  show ?thesis
    using new close s by (auto simp: finish_opendir_def fskit_fuse_make_dir_handle_def make_info_def keeps_infos_def
      fuse_infos_ok_def post_SomeI Let_def)
qed

lemma requests_infos:
  assumes "infos_ok (fu_infos F) (fu_next F) (Fh, D, n)" and "fu_core F = Some s" and "handle_view s = (Fh, D, n)"
  shows "post keeps_infos (fskit_fuse_get_opers q V C F)"
  by (cases q; simp only: fskit_fuse_get_opers.simps handler_defs; insert assms)
    (assumption | rule fuse_post finish_open_infos finish_opendir_infos finish_open_fails post_Inl post_Inr vc hf |
     (simp add: keeps_infos_def fuse_infos_ok_def infos_ok_closed; fail) | rule post_any post_prod)+

definition fuse_reaches :: "int \<times> fuse_reply \<times> fuse \<Rightarrow> bool" where
  "fuse_reaches = (\<lambda>(rc, reply, F). \<exists>s. fu_core F = Some s \<and> reachable s)"

lemma finish_open_reach:
  assumes "reachable s" and "fu_core F = Some s"
  shows "post fuse_reaches (finish_open V r F)" "post fuse_reaches (finish_opendir V r F)"
  unfolding finish_open_def finish_opendir_def fskit_fuse_make_file_handle_def fskit_fuse_make_dir_handle_def make_info_def Let_def
  by (insert assms) (assumption | rule fuse_post post_case_Some post_case_None vc reach post_prod |
    (auto simp: fuse_reaches_def split: if_splits; fail) | rule post_any)+

lemma requests_reach:
  assumes "reachable s" and "fu_core F = Some s"
  shows "post fuse_reaches (fskit_fuse_get_opers q V C F)"
  by (cases q; simp only: fskit_fuse_get_opers.simps handler_defs; insert assms)
    (assumption | rule fuse_post finish_open_reach post_Inl post_Inr vc reach |
     (simp add: fuse_reaches_def; fail) | rule post_any post_prod)+

subsection \<open>Sessions\<close>

definition fuse_good :: "fuse \<Rightarrow> bool" where
  "fuse_good F = (\<exists>s. fu_core F = Some s \<and> reachable s \<and> infos_ok (fu_infos F) (fu_next F) (handle_view s))"

inductive fuse_step :: "fuse \<Rightarrow> fuse \<Rightarrow> bool" where
  request: "fskit_fuse_get_opers q V C F = Some (rc, reply, F') \<Longrightarrow> fuse_step F F'"

inductive_cases fuse_stepE: "fuse_step F F'"

definition fuse_booted :: "fuse \<Rightarrow> bool" where
  "fuse_booted F = (\<exists>V dv d rnd rnd' F0. fskit_fuse_init V dv d rnd F0 = (0, rnd', F))"

lemma booted_good: "fuse_booted F \<Longrightarrow> fuse_good F"
proof -
  assume "fuse_booted F"
  then obtain V dv d rnd rnd' F0 where b: "fskit_fuse_init V dv d rnd F0 = (0, rnd', F)" by (auto simp: fuse_booted_def)
  then obtain s where i: "fskit_core_init V d = (0, s)" and F: "F = fskit_fuse_init_fs s"
    by (cases "fskit_library_init dv rnd"; cases "fskit_core_init V d")
      (auto simp: fskit_fuse_init_def ENOMEM_def split: if_splits)
  have "reachable s" by (rule reachable_boot [OF i])
  then have "\<forall>h\<ge>hbrk s. fhs s h = None \<and> dhs s h = None" using reachable_rinv by (simp add: rinv_def)
  then show ?thesis
    using \<open>reachable s\<close> by (auto simp: fuse_good_def F fskit_fuse_init_fs_def infos_ok_def handle_view_def)
qed

lemma step_good: "fuse_good F \<Longrightarrow> fuse_step F F' \<Longrightarrow> fuse_good F'"
proof -
  assume "fuse_good F" and "fuse_step F F'"
  then obtain s q V C rc reply where s: "fu_core F = Some s" "reachable s" "infos_ok (fu_infos F) (fu_next F) (handle_view s)"
    and q: "fskit_fuse_get_opers q V C F = Some (rc, reply, F')"
    by (auto simp: fuse_good_def elim: fuse_stepE)
  obtain Fh D n where v: "handle_view s = (Fh, D, n)" by (cases "handle_view s")
  have "keeps_infos (rc, reply, F')" by (rule postD [OF requests_infos q]) (use s v in auto)
  moreover have "fuse_reaches (rc, reply, F')" by (rule postD [OF requests_reach q]) (use s in auto)
  ultimately show ?thesis by (auto simp: keeps_infos_def fuse_reaches_def fuse_infos_ok_def fuse_good_def)
qed

interpretation fuse_session: invariant_system fuse_booted fuse_step fuse_good
  by unfold_locales (auto intro: booted_good step_good)

lemma serve_steps: "fuse_serve qs F = Some F' \<Longrightarrow> fuse_step\<^sup>*\<^sup>* F F'"
proof (induction qs F rule: fuse_serve.induct)
  case (2 V C q qs F)
  then obtain rc reply F1 where q: "fskit_fuse_get_opers q V C F = Some (rc, reply, F1)" and r: "fuse_serve qs F1 = Some F'"
    by (auto simp: bind_eq_Some)
  from "2.IH" [OF q refl refl r] fuse_step.request [OF q] show ?case by (rule converse_rtranclp_into_rtranclp [rotated])
qed simp

lemma session_good: "fskit_fuse_init V dv d rnd F0 = (0, rnd', F) \<Longrightarrow> fuse_serve qs F = Some F' \<Longrightarrow> fuse_good F'"
  by (rule fuse_session.run_good [OF _ serve_steps]) (unfold fuse_booted_def, blast, assumption)

subsection \<open>The run of a mounted file system\<close>

text \<open>
  Whatever FUSE answers, its arguments are freed once, what was mounted is unmounted or torn down
  once, and what was made is destroyed or torn down once.
\<close>

lemma main_balance:
  assumes "fskit_fuse_main V lib F = (rc, es, F')"
  shows "count_list es Args_freed = 1" and "count_list es Mounted = count_list es Unmounted + count_list es Torn_down"
    and "count_list es Made = count_list es Destroyed + count_list es Torn_down"
    and "count_list es Made \<le> count_list es Mounted" and "count_list es Mounted \<le> 1" and "count_list es Looped = count_list es Torn_down"
  using assms by (auto simp: fskit_fuse_main_def Let_def split: if_splits option.splits prod.splits)

text \<open>A device that answers, and the context of a request, for the witnesses.\<close>

definition demo_device :: rnd_device where
  "demo_device = \<lparr>rd_fd = 3, rd_errno = 0, rd_nr = 16384, rd_words = []\<rparr>"

definition demo_ctx :: fuse_ctx where
  "demo_ctx = \<lparr>fc_getpid = 1, fc_pid = 2, fc_uid = 0, fc_gid = 0, fc_umask = 18\<rparr>"

end
