(* ===== verification/Tmpfs.thy ===== *)
theory Tmpfs
  imports Fuse Demo "HOL-Library.Log_Nat"
begin

text \<open>
  The file system of \<open>demo/fuse-demo.c\<close>, an application of the library that keeps the contents of its
  files in memory: the callbacks that it attaches to create, open, read, write, close and destroy, over
  a memory of their own, and the main program. An inode's and a handle's data are addresses of that
  memory (0 is NULL). A byte that was allocated and never written is \<open>None\<close>. A callback is \<open>None\<close> when it
  follows a pointer that leads nowhere, when \<open>memcpy\<close> leaves one of its buffers, and when a shift has
  no result.

  The lemmas: buffers are as large as their capacity says as long as no allocation fails; a file reads
  back what was last written at its start; and what goes wrong for writes elsewhere, for offsets of
  \<open>2 ^ 32\<close> and more, and after a failed allocation.
\<close>

subsection \<open>State and callbacks\<close>

type_synonym byte = "char option"

record demo_inode =
  di_buf :: "byte list option"
  di_capacity :: u64
  di_size :: u64

record demo_fd =
  num_reads :: u64
  num_writes :: u64

record demo_mem =
  dm_inodes :: "nat \<Rightarrow> demo_inode option"
  dm_fds :: "nat \<Rightarrow> demo_fd option"
  dm_next :: nat

definition demo_new_inode :: "demo_mem \<Rightarrow> nat \<times> demo_mem" where
  "demo_new_inode m =
     (dm_next m, m\<lparr>dm_inodes := (dm_inodes m)(dm_next m \<mapsto> \<lparr>di_buf = None, di_capacity = 0, di_size = 0\<rparr>),
        dm_next := dm_next m + 1\<rparr>)"

definition demo_new_fd :: "demo_mem \<Rightarrow> nat \<times> demo_mem" where
  "demo_new_fd m =
     (dm_next m, m\<lparr>dm_fds := (dm_fds m)(dm_next m \<mapsto> \<lparr>num_reads = 0, num_writes = 0\<rparr>), dm_next := dm_next m + 1\<rparr>)"

text \<open>The outcomes of create: the inode's data and the handle's data.\<close>

definition create_cb :: "'z sys_scheme \<Rightarrow> demo_mem \<Rightarrow> int \<times> (nat \<times> nat) option \<times> demo_mem" where
  "create_cb S m =
     (if \<not> mem_ok S ''create_cb_inode'' then (- ENOMEM, None, m)
      else
        (case demo_new_inode m of
           (di, m') \<Rightarrow>
             if \<not> mem_ok S ''create_cb_fd'' then (- ENOMEM, None, m)
             else (case demo_new_fd m' of (dfd, m) \<Rightarrow> (0, Some (di, dfd), m))))"

definition open_cb :: "'z sys_scheme \<Rightarrow> entry \<Rightarrow> nat \<Rightarrow> demo_mem \<Rightarrow> int \<times> nat \<times> demo_mem" where
  "open_cb S fent handle_data m =
     (if etype fent \<noteq> T_FILE then (0, handle_data, m)
      else if \<not> mem_ok S ''open_cb'' then (- ENOMEM, handle_data, m)
      else (case demo_new_fd m of (dfd, m) \<Rightarrow> (0, dfd, m)))"

definition demo_free_fd :: "nat \<Rightarrow> demo_mem \<Rightarrow> demo_mem option" where
  "demo_free_fd p m =
     (if p = 0 then Some m
      else map_option (\<lambda>_. m\<lparr>dm_fds := (dm_fds m)(p := None)\<rparr>) (dm_fds m p))"

definition close_cb :: "entry \<Rightarrow> nat \<Rightarrow> demo_mem \<Rightarrow> (int \<times> demo_mem) option" where
  "close_cb fent handle_data m =
     (if etype fent \<noteq> T_FILE then Some (0, m)
      else map_option (\<lambda>m. (0, m)) (demo_free_fd handle_data m))"

text \<open>\<open>memcpy\<close> of \<open>n\<close> bytes to the start of \<open>dst\<close>.\<close>

definition memcpy :: "byte list \<Rightarrow> byte list \<Rightarrow> nat \<Rightarrow> byte list option" where
  "memcpy dst src n = (if n \<le> length dst \<and> n \<le> length src then Some (take n src @ drop n dst) else None)"

definition bytes_at :: "demo_inode \<Rightarrow> byte list" where
  "bytes_at di = (case di_buf di of None \<Rightarrow> [] | Some b \<Rightarrow> b)"

text \<open>
  \<open>buf\<close> is the caller's buffer. The offset is signed with 64 bits; the code cuts it to 32 bits before it
  compares it with the size, and the number of bytes to 32 bits when it keeps it in an \<open>int\<close>.
\<close>

definition read_cb :: "entry \<Rightarrow> nat \<Rightarrow> byte list \<Rightarrow> u64 \<Rightarrow> u64 \<Rightarrow> demo_mem \<Rightarrow> (int \<times> byte list \<times> demo_mem) option" where
  "read_cb fent handle_data buf buflen offset m =
     (if sint offset < 0 then Some (0, buf, m)
      else do {
        di \<leftarrow> dm_inodes m (app_data fent);
        if di_size di \<le> ucast (ucast offset :: u32) then Some (0, buf, m)
        else do {
          let max_read = (ucast (if di_size di < offset + buflen then di_size di - offset else buflen) :: u32);
          let count = (scast max_read :: u64);
          buf \<leftarrow> memcpy buf (drop (unat offset) (bytes_at di)) (unat count);
          dfd \<leftarrow> dm_fds m handle_data;
          Some (sint max_read, buf,
            m\<lparr>dm_fds := (dm_fds m)(handle_data \<mapsto> dfd\<lparr>num_reads := num_reads dfd + count\<rparr>)\<rparr>)
        }
      })"

text \<open>
  \<open>lg x\<close> is \<open>(int) log2 (x)\<close>, of the mathematical library. The inode's capacity is raised before the
  buffer is.
\<close>

definition demo_set_inode :: "nat \<Rightarrow> demo_inode \<Rightarrow> demo_mem \<Rightarrow> demo_mem" where
  "demo_set_inode p di m = m\<lparr>dm_inodes := (dm_inodes m)(p \<mapsto> di)\<rparr>"

definition demo_realloc :: "byte list \<Rightarrow> nat \<Rightarrow> byte list" where
  "demo_realloc b n = take n b @ replicate (n - length b) None"

definition demo_grow :: "'z sys_scheme \<Rightarrow> (u64 \<Rightarrow> nat) \<Rightarrow> u64 \<Rightarrow> demo_inode \<Rightarrow> (int \<times> demo_inode) option" where
  "demo_grow S lg needed di =
     (if di_capacity di < needed then
        let n = lg needed + 1 in
        if 63 \<le> n then None
        else
          let di = di\<lparr>di_capacity := 2 ^ n\<rparr> in
          if \<not> mem_ok S ''write_cb'' then Some (- ENOMEM, di)
          else Some (0, di\<lparr>di_buf := Some (demo_realloc (bytes_at di) (2 ^ n))\<rparr>)
      else Some (0, di))"

definition write_cb ::
    "'z sys_scheme \<Rightarrow> (u64 \<Rightarrow> nat) \<Rightarrow> entry \<Rightarrow> nat \<Rightarrow> byte list \<Rightarrow> u64 \<Rightarrow> u64 \<Rightarrow> demo_mem \<Rightarrow> (int \<times> demo_mem) option" where
  "write_cb S lg fent handle_data buf buflen offset m =
     do {
       di \<leftarrow> dm_inodes m (app_data fent);
       (rc, di) \<leftarrow> demo_grow S lg (buflen + offset) di;
       if rc \<noteq> 0 then Some (rc, demo_set_inode (app_data fent) di m)
       else do {
         bytes \<leftarrow> memcpy (bytes_at di) buf (unat buflen);
         dfd \<leftarrow> dm_fds m handle_data;
         let di = di\<lparr>di_buf := map_option (\<lambda>_. bytes) (di_buf di), di_size := max (di_size di) (buflen + offset)\<rparr>;
         Some (sint (ucast buflen :: u32),
           demo_set_inode (app_data fent) di
             (m\<lparr>dm_fds := (dm_fds m)(handle_data \<mapsto> dfd\<lparr>num_writes := num_writes dfd + buflen\<rparr>)\<rparr>))
       }
     }"

definition destroy_cb :: "entry \<Rightarrow> demo_mem \<Rightarrow> (int \<times> demo_mem) option" where
  "destroy_cb fent m =
     (if app_data fent = 0 then Some (0, m)
      else map_option (\<lambda>_. (0, m\<lparr>dm_inodes := (dm_inodes m)(app_data fent := None)\<rparr>)) (dm_inodes m (app_data fent)))"

subsection \<open>Buffers are as large as their capacity\<close>

definition di_ok :: "demo_inode \<Rightarrow> bool" where
  "di_ok di = (length (bytes_at di) = unat (di_capacity di) \<and> di_size di \<le> di_capacity di)"

text \<open>What is needed of the logarithm: it is at least the exponent, and at most one more (when it rounds up).\<close>

definition lg_ok :: "(u64 \<Rightarrow> nat) \<Rightarrow> bool" where
  "lg_ok lg = (\<forall>x. x \<noteq> 0 \<longrightarrow> unat x < 2 ^ (lg x + 1) \<and> 2 ^ lg x \<le> 2 * unat x)"

definition demo_lg :: "u64 \<Rightarrow> nat" where
  "demo_lg x = floorlog 2 (unat x) - 1"

lemma demo_lg_ok: "lg_ok demo_lg"
proof -
  have "unat x < 2 ^ (demo_lg x + 1) \<and> 2 ^ demo_lg x \<le> 2 * unat x" if "x \<noteq> 0" for x :: u64
  proof -
    have x: "0 < unat x" using that by (simp add: unat_gt_0)
    have "2 ^ (floorlog 2 (unat x) - 1) \<le> unat x \<and> unat x < 2 ^ floorlog 2 (unat x)" using floorlog_bounds [of "unat x" 2] x by simp
    moreover have "0 < floorlog 2 (unat x)" using x by (simp add: floorlog_def)
    ultimately show ?thesis by (simp add: demo_lg_def)
  qed
  then show ?thesis by (simp add: lg_ok_def)
qed

lemma unat_two_power: "n < 63 \<Longrightarrow> unat (2 ^ n :: u64) = 2 ^ n"
proof -
  assume n: "n < 63"
  have "unat (word_of_nat (2 ^ n) :: u64) = 2 ^ n mod 2 ^ LENGTH(64)" by (simp only: unat_of_nat)
  also have "\<dots> = 2 ^ n" using n by (intro mod_less power_strict_increasing) simp_all
  finally show ?thesis by simp
qed

lemma lg_small: "2 ^ e \<le> 2 * x \<Longrightarrow> x < 2 ^ 61 \<Longrightarrow> e + 1 < 63" for x :: nat
proof -
  assume "2 ^ e \<le> 2 * x" "x < 2 ^ 61"
  then have "(2 :: nat) ^ e < 2 ^ 62" by simp
  then show ?thesis using power_less_imp_less_exp [of "2 :: nat" e 62] by simp
qed

lemma demo_grow_cases:
  assumes lg: "lg_ok lg" and ok: "di_ok di" and n: "unat needed < 2 ^ 61" and mem: "mem_ok S ''write_cb''"
  obtains di' where "demo_grow S lg needed di = Some (0, di')" and "di_ok di'" and "needed \<le> di_capacity di'"
    and "di_size di' = di_size di" and "\<exists>zs. bytes_at di' = bytes_at di @ zs"
proof (cases "di_capacity di < needed")
  case False
  then show ?thesis using that [of di] ok by (simp add: demo_grow_def)
next
  case True
  then have "needed \<noteq> 0" by auto
  with lg have l: "unat needed < 2 ^ (lg needed + 1)" "2 ^ lg needed \<le> 2 * unat needed" by (auto simp: lg_ok_def)
  have e: "lg needed + 1 < 63" by (rule lg_small [OF l(2) n])
  let ?c = "2 ^ (lg needed + 1) :: u64"
  let ?di = "di\<lparr>di_capacity := ?c, di_buf := Some (demo_realloc (bytes_at di) (2 ^ (lg needed + 1)))\<rparr>"
  have c: "unat ?c = 2 ^ (lg needed + 1)" by (rule unat_two_power [OF e])
  have le: "needed \<le> ?c" unfolding word_le_nat_alt c using l(1) by simp
  have cap: "unat (di_capacity di) < 2 ^ (lg needed + 1)" using True l(1) by (simp add: word_less_nat_alt)
  have b: "bytes_at ?di = bytes_at di @ replicate (2 ^ (lg needed + 1) - length (bytes_at di)) None"
    using ok cap by (simp add: bytes_at_def demo_realloc_def di_ok_def)
  show ?thesis
  proof (rule that [of ?di])
    show "demo_grow S lg needed di = Some (0, ?di)"
      using True e mem by (simp add: demo_grow_def Let_def bytes_at_def)
    show "di_ok ?di"
      using ok cap c le True unfolding di_ok_def b by (auto simp: word_le_nat_alt word_less_nat_alt)
    show "\<exists>zs. bytes_at ?di = bytes_at di @ zs" using b by blast
  qed (use le in simp_all)
qed

subsection \<open>Reading and writing\<close>

lemma memcpy_Some: "n \<le> length dst \<Longrightarrow> n \<le> length src \<Longrightarrow> memcpy dst src n = Some (take n src @ drop n dst)"
  by (simp add: memcpy_def)

lemma unat_plus_no_wrap: "unat (x :: u64) + unat y < 2 ^ 64 \<Longrightarrow> unat (x + y) = unat x + unat y"
  by (simp add: unat_word_ariths)

lemma scast_nonzero: "w \<noteq> 0 \<Longrightarrow> scast (w :: u32) \<noteq> (0 :: u64)"
proof
  assume "w \<noteq> 0" and "scast w = (0 :: u64)"
  moreover have "ucast (scast w :: u64) = w"
  proof (rule bit_word_eqI)
    fix n assume "n < LENGTH(32)"
    then have "n < 32" "min 31 n = n" by simp_all
    then show "bit (ucast (scast w :: u64) :: u32) n = bit w n" by (simp add: bit_ucast_iff bit_signed_iff)
  qed
  ultimately show False by simp
qed

lemma unat_sum: "unat (x :: u64) + unat y < 2 ^ 61 \<Longrightarrow> unat (x + y) = unat x + unat y"
  by (rule unat_plus_no_wrap) simp

text \<open>
  A write stores its bytes at the start of the buffer, wherever the offset is, and the size becomes
  the end of what was to be written.
\<close>

lemma write_cb_effect:
  assumes di: "dm_inodes m (app_data fent) = Some di" "di_ok di" and fd: "dm_fds m hda = Some dfd"
    and lg: "lg_ok lg" and mem: "mem_ok S ''write_cb''"
    and n: "unat buflen \<le> length buf" "unat buflen + unat offset < 2 ^ 61"
  obtains m' di' where "write_cb S lg fent hda buf buflen offset m = Some (sint (ucast buflen :: u32), m')"
    and "dm_inodes m' (app_data fent) = Some di'" and "di_ok di'" and "di_size di' = max (di_size di) (buflen + offset)"
    and "take (unat buflen) (bytes_at di') = take (unat buflen) buf"
    and "\<And>i. unat buflen \<le> i \<Longrightarrow> i < length (bytes_at di) \<Longrightarrow> bytes_at di' ! i = bytes_at di ! i"
    and "dm_fds m' = (dm_fds m)(hda \<mapsto> dfd\<lparr>num_writes := num_writes dfd + buflen\<rparr>)"
proof -
  have sum: "unat (buflen + offset) = unat buflen + unat offset" using n(2) by (rule unat_sum)
  obtain di1 where g: "demo_grow S lg (buflen + offset) di = Some (0, di1)" "di_ok di1" "buflen + offset \<le> di_capacity di1"
      "di_size di1 = di_size di" "\<exists>zs. bytes_at di1 = bytes_at di @ zs"
    by (rule demo_grow_cases [OF lg di(2) _ mem, of "buflen + offset"]) (use n(2) sum in auto)
  obtain zs where zs: "bytes_at di1 = bytes_at di @ zs" using g(5) by blast
  have len: "unat buflen \<le> length (bytes_at di1)" using g(2,3) sum by (simp add: di_ok_def word_le_nat_alt)
  let ?bytes = "take (unat buflen) buf @ drop (unat buflen) (bytes_at di1)"
  let ?di = "di1\<lparr>di_buf := map_option (\<lambda>_. ?bytes) (di_buf di1), di_size := max (di_size di1) (buflen + offset)\<rparr>"
  have b: "bytes_at ?di = ?bytes"
    using len n(1) by (cases "di_buf di1") (auto simp: bytes_at_def)
  let ?m = "demo_set_inode (app_data fent) ?di (m\<lparr>dm_fds := (dm_fds m)(hda \<mapsto> dfd\<lparr>num_writes := num_writes dfd + buflen\<rparr>)\<rparr>)"
  show ?thesis
  proof (rule that [of ?m ?di])
    show "write_cb S lg fent hda buf buflen offset m = Some (sint (ucast buflen :: u32), ?m)"
      using di fd g(1) memcpy_Some [OF len n(1)] by (simp add: write_cb_def Let_def)
    show "di_ok ?di"
      using g(2,3) len n(1) unfolding di_ok_def b by simp
    show "take (unat buflen) (bytes_at ?di) = take (unat buflen) buf" unfolding b using n(1) by simp
    show "bytes_at ?di ! i = bytes_at di ! i" if "unat buflen \<le> i" "i < length (bytes_at di)" for i
      unfolding b using that n(1) by (auto simp: nth_append zs)
  qed (simp_all add: demo_set_inode_def g(4))
qed

lemma small_int:
  assumes "unat (x :: u64) < 2 ^ 31"
  shows "sint (ucast x :: u32) = int (unat x)" and "unat (scast (ucast x :: u32) :: u64) = unat x"
proof -
  have x: "uint x < 2 ^ 31" using assms by (simp only: uint_nat of_nat_less_numeral_power_cancel_iff)
  have "uint (ucast x :: u32) = take_bit 32 (uint x)" by (simp add: unsigned_ucast_eq)
  also have "\<dots> = uint x" using x by (intro take_bit_int_eq_self) simp_all
  finally have u: "uint (ucast x :: u32) = uint x" .
  have "sint (ucast x :: u32) = signed_take_bit 31 (uint x)" by (simp add: sint_uint u)
  also have "\<dots> = uint x" by (rule signed_take_bit_int_eq_self) (insert x uint_ge_0 [of x], linarith+)
  finally have s: "sint (ucast x :: u32) = uint x" .
  then show "sint (ucast x :: u32) = int (unat x)" by simp
  have "(scast (ucast x :: u32) :: u64) = x" unfolding scast_eq s by simp
  then show "unat (scast (ucast x :: u32) :: u64) = unat x" by simp
qed

lemma uint_widened: "uint (ucast (y :: u32) :: u64) = uint y"
proof -
  have "uint (ucast y :: u64) = take_bit 64 (uint y)" by (simp add: unsigned_ucast_eq)
  also have "\<dots> = uint y" using uint_bounded [of y] by (intro take_bit_int_eq_self) simp_all
  finally show ?thesis .
qed

lemma offset_in_range:
  shows "unat (x :: u64) < 2 ^ 63 \<Longrightarrow> sint x = int (unat x)"
    and "unat (ucast (ucast x :: u32) :: u64) = unat (ucast x :: u32)"
    and "unat (ucast x :: u32) = unat x mod 2 ^ 32"
proof -
  assume "unat x < 2 ^ 63"
  then have x: "uint x < 2 ^ 63" by (simp only: uint_nat of_nat_less_numeral_power_cancel_iff)
  have "sint x = signed_take_bit 63 (uint x)" by (simp add: sint_uint)
  also have "\<dots> = uint x" by (rule signed_take_bit_int_eq_self) (insert x uint_ge_0 [of x], linarith+)
  finally show "sint x = int (unat x)" by simp
next
  show "unat (ucast x :: u32) = unat x mod 2 ^ 32" by (simp add: unsigned_ucast_eq take_bit_eq_mod)
next
  show "unat (ucast (ucast x :: u32) :: u64) = unat (ucast x :: u32)" by (simp only: unat_eq_nat_uint uint_widened)
qed

text \<open>A read gives the bytes from the offset to the size or to the end of the caller's buffer.\<close>

lemma read_cb_effect:
  assumes di: "dm_inodes m (app_data fent) = Some di" "di_ok di" and fd: "dm_fds m hda = Some dfd"
    and n: "unat buflen < 2 ^ 31" "unat buflen \<le> length buf" and o: "unat offset < 2 ^ 32"
    and k: "k = min (unat buflen) (unat (di_size di) - unat offset)"
  shows "\<exists>m'. read_cb fent hda buf buflen offset m =
    Some (int k, take k (drop (unat offset) (bytes_at di)) @ drop k buf, m') \<and> dm_inodes m' = dm_inodes m"
proof -
  have sgn: "sint offset = int (unat offset)" using o by (intro offset_in_range(1)) simp
  have low: "unat (ucast (ucast offset :: u32) :: u64) = unat offset" using o by (simp only: offset_in_range) simp
  show ?thesis
proof (cases "di_size di \<le> offset")
  case True
  then have "di_size di \<le> ucast (ucast offset :: u32)" unfolding word_le_nat_alt low .
  then show ?thesis
    using True di sgn by (simp add: read_cb_def k word_le_nat_alt)
next
  case False
  then have lt: "\<not> di_size di \<le> ucast (ucast offset :: u32)" "unat offset < unat (di_size di)"
    unfolding word_le_nat_alt low by simp_all
  have sum: "unat (offset + buflen) = unat offset + unat buflen" using n(1) o by (intro unat_sum) simp
  let ?n = "if di_size di < offset + buflen then di_size di - offset else buflen"
  have "unat ?n = k"
    using lt(2) sum by (auto simp: k word_less_nat_alt unat_sub word_le_nat_alt)
  moreover have "k < 2 ^ 31" using n(1) k by simp
  ultimately have c: "sint (ucast ?n :: u32) = int k" "unat (scast (ucast ?n :: u32) :: u64) = k"
    using small_int [of ?n] by simp_all
  have "unat (di_size di) \<le> length (bytes_at di)" using di(2) by (simp add: di_ok_def word_le_nat_alt)
  then have "memcpy buf (drop (unat offset) (bytes_at di)) k = Some (take k (drop (unat offset) (bytes_at di)) @ drop k buf)"
    using n(2) k by (intro memcpy_Some) auto
  then show ?thesis
    using di fd lt(1) sgn unfolding read_cb_def Let_def by (simp add: c)
qed
qed

text \<open>A write of \<open>x\<close> at offset 2 of a file with \<open>abc\<close>, and what the file holds then.\<close>

definition demo_abc :: demo_mem where
  "demo_abc = \<lparr>dm_inodes = [1 \<mapsto> \<lparr>di_buf = Some [Some CHR ''a'', Some CHR ''b'', Some CHR ''c'', None], di_capacity = 4, di_size = 3\<rparr>],
     dm_fds = [2 \<mapsto> \<lparr>num_reads = 0, num_writes = 0\<rparr>], dm_next = 3\<rparr>"

definition demo_inode_1 :: entry where
  "demo_inode_1 = zero_entry\<lparr>app_data := 1\<rparr>"

lemma write_cb_loses_offset:
  "Option.bind (write_cb demo_env demo_lg demo_inode_1 2 [Some CHR ''x''] 1 2 demo_abc)
     (\<lambda>(rc, m). map_option (fst \<circ> snd) (read_cb demo_inode_1 2 [None, None, None] 3 0 m)) =
   Some [Some CHR ''x'', Some CHR ''b'', Some CHR ''c'']"
  by code_simp

text \<open>An offset of \<open>2 ^ 32\<close> or more whose last 32 bits lie below the size is read outside the buffer.\<close>

lemma read_cb_high_offset:
  assumes di: "dm_inodes m (app_data fent) = Some di" "di_ok di" "unat (di_capacity di) < 2 ^ 32"
    and o: "unat offset < 2 ^ 63" "2 ^ 32 \<le> unat offset" "unat (ucast offset :: u32) < unat (di_size di)"
    and n: "0 < unat buflen" "unat buflen < 2 ^ 31"
  shows "read_cb fent hda buf buflen offset m = None"
proof -
  let ?n = "if di_size di < offset + buflen then di_size di - offset else buflen"
  have size: "unat (di_size di) < 2 ^ 32" using di(2,3) by (simp add: di_ok_def word_le_nat_alt)
  have sum: "unat (offset + buflen) = unat offset + unat buflen"
    by (rule unat_plus_no_wrap) (use o(1) n(2) in simp)
  have lt: "di_size di < offset + buflen" "di_size di < offset" using size sum o(2) by (simp_all add: word_less_nat_alt)
  obtain q r where qr: "unat offset = q * 2 ^ 32 + r" "r < 2 ^ 32" "r < unat (di_size di)"
  proof
    show "unat offset = unat offset div 2 ^ 32 * 2 ^ 32 + unat offset mod 2 ^ 32" by simp
  qed (use o(3) in \<open>simp_all add: offset_in_range(3)\<close>)
  have "unat (di_size di - offset) = unat (di_size di) + 2 ^ 64 - unat offset"
    using lt(2) by (simp add: unat_sub_if' word_less_nat_alt)
  also have "\<dots> = (unat (di_size di) - r) + (2 ^ 32 - q) * 2 ^ 32"
  proof -
    have "q \<le> 2 ^ 32" using qr(1) o(1) by simp
    then show ?thesis using qr by (simp add: diff_mult_distrib)
  qed
  finally have "unat (ucast ?n :: u32) = unat (di_size di) - r"
    using lt(1) size by (simp add: offset_in_range(3))
  then have "ucast ?n \<noteq> (0 :: u32)" using qr(3) by (metis unat_0 zero_less_diff less_numeral_extra(3))
  then have "0 < unat (scast (ucast ?n :: u32) :: u64)" using scast_nonzero unat_gt_0 by blast
  moreover have "length (bytes_at di) < 2 ^ 32" using di(2,3) by (simp add: di_ok_def)
  ultimately have "memcpy buf (drop (unat offset) (bytes_at di)) (unat (scast (ucast ?n :: u32) :: u64)) = None"
    using o(2) by (simp add: memcpy_def)
  then show ?thesis
    using di(1) o(3) offset_in_range(1) [OF o(1)] unfolding read_cb_def Let_def by (simp add: word_le_nat_alt offset_in_range(2))
qed

text \<open>
  A write that needs memory and does not get it leaves a capacity that the buffer does not have. The same
  write again kills the process.
\<close>

lemma write_cb_after_failure:
  assumes di: "dm_inodes m (app_data fent) = Some di" "di_ok di" and lg: "lg_ok lg"
    and n: "unat buflen + unat offset < 2 ^ 61" "di_capacity di < buflen"
    and mem: "\<not> mem_ok S ''write_cb''"
  shows "\<exists>m'. write_cb S lg fent hda buf buflen offset m = Some (- ENOMEM, m') \<and>
    write_cb S' lg fent hda buf buflen offset m' = None"
proof -
  have sum: "unat (buflen + offset) = unat buflen + unat offset" using n(1) by (rule unat_sum)
  have need: "di_capacity di < buflen + offset" using n(2) sum by (simp add: word_less_nat_alt)
  let ?needed = "buflen + offset"
  have "?needed \<noteq> 0" using need by auto
  with lg have l: "unat ?needed < 2 ^ (lg ?needed + 1)" "2 ^ lg ?needed \<le> 2 * unat ?needed" by (auto simp: lg_ok_def)
  have e: "lg ?needed + 1 < 63" by (rule lg_small [OF l(2)]) (use n(1) sum in simp)
  have le: "\<not> (2 ^ (lg ?needed + 1) < ?needed)"
    using l(1) by (simp only: word_less_nat_alt unat_two_power [OF e])
  let ?m = "demo_set_inode (app_data fent) (di\<lparr>di_capacity := 2 ^ (lg ?needed + 1)\<rparr>) m"
  have "write_cb S lg fent hda buf buflen offset m = Some (- ENOMEM, ?m)"
    using di(1) need e mem by (simp add: write_cb_def demo_grow_def Let_def ENOMEM_def)
  moreover have "memcpy (bytes_at (di\<lparr>di_capacity := 2 ^ (lg ?needed + 1)\<rparr>)) buf (unat buflen) = None"
    using di(2) n(2) by (simp add: memcpy_def bytes_at_def di_ok_def word_less_nat_alt)
  ultimately show ?thesis
    using le by (intro exI [of _ ?m]) (simp add: write_cb_def demo_grow_def demo_set_inode_def Let_def)
qed

subsection \<open>Attaching the callbacks\<close>
definition FSKIT_ROUTE_ANY :: string where "FSKIT_ROUTE_ANY = ''[/]+([^/]+[/]*)*''"

definition demo_attach :: "env \<Rightarrow> fs \<Rightarrow> fs option" where
  "demo_attach V s =
     do {
       (_, s) \<leftarrow> fskit_route_create V FSKIT_ROUTE_ANY (Some 0) FSKIT_CONCURRENT s;
       (_, s) \<leftarrow> fskit_route_open V FSKIT_ROUTE_ANY (Some 1) FSKIT_CONCURRENT s;
       (_, s) \<leftarrow> fskit_route_read V FSKIT_ROUTE_ANY (Some 2) FSKIT_SEQUENTIAL s;
       (_, s) \<leftarrow> fskit_route_write V FSKIT_ROUTE_ANY (Some 3) FSKIT_SEQUENTIAL s;
       (_, s) \<leftarrow> fskit_route_close V FSKIT_ROUTE_ANY (Some 4) FSKIT_CONCURRENT s;
       (_, s) \<leftarrow> fskit_route_destroy V FSKIT_ROUTE_ANY (Some 5) FSKIT_CONCURRENT s;
       Some s
     }"

text \<open>The routes of a type, and the routes that the program declares. A new table has a row without routes under the type -1.\<close>

definition routes_for :: "fs \<Rightarrow> int \<Rightarrow> path_route option list option" where
  "routes_for s t = map_option row_slots (fskit_route_table_get_row (routes s) t)"

definition any_route :: "int \<Rightarrow> nat \<Rightarrow> int \<Rightarrow> path_route" where
  "any_route t n d =
     \<lparr>pr_regex_str = Some FSKIT_ROUTE_ANY, pr_num_expected = 2, pr_discipline = d, pr_type = t, pr_method = Some n\<rparr>"

definition demo_routes_of :: "int \<Rightarrow> path_route option list option" where
  "demo_routes_of = Map.empty
     (-1 \<mapsto> [],
      FSKIT_ROUTE_MATCH_CREATE \<mapsto> [Some (any_route FSKIT_ROUTE_MATCH_CREATE 0 FSKIT_CONCURRENT)],
      FSKIT_ROUTE_MATCH_OPEN \<mapsto> [Some (any_route FSKIT_ROUTE_MATCH_OPEN 1 FSKIT_CONCURRENT)],
      FSKIT_ROUTE_MATCH_READ \<mapsto> [Some (any_route FSKIT_ROUTE_MATCH_READ 2 FSKIT_SEQUENTIAL)],
      FSKIT_ROUTE_MATCH_WRITE \<mapsto> [Some (any_route FSKIT_ROUTE_MATCH_WRITE 3 FSKIT_SEQUENTIAL)],
      FSKIT_ROUTE_MATCH_CLOSE \<mapsto> [Some (any_route FSKIT_ROUTE_MATCH_CLOSE 4 FSKIT_CONCURRENT)],
      FSKIT_ROUTE_MATCH_DESTROY \<mapsto> [Some (any_route FSKIT_ROUTE_MATCH_DESTROY 5 FSKIT_CONCURRENT)])"

lemma any_expected: "fskit_num_expected_matches FSKIT_ROUTE_ANY = 2" by code_simp

text \<open>The total counterpart of \<open>post\<close>.\<close>

definition returns :: "('a \<Rightarrow> bool) \<Rightarrow> 'a option \<Rightarrow> bool" where
  "returns Q m = (\<exists>y. m = Some y \<and> Q y)"

lemma returns_bind: "returns (\<lambda>x. returns Q (f x)) m \<Longrightarrow> returns Q (m \<bind> f)"
  by (auto simp: returns_def)

lemma returns_Some: "Q y \<Longrightarrow> returns Q (Some y)"
  by (simp add: returns_def)

definition declared :: "fs \<Rightarrow> (int \<Rightarrow> path_route option list option) \<Rightarrow> fs \<Rightarrow> bool" where
  "declared s rs s' = (table_ok (routes s') \<and> routes_for s' = rs \<and> heap s' = heap s)"

lemma decl_new_type:
  assumes D: "declared s0 rs s" and new: "rs t = None" and mem: "all_mem V" and re: "ev_regcomp V FSKIT_ROUTE_ANY"
    and Q: "\<And>s'. declared s0 (rs(t \<mapsto> [Some (any_route t n d)])) s' \<Longrightarrow> returns Q (f (0, s'))"
  shows "returns Q (fskit_path_route_decl V FSKIT_ROUTE_ANY t (Some n) d s \<bind> f)"
proof -
  have T: "table_ok (routes s)" and new: "routes_for s t = None" using D new by (simp_all add: declared_def)
  let ?tbl = "routes s" and ?row = "\<lparr>rr_type = t, rr_routes = vec_init\<rparr>"
  let ?t1 = "sglib_add route_table_cmp (\<lambda>_ _. False) ?row ?tbl"
  have none: "fskit_route_table_get_row ?tbl t = None" using new by (simp add: routes_for_def)
  have m: "mem_ok V x" for x using mem by (simp add: all_mem_def)
  have row: "fskit_route_table_row_new V t = Some ?row" by (simp add: fskit_route_table_row_new_def m)
  note A = add_row_ok [OF T none row, of "\<lambda>_ _. False"]
  have vi: "vec_ok vec_init" "row_slots ?row = []" "v_len vec_init = 0" by (simp_all add: vec_ok_def vec_init_def row_slots_def)
  obtain v where v: "vec_push_back V vec_init (Some (any_route t n d)) = Some (v, 0)" "vec_ok v" "v_len v = v_len vec_init + 1"
      "take (v_len v) (v_buf v) = take (v_len vec_init) (v_buf vec_init) @ [Some (any_route t n d)]"
    by (rule vec_push_back_ok [OF vi(1) m])
  let ?row' = "?row\<lparr>rr_routes := v\<rparr>"
  let ?t2 = "set_row ?row' ?t1"
  have slots: "row_slots ?row' = [Some (any_route t n d)]" using v vi by (simp add: row_slots_def)
  have ok: "row_ok ?row'" using v(2) slots by (simp add: row_ok_def any_route_def)
  have r1: "fskit_route_table_get_row ?t1 t = Some ?row" using A(2) [of t] by simp
  have "fskit_path_route_decl V FSKIT_ROUTE_ANY t (Some n) d s = Some (0, s\<lparr>routes := ?t2\<rparr>)"
    using v vi m re none row by (simp add: fskit_path_route_decl_def fskit_path_route_init_def fskit_route_table_insert_def
        any_route_def any_expected)
  moreover have "table_ok ?t2" by (rule table_ok_set_row [OF A(1) ok])
  moreover have "fskit_route_table_get_row ?t2 k = (if k = t then Some ?row' else fskit_route_table_get_row ?tbl k)" for k
    using get_set_row [OF table_ok_bst [OF A(1)], of ?row' k] r1 A(2) [of k] by auto
  then have "routes_for (s\<lparr>routes := ?t2\<rparr>) = (routes_for s)(t \<mapsto> [Some (any_route t n d)])"
    using slots by (auto simp: routes_for_def)
  ultimately show ?thesis using D by (intro returns_bind) (auto simp: returns_def declared_def intro!: Q [unfolded returns_def])
qed

lemmas declare_defs = fskit_route_create_def fskit_route_open_def fskit_route_read_def fskit_route_write_def
  fskit_route_close_def fskit_route_destroy_def

lemma demo_attach_routes:
  assumes new: "fskit_route_table_new V = Some (routes s)" and mem: "all_mem V" and re: "ev_regcomp V FSKIT_ROUTE_ANY"
  shows "returns (declared s demo_routes_of) (demo_attach V s)"
proof -
  have "routes s = Node BLACK Leaf \<lparr>rr_type = -1, rr_routes = \<lparr>v_exp = 0, v_len = 0, v_buf = []\<rparr>\<rparr> Leaf"
    using new by (simp add: fskit_route_table_new_def split: if_splits)
  then have "declared s [-1 \<mapsto> []] s"
    by (auto simp: declared_def routes_for_def fskit_route_table_get_row_def table_ok_def sglib_set_ok_def consistency_check_iff bst_def root_ok_def
        rt_lookup_row_def route_table_cmp_def row_ok_def vec_ok_def row_slots_def fun_eq_iff)
  then show ?thesis
    unfolding demo_attach_def declare_defs
    by - (assumption | rule decl_new_type [OF _ _ mem re] returns_Some | (simp only: prod.case)
       | (simp add: route_match_defs; fail) | (simp add: demo_routes_of_def; fail))+
qed

subsection \<open>The main program\<close>

text \<open>After the routes, the root directory is given to the user; the results of these calls are not looked at.\<close>

definition demo_set_up :: "env \<Rightarrow> u64 \<Rightarrow> u64 \<Rightarrow> fs \<Rightarrow> fs option" where
  "demo_set_up V euid egid s =
     do {
       s \<leftarrow> demo_attach V s;
       (_, s) \<leftarrow> fskit_chown V ''/'' 0 0 euid egid s;
       (_, s) \<leftarrow> fskit_chmod V ''/'' 0 0 493 s;
       Some s
     }"

text \<open>
  The exit status, with what FUSE took and gave back. \<open>lib\<close> holds the answers of the FUSE library to the
  arguments, and \<open>garbage\<close> is what the buffers of \<open>fskit_detach_all\<close> hold before they are filled.
\<close>

definition demo_main ::
    "env \<Rightarrow> rnd_device \<Rightarrow> fuse_lib \<Rightarrow> string \<Rightarrow> nat \<Rightarrow> u64 \<Rightarrow> u64 \<Rightarrow> cmwc \<Rightarrow> (int \<times> fuse_event list) option" where
  "demo_main V dv lib garbage argc euid egid rnd =
     (if argc < 2 then Some (1, [])
      else
        (case fskit_fuse_state_new V of
           None \<Rightarrow> Some (1, [])
         | Some F \<Rightarrow>
             (case fskit_fuse_init V dv 0 rnd F of
                (rc, rnd, F) \<Rightarrow>
                  if rc \<noteq> 0 then Some (1, [])
                  else do {
                    s \<leftarrow> fskit_fuse_get_core F;
                    s \<leftarrow> demo_set_up V euid egid s;
                    let (rc, es, F) = fskit_fuse_main V lib (F\<lparr>fu_core := Some s\<rparr>);
                    _ \<leftarrow> fskit_fuse_shutdown V garbage F;
                    Some (rc, es)
                  })))"

lemma resolve_slash:
  "root_up s \<Longrightarrow> FSKIT_ENTRY_IS_DIR_SEARCHABLE (the (heap s 0)) user grp \<Longrightarrow> mem_ok V ''fskit_entry_resolve_path_cls'' \<Longrightarrow> fskit_entry_resolve_path V ''/'' user grp s = Some (Inr 0)"
proof -
  have "path_names ''/'' = []" by code_simp
  then show "root_up s \<Longrightarrow> FSKIT_ENTRY_IS_DIR_SEARCHABLE (the (heap s 0)) user grp \<Longrightarrow> mem_ok V ''fskit_entry_resolve_path_cls'' \<Longrightarrow> ?thesis"
    by (auto simp: resolve_path_root resolve_walk.simps root_up_def)
qed

lemma routes_for_heap [simp]: "routes_for (s\<lparr>heap := h\<rparr>) = routes_for s"
  by (simp add: routes_for_def fun_eq_iff)

lemma superuser_searches: "FSKIT_ENTRY_IS_DIR_SEARCHABLE e 0 grp"
  by (simp add: FSKIT_ENTRY_IS_DIR_SEARCHABLE_def FSKIT_ROOT_USER_ID_def)

lemma setmetadata_no_route:
  "routes_for s FSKIT_ROUTE_MATCH_SETMETADATA = None \<Longrightarrow> fskit_run_user_setmetadata V path a imd s = Some (0, s)"
  by (simp add: fskit_run_user_setmetadata_def fskit_route_call_setmetadata_def fskit_route_call_def fskit_route_match_def
      routes_for_def)

lemma init_dir_live: "fskit_entry_init_dir V a p fid u g m e = (c, 0) \<Longrightarrow> \<not> deletion_in_progress c"
  by (cases "clock V ''fskit_entry_init_common''")
    (auto simp: fskit_entry_init_dir_def fskit_entry_init_common_def fskit_entry_init_lowlevel_def zero_entry_def
      fskit_entry_set_atime_def fskit_entry_set_ctime_def fskit_entry_set_mtime_def ENOMEM_def Let_def
      split: option.splits if_splits)

lemma core_init_root:
  assumes "fskit_core_init V d = (0, s)"
  shows "fskit_route_table_new V = Some (routes s) \<and>
    (\<exists>r. heap s 0 = Some r \<and> owner r = 0 \<and> emode r = 493 \<and> \<not> deletion_in_progress r)"
proof -
  obtain rt where rt: "fskit_route_table_new V = Some rt"
    using assms by (cases "fskit_route_table_new V") (auto simp: fskit_core_init_def ENOMEM_def)
  obtain r rc where i: "fskit_entry_init_dir V 0 0 0 0 0 493 zero_entry = (r, rc)"
    by (cases "fskit_entry_init_dir V 0 0 0 0 0 493 zero_entry")
  have rc: "rc = 0" and s: "s = empty_core\<lparr>heap := Map.empty(0 \<mapsto> r\<lparr>link_count := 1\<rparr>), routes := rt, app_fs_data := d\<rparr>"
    using assms rt i by (auto simp: fskit_core_init_def split: if_splits)
  show ?thesis
    using init_dir_new [of V 0 0 0 0 0 493 zero_entry r] init_dir_live [of V 0 0 0 0 0 493 zero_entry r] i rc rt
    by (simp add: s new_dir_def)
qed

text \<open>
  The root ends up with the user as its owner, and with the mode of a new core: the call that should set
  the mode is made as user 0, who does not own the root any more unless the user is 0.
\<close>

lemma demo_set_up_root:
  assumes I: "fskit_core_init V 0 = (0, s)" and mem: "all_mem V" and re: "ev_regcomp V FSKIT_ROUTE_ANY"
  shows "returns (\<lambda>s'. routes_for s' = demo_routes_of \<and>
    (\<exists>root. heap s' 0 = Some root \<and> etype root = T_DIR \<and> owner root = euid \<and> egroup root = egid \<and> emode root = 493))
    (demo_set_up V euid egid s)"
proof -
  have m: "mem_ok V x" for x using mem by (simp add: all_mem_def)
  obtain root where h: "heap s = Map.empty(0 \<mapsto> root)" and r: "link_count root = 1" "etype root = T_DIR"
    using I by (elim core_init_boot)
  have e: "owner root = 0" "emode root = 493" "\<not> deletion_in_progress root" "fskit_route_table_new V = Some (routes s)"
    using core_init_root [OF I] h by auto
  have "returns (declared s demo_routes_of) (demo_attach V s)" by (rule demo_attach_routes [OF e(4) mem re])
  then obtain s1 where s1: "demo_attach V s = Some s1" "routes_for s1 = demo_routes_of" "heap s1 = heap s"
    by (auto simp: returns_def declared_def)
  have nr: "routes_for s1 FSKIT_ROUTE_MATCH_SETMETADATA = None"
    using s1(2) by (simp add: demo_routes_of_def route_match_defs)
  let ?s2 = "s1\<lparr>heap := (heap s1)(0 \<mapsto> fskit_entry_set_owner_and_group euid egid root)\<rparr>"
  have up: "root_up s1" "root_up ?s2"
    using s1(3) h r e by (simp_all add: root_up_def fskit_entry_set_owner_and_group_def)
  have chown: "fskit_chown V ''/'' 0 0 euid egid s1 = Some (0, ?s2)"
    using resolve_slash [OF up(1) superuser_searches m] s1(3) h e nr
    by (simp add: fskit_chown_def m setmetadata_no_route upd_def)
  show ?thesis
    using s1 chown resolve_slash [OF up(2) superuser_searches m] nr h r e
    by (simp add: returns_def demo_set_up_def fskit_chmod_def m setmetadata_no_route upd_def
        fskit_entry_set_owner_and_group_def fskit_entry_set_mode_def)
qed

end
