(* ===== verification/Teardown.thy ===== *)
theory Teardown
  imports Rename Xattrs
begin

text \<open>
  Freeing: the sets of directory entries and attributes (\<open>entry.c\<close>), the inode sets of \<open>rename.c\<close> and the
  route table (\<open>route.c\<close>). The library frees a set while its iterator walks over it, so every round of the
  iterator is checked here against the nodes that have already been freed: a round that follows a pointer
  of such a node is \<open>None\<close>. The lemmas show that this does not happen, and that every node is freed once.
\<close>

subsection \<open>An iterator over memory that is being freed\<close>

text \<open>Nodes are told apart by their addresses, which are given out in order.\<close>

fun label :: "nat \<Rightarrow> 'a rbtree \<Rightarrow> nat \<times> (nat \<times> 'a) rbtree" where
  "label n Leaf = (n, Leaf)"
| "label n (Node c l x r) =
     (case label n l of (m, l) \<Rightarrow> (case label (m + 1) r of (k, r) \<Rightarrow> (k, Node c l (m, x) r)))"

definition labelled :: "'a rbtree \<Rightarrow> (nat \<times> 'a) rbtree" where
  "labelled t = snd (label 0 t)"

text \<open>The node whose pointers a round reads: the one on top, unless the round goes up.\<close>

fun turn_node :: "'a tree_path \<Rightarrow> 'a option" where
  "turn_node [] = None"
| "turn_node ((t, pass) # path) = (if pass \<ge> 2 then None else elem_of t)"

definition live_turn :: "'a set \<Rightarrow> 'a tree_path \<Rightarrow> 'a tree_path option" where
  "live_turn F path = (if \<exists>x. turn_node path = Some x \<and> x \<in> F then None else it_turn path)"

lemma live_turn_less: "live_turn F path = Some path' \<Longrightarrow> path \<noteq> [] \<Longrightarrow> turns_left path' < turns_left path"
  by (auto simp: live_turn_def it_turn_less split: if_splits)

function live_current_elem :: "'a set \<Rightarrow> 'a tree_path \<Rightarrow> ('a option \<times> 'a tree_path) option" where
  "live_current_elem F path =
     (if path = [] then Some (None, [])
      else
        (case live_turn F path of
           None \<Rightarrow> None
         | Some path \<Rightarrow>
             (case path of
                (t, pass) # _ \<Rightarrow> if pass = 1 then Some (elem_of t, path) else live_current_elem F path
              | [] \<Rightarrow> Some (None, []))))"
  by auto
termination
  by (relation "measure (\<lambda>(F, path). turns_left path)") (auto dest: live_turn_less)

declare live_current_elem.simps [simp del]

text \<open>
  The loop of the \<open>free\<close> functions: the iterator is moved on, and then the node it was at is freed. The
  outcome lists the nodes in the order in which they are freed.
\<close>

partial_function (option) free_loop :: "'a list \<Rightarrow> 'a option \<Rightarrow> 'a tree_path \<Rightarrow> 'a list option" where
  "free_loop freed dp path =
     (case dp of
        None \<Rightarrow> Some freed
      | Some old_dp \<Rightarrow>
          if old_dp \<in> set freed then None
          else Option.bind (live_current_elem (set freed) path) (\<lambda>(dp, path). free_loop (freed @ [old_dp]) dp path))"

definition free_walk :: "'a rbtree \<Rightarrow> 'a list option" where
  "free_walk t =
     (if t = Leaf then Some []
      else Option.bind (live_current_elem {} [(t, 0)]) (\<lambda>(dp, path). free_loop [] dp path))"

subsection \<open>The walk reads no freed node\<close>

text \<open>The nodes whose pointers may still be read.\<close>

fun ahead :: "'a tree_path \<Rightarrow> 'a list" where
  "ahead [] = []"
| "ahead ((Leaf, pass) # path) = below path"
| "ahead ((Node c l x r, pass) # path) = (if pass = 0 then inorder l else []) @ below ((Node c l x r, pass) # path)"

lemma below_ahead: "below_ok path \<Longrightarrow> ahead path = below path"
  by (cases path rule: below.cases) auto

lemma turn_node_ahead: "path_ok path \<Longrightarrow> turn_node path = Some x \<Longrightarrow> x \<in> set (ahead path)"
  by (cases path rule: ahead.cases) (auto split: if_splits)

lemma turn_ahead:
  assumes "path_ok path" and "it_turn path = Some path'"
  shows "set (ahead path') \<subseteq> set (ahead path) \<and> path_ok path'"
proof (cases path rule: ahead.cases)
  case (3 c l x r pass rest)
  consider "pass \<ge> 2" | "pass = 0" | "pass = 1" by linarith
  then show ?thesis
    using assms 3 below_ahead [of rest] depth_pos [of l] depth_pos [of r]
    by cases (cases l; cases r; auto simp: below_path_ok split: if_splits)+
qed (use assms in auto)

lemma live_elem_eq:
  "path_ok path \<Longrightarrow> set (ahead path) \<inter> F = {} \<Longrightarrow> live_current_elem F path = it_compute_current_elem 1 path"
proof (induction "turns_left path" arbitrary: path rule: less_induct)
  case less
  have live: "live_turn F path = it_turn path"
    using turn_node_ahead [OF less.prems(1)] less.prems(2) by (auto simp: live_turn_def)
  have "live_current_elem F path' = it_compute_current_elem 1 path'" if T: "it_turn path = Some path'" "path \<noteq> []" for path'
    using less.hyps [OF it_turn_less [OF T]] turn_ahead [OF less.prems(1) T(1)] less.prems(2) by blast
  then show ?case
    unfolding live_current_elem.simps [of F path] it_compute_current_elem.simps [of 1 path] live
    by (auto split: option.splits list.splits prod.splits)
qed

text \<open>After a round that stops, the node on top is the current one, and it is followed by what is pending.\<close>

lemma current_ahead:
  "path_ok path \<Longrightarrow> it_compute_current_elem 1 path = Some (Some x, path') \<Longrightarrow> ahead path' = x # pending path'"
proof (induction "turns_left path" arbitrary: path rule: less_induct)
  case less
  then obtain p1 where T: "it_turn path = Some p1" "path \<noteq> []"
    by (cases "it_turn path") (auto simp: it_compute_current_elem.simps [of "Suc 0" path] split: if_splits)
  obtain t pass rest where p1: "p1 = (t, pass) # rest"
    using less.prems(2) T by (cases p1) (auto simp: it_compute_current_elem.simps [of "Suc 0" path])
  have ok: "path_ok p1" using turn_ahead [OF less.prems(1) T(1)] by simp
  show ?case
  proof (cases "pass = 1")
    case True
    then have "elem_of t = Some x" "path' = p1" using less.prems(2) T p1 by (simp_all add: it_compute_current_elem.simps [of "Suc 0" path])
    then show ?thesis using p1 True by (cases t) simp_all
  next
    case False
    then have "it_compute_current_elem 1 p1 = Some (Some x, path')"
      using less.prems(2) T p1 by (simp add: it_compute_current_elem.simps [of "Suc 0" path])
    then show ?thesis using less.hyps [OF it_turn_less [OF T] ok] by blast
  qed
qed

lemma free_loop_ends:
  "path_ok path \<Longrightarrow> ahead path = x # pending path \<Longrightarrow> distinct (freed @ x # pending path) \<Longrightarrow>
    free_loop freed (Some x) path = Some (freed @ x # pending path)"
proof (induction "pending path" arbitrary: freed x path)
  case Nil
  then have "it_compute_current_elem 1 path = Some (None, [])"
    using compute_current_elem_inorder [of path] by simp
  moreover have "live_current_elem (set freed) path = it_compute_current_elem 1 path"
    using Nil by (intro live_elem_eq) auto
  ultimately show ?case using Nil
    by (simp add: free_loop.simps [of freed "Some x" path] free_loop.simps [of "freed @ [x]" None "[]"])
next
  case (Cons y ys)
  obtain path' where p: "it_compute_current_elem 1 path = Some (Some y, path')" "pending path' = ys" "path_ok path'"
    using compute_current_elem_inorder [OF Cons.prems(1)] Cons.hyps(2) [symmetric] by auto
  have "live_current_elem (set freed) path = it_compute_current_elem 1 path"
    using Cons.prems by (intro live_elem_eq) auto
  moreover have "free_loop (freed @ [x]) (Some y) path' = Some ((freed @ [x]) @ y # pending path')"
    using Cons.hyps(1) [of path' y "freed @ [x]"] Cons.hyps(2) Cons.prems p current_ahead [OF Cons.prems(1) p(1)] by simp
  ultimately show ?case using Cons.prems Cons.hyps(2) p
    by (simp add: free_loop.simps [of freed "Some x" path])
qed

lemma free_walk_inorder:
  assumes "depth t \<le> SGLIB_MAX_TREE_DEEP" and "distinct (inorder t)"
  shows "free_walk t = Some (inorder t)"
proof (cases t)
  case (Node c l x r)
  have ok: "path_ok [(t, 0)]" using assms(1) Node by simp
  have P: "pending [(t, 0)] = inorder t" by (simp add: Node)
  obtain y ys where y: "inorder t = y # ys" by (cases "inorder t") (auto simp: Node)
  obtain path' where C: "it_compute_current_elem 1 [(t, 0)] = Some (Some y, path')" "pending path' = ys" "path_ok path'"
    using compute_current_elem_inorder [OF ok] by (auto simp: P y)
  have "live_current_elem {} [(t, 0)] = it_compute_current_elem 1 [(t, 0)]" using ok by (intro live_elem_eq) auto
  moreover have "free_loop [] (Some y) path' = Some (y # ys)"
    using free_loop_ends [OF C(3) current_ahead [OF ok C(1)], of "[]"] C(2) assms(2) y by simp
  ultimately show ?thesis using C(1) Node y by (simp add: free_walk_def)
qed (simp add: free_walk_def)

lemma label_inorder:
  "label n t = (m, t') \<Longrightarrow> map snd (inorder t') = inorder t \<and> map fst (inorder t') = [n..<m] \<and> n \<le> m \<and> depth t' = depth t"
proof (induction t arbitrary: n m t')
  case (Node c l x r)
  obtain k l' where l: "label n l = (k, l')" by (cases "label n l")
  obtain j r' where r: "label (k + 1) r = (j, r')" by (cases "label (k + 1) r")
  have "[n..<j] = [n..<k] @ k # [Suc k..<j]" if "n \<le> k" "Suc k \<le> j"
    using that by (metis Suc_le_lessD le_trans less_or_eq_imp_le upt_add_eq_append upt_conv_Cons le_Suc_ex)
  then show ?case using Node.IH(1) [OF l] Node.IH(2) [OF r] Node.prems l r by auto
qed simp

lemma free_labelled:
  assumes "depth t \<le> SGLIB_MAX_TREE_DEEP"
  obtains xs where "free_walk (labelled t) = Some xs" and "map snd xs = inorder t" and "distinct (map fst xs)"
proof -
  have L: "map snd (inorder (labelled t)) = inorder t" "distinct (map fst (inorder (labelled t)))" "depth (labelled t) = depth t"
    using label_inorder [of 0 t] unfolding labelled_def by (metis prod.collapse distinct_upt)+
  then have "free_walk (labelled t) = Some (inorder (labelled t))"
    using assms by (intro free_walk_inorder) (auto simp: distinct_map)
  then show ?thesis using that L by blast
qed

subsection \<open>The sets\<close>

text \<open>
  The nodes that are freed, with their addresses. The strings of a node are freed with it, before the iterator
  moves on; the iterator looks at the pointers only.
\<close>

definition fskit_entry_set_free :: "entry_set \<Rightarrow> (nat \<times> es_node) list option" where
  "fskit_entry_set_free dirents = free_walk (labelled dirents)"

definition fskit_xattr_set_free :: "xattr_set \<Rightarrow> (nat \<times> xs_node) list option" where
  "fskit_xattr_set_free xset = free_walk (labelled xset)"

definition fskit_inode_set_free :: "u64 rbtree \<Rightarrow> (nat \<times> u64) list option" where
  "fskit_inode_set_free inode_set = free_walk (labelled inode_set)"

subsection \<open>Vectors\<close>

text \<open>The rest of the operations on the vectors of \<open>sglib.h\<close>. \<open>pop_back\<close> of an empty vector aborts.\<close>

definition vec_free :: "vec \<Rightarrow> vec" where
  "vec_free v = v\<lparr>v_buf := [], v_len := 0, v_exp := 0\<rparr>"

definition vec_pop_back :: "vec \<Rightarrow> (path_route option \<times> vec) option" where
  "vec_pop_back v =
     (if v_len v = 0 then None
      else if v_len v \<le> length (v_buf v) then Some (v_buf v ! (v_len v - 1), v\<lparr>v_len := v_len v - 1\<rparr>)
      else None)"

definition vec_clear :: "vec \<Rightarrow> vec" where
  "vec_clear v = v\<lparr>v_buf := [], v_len := 0, v_exp := 0\<rparr>"

definition vec_at :: "vec \<Rightarrow> nat \<Rightarrow> path_route option option" where
  "vec_at v i = (if i < length (v_buf v) then Some (v_buf v ! i) else None)"

definition vec_size :: "vec \<Rightarrow> nat" where
  "vec_size v = v_len v"

text \<open>The buffer goes to the caller.\<close>

definition vec_yoink :: "vec \<Rightarrow> path_route option list \<times> nat \<times> vec" where
  "vec_yoink v = (v_buf v, v_len v, v\<lparr>v_buf := [], v_len := 0, v_exp := 1\<rparr>)"

text \<open>The list that a vector stands for, and what the operations do to it.\<close>

definition vec_list :: "vec \<Rightarrow> path_route option list" where
  "vec_list v = take (v_len v) (v_buf v)"

lemma vec_list_ops:
  assumes "vec_ok v"
  shows "vec_size v = length (vec_list v)"
    and "i < vec_size v \<Longrightarrow> vec_at v i = Some (vec_list v ! i)"
    and "vec_list (fst (vec_set v r i)) = (vec_list v)[i := r]"
    and "vec_list (vec_clear v) = []"
    and "mem_ok S ''vector_grow'' \<Longrightarrow> \<exists>v'. vec_push_back S v r = Some (v', 0) \<and> vec_ok v' \<and> vec_list v' = vec_list v @ [r]"
    and "vec_list v \<noteq> [] \<Longrightarrow> \<exists>v'. vec_pop_back v = Some (last (vec_list v), v') \<and> vec_list v' = butlast (vec_list v)"
proof -
  have len: "v_len v \<le> length (v_buf v)" using assms by (simp add: vec_ok_def)
  show "vec_size v = length (vec_list v)" using len by (simp add: vec_size_def vec_list_def)
  show "i < vec_size v \<Longrightarrow> vec_at v i = Some (vec_list v ! i)" using len by (simp add: vec_size_def vec_list_def vec_at_def)
  show "vec_list (fst (vec_set v r i)) = (vec_list v)[i := r]"
    by (auto simp: vec_list_def vec_set_def take_update_swap list_update_beyond)
  show "vec_list (vec_clear v) = []" by (simp add: vec_list_def vec_clear_def)
  show "\<exists>v'. vec_push_back S v r = Some (v', 0) \<and> vec_ok v' \<and> vec_list v' = vec_list v @ [r]" if "mem_ok S ''vector_grow''"
    by (rule vec_push_back_ok [OF assms that, of r]) (auto simp: vec_list_def)
  show "\<exists>v'. vec_pop_back v = Some (last (vec_list v), v') \<and> vec_list v' = butlast (vec_list v)" if "vec_list v \<noteq> []"
    using len that by (auto simp: vec_pop_back_def vec_list_def last_conv_nth butlast_take)
qed

text \<open>A vector whose buffer has been taken has an exponent that says that there is room; the next element has no place.\<close>

lemma vec_push_after_yoink: "snd (snd (vec_yoink v)) = u \<Longrightarrow> vec_push_back S u r = None"
  by (auto simp: vec_yoink_def vec_push_back_def ENOMEM_def)

subsection \<open>The route table\<close>

definition fskit_route_table_row_len :: "route_row \<Rightarrow> nat" where
  "fskit_route_table_row_len row = vec_size (rr_routes row)"

definition fskit_route_table_row_at_ref :: "route_row \<Rightarrow> nat \<Rightarrow> path_route option option" where
  "fskit_route_table_row_at_ref row i = vec_at (rr_routes row) i"

text \<open>The routes of a row, from slot \<open>i\<close> on, that are freed.\<close>

fun row_free_from :: "route_row \<Rightarrow> nat \<Rightarrow> nat \<Rightarrow> path_route list option" where
  "row_free_from row i 0 = Some []"
| "row_free_from row i (Suc n) =
     (case fskit_route_table_row_at_ref row i of
        None \<Rightarrow> None
      | Some None \<Rightarrow> row_free_from row (i + 1) n
      | Some (Some route) \<Rightarrow> map_option ((#) route) (row_free_from row (i + 1) n))"

definition fskit_route_table_row_free :: "route_row \<Rightarrow> path_route list option" where
  "fskit_route_table_row_free row = row_free_from row 0 (fskit_route_table_row_len row)"

fun rows_free :: "route_row list \<Rightarrow> path_route list option" where
  "rows_free [] = Some []"
| "rows_free (row # rows) =
     Option.bind (fskit_route_table_row_free row) (\<lambda>rs. map_option ((@) rs) (rows_free rows))"

text \<open>The first loop frees what is in the rows, the second one the rows.\<close>

definition fskit_route_table_free :: "route_table \<Rightarrow> (path_route list \<times> (nat \<times> route_row) list) option" where
  "fskit_route_table_free tbl =
     Option.bind (visit_inorder tbl) (\<lambda>rows. Option.bind (rows_free rows) (\<lambda>rs.
       map_option (Pair rs) (free_walk (labelled tbl))))"

lemma row_free_from_eq:
  "vec_ok (rr_routes row) \<Longrightarrow> i + n = v_len (rr_routes row) \<Longrightarrow>
    row_free_from row i n = Some (List.map_filter id (drop i (row_slots row)))"
proof (induction n arbitrary: i)
  case 0
  then show ?case by (simp add: row_slots_def map_filter_simps)
next
  case (Suc n)
  then have i: "i < length (row_slots row)" "row_slots row ! i = v_buf (rr_routes row) ! i" "i < length (v_buf (rr_routes row))"
    by (simp_all add: row_slots_def vec_ok_def)
  then have "drop i (row_slots row) = v_buf (rr_routes row) ! i # drop (Suc i) (row_slots row)"
    by (simp add: Cons_nth_drop_Suc [symmetric])
  then show ?case
    using Suc i by (simp add: fskit_route_table_row_at_ref_def vec_at_def map_filter_simps split: option.split)
qed

lemma row_free_eq: "row_ok row \<Longrightarrow> fskit_route_table_row_free row = Some (List.map_filter id (row_slots row))"
  by (simp add: fskit_route_table_row_free_def fskit_route_table_row_len_def vec_size_def row_ok_def row_free_from_eq)

lemma rows_free_eq:
  "\<forall>row\<in>set rows. row_ok row \<Longrightarrow> rows_free rows = Some (concat (map (\<lambda>row. List.map_filter id (row_slots row)) rows))"
  by (induction rows) (simp_all add: row_free_eq)

lemma route_table_free_eq:
  assumes "table_ok tbl" and "depth tbl \<le> SGLIB_MAX_TREE_DEEP"
  shows "\<exists>rows. fskit_route_table_free tbl =
      Some (concat (map (\<lambda>row. List.map_filter id (row_slots row)) (inorder tbl)), rows) \<and>
    map snd rows = inorder tbl \<and> distinct (map fst rows)"
proof -
  obtain xs where xs: "free_walk (labelled tbl) = Some xs" "map snd xs = inorder tbl" "distinct (map fst xs)"
    by (rule free_labelled [OF assms(2)])
  have "rows_free (inorder tbl) = Some (concat (map (\<lambda>row. List.map_filter id (row_slots row)) (inorder tbl)))"
    using assms(1) by (intro rows_free_eq) (simp add: table_ok_def)
  then show ?thesis using xs by (simp add: fskit_route_table_free_def visit_inorder_eq [OF assms(2)])
qed

end
