(* ===== verification/XattrsAll.thy ===== *)
theory XattrsAll
  imports Teardown
begin

text \<open>
  \<open>fskit_fremovexattr_all\<close> (\<open>libfskit/removexattr.c\<close>) gives an inode a freshly made attribute set. A set
  is a tree, and \<open>fskit_xattr_set_new\<close> (\<open>libfskit/entry.c\<close>) makes a node, not an empty tree, so that
  the new set has a node whose name and value are NULL. Here an attribute's strings can therefore be missing, and
  reading a string through NULL is \<open>None\<close>. The lemmas show that the searches agree with those of
  \<open>EntrySet\<close> on sets whose nodes have names, that the old set is freed once, and that afterwards every search of the
  new set, and every list of its names, ends the process.
\<close>

subsection \<open>Attributes whose strings may be missing\<close>

record raw_node =
  raw_name :: "string option"
  raw_value :: "string option"

type_synonym raw_set = "raw_node rbtree"

definition raw :: "xs_node \<Rightarrow> raw_node" where
  "raw x = \<lparr>raw_name = Some (xs_name x), raw_value = Some (xs_value x)\<rparr>"

definition raw_cmp :: "raw_node \<Rightarrow> raw_node \<Rightarrow> int option" where
  "raw_cmp x1 x2 =
     (case (raw_name x1, raw_name x2) of
        (Some n1, Some n2) \<Rightarrow> Some (strcmp n1 n2)
      | _ \<Rightarrow> None)"

fun raw_find_member :: "raw_node \<Rightarrow> raw_set \<Rightarrow> raw_node option option" where
  "raw_find_member e Leaf = Some None"
| "raw_find_member e (Node c l x r) =
     (case raw_cmp e x of
        None \<Rightarrow> None
      | Some d \<Rightarrow> if d < 0 then raw_find_member e l else if d > 0 then raw_find_member e r else Some (Some x))"

definition raw_xattr_set_find :: "raw_set \<Rightarrow> string \<Rightarrow> string option option" where
  "raw_xattr_set_find set0 name =
     map_option (\<lambda>member. Option.bind member raw_value)
       (raw_find_member \<lparr>raw_name = Some name, raw_value = None\<rparr> set0)"

fun raw_names_len :: "raw_node list \<Rightarrow> int option" where
  "raw_names_len [] = Some 0"
| "raw_names_len (x # xs) =
     (case raw_name x of
        None \<Rightarrow> None
      | Some n \<Rightarrow> map_option (\<lambda>k. int (length n) + 1 + k) (raw_names_len xs))"

definition raw_listxattr_len :: "raw_set \<Rightarrow> int option" where
  "raw_listxattr_len set0 = map_option wrap32 (raw_names_len (inorder set0))"

text \<open>On the sets of \<open>EntrySet\<close> they are what the model has.\<close>

lemma raw_find_member_typed:
  "raw_find_member (raw e) (map_rbtree raw t) = Some (map_option raw (find_member xattr_set_cmp e t))"
  by (induction t) (auto simp: raw_def raw_cmp_def xattr_set_cmp_def)

lemma raw_find_typed: "raw_xattr_set_find (map_rbtree raw t) n = Some (fskit_xattr_set_find t n)"
proof -
  have E: "raw_find_member \<lparr>raw_name = Some n, raw_value = None\<rparr> u = raw_find_member (raw (xs_lookup_node n)) u" for u
    by (induction u) (simp_all add: raw_cmp_def raw_def xs_lookup_node_def split: option.split)
  show ?thesis unfolding raw_xattr_set_find_def E raw_find_member_typed
    by (simp add: fskit_xattr_set_find_def raw_def split: option.split)
qed

lemma raw_names_len_typed: "raw_names_len (map raw xs) = Some (listxattr_len xs)"
  by (induction xs) (auto simp: raw_def)

lemma inorder_map: "inorder (map_rbtree f t) = map f (inorder t)"
  by (induction t) auto

lemma raw_list_typed: "raw_listxattr_len (map_rbtree raw t) = Some (fskit_listxattr_len t)"
  by (simp add: raw_listxattr_len_def inorder_map raw_names_len_typed fskit_listxattr_len_def)

subsection \<open>Removing them all\<close>

text \<open>The new node is all zeroes: no strings, and the colour 0, which is black.\<close>

definition fskit_xattr_set_new :: "'z sys_scheme \<Rightarrow> raw_set option" where
  "fskit_xattr_set_new S =
     (if mem_ok S ''fskit_xattr_set_new'' then Some (Node BLACK Leaf \<lparr>raw_name = None, raw_value = None\<rparr> Leaf) else None)"

definition raw_xattr_set_free :: "raw_set \<Rightarrow> (nat \<times> raw_node) list option" where
  "raw_xattr_set_free xset = free_walk (labelled xset)"

definition fskit_fremovexattr_all :: "'z sys_scheme \<Rightarrow> raw_set \<Rightarrow> (int \<times> raw_set \<times> (nat \<times> raw_node) list) option" where
  "fskit_fremovexattr_all S fent_xattrs =
     (case fskit_xattr_set_new S of
        None \<Rightarrow> Some (- ENOMEM, fent_xattrs, [])
      | Some new_xattrs \<Rightarrow> map_option (\<lambda>freed. (0, new_xattrs, freed)) (raw_xattr_set_free fent_xattrs))"

lemma depth_map: "depth (map_rbtree f t) = depth t"
  by (induction t) auto

text \<open>The call frees each node of the old set once and has no other way to fail than want of memory.\<close>

lemma fremovexattr_all_frees:
  assumes "xs_ok t" and "fskit_xattr_set_count t + 1 < 2 ^ 64" and "mem_ok S ''fskit_xattr_set_new''"
  shows "\<exists>freed. fskit_fremovexattr_all S (map_rbtree raw t) =
      Some (0, Node BLACK Leaf \<lparr>raw_name = None, raw_value = None\<rparr> Leaf, freed) \<and>
    map snd freed = map raw (inorder t) \<and> distinct (map fst freed)"
proof -
  have "depth t < SGLIB_MAX_TREE_DEEP - 1"
    using assms consistent_depth [of xattr_set_cmp t]
    by (simp add: xs_ok_def sglib_set_ok_def fskit_xattr_set_count_def sglib_len_def)
  then have "depth (map_rbtree raw t) \<le> SGLIB_MAX_TREE_DEEP" by (simp add: depth_map)
  then obtain xs where "free_walk (labelled (map_rbtree raw t)) = Some xs"
    and "map snd xs = inorder (map_rbtree raw t)" and "distinct (map fst xs)" by (rule free_labelled)
  then show ?thesis using assms(3)
    by (simp add: fskit_fremovexattr_all_def fskit_xattr_set_new_def raw_xattr_set_free_def inorder_map)
qed

text \<open>
  Then \<open>getxattr\<close> and \<open>listxattr\<close> end the process, whatever the name; \<open>setxattr\<close> and \<open>removexattr\<close> begin with
  the same search, as the set is not empty.
\<close>

lemma after_removing_all:
  assumes "fskit_fremovexattr_all S t = Some (0, t', freed)"
  shows "t' \<noteq> Leaf" and "raw_find_member \<lparr>raw_name = Some name, raw_value = v\<rparr> t' = None"
    and "raw_xattr_set_find t' name = None" and "raw_listxattr_len t' = None"
  using assms
  by (auto simp: fskit_fremovexattr_all_def fskit_xattr_set_new_def raw_cmp_def raw_xattr_set_find_def raw_listxattr_len_def
      errno_defs split: if_splits)

text \<open>The new set itself can be freed.\<close>

lemma removing_all_twice:
  assumes "fskit_fremovexattr_all S t = Some (0, t', freed)"
  shows "\<exists>freed'. fskit_fremovexattr_all S t' = Some (0, t', freed') \<and> map snd freed' = inorder t'"
proof -
  have t': "t' = Node BLACK Leaf \<lparr>raw_name = None, raw_value = None\<rparr> Leaf" and m: "mem_ok S ''fskit_xattr_set_new''"
    using assms by (auto simp: fskit_fremovexattr_all_def fskit_xattr_set_new_def errno_defs split: if_splits)
  have "depth t' \<le> SGLIB_MAX_TREE_DEEP" by (simp add: t' SGLIB_MAX_TREE_DEEP_def)
  then obtain xs where "free_walk (labelled t') = Some xs" and "map snd xs = inorder t'" by (rule free_labelled)
  then show ?thesis using m by (simp add: fskit_fremovexattr_all_def fskit_xattr_set_new_def raw_xattr_set_free_def t')
qed

end
