(* ===== verification/Accessors.thy ===== *)
theory Accessors
  imports Resolve Cmwc Rename
begin

text \<open>
  The functions by which an application looks into the library's structures (\<open>entry.c\<close>, \<open>route.c\<close>, \<open>path.c\<close>):
  inodes, handles, route metadata, sets, inode metadata, detach contexts and path iterators; the
  library's own allocator of inode numbers; and the levels of its messages (\<open>debug.c\<close>). The lemmas: what a
  path iterator says of the path it has passed, that two inode numbers are equal only if the random numbers
  they are made of are, and when locks are reported.
\<close>

subsection \<open>Inodes and handles\<close>

definition fskit_entry_get_file_id :: "entry \<Rightarrow> u64" where
  "fskit_entry_get_file_id ent = file_id ent"

definition fskit_entry_get_user_data :: "entry \<Rightarrow> nat" where
  "fskit_entry_get_user_data ent = app_data ent"

definition fskit_entry_get_type :: "entry \<Rightarrow> ftype" where
  "fskit_entry_get_type ent = etype ent"

definition fskit_entry_get_deletion_in_progress :: "entry \<Rightarrow> bool" where
  "fskit_entry_get_deletion_in_progress ent = deletion_in_progress ent"

definition fskit_entry_get_children :: "entry \<Rightarrow> entry_set" where
  "fskit_entry_get_children ent = children ent"

definition fskit_entry_get_xattrs :: "entry \<Rightarrow> xattr_set" where
  "fskit_entry_get_xattrs ent = xattrs ent"

definition fskit_entry_get_owner :: "entry \<Rightarrow> u64" where
  "fskit_entry_get_owner ent = owner ent"

definition fskit_entry_get_group :: "entry \<Rightarrow> u64" where
  "fskit_entry_get_group ent = egroup ent"

definition fskit_entry_get_atime :: "entry \<Rightarrow> int \<times> int" where
  "fskit_entry_get_atime ent = atime ent"

definition fskit_entry_get_mtime :: "entry \<Rightarrow> int \<times> int" where
  "fskit_entry_get_mtime ent = mtime ent"

definition fskit_entry_get_ctime :: "entry \<Rightarrow> int \<times> int" where
  "fskit_entry_get_ctime ent = ctime ent"

definition fskit_entry_get_size :: "entry \<Rightarrow> int" where
  "fskit_entry_get_size ent = fsize ent"

definition fskit_entry_get_rdev :: "entry \<Rightarrow> u64" where
  "fskit_entry_get_rdev ent = dev ent"

definition fskit_entry_get_mode :: "entry \<Rightarrow> u32" where
  "fskit_entry_get_mode ent = emode ent"

definition fskit_entry_get_link_count :: "entry \<Rightarrow> int" where
  "fskit_entry_get_link_count ent = link_count ent"

definition fskit_file_handle_get_path :: "file_handle \<Rightarrow> string" where
  "fskit_file_handle_get_path fh = fh_path fh"

definition fskit_file_handle_get_user_data :: "file_handle \<Rightarrow> nat" where
  "fskit_file_handle_get_user_data fh = fh_app_data fh"

definition fskit_file_handle_get_entry :: "file_handle \<Rightarrow> addr option" where
  "fskit_file_handle_get_entry fh = fh_fent fh"

definition fskit_dir_handle_get_path :: "dir_handle \<Rightarrow> string" where
  "fskit_dir_handle_get_path dh = dh_path dh"

definition fskit_dir_handle_get_user_data :: "dir_handle \<Rightarrow> nat" where
  "fskit_dir_handle_get_user_data dh = dh_app_data dh"

definition fskit_dir_handle_get_entry :: "dir_handle \<Rightarrow> addr option" where
  "fskit_dir_handle_get_entry dh = dh_dent dh"

definition fskit_core_get_user_data :: "fs \<Rightarrow> nat" where
  "fskit_core_get_user_data s = app_fs_data s"

subsection \<open>Sets and inode metadata\<close>

text \<open>A node of a set, or \<open>None\<close> past its end.\<close>

definition fskit_entry_set_child_at :: "es_node option \<Rightarrow> addr option" where
  "fskit_entry_set_child_at dp = map_option es_dirent dp"

definition fskit_entry_set_name_at :: "es_node option \<Rightarrow> string option" where
  "fskit_entry_set_name_at dp = map_option es_name dp"

definition fskit_dir_find_by_name :: "entry \<Rightarrow> string \<Rightarrow> addr option" where
  "fskit_dir_find_by_name dir name = (if children dir = Leaf then None else fskit_entry_set_find_name (children dir) name)"

definition fskit_xattr_set_name :: "xs_node \<Rightarrow> string" where
  "fskit_xattr_set_name xs = xs_name xs"

definition fskit_xattr_set_value :: "xs_node \<Rightarrow> string" where
  "fskit_xattr_set_value xs = xs_value xs"

definition fskit_xattr_set_value_len :: "xs_node \<Rightarrow> nat" where
  "fskit_xattr_set_value_len xs = length (xs_value xs)"

definition fskit_inode_metadata_get_inventory :: "inode_metadata \<Rightarrow> u64" where
  "fskit_inode_metadata_get_inventory imd = imd_fields imd"

definition fskit_inode_metadata_get_mode :: "inode_metadata \<Rightarrow> u32" where
  "fskit_inode_metadata_get_mode imd = imd_mode imd"

definition fskit_inode_metadata_get_owner :: "inode_metadata \<Rightarrow> u64" where
  "fskit_inode_metadata_get_owner imd = imd_owner imd"

definition fskit_inode_metadata_get_group :: "inode_metadata \<Rightarrow> u64" where
  "fskit_inode_metadata_get_group imd = imd_group imd"

subsection \<open>Route metadata\<close>

definition fskit_route_metadata_get_path :: "route_metadata \<Rightarrow> string" where
  "fskit_route_metadata_get_path rm = rm_path rm"

definition fskit_route_metadata_get_name :: "route_metadata \<Rightarrow> string option" where
  "fskit_route_metadata_get_name rm = rm_name rm"

definition fskit_route_metadata_get_cls :: "route_metadata \<Rightarrow> nat" where
  "fskit_route_metadata_get_cls rm = rm_cls rm"

definition fskit_route_metadata_num_match_groups :: "route_metadata \<Rightarrow> nat" where
  "fskit_route_metadata_num_match_groups rm = rm_argc rm"

definition fskit_route_metadata_get_match_groups :: "route_metadata \<Rightarrow> string list" where
  "fskit_route_metadata_get_match_groups rm = rm_argv rm"

definition fskit_route_metadata_get_parent :: "route_metadata \<Rightarrow> addr option" where
  "fskit_route_metadata_get_parent rm = rm_parent rm"

definition fskit_route_metadata_get_new_parent :: "route_metadata \<Rightarrow> addr option" where
  "fskit_route_metadata_get_new_parent rm = rm_new_parent rm"

definition fskit_route_metadata_get_new_path :: "route_metadata \<Rightarrow> string option" where
  "fskit_route_metadata_get_new_path rm = rm_new_path rm"

definition fskit_route_metadata_is_garbage_collected :: "route_metadata \<Rightarrow> bool" where
  "fskit_route_metadata_is_garbage_collected rm = rm_garbage_collect rm"

definition fskit_route_metadata_get_xattr_name :: "route_metadata \<Rightarrow> string option" where
  "fskit_route_metadata_get_xattr_name rm = rm_xattr_name rm"

definition fskit_route_metadata_get_xattr_value :: "route_metadata \<Rightarrow> string option \<times> nat" where
  "fskit_route_metadata_get_xattr_value rm = (rm_xattr_value rm, case rm_xattr_value rm of None \<Rightarrow> 0 | Some v \<Rightarrow> length v)"

definition fskit_route_metadata_get_xattr_buf :: "route_metadata \<Rightarrow> string \<times> nat" where
  "fskit_route_metadata_get_xattr_buf rm = (rm_xattr_buf rm, rm_xattr_buf_len rm)"

definition fskit_route_metadata_renamed :: "route_metadata \<Rightarrow> bool" where
  "fskit_route_metadata_renamed rm = rm_renamed rm"

text \<open>What is freed: the match groups, the path and the name; the metadata is zero afterwards.\<close>

definition fskit_route_metadata_free :: "route_metadata \<Rightarrow> string list \<times> route_metadata" where
  "fskit_route_metadata_free rm =
     (rm_argv rm @ rm_path rm # (case rm_name rm of None \<Rightarrow> [] | Some n \<Rightarrow> [n]), zero_metadata)"

subsection \<open>Detach contexts and inode numbers\<close>

text \<open>There is one flag, \<open>FSKIT_DETACH_CTX_CB_FAIL\<close>.\<close>

definition fskit_detach_ctx_set_flags :: "bool \<Rightarrow> detach_ctx \<Rightarrow> bool \<times> detach_ctx" where
  "fskit_detach_ctx_set_flags cb_fail ctx = (dc_cb_fail ctx, ctx\<lparr>dc_cb_fail := cb_fail\<rparr>)"

definition fskit_detach_ctx_get_cbrc :: "detach_ctx \<Rightarrow> int" where
  "fskit_detach_ctx_get_cbrc ctx = dc_cbrc ctx"

text \<open>The application may give its own allocator of inode numbers; the library's own one draws them.\<close>

definition fskit_core_inode_alloc_cb :: "(fs \<Rightarrow> addr \<Rightarrow> u64) \<Rightarrow> env \<Rightarrow> int \<times> env" where
  "fskit_core_inode_alloc_cb inode_alloc V = (0, V\<lparr>ev_inode_alloc := inode_alloc\<rparr>)"

definition fskit_default_inode_alloc :: "cmwc \<Rightarrow> u64 \<times> cmwc" where
  "fskit_default_inode_alloc rnd =
     (let (upper, rnd) = fskit_random32 rnd; (lower, rnd) = fskit_random32 rnd in
      (or (push_bit 32 (ucast upper)) (ucast lower), rnd))"

definition fskit_default_inode_free :: "u64 \<Rightarrow> int" where
  "fskit_default_inode_free fid = 0"

lemma default_inode_halves:
  assumes "fskit_default_inode_alloc rnd = (fid, rnd2)"
  obtains rnd1 where "fskit_random32 rnd = (ucast (drop_bit 32 fid), rnd1)" and "fskit_random32 rnd1 = (ucast fid, rnd2)"
proof -
  obtain u rnd1 l where d: "fskit_random32 rnd = (u, rnd1)" "fskit_random32 rnd1 = (l, rnd2)"
      "fid = or (push_bit 32 (ucast u)) (ucast l)"
    using assms by (auto simp: fskit_default_inode_alloc_def split: prod.splits)
  have "ucast fid = l" unfolding d(3) by (rule bit_word_eqI) (simp add: bit_simps)
  moreover have "ucast (drop_bit 32 fid) = u"
    unfolding d(3) by (rule bit_word_eqI) (auto simp: bit_simps dest: bit_imp_le_length)
  ultimately show ?thesis using that d by simp
qed

subsection \<open>Path iterators\<close>

definition fskit_path_iterator_error :: "path_iterator \<Rightarrow> int" where
  "fskit_path_iterator_error itr = it_rc itr"

definition fskit_path_iterator_length :: "path_iterator \<Rightarrow> nat" where
  "fskit_path_iterator_length itr = it_name_i itr"

definition fskit_path_iterator_entry :: "path_iterator \<Rightarrow> addr option" where
  "fskit_path_iterator_entry itr = it_cur_ent itr"

definition fskit_path_iterator_entry_parent :: "path_iterator \<Rightarrow> addr option" where
  "fskit_path_iterator_entry_parent itr = it_prev_ent itr"

definition fskit_path_iterator_name :: "path_iterator \<Rightarrow> string" where
  "fskit_path_iterator_name itr = it_cur_name itr"

text \<open>An iterator cuts its path into what it has passed and what is to come.\<close>

definition it_split :: "path_iterator \<Rightarrow> bool" where
  "it_split itr = (it_path itr = fskit_path_iterator_path itr @ it_name itr \<and>
     fskit_path_iterator_length itr = length (fskit_path_iterator_path itr))"

lemma next_name_rest:
  "next_name tmp len = (n, rest, len') \<Longrightarrow> len \<le> len' \<and> rest = drop (len' - len) tmp \<and> len' - len \<le> length tmp"
proof (induction tmp len arbitrary: n rest len' rule: next_name.induct)
  case (1 tmp len)
  define after where "after = dropWhile (\<lambda>c. c \<noteq> slash) tmp"
  define r where "r = dropWhile (\<lambda>c. c = slash) after"
  have suffix: "r = drop (length tmp - length r) tmp" "length r \<le> length tmp"
  proof -
    have "tmp = takeWhile (\<lambda>c. c \<noteq> slash) tmp @ takeWhile (\<lambda>c. c = slash) after @ r"
      by (simp add: after_def r_def)
    then obtain p where p: "tmp = p @ r" by (metis append.assoc)
    then show "r = drop (length tmp - length r) tmp" "length r \<le> length tmp" by simp_all
  qed
  let ?len = "len + (length tmp - length r)" and ?name = "takeWhile (\<lambda>c. c \<noteq> slash) tmp"
  have eq: "next_name tmp len = (if ?len = 0 \<or> (r = [] \<and> ?name = []) then (None, r, ?len)
      else if ?name = ''.'' then next_name r ?len else (Some ?name, r, ?len))"
    by (subst next_name.simps) (simp only: Let_def after_def r_def)
  show ?case
  proof (cases "?len \<noteq> 0 \<and> \<not> (r = [] \<and> ?name = []) \<and> ?name = ''.''")
    case True
    then have n: "next_name r ?len = (n, rest, len')"
      using 1(2) unfolding eq by auto
    have "?len \<le> len' \<and> rest = drop (len' - ?len) r \<and> len' - ?len \<le> length r"
      by (rule 1(1) [OF refl refl _ refl _ _ n]) (use True in \<open>simp_all add: after_def r_def del: next_name.simps\<close>)
    moreover have "drop (len' - ?len) r = drop (len' - len) tmp" if "?len \<le> len'"
    proof -
      have "drop (len' - ?len) r = drop (len' - ?len) (drop (length tmp - length r) tmp)" using suffix(1) by simp
      also have "\<dots> = drop (len' - len) tmp" using that by (simp add: add.commute)
      finally show ?thesis .
    qed
    ultimately show ?thesis using suffix(2) by auto
  next
    case False
    then have "rest = r" "len' = ?len"
      using 1(2) unfolding eq by (auto split: if_splits)
    then show ?thesis using suffix by simp
  qed
qed

lemma it_split_iff: "it_split itr \<longleftrightarrow> it_name itr = drop (it_name_i itr) (it_path itr) \<and> it_name_i itr \<le> length (it_path itr)"
proof -
  have "it_path itr = take (it_name_i itr) (it_path itr) @ it_name itr \<longleftrightarrow> it_name itr = drop (it_name_i itr) (it_path itr)"
    by (metis append_take_drop_id same_append_eq)
  then show ?thesis
    by (auto simp: it_split_def fskit_path_iterator_path_def fskit_path_iterator_length_def)
qed

lemma begin_split: "fskit_path_begin path s = Some itr \<Longrightarrow> it_split itr"
  by (auto simp: fskit_path_begin_def it_split_iff zero_iterator_def dropWhile_eq_drop length_takeWhile_le
      split: option.splits if_splits)

lemma next_split:
  assumes "fskit_path_next V itr s = Some itr'" and "it_split itr"
  shows "it_split itr'"
proof (cases "next_name (it_name itr) 0")
  case (fields n rest len)
  then have "rest = drop len (it_name itr)" "len \<le> length (it_name itr)" using next_name_rest [OF fields] by simp_all
  then have "drop (it_name_i itr + len) (it_path itr) = rest" "it_name_i itr + len \<le> length (it_path itr)"
    using assms(2) by (auto simp: it_split_iff add.commute)
  then show ?thesis
    using assms fields
    by (auto simp: fskit_path_next_def it_split_iff Let_def simp del: next_name.simps split: if_splits option.splits)
qed

subsection \<open>Levels of messages\<close>

text \<open>The three global variables of \<open>debug.c\<close>; a level is a C \<open>int\<close>.\<close>

record debug_levels =
  global_debug_locks :: int
  global_debug_messages :: int
  global_error_messages :: int

definition debug_start :: debug_levels where
  "debug_start = \<lparr>global_debug_locks = 1, global_debug_messages = 1, global_error_messages = 1\<rparr>"

definition fskit_set_debug_level :: "int \<Rightarrow> debug_levels \<Rightarrow> debug_levels" where
  "fskit_set_debug_level d G = G\<lparr>global_debug_messages := d, global_debug_locks := if d > 1 then 1 else 0\<rparr>"

definition fskit_set_error_level :: "int \<Rightarrow> debug_levels \<Rightarrow> debug_levels" where
  "fskit_set_error_level e G = G\<lparr>global_error_messages := e\<rparr>"

definition fskit_get_debug_level :: "debug_levels \<Rightarrow> int" where
  "fskit_get_debug_level G = global_debug_messages G"

definition fskit_get_error_level :: "debug_levels \<Rightarrow> int" where
  "fskit_get_error_level G = global_error_messages G"

text \<open>A lock is reported when both tests pass: that of the lock function and that of the macro \<open>fskit_debug\<close>.\<close>

definition reports_locks :: "debug_levels \<Rightarrow> bool" where
  "reports_locks G = (global_debug_locks G \<noteq> 0 \<and> global_debug_messages G \<noteq> 0)"

text \<open>
  From level 2 on locks are reported. The library starts at level 1, and reports them nevertheless: to set the
  level that it already has turns these reports off.
\<close>

lemma locks_reported_from_two: "reports_locks (fskit_set_debug_level d G) \<longleftrightarrow> d > 1"
  by (simp add: reports_locks_def fskit_set_debug_level_def)

lemma setting_the_level_changes_it:
  "reports_locks debug_start \<and> \<not> reports_locks (fskit_set_debug_level (fskit_get_debug_level debug_start) debug_start)"
  by (simp add: reports_locks_def fskit_set_debug_level_def fskit_get_debug_level_def debug_start_def)

lemma levels_apart:
  "fskit_get_debug_level (fskit_set_error_level e G) = fskit_get_debug_level G"
  "fskit_get_error_level (fskit_set_debug_level d G) = fskit_get_error_level G"
  "fskit_set_error_level e (fskit_set_debug_level d G) = fskit_set_debug_level d (fskit_set_error_level e G)"
  by (simp_all add: fskit_get_debug_level_def fskit_get_error_level_def fskit_set_debug_level_def fskit_set_error_level_def)

end
