(* ===== verification/Kinds.thy ===== *)
theory Kinds
  imports Reachable
begin

text \<open>
  The types of inodes: what a file, a directory, a link or a device is stays one for as long as it is in memory, and
  no inode that a call leaves in memory is dead. Dead is what new memory and destroyed inodes are, so between two
  calls neither a half-made inode nor a destroyed one is left.

  \<open>kinds s0 X s\<close> compares the state \<open>s\<close> inside a call with the state \<open>s0\<close> before it; \<open>X\<close> is the inode that is being
  made. The collection \<open>kd\<close> has one rule for each primitive, and the operations are done with the rules \<open>vc\<close> of \<open>Steps\<close>.
\<close>

named_theorems kd

definition kinds :: "fs \<Rightarrow> addr set \<Rightarrow> fs \<Rightarrow> bool" where
  "kinds s0 X s =
     (brk s0 \<le> brk s \<and> (\<forall>a\<in>X. brk s0 \<le> a) \<and> (\<forall>a e. heap s a = Some e \<longrightarrow> a < brk s) \<and>
      (\<forall>a e. heap s a = Some e \<longrightarrow> a \<notin> X \<longrightarrow>
         (if a < brk s0 then \<exists>e0. heap s0 a = Some e0 \<and> etype e = etype e0 else etype e \<noteq> T_DEAD)))"

subsection \<open>The primitives\<close>

lemma kinds_start: "rinv L R s \<Longrightarrow> kinds s {} s"
  by (auto simp: kinds_def rinv_def)

text \<open>Only the part of the inodes and the allocator counts, and of the inodes only the types.\<close>

lemma kinds_types:
  assumes K: "kinds s0 X s" and b: "brk s' = brk s"
    and t: "\<And>a e'. heap s' a = Some e' \<Longrightarrow> \<exists>e. heap s a = Some e \<and> etype e' = etype e"
  shows "kinds s0 X s'"
  unfolding kinds_def
proof (intro conjI allI impI)
  fix a e' assume h: "heap s' a = Some e'"
  then obtain e where e: "heap s a = Some e" "etype e' = etype e" using t by blast
  then show "a < brk s'" using K b by (simp add: kinds_def)
  assume "a \<notin> X"
  then show "if a < brk s0 then \<exists>e0. heap s0 a = Some e0 \<and> etype e' = etype e0 else etype e' \<noteq> T_DEAD"
    using K e by (simp add: kinds_def)
qed (use K b in \<open>simp_all add: kinds_def\<close>)

lemma kinds_other [simp]:
  "kinds s0 X (s\<lparr>fhs := m1\<rparr>) = kinds s0 X s" "kinds s0 X (s\<lparr>dhs := m2\<rparr>) = kinds s0 X s"
  "kinds s0 X (s\<lparr>hbrk := n\<rparr>) = kinds s0 X s" "kinds s0 X (s\<lparr>trace := t\<rparr>) = kinds s0 X s"
  "kinds s0 X (s\<lparr>routes := r\<rparr>) = kinds s0 X s"
  by (simp_all add: kinds_def)

lemma kinds_frame: "kinds s0 X s \<Longrightarrow> attr_frame s s' \<Longrightarrow> kinds s0 X s'"
proof (erule kinds_types)
  assume F: "attr_frame s s'"
  then show "brk s' = brk s" by (simp add: attr_frame_def)
  fix a e' assume "heap s' a = Some e'"
  then have "map_option attr_norm (heap s a) = Some (attr_norm e')"
    using F by (metis attr_frame_def option.simps(9))
  then obtain e where "heap s a = Some e" "attr_norm e' = attr_norm e" by auto
  then show "\<exists>e. heap s a = Some e \<and> etype e' = etype e" using attr_normD by blast
qed

lemma kinds_upd: "kinds s0 X s \<Longrightarrow> upd a f s = Some s' \<Longrightarrow> (\<And>e. etype (f e) = etype e) \<Longrightarrow> kinds s0 X s'"
  by (erule kinds_types) (auto simp: upd_Some split: if_splits)

lemma kinds_free: "kinds s0 X s \<Longrightarrow> kinds s0 (X - {a}) (s\<lparr>heap := (heap s)(a := None)\<rparr>)"
  by (simp add: kinds_def)

lemma kd_upd:
  "kinds s0 X s \<Longrightarrow> (\<And>e. etype (f e) = etype e) \<Longrightarrow> (\<And>s'. kinds s0 X s' \<Longrightarrow> Q s') \<Longrightarrow> post Q (upd a f s)"
  by (rule postI) (blast intro: kinds_upd)

lemma kd_attach [kd]:
  "kinds s0 X s \<Longrightarrow> (\<And>rc s'. kinds s0 X s' \<Longrightarrow> Q (rc, s')) \<Longrightarrow> post Q (fskit_entry_attach_lowlevel V parent fent name s)"
  unfolding fskit_entry_attach_lowlevel_def by (assumption | rule vc | rule kd_upd | (simp; fail))+

lemma kd_detach [kd]:
  "kinds s0 X s \<Longrightarrow> (\<And>rc s'. kinds s0 X s' \<Longrightarrow> Q (rc, s')) \<Longrightarrow> post Q (fskit_entry_detach_lowlevel V parent name s)"
  unfolding fskit_entry_detach_lowlevel_def by (assumption | rule vc | rule kd_upd | (simp; fail))+

lemma kinds_try_destroy_ex:
  "fskit_entry_try_destroy_and_free_ex V path parent fent cb s = Some (rc, cbrc, s') \<Longrightarrow> kinds s0 {} s \<Longrightarrow> kinds s0 {} s'"
  by (erule try_destroy_and_free_ex_cases) (auto dest: kinds_free)

lemma kd_try_destroy [kd]:
  "kinds s0 {} s \<Longrightarrow> (\<And>rc s'. kinds s0 {} s' \<Longrightarrow> Q (rc, s')) \<Longrightarrow>
    post Q (fskit_entry_try_destroy_and_free V path parent fent s)"
  unfolding fskit_entry_try_destroy_and_free_def
  by (auto simp: post_def bind_eq_Some dest: kinds_try_destroy_ex)

lemma kd_gc [kd]:
  "kinds s0 {} s \<Longrightarrow> (\<And>rc s'. kinds s0 {} s' \<Longrightarrow> Q (rc, s')) \<Longrightarrow>
    post Q (fskit_entry_try_garbage_collect V path parent child s)"
  unfolding fskit_entry_try_garbage_collect_def Let_def by (assumption | rule vc kd | rule kd_upd | (simp; fail))+

lemma kd_ref_entry [kd]:
  "kinds s0 X s \<Longrightarrow> (\<And>s'. kinds s0 X s' \<Longrightarrow> Q s') \<Longrightarrow> post Q (fskit_entry_ref_entry a s)"
  unfolding fskit_entry_ref_entry_def by (assumption | rule kd_upd | (simp; fail))+

lemma kd_ref [kd]:
  "kinds s0 X s \<Longrightarrow> (\<And>r s'. kinds s0 X s' \<Longrightarrow> Q (r, s')) \<Longrightarrow> post Q (fskit_entry_ref V path s)"
  unfolding fskit_entry_ref_def by (assumption | rule vc kd)+

lemma kd_unref [kd]:
  "kinds s0 {} s \<Longrightarrow> (\<And>rc s'. kinds s0 {} s' \<Longrightarrow> Q (rc, s')) \<Longrightarrow> post Q (fskit_entry_unref V path a s)"
  unfolding fskit_entry_unref_def by (assumption | rule vc kd | rule kd_upd | (simp; fail))+

lemma kd_route_call:
  "kinds s0 X s \<Longrightarrow> (\<And>rc cbrc da' s'. kinds s0 X s' \<Longrightarrow> Q (rc, cbrc, da', s')) \<Longrightarrow>
    post Q (fskit_route_call V t path fent da s)"
  using route_call_frame kinds_frame by (fastforce simp: post_def)

lemmas kd_route_calls [kd] =
  kd_route_call [where t = FSKIT_ROUTE_MATCH_CREATE, folded fskit_route_call_create_def]
  kd_route_call [where t = FSKIT_ROUTE_MATCH_MKDIR, folded fskit_route_call_mkdir_def]
  kd_route_call [where t = FSKIT_ROUTE_MATCH_MKNOD, folded fskit_route_call_mknod_def]
  kd_route_call [where t = FSKIT_ROUTE_MATCH_OPEN, folded fskit_route_call_open_def]
  kd_route_call [where t = FSKIT_ROUTE_MATCH_READDIR, folded fskit_route_call_readdir_def]
  kd_route_call [where t = FSKIT_ROUTE_MATCH_READ, folded fskit_route_call_read_def]
  kd_route_call [where t = FSKIT_ROUTE_MATCH_WRITE, folded fskit_route_call_write_def]
  kd_route_call [where t = FSKIT_ROUTE_MATCH_TRUNC, folded fskit_route_call_trunc_def]
  kd_route_call [where t = FSKIT_ROUTE_MATCH_CLOSE, folded fskit_route_call_close_def]
  kd_route_call [where t = FSKIT_ROUTE_MATCH_DETACH, folded fskit_route_call_detach_def]
  kd_route_call [where t = FSKIT_ROUTE_MATCH_STAT, folded fskit_route_call_stat_def]
  kd_route_call [where t = FSKIT_ROUTE_MATCH_SYNC, folded fskit_route_call_sync_def]
  kd_route_call [where t = FSKIT_ROUTE_MATCH_RENAME, folded fskit_route_call_rename_def]
  kd_route_call [where t = FSKIT_ROUTE_MATCH_LINK, folded fskit_route_call_link_def]
  kd_route_call [where t = FSKIT_ROUTE_MATCH_GETXATTR, folded fskit_route_call_getxattr_def]
  kd_route_call [where t = FSKIT_ROUTE_MATCH_LISTXATTR, folded fskit_route_call_listxattr_def]
  kd_route_call [where t = FSKIT_ROUTE_MATCH_SETXATTR, folded fskit_route_call_setxattr_def]
  kd_route_call [where t = FSKIT_ROUTE_MATCH_REMOVEXATTR, folded fskit_route_call_removexattr_def]
  kd_route_call [where t = FSKIT_ROUTE_MATCH_SETMETADATA, folded fskit_route_call_setmetadata_def]

subsection \<open>New inodes\<close>

text \<open>\<open>typed_if P s0 a s\<close>: the new inode \<open>a\<close> has been given its type if \<open>P\<close> holds.\<close>

definition typed_if :: "bool \<Rightarrow> fs \<Rightarrow> addr \<Rightarrow> fs \<Rightarrow> bool" where
  "typed_if P s0 a s = (kinds s0 {a} s \<and> (P \<longrightarrow> kinds s0 {} s))"

lemma kd_alloc [kd]:
  assumes K: "kinds s0 {} s"
    and Q: "\<And>a s'. kinds s0 {a} s' \<Longrightarrow> post Q (f a s')"
  shows "post Q (case alloc_entry s of (a, s') \<Rightarrow> f a s')"
proof -
  have "kinds s0 {brk s} (s\<lparr>heap := (heap s)(brk s \<mapsto> zero_entry), brk := brk s + 1\<rparr>)"
    using K by (auto simp: kinds_def less_Suc_eq)
  then show ?thesis using Q by (simp add: alloc_entry_def)
qed

lemma kd_init:
  assumes K: "kinds s0 {a} s" and h: "heap s a = Some c"
    and Q: "\<And>s'. typed_if (etype (f c) \<noteq> T_DEAD) s0 a s' \<Longrightarrow> Q s'"
  shows "post Q (upd a f s)"
proof -
  have "typed_if (etype (f c) \<noteq> T_DEAD) s0 a (s\<lparr>heap := (heap s)(a \<mapsto> f c)\<rparr>)"
    using K h by (auto simp: typed_if_def kinds_def)
  then show ?thesis using Q h by (simp add: upd_simp post_def)
qed

lemma kd_free: "kinds s0 {a} s \<Longrightarrow> (\<And>s'. kinds s0 {} s' \<Longrightarrow> Q s') \<Longrightarrow> post Q (free_entry a s)"
  by (rule postI) (auto simp: free_entry_def dest: kinds_free [of s0 "{a}" s a] split: if_splits)

text \<open>Destroying and freeing an inode removes it, whether it has its type already or not.\<close>

lemma kd_discard:
  assumes K: "kinds s0 X s" and X: "X \<subseteq> {a}" and Q: "\<And>s'. kinds s0 {} s' \<Longrightarrow> post Q (f s')"
  shows "post Q (do { s1 \<leftarrow> fskit_entry_destroy a s; s2 \<leftarrow> free_entry a s1; f s2 })"
proof (rule postI)
  fix x
  assume "do { s1 \<leftarrow> fskit_entry_destroy a s; s2 \<leftarrow> free_entry a s1; f s2 } = Some x"
  then obtain s2 where s2: "s2 = s\<lparr>heap := (heap s)(a := None)\<rparr>" and x: "f s2 = Some x"
    by (auto simp: fskit_entry_destroy_def upd_Some free_entry_def bind_eq_Some split: if_splits)
  have e: "X - {a} = {}" using X by blast
  have "kinds s0 {} s2" using kinds_free [OF K, of a, unfolded e] s2 by simp
  then show "Q x" using Q x by (auto simp: post_def)
qed

lemma typed_weak: "typed_if P s0 a s \<Longrightarrow> kinds s0 {a} s"
  by (simp add: typed_if_def)

lemma kd_if_failed:
  assumes "typed_if P s0 a s" and "b \<Longrightarrow> kinds s0 {a} s \<Longrightarrow> post Q x" and "\<not> b \<Longrightarrow> P"
    and "\<not> b \<Longrightarrow> kinds s0 {} s \<Longrightarrow> post Q y"
  shows "post Q (if b then x else y)"
  using assms by (auto simp: typed_if_def)

lemma kd_if_done:
  assumes "typed_if P s0 a s" and "b \<Longrightarrow> P" and "b \<Longrightarrow> kinds s0 {} s \<Longrightarrow> post Q x"
    and "\<not> b \<Longrightarrow> kinds s0 {a} s \<Longrightarrow> post Q y"
  shows "post Q (if b then x else y)"
  using assms by (auto simp: typed_if_def)

text \<open>An initialiser that succeeds gives the inode a type.\<close>

lemma init_common_type: "fskit_entry_init_common V t fid own grp m e = (c, 0) \<Longrightarrow> etype c = t"
  using init_common_fields [of V t fid own grp m e c] by simp

lemma init_types:
  "snd (fskit_entry_init_file V fid own grp m e) = 0 \<Longrightarrow> etype (fst (fskit_entry_init_file V fid own grp m e)) \<noteq> T_DEAD"
  "snd (fskit_entry_init_fifo V fid own grp m e) = 0 \<Longrightarrow> etype (fst (fskit_entry_init_fifo V fid own grp m e)) \<noteq> T_DEAD"
  "snd (fskit_entry_init_sock V fid own grp m e) = 0 \<Longrightarrow> etype (fst (fskit_entry_init_sock V fid own grp m e)) \<noteq> T_DEAD"
  "snd (fskit_entry_init_chr V fid own grp m d e) = 0 \<Longrightarrow> etype (fst (fskit_entry_init_chr V fid own grp m d e)) \<noteq> T_DEAD"
  "snd (fskit_entry_init_blk V fid own grp m d e) = 0 \<Longrightarrow> etype (fst (fskit_entry_init_blk V fid own grp m d e)) \<noteq> T_DEAD"
  "snd (fskit_entry_init_symlink V fid lp e) = 0 \<Longrightarrow> etype (fst (fskit_entry_init_symlink V fid lp e)) \<noteq> T_DEAD"
  "snd (fskit_entry_init_dir V a p fid own grp m e) = 0 \<Longrightarrow> etype (fst (fskit_entry_init_dir V a p fid own grp m e)) \<noteq> T_DEAD"
  by (auto simp: fskit_entry_init_file_def fskit_entry_init_fifo_def fskit_entry_init_sock_def fskit_entry_init_chr_def
      fskit_entry_init_blk_def fskit_entry_init_symlink_def fskit_entry_init_dir_def errno_defs
      split: prod.splits option.splits if_splits dest!: init_common_type)

lemma mknod_type: "mknod_init V mode d user grp = Some init \<Longrightarrow> snd (init e) = 0 \<Longrightarrow> etype (fst (init e)) \<noteq> T_DEAD"
  by (auto simp: mknod_init_def Let_def split: if_splits dest: init_types)

subsection \<open>The operations\<close>

lemma kd_reclaim [kd]:
  assumes "kinds s0 {} s" and Q: "\<And>err s'. kinds s0 {} s' \<Longrightarrow> Q (err, s')"
  shows "post Q (reclaim_name V path parent name s)"
  unfolding reclaim_name_def by (insert assms(1)) (assumption | rule vc kd Q)+

lemma kd_mkdir_lowlevel [kd]:
  assumes K: "kinds s0 {} s" and Q: "\<And>err s'. kinds s0 {} s' \<Longrightarrow> Q (err, s')"
  shows "post Q (fskit_mkdir_lowlevel V path parent name mode user grp cls s)"
  unfolding fskit_mkdir_lowlevel_def fskit_run_user_mkdir_def
  by (insert K) (assumption | (rule kd_init, assumption, assumption) | (erule kd_if_failed) |
    (rule kd_free, assumption) | (rule kd_discard, assumption, blast) |
    rule vc kd Q | rule kd_upd | (simp add: fskit_entry_set_user_data_def init_types; fail))+

lemma kd_mkdir [kd]:
  assumes "kinds s0 {} s" and Q: "\<And>rc s'. kinds s0 {} s' \<Longrightarrow> Q (rc, s')"
  shows "post Q (fskit_mkdir V path mode user grp s)"
  unfolding fskit_mkdir_def fskit_mkdir_ex_def
  by (insert assms(1)) (assumption | rule vc kd Q)+

lemma kd_mknod [kd]:
  assumes K: "kinds s0 {} s" and Q: "\<And>err s'. kinds s0 {} s' \<Longrightarrow> Q (err, s')"
  shows "post Q (fskit_mknod V path mode d user grp s)"
  unfolding fskit_mknod_def fskit_mknod_ex_def fskit_run_user_mknod_def
  by (insert K) (assumption | (rule kd_init, assumption, assumption) | (erule kd_if_done, erule mknod_type) |
    (rule kd_discard, assumption, blast) | rule vc kd Q | rule kd_upd | (simp; fail))+

lemma kd_do_create [kd]:
  assumes K: "kinds s0 {} s" and Q: "\<And>r s'. kinds s0 {} s' \<Longrightarrow> Q (r, s')"
  shows "post Q (fskit_do_create V parent path mode user grp cls s)"
  unfolding fskit_do_create_def fskit_run_user_create_def
  by (insert K) (assumption | (rule kd_init, assumption, assumption) | (erule kd_if_failed) |
    (rule kd_discard, assumption, blast) | rule vc kd Q post_prod_fun | rule kd_upd |
    (simp add: fskit_entry_set_user_data_def fskit_entry_set_file_id_def init_types; fail))+

lemma kd_symlink [kd]:
  assumes K: "kinds s0 {} s" and Q: "\<And>rc s'. kinds s0 {} s' \<Longrightarrow> Q (rc, s')"
  shows "post Q (fskit_symlink V target path user grp s)"
  unfolding fskit_symlink_def
  by (insert K) (assumption | (rule kd_init, assumption, assumption) | (erule kd_if_failed) |
    (rule kd_free, assumption) | (rule kd_discard, assumption, blast) |
    rule vc kd Q post_dirname_buf | (simp add: init_types; fail))+

lemma kd_run_user_trunc [kd]:
  assumes "kinds s0 {} s" and Q: "\<And>rc s'. kinds s0 {} s' \<Longrightarrow> Q (rc, s')"
  shows "post Q (fskit_run_user_trunc V path fent sz d s)"
  unfolding fskit_run_user_trunc_def
  by (insert assms(1)) (assumption | rule vc kd Q)+

lemma kd_do_open [kd]:
  assumes "kinds s0 {} s" and Q: "\<And>rc s'. kinds s0 {} s' \<Longrightarrow> Q (rc, s')"
  shows "post Q (fskit_do_open V path c flags user grp s)"
  unfolding fskit_do_open_def fskit_run_user_open_def
  by (insert assms(1)) (assumption | rule vc kd Q)+

lemma kd_file_handle_create [kd]:
  assumes "kinds s0 {} s" and Q: "\<And>rc s'. kinds s0 {} s' \<Longrightarrow> Q (rc, s')"
  shows "post Q (fskit_file_handle_create V a path flags d s)"
  unfolding fskit_file_handle_create_def
  by (insert assms(1)) (assumption | rule vc kd Q | (simp; fail))+

lemma kd_open_child [kd]:
  assumes "kinds s0 {} s" and Q: "\<And>rc s'. kinds s0 {} s' \<Longrightarrow> Q (rc, s')"
  shows "post Q (open_child V path name parent p flags mode user grp cls s)"
  unfolding open_child_def
  by (insert assms(1)) (assumption | rule vc kd Q)+

lemma set_times_type: "etype (fst (fskit_entry_set_atime V t e)) = etype e" "etype (fst (fskit_entry_set_mtime V t e)) = etype e"
  by (auto simp: fskit_entry_set_atime_def fskit_entry_set_mtime_def split: option.split)

lemma kd_open [kd]:
  assumes "kinds s0 {} s" and Q: "\<And>rc s'. kinds s0 {} s' \<Longrightarrow> Q (rc, s')"
  shows "post Q (fskit_open V path user grp flags mode s)"
  unfolding fskit_open_def fskit_open_ex_def
  by (insert assms(1)) (assumption | simp only: sum.case fst_conv snd_conv not_True_eq_False not_False_eq_True if_True if_False | rule vc kd Q kd_upd set_times_type)+

lemma kd_close [kd]:
  assumes "kinds s0 {} s" and Q: "\<And>rc s'. kinds s0 {} s' \<Longrightarrow> Q (rc, s')"
  shows "post Q (fskit_close V h s)"
  unfolding fskit_close_def fskit_run_user_close_def fskit_file_handle_destroy_def
  by (insert assms(1)) (assumption | rule vc kd Q | rule kd_upd | (simp; fail))+

lemma kd_opendir [kd]:
  assumes "kinds s0 {} s" and Q: "\<And>rc s'. kinds s0 {} s' \<Longrightarrow> Q (rc, s')"
  shows "post Q (fskit_opendir V path user grp s)"
  unfolding fskit_opendir_def fskit_dir_handle_create_def fskit_run_user_open_def
  by (insert assms(1)) (assumption | simp only: option.case | rule vc kd Q | rule kd_upd | (simp; fail))+

lemma kd_closedir [kd]:
  assumes "kinds s0 {} s" and Q: "\<And>rc s'. kinds s0 {} s' \<Longrightarrow> Q (rc, s')"
  shows "post Q (fskit_closedir V h s)"
  unfolding fskit_closedir_def fskit_run_user_close_def fskit_dir_handle_destroy_def
  by (insert assms(1)) (assumption | rule vc kd Q | rule kd_upd | (simp; fail))+

lemma kd_unlink [kd]:
  assumes "kinds s0 {} s" and Q: "\<And>rc s'. kinds s0 {} s' \<Longrightarrow> Q (rc, s')"
  shows "post Q (fskit_unlink V path own grp s)"
  unfolding fskit_unlink_def fskit_run_user_detach_def
  by (insert assms(1)) (assumption | rule vc kd Q)+

lemma kd_rmdir [kd]:
  assumes "kinds s0 {} s" and Q: "\<And>rc s'. kinds s0 {} s' \<Longrightarrow> Q (rc, s')"
  shows "post Q (fskit_rmdir V path own grp s)"
  unfolding fskit_rmdir_def
  by (insert assms(1)) (assumption | rule vc kd Q)+

lemma kd_link [kd]:
  assumes "kinds s0 {} s" and Q: "\<And>rc s'. kinds s0 {} s' \<Longrightarrow> Q (rc, s')"
  shows "post Q (fskit_link V frm to uid gid s)"
  unfolding fskit_link_def fskit_run_user_link_def
  by (insert assms(1)) (assumption | rule vc kd Q post_dirname_buf)+

lemma kd_run_user_rename [kd]:
  assumes "kinds s0 {} s" and Q: "\<And>rc s'. kinds s0 {} s' \<Longrightarrow> Q (rc, s')"
  shows "post Q (fskit_run_user_rename V path op f np n d s)"
  unfolding fskit_run_user_rename_def
  by (insert assms(1)) (assumption | rule vc kd Q)+

lemma kd_rename_perform [kd]:
  assumes "kinds s0 {} s" and Q: "\<And>rc s'. kinds s0 {} s' \<Longrightarrow> Q (rc, s')"
  shows "post Q (rename_perform V path op on np nn f n s)"
  unfolding rename_perform_def
  by (insert assms(1)) (assumption | rule vc kd Q | rule kd_upd | (simp; fail))+

lemma kd_rename [kd]:
  assumes "kinds s0 {} s" and Q: "\<And>rc s'. kinds s0 {} s' \<Longrightarrow> Q (rc, s')"
  shows "post Q (fskit_rename V old new user grp s)"
  unfolding fskit_rename_def
  by (insert assms(1)) (assumption | rule vc kd Q post_prod | (rule post_any))+

lemma kd_chmod [kd]:
  assumes "kinds s0 {} s" and Q: "\<And>rc s'. kinds s0 {} s' \<Longrightarrow> Q (rc, s')"
  shows "post Q (fskit_chmod V path user grp mode s)"
  unfolding fskit_chmod_def fskit_run_user_setmetadata_def
  by (insert assms(1)) (assumption | rule vc kd Q | rule kd_upd | (simp add: fskit_entry_set_mode_def; fail))+

lemma kd_chown [kd]:
  assumes "kinds s0 {} s" and Q: "\<And>rc s'. kinds s0 {} s' \<Longrightarrow> Q (rc, s')"
  shows "post Q (fskit_chown V path user grp u g s)"
  unfolding fskit_chown_def fskit_run_user_setmetadata_def
  by (insert assms(1)) (assumption | rule vc kd Q | rule kd_upd | (simp add: fskit_entry_set_owner_and_group_def; fail))+

lemma kd_utimes [kd]:
  assumes "kinds s0 {} s" and Q: "\<And>rc s'. kinds s0 {} s' \<Longrightarrow> Q (rc, s')"
  shows "post Q (fskit_utimes V path user grp utimes s)"
  unfolding fskit_utimes_def fskit_run_user_setmetadata_def
  by (insert assms(1)) (assumption | rule vc kd Q post_prod | rule kd_upd | (simp; fail))+

lemma kd_user_stat [kd]:
  assumes "kinds s0 {} s" and Q: "\<And>rc b s'. kinds s0 {} s' \<Longrightarrow> Q (rc, b, s')"
  shows "post Q (fskit_do_user_stat V path fent sb s)"
  unfolding fskit_do_user_stat_def
  by (insert assms(1)) (assumption | rule vc kd Q)+

lemma kd_fstat [kd]:
  assumes "kinds s0 {} s" and Q: "\<And>rc b s'. kinds s0 {} s' \<Longrightarrow> Q (rc, b, s')"
  shows "post Q (fskit_fstat V path fent sb s)"
  unfolding fskit_fstat_def
  by (insert assms(1)) (assumption | rule vc kd Q)+

lemma kd_stat [kd]:
  assumes "kinds s0 {} s" and Q: "\<And>rc b s'. kinds s0 {} s' \<Longrightarrow> Q (rc, b, s')"
  shows "post Q (fskit_stat V path user grp sb s)"
  unfolding fskit_stat_def
  by (insert assms(1)) (assumption | rule post_Inl post_Inr | rule vc kd Q)+

lemma kd_deref:
  assumes "kinds s0 {} s" and "\<And>e. etype (f e) = etype e" and Q: "\<And>s'. kinds s0 {} s' \<Longrightarrow> Q s'"
  shows "post Q (deref p f s)"
  unfolding deref_def
  by (insert assms(1,2)) (assumption | rule vc kd Q | rule kd_upd | (simp; fail))+

lemma kd_read [kd]:
  assumes "kinds s0 {} s" and Q: "\<And>rc b s'. kinds s0 {} s' \<Longrightarrow> Q (rc, b, s')"
  shows "post Q (fskit_read V h buf n off s)"
  unfolding fskit_read_def fskit_run_user_read_def
  by (insert assms(1)) (assumption | rule vc kd Q kd_deref | (simp add: set_times_type Let_def; fail))+

lemma kd_write [kd]:
  assumes "kinds s0 {} s" and Q: "\<And>rc s'. kinds s0 {} s' \<Longrightarrow> Q (rc, s')"
  shows "post Q (fskit_write V h buf n off s)"
  unfolding fskit_write_def fskit_run_user_write_def
  by (insert assms(1)) (assumption | rule vc kd Q kd_deref | (simp add: set_times_type Let_def; fail))+

lemma kd_ftrunc [kd]:
  assumes "kinds s0 {} s" and Q: "\<And>rc s'. kinds s0 {} s' \<Longrightarrow> Q (rc, s')"
  shows "post Q (fskit_ftrunc V h sz s)"
  unfolding fskit_ftrunc_def
  by (insert assms(1)) (assumption | rule vc kd Q)+

lemma kd_trunc [kd]:
  assumes "kinds s0 {} s" and Q: "\<And>rc s'. kinds s0 {} s' \<Longrightarrow> Q (rc, s')"
  shows "post Q (fskit_trunc V path user grp sz s)"
  unfolding fskit_trunc_def
  by (insert assms(1)) (assumption | rule vc kd Q | rule kd_upd | (simp; fail))+

lemma kd_fsync [kd]:
  assumes "kinds s0 {} s" and Q: "\<And>rc s'. kinds s0 {} s' \<Longrightarrow> Q (rc, s')"
  shows "post Q (fskit_fsync V h s)"
  unfolding fskit_fsync_def fskit_do_user_sync_def
  by (insert assms(1)) (assumption | rule vc kd Q)+

lemma kd_getxattr [kd]:
  assumes "kinds s0 {} s" and Q: "\<And>rc b s'. kinds s0 {} s' \<Longrightarrow> Q (rc, b, s')"
  shows "post Q (fskit_getxattr V path user grp name buf sz s)"
  unfolding fskit_getxattr_def fskit_fgetxattr_def fskit_run_user_getxattr_def
  by (insert assms(1)) (assumption | rule vc kd Q | (rule postI, (auto simp: Q post_SomeI split: prod.split; fail)))+

lemma kd_listxattr [kd]:
  assumes "kinds s0 {} s" and Q: "\<And>rc b s'. kinds s0 {} s' \<Longrightarrow> Q (rc, b, s')"
  shows "post Q (fskit_listxattr V path user grp buf sz s)"
  unfolding fskit_listxattr_def fskit_flistxattr_def fskit_run_user_listxattr_def
  by (insert assms(1)) (assumption | rule vc kd Q | (rule postI, (auto simp: Q post_SomeI split: prod.split; fail)))+

lemma kd_setxattr [kd]:
  assumes "kinds s0 {} s" and Q: "\<And>rc s'. kinds s0 {} s' \<Longrightarrow> Q (rc, s')"
  shows "post Q (fskit_setxattr V path user grp name value flags s)"
  unfolding fskit_setxattr_def fskit_fsetxattr_def fskit_run_user_setxattr_def
  by (insert assms(1)) (assumption | rule vc kd Q | rule kd_upd | (simp add: fskit_xattr_fsetxattr_def split: prod.split; fail))+

lemma kd_removexattr [kd]:
  assumes "kinds s0 {} s" and Q: "\<And>rc s'. kinds s0 {} s' \<Longrightarrow> Q (rc, s')"
  shows "post Q (fskit_removexattr V path user grp name s)"
  unfolding fskit_removexattr_def fskit_fremovexattr_def fskit_run_user_removexattr_def
  by (insert assms(1)) (assumption | rule vc kd Q | rule kd_upd | (simp add: fskit_xattr_fremovexattr_def split: prod.split; fail))+

lemma kd_readdir [kd]:
  assumes "kinds s0 {} s" and Q: "\<And>rc s'. kinds s0 {} s' \<Longrightarrow> Q (rc, s')"
  shows "post Q (fskit_readdir V h n s)"
  unfolding fskit_readdir_def fskit_run_user_readdir_def
  by (insert assms(1)) (assumption | rule vc kd Q post_lowlevel | (simp; fail))+

lemma kinds_dirs:
  "fskit_seekdir h loc s = Some s' \<Longrightarrow> kinds s0 {} s \<Longrightarrow> kinds s0 {} s'"
  "fskit_telldir V hi lo h s = Some (rc, s') \<Longrightarrow> kinds s0 {} s \<Longrightarrow> kinds s0 {} s'"
  "fskit_rewinddir h s = Some s' \<Longrightarrow> kinds s0 {} s \<Longrightarrow> kinds s0 {} s'"
  by (auto simp: fskit_seekdir_def fskit_telldir_def fskit_rewinddir_def bind_eq_Some Let_def neq_Nil_conv
      split: if_splits list.split_asm)

lemma kinds_routes:
  "fskit_path_route_decl V re t cb disc s = Some (rc, s') \<Longrightarrow> kinds s0 {} s \<Longrightarrow> kinds s0 {} s'"
  "fskit_path_route_undecl t i s = Some (rc, s') \<Longrightarrow> kinds s0 {} s \<Longrightarrow> kinds s0 {} s'"
  "fskit_unroute_all s = (rc, s') \<Longrightarrow> kinds s0 {} s \<Longrightarrow> kinds s0 {} s'"
  by (auto simp: fskit_path_route_decl_def fskit_path_route_undecl_def fskit_unroute_all_def
      split: if_splits option.splits prod.splits)

subsection \<open>Mass detachment\<close>

lemma kd_tag [kd]:
  assumes "kinds s0 {} s" and Q: "\<And>rc cs s'. kinds s0 {} s' \<Longrightarrow> Q (rc, cs, s')"
  shows "post Q (fskit_entry_tag_garbage V ent s)"
  unfolding fskit_entry_tag_garbage_def by (insert assms(1)) (assumption | rule vc Q | rule kd_upd | (simp; fail))+

lemma kd_try_destroy_ex [kd]:
  "kinds s0 {} s \<Longrightarrow> (\<And>rc cbrc s'. kinds s0 {} s' \<Longrightarrow> Q (rc, cbrc, s')) \<Longrightarrow>
    post Q (fskit_entry_try_destroy_and_free_ex V path parent fent cb s)"
  by (auto simp: post_def dest: kinds_try_destroy_ex)

lemma kd_detach_step:
  assumes "kinds s0 {} s" and Q: "\<And>rc cb ctx' s'. kinds s0 {} s' \<Longrightarrow> Q (rc, cb, ctx', s')"
  shows "post Q (detach_step V g ctx cb s)"
  unfolding detach_step_def
  by (insert assms(1)) (assumption | rule vc kd Q post_prod | rule kd_upd | rule post_any | (simp; fail))+

lemma kinds_detach_loop_aux:
  "detach_loop V g ctx cbrc s = Some y \<Longrightarrow> kinds s0 {} s \<longrightarrow> kinds s0 {} (snd (snd y))"
proof (erule detach_loop.raw_induct [of "\<lambda>V g ctx cbrc s y. kinds s0 {} s \<longrightarrow> kinds s0 {} (snd (snd y))", rotated], goal_cases)
  case (1 lp V g ctx cbrc s y)
  show ?case
  proof
    assume K: "kinds s0 {} s"
    show "kinds s0 {} (snd (snd y))"
    proof (cases "dc_queue ctx = []")
      case False
      then obtain rc cb ctx1 s1 where S: "detach_step V g ctx cbrc s = Some (rc, cb, ctx1, s1)"
        and y: "(if rc \<noteq> 0 then Some (rc, ctx1, s1) else lp V g ctx1 cb s1) = Some y"
        using 1(2) by (auto simp: bind_eq_Some)
      have "kinds s0 {} s1"
        using postD [OF kd_detach_step [OF K, where Q = "\<lambda>(rc, cb, ctx, s). kinds s0 {} s"] S] by simp
      then show ?thesis using 1(1) y by (auto split: if_splits)
    qed (use 1(2) K in auto)
  qed
qed

lemma kinds_detach_all:
  assumes m: "all_mem V" and D: "fskit_detach_all V g p s = Some (rc, s')" and K: "kinds s0 {} s"
  shows "kinds s0 {} s'"
  using m D
proof (cases rule: detach_all_cases)
  case (looped dent cs cs' s1 ctx ctx')
  have "kinds s0 {} s1"
    using postD [OF kd_tag [OF K, where Q = "\<lambda>(rc, cs, s). kinds s0 {} s"] looped(2)] by simp
  then show ?thesis using kinds_detach_loop_aux [OF looped(4), of s0] by simp
next
  case (untagged dent cs)
  show ?thesis using postD [OF kd_tag [OF K, where Q = "\<lambda>(rc, cs, s). kinds s0 {} s"] untagged(2)] by simp
qed (use K in simp)

subsection \<open>Every call\<close>

lemma post_kinds:
  assumes "\<And>Q. (\<And>r s'. kinds s0 {} s' \<Longrightarrow> Q (r, s')) \<Longrightarrow> post Q m" and "m = Some (r, s')"
  shows "kinds s0 {} s'"
  using postD [OF assms(1) [of "\<lambda>(r, s'). kinds s0 {} s'"] assms(2)] by simp

lemma post_kinds3:
  assumes "\<And>Q. (\<And>r b s'. kinds s0 {} s' \<Longrightarrow> Q (r, b, s')) \<Longrightarrow> post Q m" and "m = Some (r, b, s')"
  shows "kinds s0 {} s'"
  using postD [OF assms(1) [of "\<lambda>(r, b, s'). kinds s0 {} s'"] assms(2)] by simp

lemma step_kinds: "fs_step s s' \<Longrightarrow> kinds s0 {} s \<Longrightarrow> kinds s0 {} s'"
  by (induction rule: fs_step.induct)
    ((rule kinds_dirs kinds_routes, assumption, assumption) | (rule kinds_detach_all, assumption, assumption, assumption) |
     (rule post_kinds [rotated], assumption, rule kd, assumption, blast) |
     (rule post_kinds3 [rotated], assumption, rule kd, assumption, blast))+

lemma core_init_live: "booted s \<Longrightarrow> heap s a = Some e \<Longrightarrow> etype e \<noteq> T_DEAD"
  unfolding booted_def by (elim exE, erule core_init_boot) (auto split: if_splits)

lemma steps_kinds: "fs_step\<^sup>*\<^sup>* s s' \<Longrightarrow> kinds s0 {} s \<Longrightarrow> kinds s0 {} s'"
  by (induction rule: rtranclp_induct) (auto intro: step_kinds)

definition all_live :: "fs \<Rightarrow> bool" where
  "all_live s = (\<forall>a e. heap s a = Some e \<longrightarrow> etype e \<noteq> T_DEAD)"

lemma kinds_all_live: "kinds s0 {} s \<Longrightarrow> all_live s0 \<Longrightarrow> all_live s"
  unfolding kinds_def all_live_def by (metis empty_iff)

lemma reachable_all_live: "reachable s \<Longrightarrow> all_live s"
proof -
  assume "reachable s"
  then obtain s0 where b: "booted s0" and r: "fs_step\<^sup>*\<^sup>* s0 s" by (auto simp: reachable_def)
  have "rinv {#} {#} s0" using b by (auto simp: booted_def intro: inv_core_init)
  then have "kinds s0 {} s" using steps_kinds [OF r kinds_start] by blast
  then show "all_live s" by (rule kinds_all_live) (use core_init_live [OF b] in \<open>auto simp: all_live_def\<close>)
qed

lemma type_kept:
  assumes "reachable s" and "fs_step\<^sup>*\<^sup>* s s'" and "heap s a = Some e" and "heap s' a = Some e'"
  shows "etype e' = etype e"
proof -
  note K = kinds_start [OF reachable_rinv [OF assms(1)]]
  have "a < brk s" using K assms(3) by (simp add: kinds_def)
  then show ?thesis using steps_kinds [OF assms(2) K] assms(3,4) by (fastforce simp: kinds_def)
qed

end
