(* ===== verification/Locking.thy ===== *)
theory Locking
  imports Kinds
begin

text \<open>
  The locks of inodes (\<open>entry.c\<close>), and the functions of \<open>path.c\<close> that pass them along: path resolution, which
  locks an entry before it unlocks the directory it was found in, the path iterator and the
  references. Locks are those that the calling thread holds; a lock that the thread would have to wait for itself to give
  back, and giving back a lock that is not held, are \<open>None\<close>. Other threads are not modelled.

  The lemmas: the versions with locks compute what the versions of \<open>Resolve\<close> compute; a successful
  resolution holds the lock of its result and no other, and a failed one holds none.
\<close>

subsection \<open>Locks\<close>

datatype lock_state = Unlocked | Readers nat | Writer

text \<open>The locks of inodes, handles, of the core and its routes, and of each route, by its type and its place in the table.\<close>

datatype lock_id = EntryLock addr | FileLock nat | DirLock nat | CoreLock | RoutesLock | RouteLock int nat

type_synonym locks = "lock_id \<Rightarrow> lock_state"

definition no_locks :: locks where
  "no_locks = (\<lambda>_. Unlocked)"

definition rwlock_rdlock :: "lock_id \<Rightarrow> locks \<Rightarrow> locks option" where
  "rwlock_rdlock a K =
     (case K a of
        Unlocked \<Rightarrow> Some (K(a := Readers 0))
      | Readers n \<Rightarrow> Some (K(a := Readers (n + 1)))
      | Writer \<Rightarrow> None)"

definition rwlock_wrlock :: "lock_id \<Rightarrow> locks \<Rightarrow> locks option" where
  "rwlock_wrlock a K = (case K a of Unlocked \<Rightarrow> Some (K(a := Writer)) | _ \<Rightarrow> None)"

definition rwlock_unlock :: "lock_id \<Rightarrow> locks \<Rightarrow> locks option" where
  "rwlock_unlock a K =
     (case K a of
        Unlocked \<Rightarrow> None
      | Readers n \<Rightarrow> Some (K(a := (if n = 0 then Unlocked else Readers (n - 1))))
      | Writer \<Rightarrow> Some (K(a := Unlocked)))"

text \<open>Locking an entry that is dead gives the lock back at once.\<close>

definition fskit_entry_rlock2 :: "addr \<Rightarrow> fs \<Rightarrow> locks \<Rightarrow> (int \<times> locks) option" where
  "fskit_entry_rlock2 fent s K =
     do {
       e \<leftarrow> heap s fent;
       K \<leftarrow> rwlock_rdlock (EntryLock fent) K;
       if etype e = T_DEAD then do { K \<leftarrow> rwlock_unlock (EntryLock fent) K; Some (- ENOENT, K) } else Some (0, K)
     }"

definition fskit_entry_wlock2 :: "addr \<Rightarrow> fs \<Rightarrow> locks \<Rightarrow> (int \<times> locks) option" where
  "fskit_entry_wlock2 fent s K =
     do {
       e \<leftarrow> heap s fent;
       K \<leftarrow> rwlock_wrlock (EntryLock fent) K;
       if etype e = T_DEAD then do { K \<leftarrow> rwlock_unlock (EntryLock fent) K; Some (- ENOENT, K) } else Some (0, K)
     }"

definition fskit_entry_unlock2 :: "addr \<Rightarrow> fs \<Rightarrow> locks \<Rightarrow> locks option" where
  "fskit_entry_unlock2 fent s K = do { _ \<leftarrow> heap s fent; rwlock_unlock (EntryLock fent) K }"

text \<open>The handles, the core and the table of routes have locks of their own.\<close>

definition fskit_file_handle_rlock :: "nat \<Rightarrow> fs \<Rightarrow> locks \<Rightarrow> locks option" where
  "fskit_file_handle_rlock fh s K = do { _ \<leftarrow> fhs s fh; rwlock_rdlock (FileLock fh) K }"

definition fskit_file_handle_wlock :: "nat \<Rightarrow> fs \<Rightarrow> locks \<Rightarrow> locks option" where
  "fskit_file_handle_wlock fh s K = do { _ \<leftarrow> fhs s fh; rwlock_wrlock (FileLock fh) K }"

definition fskit_file_handle_unlock :: "nat \<Rightarrow> fs \<Rightarrow> locks \<Rightarrow> locks option" where
  "fskit_file_handle_unlock fh s K = do { _ \<leftarrow> fhs s fh; rwlock_unlock (FileLock fh) K }"

definition fskit_dir_handle_rlock :: "nat \<Rightarrow> fs \<Rightarrow> locks \<Rightarrow> locks option" where
  "fskit_dir_handle_rlock dh s K = do { _ \<leftarrow> dhs s dh; rwlock_rdlock (DirLock dh) K }"

definition fskit_dir_handle_wlock :: "nat \<Rightarrow> fs \<Rightarrow> locks \<Rightarrow> locks option" where
  "fskit_dir_handle_wlock dh s K = do { _ \<leftarrow> dhs s dh; rwlock_wrlock (DirLock dh) K }"

definition fskit_dir_handle_unlock :: "nat \<Rightarrow> fs \<Rightarrow> locks \<Rightarrow> locks option" where
  "fskit_dir_handle_unlock dh s K = do { _ \<leftarrow> dhs s dh; rwlock_unlock (DirLock dh) K }"

definition fskit_core_rlock2 :: "locks \<Rightarrow> locks option" where
  "fskit_core_rlock2 K = rwlock_rdlock CoreLock K"

definition fskit_core_wlock2 :: "locks \<Rightarrow> locks option" where
  "fskit_core_wlock2 K = rwlock_wrlock CoreLock K"

definition fskit_core_unlock2 :: "locks \<Rightarrow> locks option" where
  "fskit_core_unlock2 K = rwlock_unlock CoreLock K"

definition fskit_core_route_rlock :: "locks \<Rightarrow> locks option" where
  "fskit_core_route_rlock K = rwlock_rdlock RoutesLock K"

definition fskit_core_route_wlock :: "locks \<Rightarrow> locks option" where
  "fskit_core_route_wlock K = rwlock_wrlock RoutesLock K"

definition fskit_core_route_unlock :: "locks \<Rightarrow> locks option" where
  "fskit_core_route_unlock K = rwlock_unlock RoutesLock K"

text \<open>The choice that the callers make; they do not look at the result.\<close>

definition lock_entry :: "bool \<Rightarrow> addr \<Rightarrow> fs \<Rightarrow> locks \<Rightarrow> locks option" where
  "lock_entry writelock fent s K =
     map_option snd (if writelock then fskit_entry_wlock2 fent s K else fskit_entry_rlock2 fent s K)"

definition held_as :: "bool \<Rightarrow> lock_state" where
  "held_as writelock = (if writelock then Writer else Readers 0)"

subsection \<open>Path resolution\<close>

text \<open>
  The result of resolving: an error or the address found, the evaluator's argument, the state and the locks.
  The error paths of the walk give back the lock of the entry at hand.
\<close>

type_synonym 'c locked_result = "((int + addr) \<times> 'c \<times> fs \<times> locks) option"

definition unlock_fail :: "addr \<Rightarrow> int \<Rightarrow> 'c \<Rightarrow> fs \<Rightarrow> locks \<Rightarrow> 'c locked_result" where
  "unlock_fail a err cls s K = map_option (\<lambda>K. (Inl err, cls, s, K)) (fskit_entry_unlock2 a s K)"

fun locked_walk ::
    "'c ent_eval option \<Rightarrow> bool \<Rightarrow> u64 \<Rightarrow> u64 \<Rightarrow> string list \<Rightarrow> addr \<Rightarrow> 'c \<Rightarrow> fs \<Rightarrow> locks \<Rightarrow> 'c locked_result"
where
  "locked_walk ev writelock user grp names cur_ent cls s K =
     (case heap s cur_ent of
        None \<Rightarrow> None
      | Some cur \<Rightarrow>
          if names \<noteq> [] \<and> etype cur \<noteq> T_DIR
          then unlock_fail cur_ent (if etype cur \<noteq> T_DEAD then - ENOTDIR else - ENOENT) cls s K
          else if etype cur = T_DIR \<and> \<not> FSKIT_ENTRY_IS_DIR_SEARCHABLE cur user grp
          then unlock_fail cur_ent (- EACCES) cls s K
          else
            (case names of
               [] \<Rightarrow> Some (Inr cur_ent, cls, s, K)
             | name # rest \<Rightarrow>
                 (case fskit_entry_set_find_name (children cur) name of
                    None \<Rightarrow> unlock_fail cur_ent (- ENOENT) cls s K
                  | Some next \<Rightarrow>
                      do {
                        e \<leftarrow> heap s next;
                        if deletion_in_progress e \<or> etype e = T_DEAD then unlock_fail cur_ent (- ENOENT) cls s K
                        else do {
                          K \<leftarrow> lock_entry writelock next s K;
                          (rc, cls, s) \<leftarrow> fskit_entry_ent_eval ev next cls s;
                          if rc \<noteq> 0 then do { K \<leftarrow> fskit_entry_unlock2 next s K; unlock_fail cur_ent rc cls s K }
                          else do {
                            e \<leftarrow> heap s next;
                            if link_count e = 0 \<or> etype e = T_DEAD \<or> deletion_in_progress e
                            then do { K \<leftarrow> fskit_entry_unlock2 next s K; unlock_fail cur_ent (- ENOENT) cls s K }
                            else do {
                              K \<leftarrow> fskit_entry_unlock2 cur_ent s K;
                              locked_walk ev writelock user grp rest next cls s K
                            }
                          }
                        }
                      })))"

declare locked_walk.simps [simp del]

definition locked_resolve_root :: "bool \<Rightarrow> fs \<Rightarrow> locks \<Rightarrow> (addr option \<times> locks) option" where
  "locked_resolve_root writelock s K =
     do {
       K \<leftarrow> fskit_core_rlock2 K;
       root \<leftarrow> heap s 0;
       if etype root = T_DIR \<and> \<not> deletion_in_progress root
       then do { K \<leftarrow> lock_entry writelock 0 s K; K \<leftarrow> fskit_core_unlock2 K; Some (Some 0, K) }
       else do { K \<leftarrow> fskit_core_unlock2 K; Some (None, K) }
     }"

text \<open>The root is locked for writing only if it is what the path names.\<close>

definition locked_resolve_path_cls ::
    "env \<Rightarrow> 'c ent_eval option \<Rightarrow> string \<Rightarrow> u64 \<Rightarrow> u64 \<Rightarrow> bool \<Rightarrow> 'c \<Rightarrow> fs \<Rightarrow> locks \<Rightarrow> 'c locked_result" where
  "locked_resolve_path_cls V ev path user grp writelock cls s K =
     (if length path = 0 then Some (Inl (- EINVAL), cls, s, K)
      else if last path \<noteq> slash \<and> \<not> mem_ok V ''fskit_entry_resolve_path_cls'' then Some (Inl (- ENOMEM), cls, s, K)
      else do {
        (root, K) \<leftarrow> locked_resolve_root (writelock \<and> path_names path = []) s K;
        root \<leftarrow> root;
        r \<leftarrow> heap s root;
        if link_count r = 0 \<or> etype r = T_DEAD then unlock_fail root (- ENOENT) cls s K
        else do {
          (rc, cls, s) \<leftarrow> fskit_entry_ent_eval ev root cls s;
          if rc \<noteq> 0 then unlock_fail root rc cls s K
          else do {
            r \<leftarrow> heap s root;
            if ev \<noteq> None \<and> (deletion_in_progress r \<or> etype r = T_DEAD) then unlock_fail root (- ENOENT) cls s K
            else locked_walk ev writelock user grp (path_names path) root cls s K
          }
        }
      })"

definition locked_resolve_path ::
    "env \<Rightarrow> string \<Rightarrow> u64 \<Rightarrow> u64 \<Rightarrow> bool \<Rightarrow> fs \<Rightarrow> locks \<Rightarrow> ((int + addr) \<times> locks) option" where
  "locked_resolve_path V path user grp writelock s K =
     map_option (\<lambda>(r, _, _, K). (r, K)) (locked_resolve_path_cls V None path user grp writelock () s K)"

subsection \<open>What is held\<close>

lemma lock_unlocked:
  "heap s a = Some e \<Longrightarrow> etype e \<noteq> T_DEAD \<Longrightarrow> K (EntryLock a) = Unlocked \<Longrightarrow> lock_entry w a s K = Some (K(EntryLock a := held_as w))"
  by (simp add: lock_entry_def fskit_entry_wlock2_def fskit_entry_rlock2_def rwlock_wrlock_def rwlock_rdlock_def held_as_def)

lemma unlock_held:
  "heap s a = Some e \<Longrightarrow> K (EntryLock a) = held_as w \<Longrightarrow> fskit_entry_unlock2 a s K = Some (K(EntryLock a := Unlocked))"
  by (simp add: fskit_entry_unlock2_def rwlock_unlock_def held_as_def split: if_splits)

lemma no_locks_simps [simp]: "no_locks l = Unlocked" "no_locks(l := Unlocked) = no_locks"
  by (simp_all add: no_locks_def fun_eq_iff)

lemma unlock_fail_held:
  "heap s a = Some e \<Longrightarrow> K (EntryLock a) = Unlocked \<Longrightarrow>
    unlock_fail a err cls s (K(EntryLock a := held_as w)) = Some (Inl err, cls, s, K)"
  using unlock_held [of s a e "K(EntryLock a := held_as w)" w] by (simp add: unlock_fail_def fun_upd_idem)

text \<open>The root: the lock of the core is held only for the moment.\<close>

lemma locked_root:
  assumes "heap s 0 = Some r" and "K CoreLock = Unlocked" and "K (EntryLock 0) = Unlocked"
  shows "locked_resolve_root w s K =
    (if etype r = T_DIR \<and> \<not> deletion_in_progress r then Some (Some 0, K(EntryLock 0 := held_as w)) else Some (None, K))"
proof -
  have "lock_entry w 0 s (K(CoreLock := Readers 0)) = Some (K(CoreLock := Readers 0, EntryLock 0 := held_as w))" if "etype r = T_DIR"
    by (rule lock_unlocked [OF assms(1)]) (use that assms(3) in simp_all)
  moreover have "K(CoreLock := Unlocked) = K" "K(EntryLock 0 := held_as w, CoreLock := Unlocked) = K(EntryLock 0 := held_as w)"
    using assms(2) by (simp_all add: fun_eq_iff)
  ultimately show ?thesis using assms
    by (simp add: locked_resolve_root_def fskit_core_rlock2_def fskit_core_unlock2_def rwlock_rdlock_def rwlock_unlock_def)
qed

text \<open>No directory has itself as a proper entry.\<close>

lemma no_self_child:
  "no_self s \<Longrightarrow> heap s a = Some e \<Longrightarrow> n \<noteq> ''.'' \<Longrightarrow> n \<noteq> ''..'' \<Longrightarrow> fskit_entry_set_find_name (children e) n \<noteq> Some a"
  using find_name_in [of "children e" n a] by (auto simp: no_self_def)

text \<open>Hand over hand: the lock of \<open>b\<close> is taken, and that of \<open>a\<close> given back.\<close>

lemma hand_over:
  assumes "a \<noteq> b" and "heap s a = Some e" and "heap s b = Some f" and "etype f \<noteq> T_DEAD"
    and K: "K (EntryLock a) = Unlocked" "K (EntryLock b) = Unlocked"
  shows "lock_entry w b s (K(EntryLock a := held_as v)) = Some (K(EntryLock a := held_as v, EntryLock b := held_as w))"
    and "fskit_entry_unlock2 a s (K(EntryLock a := held_as v, EntryLock b := held_as w)) = Some (K(EntryLock b := held_as w))"
    and "fskit_entry_unlock2 b s (K(EntryLock a := held_as v, EntryLock b := held_as w)) = Some (K(EntryLock a := held_as v))"
proof -
  let ?K = "K(EntryLock a := held_as v, EntryLock b := held_as w)"
  show "lock_entry w b s (K(EntryLock a := held_as v)) = Some ?K"
    using assms by (intro lock_unlocked) auto
  have "fskit_entry_unlock2 a s ?K = Some (?K(EntryLock a := Unlocked))"
    using assms by (intro unlock_held) auto
  then show "fskit_entry_unlock2 a s ?K = Some (K(EntryLock b := held_as w))"
    using assms(1) K by (auto simp: fun_eq_iff)
  have "fskit_entry_unlock2 b s ?K = Some (?K(EntryLock b := Unlocked))"
    using assms by (intro unlock_held) auto
  then show "fskit_entry_unlock2 b s ?K = Some (K(EntryLock a := held_as v))"
    using assms(1) K by (auto simp: fun_eq_iff)
qed

text \<open>The inodes that a walk comes through, as far as the names lead.\<close>

fun passes :: "fs \<Rightarrow> string list \<Rightarrow> addr \<Rightarrow> addr list" where
  "passes s [] a = [a]"
| "passes s (n # ns) a =
     a # (case Option.bind (heap s a) (\<lambda>e. fskit_entry_set_find_name (children e) n) of
            None \<Rightarrow> []
          | Some b \<Rightarrow> passes s ns b)"

lemma passes_start: "a \<in> set (passes s ns a)"
  by (cases ns) simp_all

text \<open>The locks after resolving: those from before, and the one of the inode that was found.\<close>

definition locked_on :: "bool \<Rightarrow> locks \<Rightarrow> int + addr \<Rightarrow> locks" where
  "locked_on writelock K r = (case r of Inl _ \<Rightarrow> K | Inr a \<Rightarrow> K(EntryLock a := held_as writelock))"

lemma locked_on_simps [simp]:
  "locked_on w K (Inl err) = K" "locked_on w K (Inr a) = K(EntryLock a := held_as w)"
  by (simp_all add: locked_on_def)

definition quiet_eval :: "'c ent_eval option \<Rightarrow> bool" where
  "quiet_eval ev = (\<forall>f a cls s rc cls' s'. ev = Some f \<and> f a cls s = Some (rc, cls', s') \<longrightarrow> s' = s)"

lemma eval_cases:
  assumes "quiet_eval ev"
  obtains "fskit_entry_ent_eval ev a cls s = None" | rc cls' where "fskit_entry_ent_eval ev a cls s = Some (rc, cls', s)"
proof (cases "fskit_entry_ent_eval ev a cls s")
  case (Some x)
  then show ?thesis using assms that(2)
    by (cases x) (fastforce simp: fskit_entry_ent_eval_def quiet_eval_def split: option.splits)
qed (use that(1) in simp)

lemma locked_walk_eq:
  assumes N: "no_self s" and ev: "quiet_eval ev"
    and "''.'' \<notin> set names" and "''..'' \<notin> set names" and "names = [] \<Longrightarrow> w = writelock"
    and "\<And>a. a \<in> set (passes s names cur) \<Longrightarrow> K (EntryLock a) = Unlocked"
  shows "locked_walk ev writelock user grp names cur cls s (K(EntryLock cur := held_as w)) =
    map_option (\<lambda>(r, cls, s). (r, cls, s, locked_on writelock K r)) (resolve_walk ev user grp names cur cls s)"
  using assms(3-)
proof (induction names arbitrary: cur w cls)
  case Nil
  then show ?case
    by (subst locked_walk.simps, subst resolve_walk.simps) (auto simp: unlock_fail_held split: option.split)
next
  case (Cons n ns)
  note K = Cons.prems(4)
  have Kc: "K (EntryLock cur) = Unlocked" using K by simp
  show ?case
  proof (cases "heap s cur")
    case (Some e)
    show ?thesis
    proof (cases "fskit_entry_set_find_name (children e) n")
      case None
      then show ?thesis
        unfolding locked_walk.simps [of _ _ _ _ "n # ns"] resolve_walk.simps [of _ _ _ "n # ns"]
        by (simp add: Some unlock_fail_held [where K = K, OF Some Kc])
    next
      case b: (Some b)
      have ab: "cur \<noteq> b" using no_self_child [OF N Some, of n] Cons.prems b by auto
      have P: "set (passes s ns b) \<subseteq> set (passes s (n # ns) cur)" using Some b by auto
      have Kb: "K (EntryLock b) = Unlocked" using K P passes_start by blast
      have step: "locked_walk ev writelock user grp ns b cls s (K(EntryLock b := held_as writelock)) =
          map_option (\<lambda>(r, cls, s). (r, cls, s, locked_on writelock K r)) (resolve_walk ev user grp ns b cls s)" for cls
        by (rule Cons.IH) (use Cons.prems P in auto)
      show ?thesis
      proof (cases "heap s b")
        case None
        then show ?thesis
          unfolding locked_walk.simps [of _ _ _ _ "n # ns"] resolve_walk.simps [of _ _ _ "n # ns"]
          by (simp add: Some b unlock_fail_held [where K = K, OF Some Kc])
      next
        case f: (Some f)
        show ?thesis
        proof (cases rule: eval_cases [OF ev, of b cls s])
          case 1
          then show ?thesis
            unfolding locked_walk.simps [of _ _ _ _ "n # ns"] resolve_walk.simps [of _ _ _ "n # ns"]
            by (simp add: Some b f unlock_fail_held [where K = K, OF Some Kc] hand_over [where K = K, OF ab Some f _ Kc Kb])
        next
          case (2 rc cls')
          then show ?thesis
            unfolding locked_walk.simps [of _ _ _ _ "n # ns"] resolve_walk.simps [of _ _ _ "n # ns"]
            by (simp add: Some b f unlock_fail_held [where K = K, OF Some Kc] hand_over [where K = K, OF ab Some f _ Kc Kb] step)
        qed
      qed
    qed
  qed (simp add: locked_walk.simps [of _ _ _ _ "n # ns"] resolve_walk.simps [of _ _ _ "n # ns"])
qed

text \<open>Nothing that the path leads through is locked.\<close>

definition path_free :: "string \<Rightarrow> fs \<Rightarrow> locks \<Rightarrow> bool" where
  "path_free path s K = (K CoreLock = Unlocked \<and> list_all (\<lambda>a. K (EntryLock a) = Unlocked) (passes s (path_names path) 0))"

lemma path_free_no_locks [simp]: "path_free path s no_locks"
  by (simp add: path_free_def list_all_iff)

lemma locked_resolve_cls_eq:
  assumes N: "no_self s" and ev: "quiet_eval ev" and "dotdot_free path" and K: "path_free path s K"
  shows "locked_resolve_path_cls V ev path user grp writelock cls s K =
    map_option (\<lambda>(r, cls, s). (r, cls, s, locked_on writelock K r)) (fskit_entry_resolve_path_cls V ev path user grp cls s)"
proof (cases "path = [] \<or> heap s 0 = None")
  case False
  then obtain r where r: "heap s 0 = Some r" and path: "path \<noteq> []" by auto
  let ?w = "writelock \<and> path_names path = []"
  have names: "''.'' \<notin> set (path_names path)" "''..'' \<notin> set (path_names path)"
    using assms(3) path by (auto simp: path_names_eq dotdot_free_def)
  have K0: "K CoreLock = Unlocked" "K (EntryLock 0) = Unlocked"
    using K passes_start [of 0 s "path_names path"] by (auto simp: path_free_def list_all_iff)
  have walk: "locked_walk ev writelock user grp (path_names path) 0 cls s (K(EntryLock 0 := held_as ?w)) =
      map_option (\<lambda>(r, cls, s). (r, cls, s, locked_on writelock K r)) (resolve_walk ev user grp (path_names path) 0 cls s)" for cls
    by (rule locked_walk_eq [OF N ev names]) (use K in \<open>auto simp: path_free_def list_all_iff\<close>)
  note defs = locked_resolve_path_cls_def locked_root [where K = K, OF r K0] fskit_entry_resolve_path_cls_def fskit_core_resolve_root_def
  show ?thesis
  proof (cases rule: eval_cases [OF ev, of 0 cls s])
    case 1
    then show ?thesis using path r by (simp add: defs unlock_fail_held [where K = K, OF r K0(2)])
  next
    case (2 rc cls')
    then show ?thesis using path r by (simp add: defs unlock_fail_held [where K = K, OF r K0(2)] walk)
  qed
qed (auto simp: locked_resolve_path_cls_def fskit_entry_resolve_path_cls_def locked_resolve_root_def fskit_core_rlock2_def
    rwlock_rdlock_def fskit_core_resolve_root_def bind_eq_None_conv)

definition locked_outcome :: "bool \<Rightarrow> int + addr \<Rightarrow> (int + addr) \<times> locks" where
  "locked_outcome writelock r = (r, case r of Inl _ \<Rightarrow> no_locks | Inr a \<Rightarrow> no_locks(EntryLock a := held_as writelock))"

lemma locked_outcome_simps [simp]:
  "locked_outcome w (Inl err) = (Inl err, no_locks)" "locked_outcome w (Inr a) = (Inr a, no_locks(EntryLock a := held_as w))"
  by (simp_all add: locked_outcome_def)

lemma locked_resolve_free:
  assumes "no_self s" and "dotdot_free path" and "path_free path s K"
  shows "locked_resolve_path V path user grp writelock s K =
    map_option (\<lambda>r. (r, locked_on writelock K r)) (fskit_entry_resolve_path V path user grp s)"
  by (simp add: locked_resolve_path_def locked_resolve_cls_eq [OF assms(1) _ assms(2,3)] quiet_eval_def
      fskit_entry_resolve_path_def option.map_comp comp_def case_prod_unfold)

lemma locked_resolve_eq:
  assumes N: "no_self s" and "dotdot_free path"
  shows "locked_resolve_path V path user grp writelock s no_locks =
    map_option (locked_outcome writelock) (fskit_entry_resolve_path V path user grp s)"
  unfolding locked_resolve_free [OF assms path_free_no_locks] locked_on_def locked_outcome_def ..

text \<open>Resolving \<open>"/.."\<close> for writing waits for the lock of the root that the walk itself holds.\<close>

lemma locked_dotdot_deadlock:
  "locked_resolve_path demo_env ''/..'' 0 0 True demo_file no_locks = None"
  by code_simp

subsection \<open>References\<close>

text \<open>The entry is locked while it is referenced, and given back unless it has been destroyed, together with its lock.\<close>

definition locked_ref :: "env \<Rightarrow> string \<Rightarrow> fs \<Rightarrow> locks \<Rightarrow> ((int + addr) \<times> fs \<times> locks) option" where
  "locked_ref V fs_path s K =
     do {
       (r, K) \<leftarrow> locked_resolve_path V fs_path 0 0 True s K;
       case r of
         Inl rc \<Rightarrow> Some (Inl rc, s, K)
       | Inr fent \<Rightarrow>
           do {
             s \<leftarrow> fskit_entry_ref_entry fent s;
             K \<leftarrow> fskit_entry_unlock2 fent s K;
             Some (Inr fent, s, K)
           }
     }"

lemma locked_ref_eq:
  assumes N: "no_self s" and "dotdot_free path"
  shows "locked_ref V path s no_locks = map_option (\<lambda>(r, s). (r, s, no_locks)) (fskit_entry_ref V path s)"
proof -
  have u: "fskit_entry_unlock2 a s' (no_locks(EntryLock a := held_as True)) = Some no_locks" if "upd a f s = Some s'" for a f s'
    using unlock_held [of s' a _ "no_locks(EntryLock a := held_as True)" True] that
    by (auto simp: upd_def no_locks_def fun_upd_idem split: option.splits)
  show ?thesis
  proof (cases "fskit_entry_resolve_path V path 0 0 s")
    case (Some r)
    then have "locked_resolve_path V path 0 0 True s no_locks = Some (locked_outcome True r)"
      by (simp add: locked_resolve_eq [OF assms])
    then show ?thesis
      using Some by (cases r; cases "upd (projr r) (\<lambda>e. e\<lparr>open_count := open_count e + 1\<rparr>) s")
        (simp_all add: locked_ref_def fskit_entry_ref_def fskit_entry_ref_entry_def u)
  qed (simp add: locked_ref_def fskit_entry_ref_def locked_resolve_eq [OF assms])
qed

subsection \<open>The path iterator\<close>

definition locked_path_begin :: "string \<Rightarrow> bool \<Rightarrow> fs \<Rightarrow> locks \<Rightarrow> (path_iterator \<times> locks) option" where
  "locked_path_begin path writelock s K =
     do {
       (root, K) \<leftarrow> locked_resolve_root writelock s K;
       itr \<leftarrow> fskit_path_begin path s;
       case root of
         None \<Rightarrow> Some (itr, K)
       | Some root \<Rightarrow>
           (if it_rc itr \<noteq> 0 then do { K \<leftarrow> fskit_entry_unlock2 root s K; Some (itr, K) } else Some (itr, K))
     }"

definition unlock_if :: "addr option \<Rightarrow> fs \<Rightarrow> locks \<Rightarrow> locks option" where
  "unlock_if a s K = (case a of None \<Rightarrow> Some K | Some a \<Rightarrow> fskit_entry_unlock2 a s K)"

definition locked_path_next :: "env \<Rightarrow> bool \<Rightarrow> path_iterator \<Rightarrow> fs \<Rightarrow> locks \<Rightarrow> (path_iterator \<times> locks) option" where
  "locked_path_next V writelock itr s K =
     (if it_end_of_path itr then Some (itr, K)
      else do {
        K \<leftarrow> unlock_if (it_prev_ent itr) s K;
        itr \<leftarrow> fskit_path_next V itr s;
        case it_cur_ent itr of
          None \<Rightarrow> Some (itr, K)
        | Some cur \<Rightarrow> do { K \<leftarrow> lock_entry writelock cur s K; Some (itr, K) }
      })"

definition fskit_path_iterator_release :: "path_iterator \<Rightarrow> fs \<Rightarrow> locks \<Rightarrow> locks option" where
  "fskit_path_iterator_release itr s K =
     do { K \<leftarrow> unlock_if (it_prev_ent itr) s K; unlock_if (it_cur_ent itr) s K }"

text \<open>\<open>hold w A\<close>: the locks of the inodes in \<open>A\<close> are held, and no other.\<close>

definition hold :: "bool \<Rightarrow> addr set \<Rightarrow> locks" where
  "hold w A = (\<lambda>l. case l of EntryLock a \<Rightarrow> if a \<in> A then held_as w else Unlocked | _ \<Rightarrow> Unlocked)"

lemma hold_simps [simp]:
  "hold w {} = no_locks" "hold w A (EntryLock a) = (if a \<in> A then held_as w else Unlocked)"
  "(hold w A)(EntryLock a := Unlocked) = hold w (A - {a})" "(hold w A)(EntryLock a := held_as w) = hold w (insert a A)"
  by (auto simp: hold_def no_locks_def fun_eq_iff split: lock_id.split)

lemma hold_one: "no_locks(EntryLock a := held_as w) = hold w {a}"
  by (auto simp: hold_def no_locks_def fun_eq_iff split: lock_id.split)

text \<open>An iterator holds the locks of its entry and of that entry's parent.\<close>

definition it_holds :: "bool \<Rightarrow> path_iterator \<Rightarrow> fs \<Rightarrow> locks \<Rightarrow> bool" where
  "it_holds w itr s K =
     (K = hold w (set_option (it_prev_ent itr) \<union> set_option (it_cur_ent itr)) \<and>
      (it_prev_ent itr \<noteq> None \<longrightarrow> it_prev_ent itr \<noteq> it_cur_ent itr) \<and>
      (\<forall>a. it_prev_ent itr = Some a \<or> it_cur_ent itr = Some a \<longrightarrow> heap s a \<noteq> None))"

lemma unlock_if_held:
  assumes "set_option p \<subseteq> A" and "\<And>a. p = Some a \<Longrightarrow> heap s a \<noteq> None"
  shows "unlock_if p s (hold w A) = Some (hold w (A - set_option p))"
proof (cases p)
  case (Some a)
  then obtain e where "heap s a = Some e" using assms(2) by auto
  then show ?thesis using unlock_held [of s a e "hold w A" w] assms(1) Some by (simp add: unlock_if_def)
qed (simp add: unlock_if_def)

lemma release_holds: "it_holds w itr s K \<Longrightarrow> fskit_path_iterator_release itr s K = Some no_locks"
proof -
  let ?p = "it_prev_ent itr" and ?c = "it_cur_ent itr"
  assume H: "it_holds w itr s K"
  have d: "set_option ?p \<inter> set_option ?c = {}" using H by (cases ?p; cases ?c) (auto simp: it_holds_def)
  have K: "K = hold w (set_option ?p \<union> set_option ?c)" using H by (simp add: it_holds_def)
  have "unlock_if ?p s K = Some (hold w (set_option ?p \<union> set_option ?c - set_option ?p))"
    unfolding K by (rule unlock_if_held) (use H in \<open>auto simp: it_holds_def\<close>)
  moreover have "set_option ?p \<union> set_option ?c - set_option ?p = set_option ?c" using d by blast
  moreover have "unlock_if ?c s (hold w (set_option ?c)) = Some (hold w (set_option ?c - set_option ?c))"
    by (rule unlock_if_held) (use H in \<open>auto simp: it_holds_def\<close>)
  ultimately show ?thesis by (simp add: fskit_path_iterator_release_def)
qed

subsection \<open>The names of an iterator\<close>

text \<open>The names that an iterator has still to visit. It starts at a name and skips slashes after one.\<close>

definition at_name :: "string \<Rightarrow> bool" where
  "at_name p = (p = [] \<or> hd p \<noteq> slash)"

definition names_ahead :: "string \<Rightarrow> string list" where
  "names_ahead p = filter (\<lambda>n. n \<noteq> ''.'') (split_names p)"

lemma split_names_skip: "split_names (dropWhile (\<lambda>c. c = slash) p) = split_names p"
  by (induction p) simp_all

lemma at_name_skip: "at_name (dropWhile (\<lambda>c. c = slash) p)"
  using hd_dropWhile [of "\<lambda>c. c = slash" p] by (auto simp: at_name_def simp del: hd_dropWhile)

lemma split_names_at_name:
  assumes "at_name p" and "p \<noteq> []"
  shows "split_names p = takeWhile (\<lambda>c. c \<noteq> slash) p # split_names (dropWhile (\<lambda>c. c = slash) (dropWhile (\<lambda>c. c \<noteq> slash) p))"
proof (cases p)
  case (Cons c cs)
  then have c: "c \<noteq> slash" using assms(1) by (simp add: at_name_def)
  have "split_names (drop 1 (dropWhile (\<lambda>c. c \<noteq> slash) cs)) = split_names (dropWhile (\<lambda>c. c \<noteq> slash) cs)"
    by (cases "dropWhile (\<lambda>c. c \<noteq> slash) cs") (auto simp del: dropWhile_eq_Nil_conv dest: dropWhile_eq_Cons_conv [THEN iffD1])
  then show ?thesis using c Cons split_names_skip by simp
qed (use assms in simp)

lemma next_name_ahead:
  "next_name tmp len = (n, rest, len') \<Longrightarrow> at_name tmp \<Longrightarrow>
    (case n of None \<Rightarrow> names_ahead tmp = [] | Some m \<Rightarrow> names_ahead tmp = m # names_ahead rest \<and> m \<noteq> ''.'') \<and> at_name rest"
proof (induction tmp len arbitrary: n rest len' rule: next_name.induct)
  case (1 tmp len)
  define r where "r = dropWhile (\<lambda>c. c = slash) (dropWhile (\<lambda>c. c \<noteq> slash) tmp)"
  let ?len = "len + (length tmp - length r)" and ?name = "takeWhile (\<lambda>c. c \<noteq> slash) tmp"
  have eq: "next_name tmp len = (if ?len = 0 \<or> (r = [] \<and> ?name = []) then (None, r, ?len)
      else if ?name = ''.'' then next_name r ?len else (Some ?name, r, ?len))"
    by (subst next_name.simps) (simp only: Let_def r_def)
  have r: "at_name r" using at_name_skip by (simp add: r_def)
  show ?case
  proof (cases "tmp = []")
    case True
    then show ?thesis using 1(2) r by (simp add: eq r_def names_ahead_def)
  next
    case False
    then have name: "?name \<noteq> []" using 1(3) by (cases tmp) (simp_all add: at_name_def)
    have "length r \<le> length (dropWhile (\<lambda>c. c \<noteq> slash) tmp)" by (simp add: r_def length_dropWhile_le)
    moreover have "length (dropWhile (\<lambda>c. c \<noteq> slash) tmp) < length tmp"
      using name by (metis length_append length_greater_0_conv less_add_same_cancel2 takeWhile_dropWhile_id)
    ultimately have len: "?len \<noteq> 0" by simp
    have ahead: "names_ahead tmp = (if ?name = ''.'' then names_ahead r else ?name # names_ahead r)"
      using split_names_at_name [OF 1(3) False] by (simp add: names_ahead_def r_def)
    show ?thesis
    proof (cases "?name = ''.''")
      case True
      then have n: "next_name r ?len = (n, rest, len')" using 1(2) len name True unfolding eq by (auto simp del: next_name.simps split: if_splits)
      have "(case n of None \<Rightarrow> names_ahead r = [] | Some m \<Rightarrow> names_ahead r = m # names_ahead rest \<and> m \<noteq> ''.'') \<and> at_name rest"
        by (rule 1(1) [OF refl refl _ refl _ _ n r]) (use True len name in \<open>simp_all add: r_def del: next_name.simps\<close>)
      then show ?thesis using True ahead by (cases n) simp_all
    next
      case False
      then show ?thesis using 1(2) len name r ahead unfolding eq by auto
    qed
  qed
qed

subsection \<open>The iterator's locks\<close>

definition it_ok :: "bool \<Rightarrow> path_iterator \<Rightarrow> fs \<Rightarrow> locks \<Rightarrow> bool" where
  "it_ok w itr s K = (it_holds w itr s K \<and> at_name (it_name itr) \<and> ''..'' \<notin> set (names_ahead (it_name itr)))"

lemma begin_ok:
  assumes "dotdot_free path" and "fskit_path_begin path s = Some itr"
  shows "\<exists>K. locked_path_begin path w s no_locks = Some (itr, K) \<and> it_ok w itr s K"
proof (cases "heap s 0")
  case (Some r)
  have unlock: "fskit_entry_unlock2 0 s (no_locks(EntryLock 0 := held_as w)) = Some no_locks"
    using unlock_held [OF Some, of "no_locks(EntryLock 0 := held_as w)" w] by (simp add: no_locks_def fun_upd_idem)
  have none: "it_ok w (zero_iterator\<lparr>it_rc := - ENOENT\<rparr>) s no_locks"
    by (simp add: it_ok_def it_holds_def zero_iterator_def no_locks_def at_name_def names_ahead_def)
  have start: "it_ok w (zero_iterator\<lparr>it_path := path, it_cur_ent := Some 0, it_name := dropWhile (\<lambda>c. c = slash) path,
      it_name_i := length (takeWhile (\<lambda>c. c = slash) path)\<rparr>) s (no_locks(EntryLock 0 := held_as w))"
    using assms(1) at_name_skip [of path] Some
    by (simp add: it_ok_def it_holds_def zero_iterator_def hold_one names_ahead_def split_names_skip dotdot_free_def)
  consider "etype r \<noteq> T_DIR \<or> deletion_in_progress r" | "etype r = T_DIR" "\<not> deletion_in_progress r" "link_count r = 0"
    | "etype r = T_DIR" "\<not> deletion_in_progress r" "link_count r \<noteq> 0" by blast
  then show ?thesis
  proof cases
    case 1
    then show ?thesis using assms(2) Some none
      by (auto simp: locked_path_begin_def locked_root [OF Some] fskit_path_begin_def fskit_core_resolve_root_def)
  next
    case 2
    then have itr: "itr = zero_iterator\<lparr>it_rc := - ENOENT\<rparr>"
      using assms(2) Some
      by (simp add: fskit_path_begin_def fskit_core_resolve_root_def zero_iterator_def ENOENT_def)
    have "locked_path_begin path w s no_locks = Some (zero_iterator\<lparr>it_rc := - ENOENT\<rparr>, no_locks)"
      using 2 assms(2) Some unlock itr
      by (simp add: locked_path_begin_def locked_root [OF Some] ENOENT_def zero_iterator_def)
    then show ?thesis using none itr by simp
  next
    case 3
    let ?i = "zero_iterator\<lparr>it_path := path, it_cur_ent := Some 0, it_name := dropWhile (\<lambda>c. c = slash) path,
      it_name_i := length (takeWhile (\<lambda>c. c = slash) path)\<rparr>"
    have b: "fskit_path_begin path s = Some ?i"
      using 3 Some by (simp add: fskit_path_begin_def fskit_core_resolve_root_def)
    have "locked_path_begin path w s no_locks = Some (?i, no_locks(EntryLock 0 := held_as w))"
      using 3 Some b by (simp add: locked_path_begin_def locked_root [OF Some] zero_iterator_def)
    then show ?thesis using start b assms(2) by simp
  qed
qed (use assms(2) in \<open>simp add: fskit_path_begin_def fskit_core_resolve_root_def\<close>)

text \<open>What a step does to the entries: the current one becomes the parent of the next one, if there is one.\<close>

lemma next_entries:
  assumes "no_self s" and "fskit_path_next V itr s = Some itr'" and "\<not> it_end_of_path itr"
    and "at_name (it_name itr)" and "''..'' \<notin> set (names_ahead (it_name itr))"
  shows "it_prev_ent itr' = it_cur_ent itr"
    and "it_cur_ent itr' = Some c \<Longrightarrow> it_prev_ent itr' \<noteq> Some c \<and> heap s c \<noteq> None \<and> (\<exists>p e n. it_cur_ent itr = Some p \<and> heap s p = Some e \<and>
      fskit_entry_set_find_name (children e) n = Some c \<and> n \<noteq> ''.'' \<and> n \<noteq> ''..'')"
    and "at_name (it_name itr')" and "''..'' \<notin> set (names_ahead (it_name itr'))"
proof -
  obtain n rest len where nn: "next_name (it_name itr) 0 = (n, rest, len)" by (cases "next_name (it_name itr) 0")
  note A = next_name_ahead [OF nn assms(4)]
  have N: "fskit_entry_set_find_name (children e) m \<noteq> Some p" if "heap s p = Some e" "m \<noteq> ''.''" "m \<noteq> ''..''" for p e m
    using no_self_child [OF assms(1) that] .
  have "it_prev_ent itr' = it_cur_ent itr \<and> at_name (it_name itr') \<and> ''..'' \<notin> set (names_ahead (it_name itr')) \<and>
    (it_cur_ent itr' = Some c \<longrightarrow> it_prev_ent itr' \<noteq> Some c \<and> heap s c \<noteq> None \<and> (\<exists>p e n. it_cur_ent itr = Some p \<and> heap s p = Some e \<and>
      fskit_entry_set_find_name (children e) n = Some c \<and> n \<noteq> ''.'' \<and> n \<noteq> ''..''))"
    using assms(2-5) nn A N
    by (auto simp: fskit_path_next_def Let_def simp del: next_name.simps split: option.splits if_splits)
  then show "it_prev_ent itr' = it_cur_ent itr" "at_name (it_name itr')" "''..'' \<notin> set (names_ahead (it_name itr'))"
    "it_cur_ent itr' = Some c \<Longrightarrow> it_prev_ent itr' \<noteq> Some c \<and> heap s c \<noteq> None \<and> (\<exists>p e n. it_cur_ent itr = Some p \<and> heap s p = Some e \<and>
      fskit_entry_set_find_name (children e) n = Some c \<and> n \<noteq> ''.'' \<and> n \<noteq> ''..'')"
    by blast+
qed

lemma next_ok:
  assumes N: "no_self s" and L: "all_live s" and I: "it_ok w itr s K" and f: "fskit_path_next V itr s = Some itr'"
  shows "\<exists>K'. locked_path_next V w itr s K = Some (itr', K') \<and> it_ok w itr' s K'"
proof (cases "it_end_of_path itr")
  case False
  have H: "it_holds w itr s K" and names: "at_name (it_name itr)" "''..'' \<notin> set (names_ahead (it_name itr))"
    using I by (simp_all add: it_ok_def)
  let ?p = "it_prev_ent itr" and ?c = "it_cur_ent itr"
  have d: "set_option ?p \<inter> set_option ?c = {}" using H by (cases ?p; cases ?c) (auto simp: it_holds_def)
  have K: "K = hold w (set_option ?p \<union> set_option ?c)" using H by (simp add: it_holds_def)
  have "unlock_if ?p s K = Some (hold w (set_option ?p \<union> set_option ?c - set_option ?p))"
    unfolding K by (rule unlock_if_held) (use H in \<open>auto simp: it_holds_def\<close>)
  moreover have "set_option ?p \<union> set_option ?c - set_option ?p = set_option ?c" using d by blast
  ultimately have u: "unlock_if ?p s K = Some (hold w (set_option ?c))" by simp
  note E = next_entries [OF N f False names]
  have live: "\<forall>a. it_cur_ent itr = Some a \<longrightarrow> heap s a \<noteq> None" using H by (simp add: it_holds_def)
  have "\<exists>K'. locked_path_next V w itr s K = Some (itr', K') \<and> it_holds w itr' s K'"
  proof (cases "it_cur_ent itr'")
    case None
    then show ?thesis using False u f E(1) live by (simp add: locked_path_next_def it_holds_def)
  next
    case (Some c)
    note c = E(2) [OF Some]
    obtain e where e: "heap s c = Some e" "etype e \<noteq> T_DEAD" using c L by (auto simp: all_live_def)
    have "lock_entry w c s (hold w (set_option ?c)) = Some ((hold w (set_option ?c))(EntryLock c := held_as w))"
      by (rule lock_unlocked [OF e]) (use c E(1) in \<open>cases ?c; simp\<close>)
    then have "locked_path_next V w itr s K = Some (itr', hold w (insert c (set_option ?c)))"
      using False u f Some by (simp add: locked_path_next_def)
    moreover have "insert c (set_option ?c) = set_option (it_prev_ent itr') \<union> set_option (it_cur_ent itr')"
      by (simp add: E(1) Some)
    moreover have "\<forall>a. it_prev_ent itr' = Some a \<or> it_cur_ent itr' = Some a \<longrightarrow> heap s a \<noteq> None"
      using live e(1) by (auto simp: E(1) Some)
    ultimately show ?thesis using c Some unfolding it_holds_def by simp
  qed
  then show ?thesis using E(3,4) by (auto simp: it_ok_def)
qed (use I f in \<open>simp add: locked_path_next_def fskit_path_next_def\<close>)

text \<open>The iterator with and without locks after some steps: whenever it is released, no lock is left.\<close>

fun path_steps :: "env \<Rightarrow> nat \<Rightarrow> path_iterator \<Rightarrow> fs \<Rightarrow> path_iterator option" where
  "path_steps V 0 itr s = Some itr"
| "path_steps V (Suc n) itr s = Option.bind (fskit_path_next V itr s) (\<lambda>itr. path_steps V n itr s)"

fun locked_steps :: "env \<Rightarrow> bool \<Rightarrow> nat \<Rightarrow> path_iterator \<Rightarrow> fs \<Rightarrow> locks \<Rightarrow> (path_iterator \<times> locks) option" where
  "locked_steps V w 0 itr s K = Some (itr, K)"
| "locked_steps V w (Suc n) itr s K = Option.bind (locked_path_next V w itr s K) (\<lambda>(itr, K). locked_steps V w n itr s K)"

lemma steps_ok:
  "no_self s \<Longrightarrow> all_live s \<Longrightarrow> it_ok w itr s K \<Longrightarrow> path_steps V n itr s = Some itr' \<Longrightarrow>
    \<exists>K'. locked_steps V w n itr s K = Some (itr', K') \<and> it_ok w itr' s K'"
proof (induction n arbitrary: itr K)
  case (Suc n)
  then obtain itr1 where n: "fskit_path_next V itr s = Some itr1" "path_steps V n itr1 s = Some itr'" by (auto simp: bind_eq_Some)
  then obtain K1 where "locked_path_next V w itr s K = Some (itr1, K1)" "it_ok w itr1 s K1" using next_ok Suc.prems by blast
  then show ?case using Suc.IH [OF Suc.prems(1,2) _ n(2)] by simp
qed simp

lemma demo_sets:
  "list_all (\<lambda>(n, b). b = 0 \<longrightarrow> n = ''.'' \<or> n = ''..'') (es_entries (children demo_root))"
  "list_all (\<lambda>(n, b). b = 1 \<longrightarrow> n = ''.'' \<or> n = ''..'') (es_entries (children demo_a))"
  "list_all (\<lambda>(n, b). b = 2 \<longrightarrow> n = ''.'' \<or> n = ''..'') (es_entries (children demo_f))"
  by code_simp+

lemma demo_types: "etype demo_root = T_DIR" "etype demo_a = T_DIR" "etype demo_f = T_FILE"
  by code_simp+

lemma demo_locks_ok: "no_self demo_file" "all_live demo_file"
proof -
  have brk: "brk demo_file = 3" by code_simp
  have dom: "(a, e) \<in> {(0, demo_root), (1, demo_a), (2, demo_f)}" if "heap demo_file a = Some e" for a e
  proof -
    have "a < brk demo_file" using inv_demo(3) that by (auto simp: rinv_def)
    then have "a = 0 \<or> a = 1 \<or> a = 2" using brk by auto
    then show ?thesis using that demo_heap by auto
  qed
  have "n = ''.'' \<or> n = ''..''" if "heap demo_file a = Some e" and "(n, a) \<in> set (es_entries (children e))" for a e n
    using dom [OF that(1)] that(2) demo_sets by (auto simp: list_all_iff)
  then show "no_self demo_file" by (auto simp: no_self_def)
  show "all_live demo_file"
    using dom demo_types by (fastforce simp: all_live_def)
qed

end
