(* ===== verification/Locked.thy ===== *)
theory Locked
  imports Locking
begin

text \<open>
  Calls with the locks they take: routes with their consistency discipline (\<open>route.c\<close>), the destruction of an inode
  (\<open>entry.c\<close>), and whole calls: \<open>unlink\<close>, \<open>rmdir\<close>, \<open>trunc\<close> and \<open>close\<close>.

  The lemmas say that each of them computes what its version without locks computes, and gives back
  every lock that it takes. They need that no route is running and that the inode that the route is called
  for is not locked; what happens otherwise is shown too.
\<close>

subsection \<open>Routes\<close>

text \<open>Where a route that has been found is in its row; a route is a copy of its slot, and the first such slot was chosen.\<close>

definition route_slot :: "fs \<Rightarrow> int \<Rightarrow> path_route \<Rightarrow> nat" where
  "route_slot s t route =
     (case fskit_route_table_get_row (routes s) t of
        None \<Rightarrow> 0
      | Some row \<Rightarrow> length (takeWhile (\<lambda>r. r \<noteq> Some route) (row_slots row)))"

definition inode_discipline :: "path_route \<Rightarrow> bool" where
  "inode_discipline route = (pr_discipline route = FSKIT_INODE_SEQUENTIAL \<or> pr_discipline route = FSKIT_INODE_CONCURRENT)"

definition locked_route_enter ::
    "lock_id \<Rightarrow> path_route \<Rightarrow> addr option \<Rightarrow> dispatch_args \<Rightarrow> fs \<Rightarrow> locks \<Rightarrow> (int \<times> locks) option" where
  "locked_route_enter l route fent da s K =
     (if fent = None \<and> \<not> da_fent_absent da then None
      else do {
        _ \<leftarrow> (case fent of
                None \<Rightarrow> Some ()
              | Some a \<Rightarrow>
                  if pr_type route \<noteq> FSKIT_ROUTE_MATCH_DETACH \<and> pr_type route \<noteq> FSKIT_ROUTE_MATCH_DESTROY
                  then do { e \<leftarrow> heap s a; if open_count e \<le> 0 \<and> link_count e \<le> 0 then None else Some () }
                  else Some ());
        if pr_type route = FSKIT_ROUTE_MATCH_SETMETADATA then Some (0, K)
        else if pr_discipline route = FSKIT_SEQUENTIAL then map_option (Pair 0) (rwlock_wrlock l K)
        else if pr_discipline route = FSKIT_CONCURRENT then map_option (Pair 0) (rwlock_rdlock l K)
        else
          (case fent of
             None \<Rightarrow> Some (0, K)
           | Some a \<Rightarrow>
               if pr_discipline route = FSKIT_INODE_SEQUENTIAL then fskit_entry_wlock2 a s K
               else if pr_discipline route = FSKIT_INODE_CONCURRENT then fskit_entry_rlock2 a s K
               else Some (0, K))
      })"

definition fskit_route_leave :: "lock_id \<Rightarrow> path_route \<Rightarrow> addr option \<Rightarrow> fs \<Rightarrow> locks \<Rightarrow> locks option" where
  "fskit_route_leave l route fent s K =
     (if pr_type route = FSKIT_ROUTE_MATCH_SETMETADATA then Some K
      else
        (case (if inode_discipline route then fent else None) of
           Some a \<Rightarrow> fskit_entry_unlock2 a s K
         | None \<Rightarrow>
             if pr_discipline route = FSKIT_SEQUENTIAL \<or> pr_discipline route = FSKIT_CONCURRENT
             then rwlock_unlock l K
             else Some K))"

text \<open>What runs between the two: the callback, and for input and output the continuation.\<close>

definition route_body ::
    "env \<Rightarrow> route_metadata \<Rightarrow> path_route \<Rightarrow> addr option \<Rightarrow> dispatch_args \<Rightarrow> fs \<Rightarrow> (int \<times> dispatch_args \<times> fs) option" where
  "route_body V rm route fent da s =
     (if pr_type route = FSKIT_ROUTE_MATCH_READ \<or> pr_type route = FSKIT_ROUTE_MATCH_WRITE \<or>
         pr_type route = FSKIT_ROUTE_MATCH_TRUNC
      then (case fskit_safe_dispatch V rm route fent da s of
              (rc, da', s') \<Rightarrow>
                do { s' \<leftarrow> run_io_cont V (da_io_cont da) fent (da_iooff da) rc s'; Some (rc, da', s') })
      else if 0 \<le> pr_type route \<and> pr_type route < int FSKIT_ROUTE_NUM_ROUTE_TYPES
      then Some (fskit_safe_dispatch V rm route fent da s)
      else Some (- EINVAL, da, s))"

definition locked_route_dispatch ::
    "lock_id \<Rightarrow> env \<Rightarrow> route_metadata \<Rightarrow> path_route \<Rightarrow> addr option \<Rightarrow> dispatch_args \<Rightarrow> fs \<Rightarrow> locks \<Rightarrow>
     (int \<times> dispatch_args \<times> fs \<times> locks) option" where
  "locked_route_dispatch l V rm route fent da s K =
     do {
       (rc, K) \<leftarrow> locked_route_enter l route fent da s K;
       if rc \<noteq> 0 then Some (- ev_errno V, da, s, K)
       else do {
         (rc, da, s) \<leftarrow> route_body V rm route fent da s;
         K \<leftarrow> fskit_route_leave l route fent s K;
         Some (rc, da, s, K)
       }
     }"

definition locked_route_call ::
    "env \<Rightarrow> int \<Rightarrow> string \<Rightarrow> addr option \<Rightarrow> dispatch_args \<Rightarrow> fs \<Rightarrow> locks \<Rightarrow>
     (int \<times> int \<times> dispatch_args \<times> fs \<times> locks) option" where
  "locked_route_call V t path fent da s K =
     do {
       K \<leftarrow> fskit_core_route_rlock K;
       (case fskit_route_match V (routes s) t path of
          None \<Rightarrow> None
        | Some None \<Rightarrow> do { K \<leftarrow> fskit_core_route_unlock K; Some (- EPERM, 0, da, s, K) }
        | Some (Some (route, rm)) \<Rightarrow>
            (case fskit_route_metadata_populate V rm da of
               (rm, rc) \<Rightarrow>
                 if rc \<noteq> 0 then do { K \<leftarrow> fskit_core_route_unlock K; Some (- EPERM, 0, da, s, K) }
                 else do {
                   (cbrc, da', s', K) \<leftarrow> locked_route_dispatch (RouteLock t (route_slot s t route)) V rm route fent da s K;
                   K \<leftarrow> fskit_core_route_unlock K;
                   Some (0, cbrc, da', s', K)
                 }))
     }"

text \<open>A lock that is taken and given back.\<close>

lemma rwlock_round:
  assumes "K l = Unlocked"
  shows "rwlock_wrlock l K = Some (K(l := Writer))" "rwlock_rdlock l K = Some (K(l := Readers 0))"
    "rwlock_unlock l (K(l := Writer)) = Some K" "rwlock_unlock l (K(l := Readers 0)) = Some K"
  using assms by (simp_all add: rwlock_wrlock_def rwlock_rdlock_def rwlock_unlock_def fun_upd_idem)

lemma entry_round:
  assumes "K (EntryLock a) = Unlocked" and "heap s a = Some e" and "heap s' a \<noteq> None"
  shows "fskit_entry_wlock2 a s K = Some (if etype e = T_DEAD then (- ENOENT, K) else (0, K(EntryLock a := Writer)))"
    and "fskit_entry_rlock2 a s K = Some (if etype e = T_DEAD then (- ENOENT, K) else (0, K(EntryLock a := Readers 0)))"
    and "fskit_entry_unlock2 a s' (K(EntryLock a := Writer)) = Some K"
    and "fskit_entry_unlock2 a s' (K(EntryLock a := Readers 0)) = Some K"
  using assms rwlock_round [of K "EntryLock a"]
  by (auto simp: fskit_entry_wlock2_def fskit_entry_rlock2_def fskit_entry_unlock2_def)

text \<open>No route is running.\<close>

definition quiet :: "addr option \<Rightarrow> locks \<Rightarrow> bool" where
  "quiet fent K = (K RoutesLock = Unlocked \<and> (\<forall>t i. K (RouteLock t i) = Unlocked) \<and>
     (case fent of None \<Rightarrow> True | Some a \<Rightarrow> K (EntryLock a) = Unlocked))"

lemma dispatch_body:
  "fskit_route_dispatch V rm route fent da s =
    Option.bind (fskit_route_enter route fent da s)
      (\<lambda>rc. if rc \<noteq> 0 then Some (- ev_errno V, da, s) else route_body V rm route fent da s)"
  by (simp only: fskit_route_dispatch_def route_body_def)

lemma body_heap: "route_body V rm route fent da s = Some (rc, da', s') \<Longrightarrow> heap s a \<noteq> None \<Longrightarrow> heap s' a \<noteq> None"
proof -
  assume b: "route_body V rm route fent da s = Some (rc, da', s')" and h: "heap s a \<noteq> None"
  obtain rc1 da1 s1 where d: "fskit_safe_dispatch V rm route fent da s = (rc1, da1, s1)" by (metis prod_cases3)
  have "attr_frame s s1" using safe_dispatch_trace [OF d] attr_frame_trace by metis
  then have "attr_frame s s'" using b d
    by (auto simp: route_body_def bind_eq_Some split: if_splits intro: attr_frame_trans io_cont_frame)
  then have "map_option attr_norm (heap s' a) = map_option attr_norm (heap s a)" by (simp add: attr_frame_def)
  then show ?thesis using h by auto
qed

text \<open>The locks while a route runs.\<close>

definition in_route :: "lock_id \<Rightarrow> path_route \<Rightarrow> addr option \<Rightarrow> locks \<Rightarrow> locks" where
  "in_route l route fent K =
     (if pr_type route = FSKIT_ROUTE_MATCH_SETMETADATA then K
      else if pr_discipline route = FSKIT_SEQUENTIAL then K(l := Writer)
      else if pr_discipline route = FSKIT_CONCURRENT then K(l := Readers 0)
      else
        (case fent of
           None \<Rightarrow> K
         | Some a \<Rightarrow>
             if pr_discipline route = FSKIT_INODE_SEQUENTIAL then K(EntryLock a := Writer)
             else if pr_discipline route = FSKIT_INODE_CONCURRENT then K(EntryLock a := Readers 0)
             else K))"

lemma disciplines [simp]:
  "FSKIT_SEQUENTIAL \<noteq> FSKIT_INODE_SEQUENTIAL" "FSKIT_SEQUENTIAL \<noteq> FSKIT_INODE_CONCURRENT"
  "FSKIT_CONCURRENT \<noteq> FSKIT_INODE_SEQUENTIAL" "FSKIT_CONCURRENT \<noteq> FSKIT_INODE_CONCURRENT"
  "FSKIT_INODE_SEQUENTIAL \<noteq> FSKIT_SEQUENTIAL" "FSKIT_INODE_CONCURRENT \<noteq> FSKIT_SEQUENTIAL"
  "FSKIT_INODE_SEQUENTIAL \<noteq> FSKIT_CONCURRENT" "FSKIT_INODE_CONCURRENT \<noteq> FSKIT_CONCURRENT"
  by (simp_all add: FSKIT_SEQUENTIAL_def FSKIT_CONCURRENT_def FSKIT_INODE_SEQUENTIAL_def FSKIT_INODE_CONCURRENT_def)

text \<open>Routes that lock the inode that they are called for.\<close>

definition locks_inode :: "path_route \<Rightarrow> bool" where
  "locks_inode route = (inode_discipline route \<and> pr_type route \<noteq> FSKIT_ROUTE_MATCH_SETMETADATA)"

lemma enter_eq:
  assumes l: "K l = Unlocked" and q: "\<And>a. fent = Some a \<Longrightarrow> locks_inode route \<Longrightarrow> K (EntryLock a) = Unlocked"
  shows "locked_route_enter l route fent da s K =
    map_option (\<lambda>rc. (rc, if rc = 0 then in_route l route fent K else K)) (fskit_route_enter route fent da s)"
proof (cases fent)
  case None
  then show ?thesis
    using rwlock_round [of K l, OF l] by (simp add: locked_route_enter_def fskit_route_enter_def in_route_def)
next
  case (Some a)
  note qa = q [OF Some]
  show ?thesis
  proof (cases "heap s a")
    case None
    then show ?thesis using Some l
      by (auto simp: locked_route_enter_def fskit_route_enter_def in_route_def rwlock_round fskit_entry_lock_def
          fskit_entry_wlock2_def fskit_entry_rlock2_def)
  next
    case e: (Some e)
    show ?thesis
    proof (cases "locks_inode route")
      case True
      then show ?thesis using \<open>fent = Some a\<close> e l entry_round(1,2) [where K = K and a = a and s' = s, OF qa e] ENOENT_def
        by (auto simp: locked_route_enter_def fskit_route_enter_def in_route_def rwlock_round fskit_entry_lock_def locks_inode_def)
    next
      case False
      then show ?thesis using \<open>fent = Some a\<close> e l
        by (auto simp: locked_route_enter_def fskit_route_enter_def in_route_def rwlock_round locks_inode_def inode_discipline_def)
    qed
  qed
qed

lemma leave_eq:
  assumes l: "K l = Unlocked" and q: "\<And>a. fent = Some a \<Longrightarrow> locks_inode route \<Longrightarrow> K (EntryLock a) = Unlocked"
    and "fskit_route_enter route fent da s = Some 0" and h: "\<And>a. heap s a \<noteq> None \<Longrightarrow> heap s' a \<noteq> None"
  shows "fskit_route_leave l route fent s' (in_route l route fent K) = Some K"
proof (cases fent)
  case None
  then show ?thesis using l by (simp add: fskit_route_leave_def in_route_def rwlock_round)
next
  case (Some a)
  have "heap s' a \<noteq> None" if "inode_discipline route" "pr_type route \<noteq> FSKIT_ROUTE_MATCH_SETMETADATA"
    using assms(3) Some that h [of a]
    by (auto simp: fskit_route_enter_def inode_discipline_def bind_eq_Some fskit_entry_lock_def split: option.splits if_splits)
  then show ?thesis using Some l q [OF Some] rwlock_round(3,4) [of K "EntryLock a"]
    by (auto simp: fskit_route_leave_def in_route_def rwlock_round locks_inode_def inode_discipline_def fskit_entry_unlock2_def)
qed

lemma locked_dispatch_eq:
  assumes l: "K l = Unlocked" and q: "\<And>a. fent = Some a \<Longrightarrow> locks_inode route \<Longrightarrow> K (EntryLock a) = Unlocked"
  shows "locked_route_dispatch l V rm route fent da s K =
    map_option (\<lambda>(rc, da, s). (rc, da, s, K)) (fskit_route_dispatch V rm route fent da s)"
proof (cases "fskit_route_enter route fent da s")
  case None
  then show ?thesis by (simp add: locked_route_dispatch_def enter_eq [OF l q] dispatch_body)
next
  case (Some rc)
  show ?thesis
  proof (cases "rc = 0 \<and> route_body V rm route fent da s \<noteq> None")
    case True
    then obtain rc' da' s' where b: "route_body V rm route fent da s = Some (rc', da', s')" by auto
    have "fskit_route_leave l route fent s' (in_route l route fent K) = Some K"
      by (rule leave_eq [OF l q, where s = s and da = da]) (use Some True body_heap [OF b] in auto)
    then show ?thesis using Some True b by (simp add: locked_route_dispatch_def enter_eq [OF l q] dispatch_body)
  next
    case False
    then show ?thesis using Some
      by (cases "route_body V rm route fent da s") (auto simp: locked_route_dispatch_def enter_eq [OF l q] dispatch_body)
  qed
qed

lemma locked_call_free:
  assumes q: "quiet None K"
    and f: "\<And>a route rm. fent = Some a \<Longrightarrow> fskit_route_match V (routes s) t path = Some (Some (route, rm)) \<Longrightarrow>
      locks_inode route \<Longrightarrow> K (EntryLock a) = Unlocked"
  shows "locked_route_call V t path fent da s K =
    map_option (\<lambda>(rc, cbrc, da, s). (rc, cbrc, da, s, K)) (fskit_route_call V t path fent da s)"
proof -
  let ?K = "K(RoutesLock := Readers 0)"
  have K: "K RoutesLock = Unlocked" "?K (RouteLock t i) = Unlocked" for i
    using q by (auto simp: quiet_def)
  have d: "locked_route_dispatch (RouteLock t i) V rm route fent da s ?K =
      map_option (\<lambda>(rc, da, s). (rc, da, s, ?K)) (fskit_route_dispatch V rm route fent da s)"
    if "fskit_route_match V (routes s) t path = Some (Some (route, rm'))" for i rm rm' route
    by (rule locked_dispatch_eq) (use K f that in auto)
  note defs = locked_route_call_def fskit_route_call_def fskit_core_route_rlock_def fskit_core_route_unlock_def
    rwlock_round [of K RoutesLock, OF K(1)]
  show ?thesis
  proof (cases "\<exists>route rm. fskit_route_match V (routes s) t path = Some (Some (route, rm))")
    case True
    then obtain route rm where m: "fskit_route_match V (routes s) t path = Some (Some (route, rm))" by auto
    show ?thesis
      by (auto simp: defs m d [OF m] map_option_bind bind_map_option comp_def case_prod_unfold)
  qed (auto simp: defs split: option.split)
qed

lemma locked_call_eq:
  assumes "quiet fent K"
  shows "locked_route_call V t path fent da s K =
    map_option (\<lambda>(rc, cbrc, da, s). (rc, cbrc, da, s, K)) (fskit_route_call V t path fent da s)"
  by (rule locked_call_free) (use assms in \<open>auto simp: quiet_def\<close>)

text \<open>A route of an inode discipline, called for an inode that the caller has locked, waits for the caller.\<close>

lemma locked_call_blocks:
  assumes "K (EntryLock a) = Writer" and "locks_inode route"
  shows "locked_route_enter l route (Some a) da s K = None"
proof -
  have "fskit_entry_wlock2 a s K = None" "fskit_entry_rlock2 a s K = None"
    using assms(1) by (simp_all add: fskit_entry_wlock2_def fskit_entry_rlock2_def rwlock_wrlock_def rwlock_rdlock_def bind_eq_None_conv)
  then show ?thesis using assms(2) by (auto simp: locked_route_enter_def locks_inode_def inode_discipline_def bind_eq_None_conv)
qed

subsection \<open>Destroying an inode\<close>

definition locked_run_user_destroy ::
    "env \<Rightarrow> string \<Rightarrow> addr option \<Rightarrow> addr \<Rightarrow> fs \<Rightarrow> locks \<Rightarrow> (int \<times> fs \<times> locks) option" where
  "locked_run_user_destroy V path parent fent s K =
     do {
       name \<leftarrow> name_buf path;
       e \<leftarrow> heap s fent;
       (rc, cbrc, da, s, K) \<leftarrow> locked_route_call V FSKIT_ROUTE_MATCH_DESTROY path (Some fent)
          (fskit_route_destroy_args parent name (deletion_through_rename e) (app_data e)) s K;
       if rc = - EPERM \<or> rc = - ENOSYS then Some (0, s, K)
       else if cbrc \<noteq> 0 then Some (cbrc, s, K)
       else Some (0, s, K)
     }"

text \<open>A lock that is destroyed must not be held.\<close>

definition rwlock_destroy :: "lock_id \<Rightarrow> locks \<Rightarrow> locks option" where
  "rwlock_destroy l K = (if K l = Unlocked then Some K else None)"

definition locked_entry_destroy :: "addr \<Rightarrow> bool \<Rightarrow> fs \<Rightarrow> locks \<Rightarrow> (fs \<times> locks) option" where
  "locked_entry_destroy fent needlock s K =
     do {
       e \<leftarrow> heap s fent;
       if etype e = T_DEAD then Some (s, K)
       else do {
         K \<leftarrow> (if needlock then lock_entry True fent s K else Some K);
         s \<leftarrow> fskit_entry_destroy fent s;
         K \<leftarrow> (if needlock then fskit_entry_unlock2 fent s K else Some K);
         K \<leftarrow> rwlock_destroy (EntryLock fent) K;
         Some (s, K)
       }
     }"

text \<open>The destroy route runs while the inode has a reference and is not locked.\<close>

definition locked_try_destroy_and_free ::
    "env \<Rightarrow> string \<Rightarrow> addr option \<Rightarrow> addr \<Rightarrow> fs \<Rightarrow> locks \<Rightarrow> (int \<times> fs \<times> locks) option" where
  "locked_try_destroy_and_free V path parent fent s K =
     do {
       e \<leftarrow> heap s fent;
       if link_count e \<le> 0 \<and> open_count e \<le> 0 then
         (if link_count e < 0 then None
          else if open_count e < 0 then None
          else do {
            s \<leftarrow> upd fent (\<lambda>e. e\<lparr>open_count := open_count e + 1\<rparr>) s;
            K \<leftarrow> fskit_entry_unlock2 fent s K;
            (_, s, K) \<leftarrow> locked_run_user_destroy V path parent fent s K;
            (s, K) \<leftarrow> locked_entry_destroy fent False s K;
            s \<leftarrow> free_entry fent s;
            Some (1, s, K)
          })
       else Some (0, s, K)
     }"

lemma locked_user_destroy_eq:
  "quiet (Some fent) K \<Longrightarrow> locked_run_user_destroy V path parent fent s K =
    map_option (\<lambda>(rc, s). (rc, s, K)) (fskit_run_user_destroy V path parent fent s)"
  by (auto simp: locked_run_user_destroy_def fskit_run_user_destroy_def fskit_route_call_destroy_def locked_call_eq
      map_option_bind bind_map_option comp_def case_prod_unfold intro!: Option.bind_cong)

lemma locked_destroy_eq:
  assumes q: "quiet None K" and w: "K (EntryLock fent) = Writer"
  shows "locked_try_destroy_and_free V path parent fent s K =
    map_option (\<lambda>(rc, s). (rc, s, if rc > 0 then K(EntryLock fent := Unlocked) else K))
      (fskit_entry_try_destroy_and_free V path parent fent s)"
proof (cases "heap s fent")
  case None
  then show ?thesis
    by (simp add: locked_try_destroy_and_free_def fskit_entry_try_destroy_and_free_def
        fskit_entry_try_destroy_and_free_ex_def fskit_entry_try_destroy_def)
next
  case (Some e)
  let ?K = "K(EntryLock fent := Unlocked)" and ?s = "s\<lparr>heap := (heap s)(fent \<mapsto> e\<lparr>open_count := open_count e + 1\<rparr>)\<rparr>"
  have q1: "quiet (Some fent) ?K" using q by (simp add: quiet_def)
  have u: "fskit_entry_unlock2 fent ?s K = Some ?K" using w by (simp add: fskit_entry_unlock2_def rwlock_unlock_def)
  have d: "locked_entry_destroy fent False (?s\<lparr>trace := t\<rparr>) ?K =
      map_option (\<lambda>s. (s, ?K)) (fskit_entry_destroy fent (?s\<lparr>trace := t\<rparr>))" for t
    by (simp add: locked_entry_destroy_def rwlock_destroy_def fskit_entry_destroy_def upd_def)
  show ?thesis
  proof (cases "fskit_run_user_destroy V path parent fent ?s")
    case None
    then show ?thesis using Some u
      by (auto simp: locked_try_destroy_and_free_def fskit_entry_try_destroy_and_free_def
          fskit_entry_try_destroy_and_free_ex_def fskit_entry_try_destroy_def upd_simp locked_user_destroy_eq [OF q1])
  next
    case (Some x)
    then obtain rc t where "fskit_run_user_destroy V path parent fent ?s = Some (rc, ?s\<lparr>trace := t\<rparr>)"
      using run_user_destroy_trace by (cases x) metis
    then show ?thesis using \<open>heap s fent = Some e\<close> u d
      by (auto simp: locked_try_destroy_and_free_def fskit_entry_try_destroy_and_free_def
          fskit_entry_try_destroy_and_free_ex_def fskit_entry_try_destroy_def upd_simp locked_user_destroy_eq [OF q1]
          map_option_bind bind_map_option comp_def intro!: Option.bind_cong)
  qed
qed

text \<open>Giving up a reference: the entry must not be locked before.\<close>

definition locked_unref :: "env \<Rightarrow> string \<Rightarrow> addr \<Rightarrow> fs \<Rightarrow> locks \<Rightarrow> (int \<times> fs \<times> locks) option" where
  "locked_unref V fs_path fent s K =
     do {
       K \<leftarrow> lock_entry True fent s K;
       s \<leftarrow> upd fent (\<lambda>e. e\<lparr>open_count := open_count e - 1\<rparr>) s;
       e \<leftarrow> heap s fent;
       if open_count e \<le> 0 \<and> link_count e \<le> 0 then
         do {
           (rc, s, K) \<leftarrow> locked_try_destroy_and_free V fs_path None fent s K;
           if rc < 0 then do { K \<leftarrow> fskit_entry_unlock2 fent s K; Some (rc, s, K) }
           else if rc = 0 then do { K \<leftarrow> fskit_entry_unlock2 fent s K; Some (rc, s, K) }
           else Some (0, s, K)
         }
       else do { K \<leftarrow> fskit_entry_unlock2 fent s K; Some (0, s, K) }
     }"

text \<open>The end of the calls that may destroy an inode which they have locked: unless it is gone, it is unlocked.\<close>

definition locked_drop ::
    "env \<Rightarrow> string \<Rightarrow> addr option \<Rightarrow> addr \<Rightarrow> fs \<Rightarrow> locks \<Rightarrow> (int \<times> fs \<times> locks) option" where
  "locked_drop V path parent fent s K =
     do {
       (rc, s, K) \<leftarrow> locked_try_destroy_and_free V path parent fent s K;
       if rc > 0 then Some (0, s, K)
       else do { K \<leftarrow> fskit_entry_unlock2 fent s K; Some (rc, s, K) }
     }"

lemma locked_drop_eq:
  assumes q: "quiet None K" and w: "K (EntryLock fent) = Writer"
  shows "locked_drop V path parent fent s K =
    map_option (\<lambda>(rc, s). (if rc > 0 then 0 else rc, s, K(EntryLock fent := Unlocked)))
      (fskit_entry_try_destroy_and_free V path parent fent s)"
proof (cases "fskit_entry_try_destroy_and_free V path parent fent s")
  case (Some x)
  obtain rc s' where x: "x = (rc, s')" by (cases x)
  have "heap s' fent \<noteq> None" if "\<not> rc > 0"
    by (rule try_destroy_and_free_cases [OF Some [unfolded x]]) (use that in auto)
  then show ?thesis using Some x w
    by (auto simp: locked_drop_def locked_destroy_eq [OF q w] fskit_entry_unlock2_def rwlock_unlock_def)
qed (simp add: locked_drop_def locked_destroy_eq [OF q w])

lemma locked_unref_eq:
  assumes q: "quiet (Some fent) K" and e: "heap s fent = Some e" "etype e \<noteq> T_DEAD"
  shows "locked_unref V path fent s K = map_option (\<lambda>(rc, s). (rc, s, K)) (fskit_entry_unref V path fent s)"
proof -
  let ?K = "K(EntryLock fent := Writer)" and ?s = "s\<lparr>heap := (heap s)(fent \<mapsto> e\<lparr>open_count := open_count e - 1\<rparr>)\<rparr>"
  have l: "lock_entry True fent s K = Some ?K"
    using lock_unlocked [OF e, of K True] q by (simp add: quiet_def held_as_def)
  have K: "quiet None ?K" "?K (EntryLock fent) = Writer" "?K(EntryLock fent := Unlocked) = K"
    using q by (simp_all add: quiet_def fun_upd_idem)
  have u: "fskit_entry_unlock2 fent s' ?K = Some K" if "heap s' fent \<noteq> None" for s'
    using that K(3) by (auto simp: fskit_entry_unlock2_def rwlock_unlock_def)
  show ?thesis
  proof (cases "fskit_entry_try_destroy_and_free V path None fent ?s")
    case None
    then show ?thesis using l u e
      by (simp add: locked_unref_def fskit_entry_unref_def upd_simp locked_destroy_eq [OF K(1,2)])
  next
    case (Some x)
    obtain rc s' where x: "x = (rc, s')" by (cases x)
    have "rc > 0 \<or> (rc = 0 \<and> heap s' fent \<noteq> None)"
      by (rule try_destroy_and_free_cases [OF Some [unfolded x]]) auto
    then show ?thesis using Some x l u e K(3)
      by (auto simp: locked_unref_def fskit_entry_unref_def upd_simp locked_destroy_eq [OF K(1,2)])
  qed
qed

subsection \<open>unlink and rmdir\<close>

definition locked_run_user_detach ::
    "env \<Rightarrow> string \<Rightarrow> addr option \<Rightarrow> addr \<Rightarrow> fs \<Rightarrow> locks \<Rightarrow> (int \<times> fs \<times> locks) option" where
  "locked_run_user_detach V path parent fent s K =
     do {
       name \<leftarrow> name_buf path;
       e \<leftarrow> heap s fent;
       (rc, cbrc, da, s, K) \<leftarrow> locked_route_call V FSKIT_ROUTE_MATCH_DETACH path (Some fent)
          (fskit_route_detach_args parent name (deletion_in_progress e) (deletion_through_rename e) (app_data e)) s K;
       if rc = - EPERM \<or> rc = - ENOSYS then Some (0, s, K)
       else if cbrc \<noteq> 0 then Some (cbrc, s, K)
       else Some (0, s, K)
     }"

definition locked_unlink :: "env \<Rightarrow> string \<Rightarrow> u64 \<Rightarrow> u64 \<Rightarrow> fs \<Rightarrow> locks \<Rightarrow> (int \<times> fs \<times> locks) option" where
  "locked_unlink V path own grp s K =
     do {
       path_dirname \<leftarrow> fskit_dirname path;
       let path_basename = fskit_basename path in
       if length path_basename > FSKIT_FILESYSTEM_NAMEMAX then Some (- ENAMETOOLONG, s, K)
       else do {
         (r, K) \<leftarrow> locked_resolve_path V path_dirname own grp True s K;
         (case r of
            Inl err \<Rightarrow> do { _ \<leftarrow> fskit_entry_unlock None s; Some (err, s, K) }
          | Inr parent \<Rightarrow>
              do {
                p \<leftarrow> heap s parent;
                if etype p \<noteq> T_DIR
                then do { K \<leftarrow> fskit_entry_unlock2 parent s K; Some (- ENOTDIR, s, K) }
                else
                  (case fskit_entry_set_find_name (children p) path_basename of
                     None \<Rightarrow> do { K \<leftarrow> fskit_entry_unlock2 parent s K; Some (- ENOENT, s, K) }
                   | Some fent \<Rightarrow>
                       do {
                         (rc, s) \<leftarrow> fskit_entry_detach_lowlevel V parent path_basename s;
                         if rc \<noteq> 0 \<and> rc \<noteq> - ENOENT
                         then do { K \<leftarrow> fskit_entry_unlock2 parent s K; Some (rc, s, K) }
                         else do {
                           (_, s, K) \<leftarrow> locked_run_user_detach V path (Some parent) fent s K;
                           K \<leftarrow> lock_entry True fent s K;
                           (rc, s, K) \<leftarrow> locked_drop V path (Some parent) fent s K;
                           K \<leftarrow> fskit_entry_unlock2 parent s K;
                           Some (rc, s, K)
                         }
                       })
              })
       }
     }"

definition locked_rmdir :: "env \<Rightarrow> string \<Rightarrow> u64 \<Rightarrow> u64 \<Rightarrow> fs \<Rightarrow> locks \<Rightarrow> (int \<times> fs \<times> locks) option" where
  "locked_rmdir V path0 user grp s K =
     (if length path0 \<ge> PATH_MAX then Some (- ENAMETOOLONG, s, K)
      else if fskit_basename_len path0 > FSKIT_FILESYSTEM_NAMEMAX then Some (- ENAMETOOLONG, s, K)
      else
        let path = fskit_sanitize_path path0 in
        do {
          path_dirname \<leftarrow> fskit_dirname path;
          let path_basename = fskit_basename path in
          do {
            (r, K) \<leftarrow> locked_resolve_path V path_dirname user grp True s K;
            (case r of
               Inl rc \<Rightarrow> do { _ \<leftarrow> fskit_entry_unlock None s; Some (rc, s, K) }
             | Inr parent \<Rightarrow>
                 do {
                   p \<leftarrow> heap s parent;
                   if etype p \<noteq> T_DIR
                   then do { K \<leftarrow> fskit_entry_unlock2 parent s K; Some (- ENOTDIR, s, K) }
                   else
                     (case fskit_entry_set_find_name (children p) path_basename of
                        None \<Rightarrow> do { K \<leftarrow> fskit_entry_unlock2 parent s K; Some (- ENOENT, s, K) }
                      | Some dent \<Rightarrow>
                          do {
                            K \<leftarrow> lock_entry True dent s K;
                            d \<leftarrow> heap s dent;
                            if etype d \<noteq> T_DIR then do {
                              K \<leftarrow> fskit_entry_unlock2 dent s K;
                              K \<leftarrow> fskit_entry_unlock2 parent s K;
                              Some (- ENOTDIR, s, K)
                            }
                            else if fskit_entry_set_count (children d) > 2 then do {
                              K \<leftarrow> fskit_entry_unlock2 dent s K;
                              K \<leftarrow> fskit_entry_unlock2 parent s K;
                              Some (- ENOTEMPTY, s, K)
                            }
                            else do {
                              (rc, s) \<leftarrow> fskit_entry_detach_lowlevel V parent path_basename s;
                              if rc \<noteq> 0 then do {
                                K \<leftarrow> fskit_entry_unlock2 dent s K;
                                K \<leftarrow> fskit_entry_unlock2 parent s K;
                                Some (rc, s, K)
                              }
                              else do {
                                (rc, s, K) \<leftarrow> locked_drop V path (Some parent) dent s K;
                                K \<leftarrow> fskit_entry_unlock2 parent s K;
                                Some (rc, s, K)
                              }
                            }
                          })
                 })
          }
        })"

text \<open>A directory whose last name is \<open>"."\<close> is its own parent, which \<open>rmdir\<close> has locked already.\<close>

lemma rmdir_dot_deadlock: "locked_rmdir demo_env ''/a/.'' 0 0 demo_file no_locks = None"
  by code_simp

lemma locked_user_detach_eq:
  "quiet (Some fent) K \<Longrightarrow> locked_run_user_detach V path parent fent s K =
    map_option (\<lambda>(rc, s). (rc, s, K)) (fskit_run_user_detach V path parent fent s)"
  by (auto simp: locked_run_user_detach_def fskit_run_user_detach_def fskit_route_call_detach_def locked_call_eq
      map_option_bind bind_map_option comp_def case_prod_unfold intro!: Option.bind_cong)

lemma quiet_hold [simp]: "quiet None (hold w A)" "quiet (Some a) (hold w A) = (a \<notin> A)"
  by (auto simp: quiet_def held_as_def) (auto simp: hold_def)

lemma hold_unlock:
  "a \<in> A \<Longrightarrow> heap s a \<noteq> None \<Longrightarrow> fskit_entry_unlock2 a s (hold w A) = Some (hold w (A - {a}))"
  using unlock_held [of s a _ "hold w A" w] by auto

lemma hold_lock:
  "a \<notin> A \<Longrightarrow> heap s a = Some e \<Longrightarrow> etype e \<noteq> T_DEAD \<Longrightarrow> lock_entry w a s (hold w A) = Some (hold w (insert a A))"
  using lock_unlocked [of s a e "hold w A" w] by simp

text \<open>The end of \<open>unlink\<close> and \<open>rmdir\<close>: the inode is given up, then its former parent unlocked.\<close>

lemma drop_tail:
  assumes ne: "parent \<noteq> fent" and h: "heap s parent \<noteq> None"
  shows "do {
      (rc, s, K) \<leftarrow> locked_drop V path pp fent s (hold True {parent, fent});
      K \<leftarrow> fskit_entry_unlock2 parent s K;
      Some (rc, s, K)
    } = map_option (\<lambda>(rc, s). (rc, s, no_locks)) (do {
      (rc, s) \<leftarrow> fskit_entry_try_destroy_and_free V path pp fent s;
      if rc > 0 then Some (0, s) else do { _ \<leftarrow> fskit_entry_unlock (Some fent) s; Some (rc, s) }
    })"
proof (cases "fskit_entry_try_destroy_and_free V path pp fent s")
  case None
  then show ?thesis by (simp add: locked_drop_eq held_as_def)
next
  case (Some x)
  obtain rc s' where x: "x = (rc, s')" by (cases x)
  have "heap s' parent \<noteq> None \<and> (rc > 0 \<or> heap s' fent \<noteq> None)"
    by (rule try_destroy_and_free_cases [OF Some [unfolded x]]) (use ne h in auto)
  moreover have "hold True {parent, fent} (EntryLock fent) = Writer"
      "(hold True {parent, fent})(EntryLock fent := Unlocked) = hold True {parent}"
    using ne by (simp_all add: held_as_def insert_Diff_if)
  then have "locked_drop V path pp fent s (hold True {parent, fent}) = Some (if rc > 0 then 0 else rc, s', hold True {parent})"
    using locked_drop_eq [of "hold True {parent, fent}" fent V path pp s] Some x by (simp del: hold_simps(4))
  ultimately show ?thesis using Some x
    by (cases "rc > 0") (auto simp: hold_unlock fskit_entry_unlock_def)
qed

lemma detach_heap:
  assumes "fskit_entry_detach_lowlevel V parent n s = Some (rc, s')"
  shows "(heap s a \<noteq> None \<longrightarrow> heap s' a \<noteq> None) \<and> (all_live s \<longrightarrow> all_live s')"
  using assms by (cases rule: detach_cases) (auto simp: all_live_def)

lemma unlink_tail:
  assumes ne: "parent \<noteq> fent" and h: "heap s parent \<noteq> None" and L: "all_live s"
  shows "do {
      (_, s, K) \<leftarrow> locked_run_user_detach V path (Some parent) fent s (hold True {parent});
      K \<leftarrow> lock_entry True fent s K;
      (rc, s, K) \<leftarrow> locked_drop V path (Some parent) fent s K;
      K \<leftarrow> fskit_entry_unlock2 parent s K;
      Some (rc, s, K)
    } = map_option (\<lambda>(rc, s). (rc, s, no_locks)) (do {
      (_, s) \<leftarrow> fskit_run_user_detach V path (Some parent) fent s;
      _ \<leftarrow> fskit_entry_lock fent s;
      (rc, s) \<leftarrow> fskit_entry_try_destroy_and_free V path (Some parent) fent s;
      if rc > 0 then Some (0, s) else do { _ \<leftarrow> fskit_entry_unlock (Some fent) s; Some (rc, s) }
    })"
proof (cases "fskit_run_user_detach V path (Some parent) fent s")
  case None
  then show ?thesis using ne by (simp add: locked_user_detach_eq)
next
  case (Some x)
  then obtain rc t where d: "fskit_run_user_detach V path (Some parent) fent s = Some (rc, s\<lparr>trace := t\<rparr>)"
    using run_user_detach_trace by (cases x) metis
  then obtain e where e: "heap s fent = Some e" by (auto simp: fskit_run_user_detach_def bind_eq_Some)
  have "lock_entry True fent (s\<lparr>trace := t\<rparr>) (hold True {parent}) = Some (hold True {parent, fent})"
    using hold_lock [of fent "{parent}" "s\<lparr>trace := t\<rparr>" e True] ne e L by (auto simp: all_live_def insert_commute)
  then show ?thesis
    using d e ne drop_tail [OF ne, of "s\<lparr>trace := t\<rparr>" V path "Some parent"] h
    by (simp add: locked_user_detach_eq fskit_entry_lock_def)
qed

lemma locked_unlink_eq:
  assumes N: "no_self s" and L: "all_live s" and D: "\<And>d. fskit_dirname path = Some d \<Longrightarrow> dotdot_free d"
    and n: "fskit_basename path \<noteq> ''.''" "fskit_basename path \<noteq> ''..''"
  shows "locked_unlink V path own grp s no_locks =
    map_option (\<lambda>(rc, s). (rc, s, no_locks)) (fskit_unlink V path own grp s)"
proof (cases "fskit_dirname path")
  case (Some d)
  note R = locked_resolve_eq [OF N D [OF Some], of V own grp True]
  show ?thesis
  proof (cases "\<exists>a. fskit_entry_resolve_path V d own grp s = Some (Inr a)")
    case False
    then show ?thesis using Some R
      by (cases "fskit_entry_resolve_path V d own grp s"; cases "the (fskit_entry_resolve_path V d own grp s)")
        (auto simp: locked_unlink_def fskit_unlink_def Let_def fskit_entry_unlock_def)
  next
    case True
    then obtain a p where a: "fskit_entry_resolve_path V d own grp s = Some (Inr a)" "heap s a = Some p"
      using resolve_path_live by blast
    have "?thesis" if f: "fskit_entry_set_find_name (children p) (fskit_basename path) = Some f" "etype p = T_DIR"
        "length (fskit_basename path) \<le> FSKIT_FILESYSTEM_NAMEMAX" for f
    proof (cases "fskit_entry_detach_lowlevel V a (fskit_basename path) s")
      case None
      then show ?thesis using \<open>fskit_dirname path = Some d\<close> R a f by (simp add: locked_unlink_def fskit_unlink_def Let_def)
    next
      case (Some x)
      obtain rc s' where x: "x = (rc, s')" by (cases x)
      note H = detach_heap [OF Some [unfolded x], of a]
      have ne: "a \<noteq> f" using no_self_child [OF N a(2) n] f(1) by auto
      have u: "fskit_entry_unlock2 a s' (hold True {a}) = Some no_locks" using H a(2) by (simp add: hold_unlock)
      have T: "all_live s'" "heap s' a \<noteq> None" using H L a(2) by simp_all
      show ?thesis
        using \<open>fskit_dirname path = Some d\<close> R a f Some x u unlink_tail [OF ne T(2,1), of V path]
        by (simp add: locked_unlink_def fskit_unlink_def Let_def hold_one)
    qed
    then show ?thesis
      using Some R a
      by (cases "fskit_entry_set_find_name (children p) (fskit_basename path)")
        (auto simp: locked_unlink_def fskit_unlink_def Let_def hold_one hold_unlock)
  qed
qed (simp add: locked_unlink_def fskit_unlink_def)

lemma locked_rmdir_eq:
  assumes N: "no_self s" and L: "all_live s"
    and D: "\<And>d. fskit_dirname (fskit_sanitize_path path) = Some d \<Longrightarrow> dotdot_free d"
    and n: "fskit_basename (fskit_sanitize_path path) \<noteq> ''.''" "fskit_basename (fskit_sanitize_path path) \<noteq> ''..''"
  shows "locked_rmdir V path own grp s no_locks =
    map_option (\<lambda>(rc, s). (rc, s, no_locks)) (fskit_rmdir V path own grp s)"
proof (cases "PATH_MAX \<le> length path \<or> FSKIT_FILESYSTEM_NAMEMAX < fskit_basename_len path \<or>
    fskit_dirname (fskit_sanitize_path path) = None")
  case False
  let ?path = "fskit_sanitize_path path"
  obtain d where d: "fskit_dirname ?path = Some d" using False by auto
  note R = locked_resolve_eq [OF N D [OF d], of V own grp True]
  show ?thesis
  proof (cases "\<exists>a. fskit_entry_resolve_path V d own grp s = Some (Inr a)")
    case False
    then show ?thesis using d R
      by (cases "fskit_entry_resolve_path V d own grp s"; cases "the (fskit_entry_resolve_path V d own grp s)")
        (auto simp: locked_rmdir_def fskit_rmdir_def Let_def fskit_entry_unlock_def)
  next
    case True
    then obtain a p where a: "fskit_entry_resolve_path V d own grp s = Some (Inr a)" "heap s a = Some p"
      using resolve_path_live by blast
    have "?thesis" if f: "fskit_entry_set_find_name (children p) (fskit_basename ?path) = Some f" "etype p = T_DIR" for f
    proof (cases "heap s f")
      case None
      then show ?thesis using False d R a f
        by (simp add: locked_rmdir_def fskit_rmdir_def Let_def hold_one fskit_entry_lock_def lock_entry_def
            fskit_entry_wlock2_def)
    next
      case (Some e)
      have ne: "a \<noteq> f" using no_self_child [OF N a(2) n] f(1) by auto
      have k: "lock_entry True f s (hold True {a}) = Some (hold True {a, f})" "fskit_entry_lock f s = Some 0"
        using hold_lock [of f "{a}" s e True] ne Some L by (auto simp: all_live_def insert_commute fskit_entry_lock_def)
      have u: "fskit_entry_unlock2 f s' (hold True {a, f}) = Some (hold True {a})" "fskit_entry_unlock2 a s' (hold True {a}) = Some no_locks"
        if "heap s' f \<noteq> None" "heap s' a \<noteq> None" for s'
        using that ne hold_unlock [of f "{a, f}" s' True] hold_unlock [of a "{a}" s' True] by (simp_all add: insert_Diff_if)
      note u0 = u [of s, unfolded Some a(2), simplified]
      show ?thesis
      proof (cases "fskit_entry_detach_lowlevel V a (fskit_basename ?path) s")
        case None
        then show ?thesis using False d R a f k u0 Some
          by (simp add: locked_rmdir_def fskit_rmdir_def Let_def hold_one)
      next
        case (Some x)
        obtain rc s' where x: "x = (rc, s')" by (cases x)
        have T: "heap s' a \<noteq> None" "heap s' f \<noteq> None"
          using detach_heap [OF Some [unfolded x]] a(2) \<open>heap s f = Some e\<close> by simp_all
        show ?thesis
          using False d R a f k u0 u [OF T(2,1)] Some x \<open>heap s f = Some e\<close> drop_tail [OF ne T(1), of V ?path "Some a"]
          by (simp add: locked_rmdir_def fskit_rmdir_def Let_def hold_one)
      qed
    qed
    then show ?thesis
      using False d R a
      by (cases "fskit_entry_set_find_name (children p) (fskit_basename ?path)")
        (auto simp: locked_rmdir_def fskit_rmdir_def Let_def hold_one hold_unlock)
  qed
qed (auto simp: locked_rmdir_def fskit_rmdir_def Let_def)

text \<open>In general: when the last name of the path leads back to the parent, \<open>rmdir\<close> never returns.\<close>

lemma rmdir_own_parent:
  assumes N: "no_self s" and D: "dotdot_free d" and d: "fskit_dirname (fskit_sanitize_path path) = Some d"
    and len: "length path < PATH_MAX" "fskit_basename_len path \<le> FSKIT_FILESYSTEM_NAMEMAX"
    and r: "fskit_entry_resolve_path V d own grp s = Some (Inr a)" and p: "heap s a = Some p" "etype p = T_DIR"
    and f: "fskit_entry_set_find_name (children p) (fskit_basename (fskit_sanitize_path path)) = Some a"
  shows "locked_rmdir V path own grp s no_locks = None"
proof -
  have "lock_entry True a s (hold True {a}) = None"
    using p by (simp add: lock_entry_def fskit_entry_wlock2_def rwlock_wrlock_def held_as_def)
  then show ?thesis using d len r p f locked_resolve_eq [OF N D, of V own grp True]
    by (simp add: locked_rmdir_def Let_def hold_one)
qed

subsection \<open>close\<close>

definition locked_run_user_close :: "env \<Rightarrow> string \<Rightarrow> addr \<Rightarrow> nat \<Rightarrow> fs \<Rightarrow> locks \<Rightarrow> (int \<times> fs \<times> locks) option" where
  "locked_run_user_close V path fent handle_data s K =
     do {
       (rc, cbrc, da, s, K) \<leftarrow> locked_route_call V FSKIT_ROUTE_MATCH_CLOSE path (Some fent)
          (fskit_route_close_args handle_data) s K;
       if rc = - EPERM \<or> rc = - ENOSYS then Some (0, s, K)
       else if cbrc \<noteq> 0 then Some (cbrc, s, K)
       else Some (0, s, K)
     }"

definition locked_close :: "env \<Rightarrow> nat \<Rightarrow> fs \<Rightarrow> locks \<Rightarrow> (int \<times> fs \<times> locks) option" where
  "locked_close V h s K =
     do {
       K \<leftarrow> fskit_file_handle_wlock h s K;
       fh \<leftarrow> fhs s h;
       (case fh_fent fh of
          None \<Rightarrow> do { K \<leftarrow> fskit_file_handle_unlock h s K; Some (- EBADF, s, K) }
        | Some fent \<Rightarrow>
            do {
              (rc, s, K) \<leftarrow> locked_run_user_close V (fh_path fh) fent (fh_app_data fh) s K;
              if rc \<noteq> 0 then do { K \<leftarrow> fskit_file_handle_unlock h s K; Some (rc, s, K) }
              else do {
                (rc, K) \<leftarrow> fskit_entry_wlock2 fent s K;
                if rc \<noteq> 0 then do { K \<leftarrow> fskit_file_handle_unlock h s K; Some (rc, s, K) }
                else do {
                  s \<leftarrow> upd fent (\<lambda>e. e\<lparr>open_count := open_count e - 1\<rparr>) s;
                  (rc, s, K) \<leftarrow> locked_try_destroy_and_free V (fh_path fh) None fent s K;
                  if rc < 0 then do { K \<leftarrow> fskit_entry_unlock2 fent s K; Some (rc, s, K) }
                  else do {
                    K \<leftarrow> (if rc = 0 then fskit_entry_unlock2 fent s K else Some K);
                    K \<leftarrow> fskit_file_handle_unlock h s K;
                    K \<leftarrow> rwlock_destroy (FileLock h) K;
                    s \<leftarrow> fskit_file_handle_destroy h s;
                    Some (0, s, K)
                  }
                }
              }
            })
     }"

lemma locked_user_close_eq:
  "quiet (Some fent) K \<Longrightarrow> locked_run_user_close V path fent d s K =
    map_option (\<lambda>(rc, s). (rc, s, K)) (fskit_run_user_close V path fent d s)"
  by (auto simp: locked_run_user_close_def fskit_run_user_close_def fskit_route_call_close_def locked_call_eq
      map_option_bind bind_map_option comp_def case_prod_unfold intro!: Option.bind_cong)

lemma user_close_frame: "fskit_run_user_close V path fent d s = Some (rc, s') \<Longrightarrow> attr_frame s s'"
  by (auto simp: fskit_run_user_close_def fskit_route_call_close_def bind_eq_Some split: if_splits dest: route_call_frame)

lemma frame_live:
  assumes "attr_frame s s'" and "all_live s" shows "all_live s'"
  unfolding all_live_def
proof (intro allI impI)
  fix a e' assume "heap s' a = Some e'"
  then have "map_option attr_norm (heap s a) = Some (attr_norm e')"
    using assms(1) by (metis attr_frame_def option.simps(9))
  then obtain e where "heap s a = Some e" "attr_norm e' = attr_norm e" by auto
  then show "etype e' \<noteq> T_DEAD" using assms(2) attr_normD(4) by (metis all_live_def)
qed

text \<open>The lock of an inode beside other locks, and the lock of a handle.\<close>

lemma beside_locks:
  assumes q: "quiet (Some a) K"
  shows "heap s a = Some e \<Longrightarrow> etype e \<noteq> T_DEAD \<Longrightarrow> fskit_entry_wlock2 a s K = Some (0, K(EntryLock a := Writer))"
    and "heap s a \<noteq> None \<Longrightarrow> fskit_entry_unlock2 a s (K(EntryLock a := Writer)) = Some K"
    and "locked_try_destroy_and_free V p pp a s (K(EntryLock a := Writer)) =
      map_option (\<lambda>(rc, s). (rc, s, if rc > 0 then K else K(EntryLock a := Writer)))
        (fskit_entry_try_destroy_and_free V p pp a s)"
proof -
  have K: "K (EntryLock a) = Unlocked" "quiet None (K(EntryLock a := Writer))" using q by (auto simp: quiet_def)
  have u: "K(EntryLock a := Unlocked) = K" using K(1) by (simp add: fun_upd_idem)
  show "fskit_entry_wlock2 a s K = Some (0, K(EntryLock a := Writer))" if "heap s a = Some e" "etype e \<noteq> T_DEAD"
    using that K(1) by (simp add: fskit_entry_wlock2_def rwlock_wrlock_def)
  show "fskit_entry_unlock2 a s (K(EntryLock a := Writer)) = Some K" if "heap s a \<noteq> None"
    using that u by (auto simp: fskit_entry_unlock2_def rwlock_unlock_def)
  show "locked_try_destroy_and_free V p pp a s (K(EntryLock a := Writer)) =
      map_option (\<lambda>(rc, s). (rc, s, if rc > 0 then K else K(EntryLock a := Writer)))
        (fskit_entry_try_destroy_and_free V p pp a s)"
    by (simp add: locked_destroy_eq K u cong: if_cong)
qed

lemma file_locks:
  "fhs s h \<noteq> None \<Longrightarrow> fskit_file_handle_wlock h s no_locks = Some (no_locks(FileLock h := Writer))"
  "fhs s h \<noteq> None \<Longrightarrow> fskit_file_handle_unlock h s (no_locks(FileLock h := Writer)) = Some no_locks"
  "quiet (Some a) (no_locks(FileLock h := Writer))" "rwlock_destroy (FileLock h) no_locks = Some no_locks"
  by (auto simp: fskit_file_handle_wlock_def fskit_file_handle_unlock_def rwlock_round quiet_def rwlock_destroy_def)

lemma locked_close_eq:
  assumes L: "all_live s"
  shows "locked_close V h s no_locks = map_option (\<lambda>(rc, s). (rc, s, no_locks)) (fskit_close V h s)"
proof (cases "\<exists>fh a. fhs s h = Some fh \<and> fh_fent fh = Some a")
  case False
  then show ?thesis
    by (cases "fhs s h") (auto simp: locked_close_def fskit_close_def file_locks fskit_file_handle_wlock_def rwlock_round split: option.split)
next
  case True
  then obtain fh a where fh: "fhs s h = Some fh" "fh_fent fh = Some a" by blast
  let ?K = "no_locks(FileLock h := Writer)"
  note defs = locked_close_def fskit_close_def locked_user_close_eq [OF file_locks(3)]
  show ?thesis
  proof (cases "fskit_run_user_close V (fh_path fh) a (fh_app_data fh) s")
    case c: (Some x)
    obtain rc s1 where x: "x = (rc, s1)" by (cases x)
    note fr = user_close_frame [OF c [unfolded x]]
    have h1: "fhs s1 h = Some fh" using fr fh by (simp add: attr_frame_def)
    show ?thesis
    proof (cases "rc = 0 \<and> heap s1 a \<noteq> None")
      case True
      then obtain e where e: "heap s1 a = Some e" "rc = 0" by auto
      then have live: "etype e \<noteq> T_DEAD" using frame_live [OF fr L] by (auto simp: all_live_def)
      let ?s = "s1\<lparr>heap := (heap s1)(a \<mapsto> e\<lparr>open_count := open_count e - 1\<rparr>)\<rparr>"
      note E = beside_locks(1) [OF file_locks(3) e(1) live] beside_locks(2,3) [OF file_locks(3)]
      show ?thesis
      proof (cases "fskit_entry_try_destroy_and_free V (fh_path fh) None a ?s")
        case t: (Some y)
        obtain rc2 s2 where y: "y = (rc2, s2)" by (cases y)
        have "(rc2 = 1 \<or> (rc2 = 0 \<and> heap s2 a \<noteq> None)) \<and> fhs s2 h = Some fh"
          by (rule try_destroy_and_free_cases [OF t [unfolded y]]) (use h1 in auto)
        then show ?thesis using fh c x e live t y
          by (auto simp: defs file_locks E upd_simp fskit_entry_lock_def fskit_file_handle_destroy_def fskit_entry_unlock_def)
      qed (use fh c x e live in \<open>simp add: defs file_locks E upd_simp fskit_entry_lock_def\<close>)
    qed (use fh c x h1 in \<open>auto simp: defs file_locks fskit_entry_lock_def fskit_entry_wlock2_def\<close>)
  qed (use fh in \<open>simp add: defs file_locks\<close>)
qed

subsection \<open>trunc\<close>

definition locked_run_user_trunc ::
    "env \<Rightarrow> string \<Rightarrow> addr option \<Rightarrow> int \<Rightarrow> nat \<Rightarrow> fs \<Rightarrow> locks \<Rightarrow> (int \<times> fs \<times> locks) option" where
  "locked_run_user_trunc V path fent new_size handle_data s K =
     do {
       name \<leftarrow> name_buf path;
       (rc, cbrc, da, s, K) \<leftarrow> locked_route_call V FSKIT_ROUTE_MATCH_TRUNC path fent
          (fskit_route_trunc_args name new_size handle_data (Some fskit_trunc_cont_fn)) s K;
       if rc = - EPERM \<or> rc = - ENOSYS then Some (0, s, K) else Some (cbrc, s, K)
     }"

text \<open>The file is referenced, and unlocked while its route runs.\<close>

definition locked_trunc :: "env \<Rightarrow> string \<Rightarrow> u64 \<Rightarrow> u64 \<Rightarrow> int \<Rightarrow> fs \<Rightarrow> locks \<Rightarrow> (int \<times> fs \<times> locks) option" where
  "locked_trunc V path user grp new_size s K =
     (if fskit_basename_len path > FSKIT_FILESYSTEM_NAMEMAX then Some (- ENAMETOOLONG, s, K)
      else do {
        (r, K) \<leftarrow> locked_resolve_path V path user grp True s K;
        (case r of
           Inl err \<Rightarrow> Some (err, s, K)
         | Inr fent \<Rightarrow>
             do {
               s \<leftarrow> upd fent (\<lambda>e. e\<lparr>open_count := open_count e + 1\<rparr>) s;
               K \<leftarrow> fskit_entry_unlock2 fent s K;
               (_, s, K) \<leftarrow> locked_run_user_trunc V path (Some fent) new_size 0 s K;
               K \<leftarrow> lock_entry True fent s K;
               s \<leftarrow> upd fent (\<lambda>e. e\<lparr>open_count := open_count e - 1\<rparr>) s;
               locked_drop V path None fent s K
             })
      })"

lemma locked_user_trunc_eq:
  "quiet fent K \<Longrightarrow> locked_run_user_trunc V path fent sz d s K =
    map_option (\<lambda>(rc, s). (rc, s, K)) (fskit_run_user_trunc V path fent sz d s)"
  by (auto simp: locked_run_user_trunc_def fskit_run_user_trunc_def fskit_route_call_trunc_def locked_call_eq
      map_option_bind bind_map_option comp_def case_prod_unfold intro!: Option.bind_cong)

lemma user_trunc_frame: "fskit_run_user_trunc V path fent sz d s = Some (rc, s') \<Longrightarrow> attr_frame s s'"
  by (auto simp: fskit_run_user_trunc_def fskit_route_call_trunc_def bind_eq_Some split: if_splits dest: route_call_frame)

lemma locked_trunc_eq:
  assumes N: "no_self s" and L: "all_live s" and D: "dotdot_free path"
  shows "locked_trunc V path user grp sz s no_locks =
    map_option (\<lambda>(rc, s). (rc, s, no_locks)) (fskit_trunc V path user grp sz s)"
proof (cases "\<exists>a. fskit_entry_resolve_path V path user grp s = Some (Inr a)")
  case False
  then show ?thesis using locked_resolve_eq [OF N D, of V user grp True]
    by (cases "fskit_entry_resolve_path V path user grp s"; cases "the (fskit_entry_resolve_path V path user grp s)")
      (auto simp: locked_trunc_def fskit_trunc_def)
next
  case True
  then obtain a e where a: "fskit_entry_resolve_path V path user grp s = Some (Inr a)" and e: "heap s a = Some e"
    using resolve_path_live by blast
  note R = locked_resolve_eq [OF N D, of V user grp True, unfolded a, simplified, unfolded hold_one]
  let ?s = "s\<lparr>heap := (heap s)(a \<mapsto> e\<lparr>open_count := open_count e + 1\<rparr>)\<rparr>"
  have u: "fskit_entry_unlock2 a ?s (hold True {a}) = Some no_locks" by (simp add: hold_unlock)
  have q: "quiet (Some a) no_locks" by (simp add: quiet_def)
  have Ls: "all_live ?s" using L e by (auto simp: all_live_def)
  note defs = locked_trunc_def fskit_trunc_def R a upd_simp [OF e] u locked_user_trunc_eq [OF q]
  show ?thesis
  proof (cases "fskit_run_user_trunc V path (Some a) sz 0 ?s")
    case None
    then show ?thesis by (simp add: defs)
  next
    case t: (Some x)
    obtain rc s1 where x: "x = (rc, s1)" by (cases x)
    note fr = user_trunc_frame [OF t [unfolded x]]
    have "map_option attr_norm (heap s1 a) = map_option attr_norm (heap ?s a)" using fr by (simp add: attr_frame_def)
    then obtain e1 where e1: "heap s1 a = Some e1" by auto
    then have live: "etype e1 \<noteq> T_DEAD" using frame_live [OF fr Ls] by (simp add: all_live_def)
    have l: "lock_entry True a s1 no_locks = Some (hold True {a})"
      using hold_lock [of a "{}" s1 e1 True] e1 live by simp
    let ?s1 = "s1\<lparr>heap := (heap s1)(a \<mapsto> e1\<lparr>open_count := open_count e1 - 1\<rparr>)\<rparr>"
    have d: "locked_drop V path None a ?s1 (hold True {a}) =
        map_option (\<lambda>(rc, s). (if rc > 0 then 0 else rc, s, no_locks)) (fskit_entry_try_destroy_and_free V path None a ?s1)"
      by (simp add: locked_drop_eq held_as_def)
    show ?thesis
    proof (cases "fskit_entry_try_destroy_and_free V path None a ?s1")
      case None
      then show ?thesis using t x l d by (simp add: defs upd_simp [OF e1])
    next
      case (Some y)
      obtain rc2 s2 where y: "y = (rc2, s2)" by (cases y)
      have "rc2 = 1 \<or> (rc2 = 0 \<and> heap s2 a \<noteq> None)"
        by (rule try_destroy_and_free_cases [OF Some [unfolded y]]) auto
      then show ?thesis using t x l d Some y by (auto simp: defs upd_simp [OF e1] fskit_entry_unlock_def)
    qed
  qed
qed

end
