(* ===== verification/LockedHandles.thy ===== *)
theory LockedHandles
  imports LockedCalls
begin

text \<open>
  The locks of the calls on open files and directories (\<open>read.c\<close>, \<open>write.c\<close>, \<open>trunc.c\<close>, \<open>sync.c\<close>, \<open>opendir.c\<close>,
  \<open>closedir.c\<close>). A handle is locked for reading while its file is read, written, truncated or synchronised; the
  inode is locked after its route has run, to set its times and size. Each call with its locks is shown to do
  what it does without, and to give them back.
\<close>

subsection \<open>Files\<close>

text \<open>An inode of a handle is locked, changed, and unlocked; the result of locking is not looked at.\<close>

definition locked_deref :: "addr option \<Rightarrow> (entry \<Rightarrow> entry) \<Rightarrow> fs \<Rightarrow> locks \<Rightarrow> (fs \<times> locks) option" where
  "locked_deref p f s K =
     (case p of
        None \<Rightarrow> None
      | Some a \<Rightarrow>
          do {
            K \<leftarrow> lock_entry True a s K;
            s \<leftarrow> upd a f s;
            K \<leftarrow> fskit_entry_unlock2 a s K;
            Some (s, K)
          })"

definition locked_run_user_read ::
    "env \<Rightarrow> string \<Rightarrow> addr option \<Rightarrow> string \<Rightarrow> nat \<Rightarrow> int \<Rightarrow> nat \<Rightarrow> fs \<Rightarrow> locks \<Rightarrow> (int \<times> string \<times> fs \<times> locks) option" where
  "locked_run_user_read V path fent buf buflen offset handle_data s K =
     do {
       (rc, cbrc, da, s, K) \<leftarrow> locked_route_call V FSKIT_ROUTE_MATCH_READ path fent
          (fskit_route_io_args buf buflen offset handle_data None) s K;
       if rc = - EPERM \<or> rc = - ENOSYS then Some (0, da_iobuf da, s, K) else Some (cbrc, da_iobuf da, s, K)
     }"

definition locked_read ::
    "env \<Rightarrow> nat \<Rightarrow> string \<Rightarrow> nat \<Rightarrow> int \<Rightarrow> fs \<Rightarrow> locks \<Rightarrow> (int \<times> string \<times> fs \<times> locks) option" where
  "locked_read V h buf buflen offset s K =
     do {
       K \<leftarrow> fskit_file_handle_rlock h s K;
       fh \<leftarrow> fhs s h;
       if has_flag (fh_flags fh) O_WRONLY
       then do { K \<leftarrow> fskit_file_handle_unlock h s K; Some (- EBADF, buf, s, K) }
       else do {
         (num_read, buf, s, K) \<leftarrow> locked_run_user_read V (fh_path fh) (fh_fent fh) buf buflen offset (fh_app_data fh) s K;
         (s, K) \<leftarrow> (if num_read \<ge> 0 then locked_deref (fh_fent fh) (\<lambda>e. fst (fskit_entry_set_atime V None e)) s K
                   else Some (s, K));
         K \<leftarrow> fskit_file_handle_unlock h s K;
         Some (num_read, buf, s, K)
       }
     }"

definition locked_run_user_write ::
    "env \<Rightarrow> string \<Rightarrow> addr option \<Rightarrow> string \<Rightarrow> nat \<Rightarrow> int \<Rightarrow> nat \<Rightarrow> fs \<Rightarrow> locks \<Rightarrow> (int \<times> fs \<times> locks) option" where
  "locked_run_user_write V path fent buf buflen offset handle_data s K =
     do {
       (rc, cbrc, da, s, K) \<leftarrow> locked_route_call V FSKIT_ROUTE_MATCH_WRITE path fent
          (fskit_route_io_args buf buflen offset handle_data (Some fskit_write_cont_fn)) s K;
       if rc = - EPERM \<or> rc = - ENOSYS then Some (0, s, K) else Some (cbrc, s, K)
     }"

definition locked_write :: "env \<Rightarrow> nat \<Rightarrow> string \<Rightarrow> nat \<Rightarrow> int \<Rightarrow> fs \<Rightarrow> locks \<Rightarrow> (int \<times> fs \<times> locks) option" where
  "locked_write V h buf buflen offset s K =
     do {
       K \<leftarrow> fskit_file_handle_rlock h s K;
       fh \<leftarrow> fhs s h;
       if \<not> has_flag (fh_flags fh) (or O_RDWR O_WRONLY)
       then do { K \<leftarrow> fskit_file_handle_unlock h s K; Some (- EBADF, s, K) }
       else do {
         (num_written, s, K) \<leftarrow>
            locked_run_user_write V (fh_path fh) (fh_fent fh) buf buflen offset (fh_app_data fh) s K;
         (s, K) \<leftarrow> (if num_written \<ge> 0 then
                     locked_deref (fh_fent fh) (\<lambda>e.
                       let e = fst (fskit_entry_set_mtime V None e);
                           e = fst (fskit_entry_set_atime V None e)
                       in e\<lparr>fsize := written_size offset buflen (fsize e)\<rparr>) s K
                   else Some (s, K));
         K \<leftarrow> fskit_file_handle_unlock h s K;
         Some (num_written, s, K)
       }
     }"

definition locked_ftrunc :: "env \<Rightarrow> nat \<Rightarrow> int \<Rightarrow> fs \<Rightarrow> locks \<Rightarrow> (int \<times> fs \<times> locks) option" where
  "locked_ftrunc V h new_size s K =
     do {
       K \<leftarrow> fskit_file_handle_rlock h s K;
       fh \<leftarrow> fhs s h;
       if \<not> has_flag (fh_flags fh) (or O_RDWR O_WRONLY)
       then do { K \<leftarrow> fskit_file_handle_unlock h s K; Some (- EBADF, s, K) }
       else do {
         (rc, s, K) \<leftarrow> locked_run_user_trunc V (fh_path fh) (fh_fent fh) new_size (fh_app_data fh) s K;
         K \<leftarrow> fskit_file_handle_unlock h s K;
         Some (rc, s, K)
       }
     }"

definition locked_do_user_sync :: "env \<Rightarrow> string \<Rightarrow> addr option \<Rightarrow> fs \<Rightarrow> locks \<Rightarrow> (int \<times> fs \<times> locks) option" where
  "locked_do_user_sync V path fent s K =
     do {
       (rc, cbrc, da, s, K) \<leftarrow> locked_route_call V FSKIT_ROUTE_MATCH_SYNC path fent fskit_route_sync_args s K;
       if rc = - EPERM \<or> rc = - ENOSYS then Some (0, s, K) else Some (cbrc, s, K)
     }"

definition locked_fsync :: "env \<Rightarrow> nat \<Rightarrow> fs \<Rightarrow> locks \<Rightarrow> (int \<times> fs \<times> locks) option" where
  "locked_fsync V h s K =
     do {
       K \<leftarrow> fskit_file_handle_rlock h s K;
       fh \<leftarrow> fhs s h;
       (rc, s, K) \<leftarrow> locked_do_user_sync V (fh_path fh) (fh_fent fh) s K;
       K \<leftarrow> fskit_file_handle_unlock h s K;
       Some (rc, s, K)
     }"

text \<open>A handle that is locked for reading.\<close>

abbreviation reading :: "nat \<Rightarrow> locks" where
  "reading h \<equiv> no_locks(FileLock h := Readers 0)"

lemma reading_locks:
  "fhs s h \<noteq> None \<Longrightarrow> fskit_file_handle_rlock h s no_locks = Some (reading h)"
  "fhs s h \<noteq> None \<Longrightarrow> fskit_file_handle_unlock h s (reading h) = Some no_locks"
  "quiet fent (reading h)"
  by (auto simp: fskit_file_handle_rlock_def fskit_file_handle_unlock_def rwlock_round quiet_def split: option.split)

lemma locked_deref_eq:
  assumes "all_live s"
  shows "locked_deref p f s (reading h) = map_option (\<lambda>s. (s, reading h)) (deref p f s)"
proof (cases p)
  case (Some a)
  show ?thesis
  proof (cases "heap s a")
    case e: (Some e)
    then have "etype e \<noteq> T_DEAD" using assms by (auto simp: all_live_def)
    note B = beside_locks [OF reading_locks(3) [of "Some a" h]]
    show ?thesis using Some e B(1) [OF e \<open>etype e \<noteq> T_DEAD\<close>] B(2)
      by (simp add: locked_deref_def deref_def lock_entry_def upd_simp)
  qed (use Some in \<open>simp add: locked_deref_def deref_def lock_entry_def fskit_entry_wlock2_def upd_def\<close>)
qed (simp add: locked_deref_def deref_def)

lemma deref_fhs: "deref p f s = Some s' \<Longrightarrow> fhs s' = fhs s"
  by (auto simp: deref_def upd_Some split: option.splits)

lemma locked_user_io_eq:
  assumes "quiet fent K"
  shows "locked_run_user_read V path fent buf n off d s K =
      map_option (\<lambda>(rc, buf, s). (rc, buf, s, K)) (fskit_run_user_read V path fent buf n off d s)"
    and "locked_run_user_write V path fent buf n off d s K =
      map_option (\<lambda>(rc, s). (rc, s, K)) (fskit_run_user_write V path fent buf n off d s)"
    and "locked_do_user_sync V path fent s K = map_option (\<lambda>(rc, s). (rc, s, K)) (fskit_do_user_sync V path fent s)"
  by (auto simp: locked_run_user_read_def fskit_run_user_read_def fskit_route_call_read_def
      locked_run_user_write_def fskit_run_user_write_def fskit_route_call_write_def
      locked_do_user_sync_def fskit_do_user_sync_def fskit_route_call_sync_def locked_call_eq [OF assms]
      map_option_bind bind_map_option comp_def case_prod_unfold intro!: Option.bind_cong)

lemma user_io_frame:
  "fskit_run_user_read V path fent buf n off d s = Some (rc, buf', s') \<Longrightarrow> attr_frame s s'"
  "fskit_run_user_write V path fent buf n off d s = Some (rc, s') \<Longrightarrow> attr_frame s s'"
  "fskit_do_user_sync V path fent s = Some (rc, s') \<Longrightarrow> attr_frame s s'"
  by (auto simp: fskit_run_user_read_def fskit_route_call_read_def fskit_run_user_write_def fskit_route_call_write_def
      fskit_do_user_sync_def fskit_route_call_sync_def bind_eq_Some split: if_splits dest: route_call_frame)

lemma frame_fhs: "attr_frame s s' \<Longrightarrow> fhs s' = fhs s"
  by (simp add: attr_frame_def)

lemma locked_read_eq:
  assumes L: "all_live s"
  shows "locked_read V h buf buflen offset s no_locks =
    map_option (\<lambda>(rc, buf, s). (rc, buf, s, no_locks)) (fskit_read V h buf buflen offset s)"
proof (cases "fhs s h")
  case (Some fh)
  note defs = locked_read_def fskit_read_def locked_user_io_eq(1) [OF reading_locks(3)] reading_locks(1,2) Some
  show ?thesis
  proof (cases "fskit_run_user_read V (fh_path fh) (fh_fent fh) buf buflen offset (fh_app_data fh) s")
    case r: (Some x)
    obtain rc b s1 where x: "x = (rc, b, s1)" by (cases x)
    note fr = user_io_frame(1) [OF r [unfolded x]]
    have "fhs s1 h = Some fh" using frame_fhs [OF fr] Some by simp
    then show ?thesis using r x
      by (cases "deref (fh_fent fh) (\<lambda>e. fst (fskit_entry_set_atime V None e)) s1")
        (auto simp: defs locked_deref_eq [OF frame_live [OF fr L]] dest: deref_fhs)
  qed (simp add: defs)
qed (simp add: locked_read_def fskit_read_def fskit_file_handle_rlock_def)

lemma locked_write_eq:
  assumes L: "all_live s"
  shows "locked_write V h buf buflen offset s no_locks =
    map_option (\<lambda>(rc, s). (rc, s, no_locks)) (fskit_write V h buf buflen offset s)"
proof (cases "fhs s h")
  case (Some fh)
  note defs = locked_write_def fskit_write_def locked_user_io_eq(2) [OF reading_locks(3)] reading_locks(1,2) Some
  show ?thesis
  proof (cases "fskit_run_user_write V (fh_path fh) (fh_fent fh) buf buflen offset (fh_app_data fh) s")
    case r: (Some x)
    obtain rc s1 where x: "x = (rc, s1)" by (cases x)
    note fr = user_io_frame(2) [OF r [unfolded x]]
    let ?f = "\<lambda>e. let e = fst (fskit_entry_set_mtime V None e); e = fst (fskit_entry_set_atime V None e)
      in e\<lparr>fsize := written_size offset buflen (fsize e)\<rparr>"
    have "fhs s1 h = Some fh" using frame_fhs [OF fr] Some by simp
    then show ?thesis using r x
      by (cases "deref (fh_fent fh) ?f s1") (auto simp: defs locked_deref_eq [OF frame_live [OF fr L]] dest: deref_fhs)
  qed (simp add: defs)
qed (simp add: locked_write_def fskit_write_def fskit_file_handle_rlock_def)

lemma locked_ftrunc_eq:
  "locked_ftrunc V h sz s no_locks = map_option (\<lambda>(rc, s). (rc, s, no_locks)) (fskit_ftrunc V h sz s)"
proof (cases "fhs s h")
  case (Some fh)
  have "fhs s1 h = Some fh" if "fskit_run_user_trunc V (fh_path fh) (fh_fent fh) sz (fh_app_data fh) s = Some (rc, s1)" for rc s1
    using frame_fhs [OF user_trunc_frame [OF that]] Some by simp
  then show ?thesis
    by (cases "fskit_run_user_trunc V (fh_path fh) (fh_fent fh) sz (fh_app_data fh) s")
      (auto simp: locked_ftrunc_def fskit_ftrunc_def locked_user_trunc_eq [OF reading_locks(3)] reading_locks(1,2) Some)
qed (simp add: locked_ftrunc_def fskit_ftrunc_def fskit_file_handle_rlock_def)

lemma locked_fsync_eq:
  "locked_fsync V h s no_locks = map_option (\<lambda>(rc, s). (rc, s, no_locks)) (fskit_fsync V h s)"
proof (cases "fhs s h")
  case (Some fh)
  have "fhs s1 h = Some fh" if "fskit_do_user_sync V (fh_path fh) (fh_fent fh) s = Some (rc, s1)" for rc s1
    using frame_fhs [OF user_io_frame(3) [OF that]] Some by simp
  then show ?thesis
    by (cases "fskit_do_user_sync V (fh_path fh) (fh_fent fh) s")
      (auto simp: locked_fsync_def fskit_fsync_def locked_user_io_eq(3) [OF reading_locks(3)] reading_locks(1,2) Some)
qed (simp add: locked_fsync_def fskit_fsync_def fskit_file_handle_rlock_def)

subsection \<open>Directories\<close>

definition locked_run_user_open ::
    "env \<Rightarrow> string \<Rightarrow> addr \<Rightarrow> nat \<Rightarrow> fs \<Rightarrow> locks \<Rightarrow> (int \<times> nat \<times> fs \<times> locks) option" where
  "locked_run_user_open V path fent flags s K =
     do {
       name \<leftarrow> name_buf path;
       (rc, cbrc, da, s, K) \<leftarrow> locked_route_call V FSKIT_ROUTE_MATCH_OPEN path (Some fent) (fskit_route_open_args name flags) s K;
       if rc = - EPERM \<or> rc = - ENOSYS then Some (0, 0, s, K)
       else if cbrc \<noteq> 0 then Some (cbrc, 0, s, K)
       else Some (0, da_handle_data da, s, K)
     }"

text \<open>The directory is referenced, and unlocked while its route runs.\<close>

definition locked_opendir :: "env \<Rightarrow> string \<Rightarrow> u64 \<Rightarrow> u64 \<Rightarrow> fs \<Rightarrow> locks \<Rightarrow> ((int + nat) \<times> fs \<times> locks) option" where
  "locked_opendir V path0 user grp s K =
     (if length path0 \<ge> PATH_MAX then Some (Inl (- ENAMETOOLONG), s, K)
      else
        let path = fskit_sanitize_path path0 in
        do {
          (r, K) \<leftarrow> locked_resolve_path V path user grp True s K;
          (case r of
             Inl err \<Rightarrow> Some (Inl err, s, K)
           | Inr dir \<Rightarrow>
               do {
                 d \<leftarrow> heap s dir;
                 if etype d \<noteq> T_DIR then do { K \<leftarrow> fskit_entry_unlock2 dir s K; Some (Inl (- ENOTDIR), s, K) }
                 else do {
                   s \<leftarrow> fskit_entry_ref_entry dir s;
                   K \<leftarrow> fskit_entry_unlock2 dir s K;
                   (rc, app_handle_data, s, K) \<leftarrow> locked_run_user_open V path dir 0 s K;
                   K \<leftarrow> lock_entry True dir s K;
                   if rc \<noteq> 0 then do {
                     K \<leftarrow> fskit_entry_unlock2 dir s K;
                     (_, s, K) \<leftarrow> locked_unref V path dir s K;
                     Some (Inl rc, s, K)
                   }
                   else do {
                     (h, s) \<leftarrow> fskit_dir_handle_create V dir path app_handle_data s;
                     K \<leftarrow> fskit_entry_unlock2 dir s K;
                     (case h of
                        None \<Rightarrow> do {
                          (_, s, K) \<leftarrow> locked_unref V path dir s K;
                          Some (Inl (- ENOMEM), s, K)
                        }
                      | Some dirh \<Rightarrow> Some (Inr dirh, s, K))
                   }
                 }
               })
        })"

definition locked_closedir :: "env \<Rightarrow> nat \<Rightarrow> fs \<Rightarrow> locks \<Rightarrow> (int \<times> fs \<times> locks) option" where
  "locked_closedir V h s K =
     do {
       K \<leftarrow> fskit_dir_handle_wlock h s K;
       dirh \<leftarrow> dhs s h;
       (case dh_dent dirh of
          None \<Rightarrow> do { K \<leftarrow> fskit_dir_handle_unlock h s K; Some (- EBADF, s, K) }
        | Some dent \<Rightarrow>
            do {
              (rc, s, K) \<leftarrow> locked_run_user_close V (dh_path dirh) dent (dh_app_data dirh) s K;
              if rc \<noteq> 0 then do { K \<leftarrow> fskit_dir_handle_unlock h s K; Some (rc, s, K) }
              else do {
                (rc, K) \<leftarrow> fskit_entry_wlock2 dent s K;
                if rc \<noteq> 0 then do { K \<leftarrow> fskit_dir_handle_unlock h s K; Some (rc, s, K) }
                else do {
                  s \<leftarrow> upd dent (\<lambda>e. e\<lparr>open_count := open_count e - 1\<rparr>) s;
                  (rc, s, K) \<leftarrow> locked_try_destroy_and_free V (dh_path dirh) None dent s K;
                  if rc < 0 then do { K \<leftarrow> fskit_entry_unlock2 dent s K; Some (rc, s, K) }
                  else do {
                    K \<leftarrow> (if rc = 0 then fskit_entry_unlock2 dent s K else Some K);
                    K \<leftarrow> fskit_dir_handle_unlock h s K;
                    K \<leftarrow> rwlock_destroy (DirLock h) K;
                    s \<leftarrow> fskit_dir_handle_destroy h s;
                    Some (0, s, K)
                  }
                }
              }
            })
     }"

lemma locked_user_open_eq:
  "quiet (Some fent) K \<Longrightarrow> locked_run_user_open V path fent flags s K =
    map_option (\<lambda>(rc, d, s). (rc, d, s, K)) (fskit_run_user_open V path fent flags s)"
  by (auto simp: locked_run_user_open_def fskit_run_user_open_def fskit_route_call_open_def locked_call_eq
      map_option_bind bind_map_option comp_def case_prod_unfold intro!: Option.bind_cong)

lemma user_open_frame: "fskit_run_user_open V path fent flags s = Some (rc, d, s') \<Longrightarrow> attr_frame s s'"
  by (auto simp: fskit_run_user_open_def fskit_route_call_open_def bind_eq_Some split: if_splits dest: route_call_frame)

lemma locked_opendir_eq:
  assumes N: "no_self s" and L: "all_live s" and D: "dotdot_free (fskit_sanitize_path path)"
  shows "locked_opendir V path user grp s no_locks =
    map_option (\<lambda>(r, s). (r, s, no_locks)) (fskit_opendir V path user grp s)"
proof (cases "length path < PATH_MAX")
  case True
  let ?p = "fskit_sanitize_path path"
  have q: "quiet (Some a) no_locks" for a by (simp add: quiet_def)
  show ?thesis unfolding locked_opendir_def fskit_opendir_def Let_def if_not_P [OF True [unfolded not_le [symmetric]]]
  proof (rule resolved_eq [OF N D], goal_cases)
    case (2 a e)
    let ?s = "s\<lparr>heap := (heap s)(a \<mapsto> e\<lparr>open_count := open_count e + 1\<rparr>)\<rparr>"
    have "all_live ?s" using L 2 by (auto simp: all_live_def)
    note defs = fskit_entry_ref_entry_def upd_simp [OF 2] one_unlock locked_user_open_eq [OF q] 2
    show ?case
    proof (cases "fskit_run_user_open V ?p a 0 ?s")
      case (Some x)
      obtain rc d s1 where x: "x = (rc, d, s1)" by (cases x)
      note fr = user_open_frame [OF Some [unfolded x]]
      obtain e1 where e1: "heap s1 a = Some e1" using attr_frame_Some [OF fr, of a] by auto
      have live: "etype e1 \<noteq> T_DEAD" using frame_live [OF fr \<open>all_live ?s\<close>] e1 by (auto simp: all_live_def)
      note l = hold_lock [of a "{}", OF _ e1 live, of True, simplified] and U = locked_unref_eq [OF q]
      show ?thesis using Some x e1 live l
        by (auto simp: defs U [OF e1 live] fskit_dir_handle_create_def map_option_bind bind_map_option comp_def case_prod_unfold
            intro!: Option.bind_cong)
    qed (simp add: defs)
  qed simp
qed (simp add: locked_opendir_def fskit_opendir_def)

lemma dir_locks:
  "dhs s h \<noteq> None \<Longrightarrow> fskit_dir_handle_wlock h s no_locks = Some (no_locks(DirLock h := Writer))"
  "dhs s h \<noteq> None \<Longrightarrow> fskit_dir_handle_unlock h s (no_locks(DirLock h := Writer)) = Some no_locks"
  "quiet (Some a) (no_locks(DirLock h := Writer))" "rwlock_destroy (DirLock h) no_locks = Some no_locks"
  by (auto simp: fskit_dir_handle_wlock_def fskit_dir_handle_unlock_def rwlock_round quiet_def rwlock_destroy_def)

lemma locked_closedir_eq:
  assumes L: "all_live s"
  shows "locked_closedir V h s no_locks = map_option (\<lambda>(rc, s). (rc, s, no_locks)) (fskit_closedir V h s)"
proof (cases "\<exists>dh a. dhs s h = Some dh \<and> dh_dent dh = Some a")
  case False
  then show ?thesis
    by (cases "dhs s h") (auto simp: locked_closedir_def fskit_closedir_def dir_locks fskit_dir_handle_wlock_def rwlock_round split: option.split)
next
  case True
  then obtain dh a where dh: "dhs s h = Some dh" "dh_dent dh = Some a" by blast
  note defs = locked_closedir_def fskit_closedir_def locked_user_close_eq [OF dir_locks(3)]
  show ?thesis
  proof (cases "fskit_run_user_close V (dh_path dh) a (dh_app_data dh) s")
    case c: (Some x)
    obtain rc s1 where x: "x = (rc, s1)" by (cases x)
    note fr = user_close_frame [OF c [unfolded x]]
    have h1: "dhs s1 h = Some dh" using fr dh by (simp add: attr_frame_def)
    show ?thesis
    proof (cases "rc = 0 \<and> heap s1 a \<noteq> None")
      case True
      then obtain e where e: "heap s1 a = Some e" "rc = 0" by auto
      then have live: "etype e \<noteq> T_DEAD" using frame_live [OF fr L] by (auto simp: all_live_def)
      let ?s = "s1\<lparr>heap := (heap s1)(a \<mapsto> e\<lparr>open_count := open_count e - 1\<rparr>)\<rparr>"
      note E = beside_locks(1) [OF dir_locks(3) e(1) live] beside_locks(2,3) [OF dir_locks(3)]
      show ?thesis
      proof (cases "fskit_entry_try_destroy_and_free V (dh_path dh) None a ?s")
        case t: (Some y)
        obtain rc2 s2 where y: "y = (rc2, s2)" by (cases y)
        have "(rc2 = 1 \<or> (rc2 = 0 \<and> heap s2 a \<noteq> None)) \<and> dhs s2 h = Some dh"
          by (rule try_destroy_and_free_cases [OF t [unfolded y]]) (use h1 in auto)
        then show ?thesis using dh c x e live t y
          by (auto simp: defs dir_locks E upd_simp fskit_entry_lock_def fskit_dir_handle_destroy_def fskit_entry_unlock_def)
      qed (use dh c x e live in \<open>simp add: defs dir_locks E upd_simp fskit_entry_lock_def\<close>)
    qed (use dh c x h1 in \<open>auto simp: defs dir_locks fskit_entry_lock_def fskit_entry_wlock2_def\<close>)
  qed (use dh in \<open>simp add: defs dir_locks\<close>)
qed

end
