(* ===== verification/LockedMake.thy ===== *)
theory LockedMake
  imports LockedHandles
begin

text \<open>
  The locks of the calls that make a name: \<open>mkdir.c\<close>, \<open>mknod.c\<close>, \<open>symlink.c\<close>, \<open>create.c\<close>, \<open>open.c\<close>. The parent
  stays locked for writing until the end (\<open>open\<close> gives it up while the route of an existing file runs); a
  new inode is known to nobody else and is locked only to be attached. The lemmas: each call with its locks
  does what it does without, and gives them back, unless the name is one of the parent's own entries \<open>"."\<close> and
  \<open>".."\<close>.
\<close>

subsection \<open>Comparing a call with its locks and without\<close>

text \<open>\<open>same K M N\<close>: \<open>M\<close> does what \<open>N\<close> does, and leaves the locks \<open>K\<close>. The rules follow the shape of the calls.\<close>

definition same :: "locks \<Rightarrow> ('r \<times> fs \<times> locks) option \<Rightarrow> ('r \<times> fs) option \<Rightarrow> bool" where
  "same K M N \<longleftrightarrow> M = map_option (\<lambda>(r, s). (r, s, K)) N"

named_theorems sm

lemma same_Some [sm]: "same K (Some (r, s, K)) (Some (r, s))"
  by (simp add: same_def)

lemma same_None [sm]: "same K None None"
  by (simp add: same_def)

lemma same_if [sm]: "(b \<Longrightarrow> same K M N) \<Longrightarrow> (\<not> b \<Longrightarrow> same K M' N') \<Longrightarrow> same K (if b then M else M') (if b then N else N')"
  by simp

lemma same_sum [sm]:
  "(\<And>e. r = Inl e \<Longrightarrow> same K (f e) (f' e)) \<Longrightarrow> (\<And>a. r = Inr a \<Longrightarrow> same K (g a) (g' a)) \<Longrightarrow>
    same K (case r of Inl e \<Rightarrow> f e | Inr a \<Rightarrow> g a) (case r of Inl e \<Rightarrow> f' e | Inr a \<Rightarrow> g' a)"
  by (cases r) auto

lemma same_option [sm]:
  "(r = None \<Longrightarrow> same K M N) \<Longrightarrow> (\<And>a. r = Some a \<Longrightarrow> same K (g a) (g' a)) \<Longrightarrow>
    same K (case r of None \<Rightarrow> M | Some a \<Rightarrow> g a) (case r of None \<Rightarrow> N | Some a \<Rightarrow> g' a)"
  by (cases r) auto

lemma same_Inl: "same K (f e) (f' e) \<Longrightarrow> same K (case Inl e of Inl e \<Rightarrow> f e | Inr a \<Rightarrow> g a) (case Inl e of Inl e \<Rightarrow> f' e | Inr a \<Rightarrow> g' a)"
  by simp

lemma same_Inr: "same K (g a) (g' a) \<Longrightarrow> same K (case Inr a of Inl e \<Rightarrow> f e | Inr a \<Rightarrow> g a) (case Inr a of Inl e \<Rightarrow> f' e | Inr a \<Rightarrow> g' a)"
  by simp

lemma same_let [sm]: "same K (f x) (g x) \<Longrightarrow> same K (let y = x in f y) (let y = x in g y)"
  by simp

lemma same_plain:
  "post P m \<Longrightarrow> (\<And>x. P x \<Longrightarrow> same K (F x) (G x)) \<Longrightarrow> same K (Option.bind m F) (Option.bind m G)"
  by (cases m) (auto simp: same_def post_def)

lemma same_lock: "m = Some x \<Longrightarrow> same K (F x) N \<Longrightarrow> same K (Option.bind m F) N"
  by simp

lemma same_bind:
  "same K' M N \<Longrightarrow> post P N \<Longrightarrow> (\<And>r s. P (r, s) \<Longrightarrow> same K (F r s K') (G r s)) \<Longrightarrow>
    same K (do { (r, s, K) \<leftarrow> M; F r s K }) (do { (r, s) \<leftarrow> N; G r s })"
  by (cases N) (auto simp: same_def post_def)

lemma same_bind_data:
  "M = map_option (\<lambda>(r, d, s). (r, d, s, K')) N \<Longrightarrow> post P N \<Longrightarrow> (\<And>r d s. P (r, d, s) \<Longrightarrow> same K (F r d s K') (G r d s)) \<Longrightarrow>
    same K (do { (r, d, s, K) \<leftarrow> M; F r d s K }) (do { (r, d, s) \<leftarrow> N; G r d s })"
  by (cases N) (auto simp: post_def same_def)

lemma same_bind_state:
  "M = map_option (\<lambda>s. (s, K')) N \<Longrightarrow> post P N \<Longrightarrow> (\<And>s. P s \<Longrightarrow> same K (F s K') (G s)) \<Longrightarrow>
    same K (do { (s, K) \<leftarrow> M; F s K }) (do { s \<leftarrow> N; G s })"
  by (cases N) (auto simp: post_def same_def)

subsection \<open>The parent stays\<close>

text \<open>The parent is in memory, and new inodes are made where none is.\<close>

definition there :: "addr \<Rightarrow> fs \<Rightarrow> bool" where
  "there p s \<longleftrightarrow> heap s p \<noteq> None \<and> (\<forall>a. heap s a \<noteq> None \<longrightarrow> a < brk s)"

named_theorems th

lemma there_unlock: "there p s \<Longrightarrow> fskit_entry_unlock2 p s (hold True {p}) = Some no_locks"
  by (simp add: there_def hold_unlock)

lemma th_upd [th]: "there p s \<Longrightarrow> (\<And>s'. there p s' \<Longrightarrow> Q s') \<Longrightarrow> post Q (upd a f s)"
  by (auto simp: post_def upd_Some there_def)

lemma there_frame: "there p s \<Longrightarrow> attr_frame s s' \<Longrightarrow> there p s'"
  using attr_frame_dom [of s s'] by (auto simp: there_def attr_frame_def dom_def)

lemma th_destroy [th]: "there p s \<Longrightarrow> (\<And>s'. there p s' \<Longrightarrow> Q s') \<Longrightarrow> post Q (fskit_entry_destroy a s)"
  unfolding fskit_entry_destroy_def by (rule th_upd)

lemma th_free [th]: "there p s \<Longrightarrow> p \<noteq> a \<Longrightarrow> (\<And>s'. there p s' \<Longrightarrow> Q s') \<Longrightarrow> post Q (free_entry a s)"
  by (auto simp: post_def free_entry_def there_def split: if_splits)

lemma th_attach [th]:
  "there p s \<Longrightarrow> (\<And>rc s'. there p s' \<Longrightarrow> Q (rc, s')) \<Longrightarrow> post Q (fskit_entry_attach_lowlevel V parent a name s)"
  unfolding fskit_entry_attach_lowlevel_def by (assumption | rule vc th)+

lemma th_detach [th]:
  "there p s \<Longrightarrow> (\<And>rc s'. there p s' \<Longrightarrow> Q (rc, s')) \<Longrightarrow> post Q (fskit_entry_detach_lowlevel V parent name s)"
  unfolding fskit_entry_detach_lowlevel_def by (assumption | rule vc th)+

lemma there_try_destroy:
  "fskit_entry_try_destroy_and_free V path parent a s = Some (rc, s') \<Longrightarrow> there p s \<Longrightarrow> p \<noteq> a \<Longrightarrow> there p s'"
  by (erule try_destroy_and_free_cases) (auto simp: there_def)

lemma th_try_destroy [th]:
  "there p s \<Longrightarrow> p \<noteq> a \<Longrightarrow> (\<And>rc s'. there p s' \<Longrightarrow> Q (rc, s')) \<Longrightarrow> post Q (fskit_entry_try_destroy_and_free V path parent a s)"
  using there_try_destroy by (fastforce simp: post_def)

lemma th_gc [th]:
  "there p s \<Longrightarrow> p \<noteq> a \<Longrightarrow> (\<And>rc s'. there p s' \<Longrightarrow> Q (rc, s')) \<Longrightarrow> post Q (fskit_entry_try_garbage_collect V path parent a s)"
  unfolding fskit_entry_try_garbage_collect_def Let_def by (assumption | rule vc th)+

lemma th_ref [th]: "there p s \<Longrightarrow> (\<And>s'. there p s' \<Longrightarrow> Q s') \<Longrightarrow> post Q (fskit_entry_ref_entry a s)"
  unfolding fskit_entry_ref_entry_def by (rule th_upd)

lemma th_unref [th]:
  "there p s \<Longrightarrow> p \<noteq> a \<Longrightarrow> (\<And>rc s'. there p s' \<Longrightarrow> Q (rc, s')) \<Longrightarrow> post Q (fskit_entry_unref V path a s)"
  unfolding fskit_entry_unref_def by (assumption | rule vc th)+

lemma there_alloc: "there p s \<Longrightarrow> alloc_entry s = (c, s') \<Longrightarrow> there p s' \<and> p \<noteq> c"
  by (auto simp: there_def alloc_entry_def less_Suc_eq split: if_splits)

subsection \<open>Taking over a name\<close>

definition locked_try_garbage_collect ::
    "env \<Rightarrow> string \<Rightarrow> addr \<Rightarrow> addr \<Rightarrow> fs \<Rightarrow> locks \<Rightarrow> (int \<times> fs \<times> locks) option" where
  "locked_try_garbage_collect V path parent child s K =
     do {
       c \<leftarrow> heap s child;
       if deletion_in_progress c then
         do {
           path_basename \<leftarrow> name_buf path;
           (rc, s) \<leftarrow> fskit_entry_detach_lowlevel V parent path_basename s;
           let rc = (if rc < 0
                     then (if rc = - ENOENT then 0 else if rc \<noteq> - ENOTEMPTY then - EIO else rc)
                     else rc);
           if rc = 0 then
             do {
               (rc, s, K) \<leftarrow> locked_try_destroy_and_free V path (Some parent) child s K;
               if rc \<ge> 0 then
                 (if rc > 0 then
                    do {
                      s \<leftarrow> upd parent (\<lambda>e. e\<lparr>children := fst (fskit_entry_set_remove (children e) path_basename),
                                              num_children := num_children e - 1\<rparr>) s;
                      Some (rc, s, K)
                    }
                  else Some (rc, s, K))
               else Some (- EIO, s, K)
             }
           else Some (rc, s, K)
         }
       else Some (- EEXIST, s, K)
     }"

text \<open>
  An inode whose name is wanted. \<open>early\<close>: \<open>mknod\<close> and \<open>open\<close> give up the parent before the child when the
  child stays, and \<open>mkdir\<close> after it.
\<close>

definition locked_reclaim :: "bool \<Rightarrow> env \<Rightarrow> string \<Rightarrow> addr \<Rightarrow> string \<Rightarrow> fs \<Rightarrow> locks \<Rightarrow> (int \<times> fs \<times> locks) option" where
  "locked_reclaim early V path parent name s K =
     do {
       p \<leftarrow> heap s parent;
       (case fskit_entry_set_find_name (children p) name of
          None \<Rightarrow> Some (0, s, K)
        | Some child \<Rightarrow>
            do {
              K \<leftarrow> lock_entry True child s K;
              (err, s, K) \<leftarrow> locked_try_garbage_collect V path parent child s K;
              if err \<ge> 0 then
                (if err = 0 then do { K \<leftarrow> fskit_entry_unlock2 child s K; Some (0, s, K) } else Some (0, s, K))
              else do {
                K \<leftarrow> (if early then fskit_entry_unlock2 parent s K else Some K);
                K \<leftarrow> fskit_entry_unlock2 child s K;
                Some (if err = - EEXIST then - EEXIST else - EIO, s, K)
              }
            })
     }"

lemma detach_nonpos: "fskit_entry_detach_lowlevel V parent name s = Some (rc, s') \<Longrightarrow> rc \<le> 0"
  by (cases rule: detach_cases) (auto simp: errno_defs)

lemma locked_gc_eq:
  assumes q: "quiet None K" and w: "K (EntryLock child) = Writer"
  shows "locked_try_garbage_collect V path parent child s K =
    map_option (\<lambda>(rc, s). (rc, s, if rc > 0 then K(EntryLock child := Unlocked) else K))
      (fskit_entry_try_garbage_collect V path parent child s)"
  by (auto simp: locked_try_garbage_collect_def fskit_entry_try_garbage_collect_def locked_destroy_eq [OF q w] errno_defs
      map_option_bind bind_map_option comp_def case_prod_unfold Let_def intro!: Option.bind_cong)
    (drule detach_nonpos, simp)

lemma gc_keeps:
  assumes "fskit_entry_try_garbage_collect V path parent child s = Some (rc, s')" and "\<not> rc > 0"
  shows "heap s' child \<noteq> None"
  using assms(1)
proof (cases rule: gc_cases)
  case (detached nm rc1 s1)
  show ?thesis by (rule try_destroy_and_free_cases [OF detached(4)]) auto
next
  case (busy nm)
  then show ?thesis using assms(1)
    by (cases "heap s child") (auto simp: fskit_entry_try_garbage_collect_def)
qed (use assms(2) in auto)

lemma same_reclaim:
  assumes t: "there p s" and L: "all_live s" and N: "no_self s" and n: "n \<noteq> ''.''" "n \<noteq> ''..''"
  shows "locked_reclaim early V path p n s (hold True {p}) =
    map_option (\<lambda>(err, s). (err, s, if early \<and> err \<noteq> 0 then no_locks else hold True {p})) (reclaim_name V path p n s)"
proof (cases "\<exists>e c. heap s p = Some e \<and> fskit_entry_set_find_name (children e) n = Some c \<and> heap s c \<noteq> None")
  case True
  then obtain e c f where e: "heap s p = Some e" "fskit_entry_set_find_name (children e) n = Some c" and f: "heap s c = Some f"
    by auto
  have c: "c \<noteq> p" using no_self_child [OF N e(1) n] e(2) by auto
  have live: "etype f \<noteq> T_DEAD" using L f by (auto simp: all_live_def)
  have K: "quiet None (hold True {c, p})" "hold True {c, p} (EntryLock c) = Writer"
    by (simp_all add: held_as_def)
  note defs = locked_reclaim_def reclaim_name_def e hold_lock [of c "{p}", OF _ f live, simplified, OF c] locked_gc_eq [OF K]
    fskit_entry_lock_def f
  show ?thesis
  proof (cases "fskit_entry_try_garbage_collect V path p c s")
    case (Some x)
    obtain rc s' where x: "x = (rc, s')" by (cases x)
    have "post (\<lambda>(rc, s'). there p s') (fskit_entry_try_garbage_collect V path p c s)"
      by (rule th_gc [OF t]) (use c in auto)
    then have p': "heap s' p \<noteq> None" using Some x by (simp add: post_def there_def)
    have u: "fskit_entry_unlock2 c s' (hold True {c, p}) = Some (hold True {p})"
        "fskit_entry_unlock2 p s' (hold True {c, p}) = Some (hold True {c})"
        "fskit_entry_unlock2 c s' (hold True {c}) = Some no_locks" if "\<not> rc > 0"
      using gc_keeps [OF Some [unfolded x] that] p' c by (auto simp: hold_unlock insert_Diff_if)
    have d: "(hold True {c, p})(EntryLock c := Unlocked) = hold True {p}" using c by auto
    show ?thesis using Some x u d gc_keeps [OF Some [unfolded x]] c
      by (auto simp: defs fskit_entry_unlock_def errno_defs)
  qed (simp add: defs)
qed (use t in \<open>auto simp: locked_reclaim_def reclaim_name_def there_def lock_entry_def fskit_entry_wlock2_def fskit_entry_lock_def
    split: option.split\<close>)

lemma reclaim_there:
  assumes t: "there p s" and N: "no_self s" and n: "n \<noteq> ''.''" "n \<noteq> ''..''"
  shows "post (\<lambda>(err, s'). there p s') (reclaim_name V path p n s)"
proof (cases "\<exists>e c. heap s p = Some e \<and> fskit_entry_set_find_name (children e) n = Some c")
  case True
  then obtain e c where e: "heap s p = Some e" "fskit_entry_set_find_name (children e) n = Some c" by auto
  have c: "p \<noteq> c" using no_self_child [OF N e(1) n] e(2) by auto
  have "post (\<lambda>(err, s'). there p s') (fskit_entry_try_garbage_collect V path p c s)"
    by (rule th_gc [OF t c]) simp
  then show ?thesis by (auto simp: reclaim_name_def e post_def bind_eq_Some split: if_splits)
qed (use t in \<open>auto simp: reclaim_name_def there_def post_def split: option.split_asm\<close>)

lemma th_reclaim:
  assumes "there p s" and "no_self s" and "n \<noteq> ''.''" and "n \<noteq> ''..''" and "\<And>err s'. there p s' \<Longrightarrow> Q (err, s')"
  shows "post Q (reclaim_name V path p n s)"
  using post_via [OF reclaim_there [OF assms(1-4)]] assms(5) by (simp add: split_paired_all)

text \<open>A new inode, which is not locked by anyone.\<close>

lemma new_unlocked: "p \<noteq> c \<Longrightarrow> quiet (Some c) (hold True {p})" "p \<noteq> c \<Longrightarrow> hold True {p} (EntryLock c) = Unlocked"
  by auto

lemma locked_entry_destroy_eq:
  assumes "K (EntryLock c) = Unlocked"
  shows "locked_entry_destroy c needlock s K = map_option (\<lambda>s. (s, K)) (fskit_entry_destroy c s)"
proof (cases "heap s c")
  case (Some e)
  have k: "K(EntryLock c := Unlocked) = K" "s\<lparr>heap := (heap s)(c \<mapsto> e)\<rparr> = s" using assms Some by (simp_all add: fun_upd_idem)
  show ?thesis using Some assms k
    by (auto simp: locked_entry_destroy_def fskit_entry_destroy_def upd_def rwlock_destroy_def lock_unlocked held_as_def
        fskit_entry_unlock2_def rwlock_unlock_def)
qed (simp add: locked_entry_destroy_def fskit_entry_destroy_def upd_def)

lemma same_alloc:
  assumes "there p s" and "\<And>c s'. there p s' \<Longrightarrow> p \<noteq> c \<Longrightarrow> heap s' c = Some zero_entry \<Longrightarrow> same K (f c s') (g c s')"
  shows "same K (case alloc_entry s of (c, s') \<Rightarrow> f c s') (case alloc_entry s of (c, s') \<Rightarrow> g c s')"
proof -
  obtain c s' where a: "alloc_entry s = (c, s')" by (cases "alloc_entry s")
  then show ?thesis using there_alloc [OF assms(1) a] assms(2) [of s' c] by (auto simp: alloc_entry_def)
qed

text \<open>The steps that both calls make alike, and the destruction of an inode that was not attached.\<close>

lemma same_heap [sm]: "(\<And>e. heap s c = Some e \<Longrightarrow> same K (F e) (G e)) \<Longrightarrow> same K (Option.bind (heap s c) F) (Option.bind (heap s c) G)"
  by (cases "heap s c") (simp_all add: same_def)

lemma same_name [sm]: "(\<And>n. same K (F n) (G n)) \<Longrightarrow> same K (Option.bind (name_buf path) F) (Option.bind (name_buf path) G)"
  by (cases "name_buf path") (simp_all add: same_def)

lemma same_upd [sm]:
  "there p s \<Longrightarrow> (\<And>s'. there p s' \<Longrightarrow> same K (F s') (G s')) \<Longrightarrow> same K (Option.bind (upd c f s) F) (Option.bind (upd c f s) G)"
  by (rule same_plain [OF th_upd])

lemma same_free [sm]:
  "there p s \<Longrightarrow> p \<noteq> c \<Longrightarrow> (\<And>s'. there p s' \<Longrightarrow> same K (F s') (G s')) \<Longrightarrow>
    same K (Option.bind (free_entry c s) F) (Option.bind (free_entry c s) G)"
  by (rule same_plain [OF th_free])

lemma same_attach [sm]:
  "there p s \<Longrightarrow> (\<And>rc s'. there p s' \<Longrightarrow> same K (F rc s') (G rc s')) \<Longrightarrow>
    same K (do { (rc, s) \<leftarrow> fskit_entry_attach_lowlevel V parent c n s; F rc s })
      (do { (rc, s) \<leftarrow> fskit_entry_attach_lowlevel V parent c n s; G rc s })"
  by (rule same_plain [where P = "\<lambda>(rc, s). there p s"]) (auto intro: th_attach)

lemma same_destroy [sm]:
  "there p s \<Longrightarrow> p \<noteq> c \<Longrightarrow> (\<And>s'. there p s' \<Longrightarrow> same K (F s' (hold True {p})) (G s')) \<Longrightarrow>
    same K (do { (s, K) \<leftarrow> locked_entry_destroy c needlock s (hold True {p}); F s K }) (do { s \<leftarrow> fskit_entry_destroy c s; G s })"
  by (rule same_bind_state [where P = "there p", OF locked_entry_destroy_eq]) (auto intro: th_destroy)

lemma same_destroy_free [sm]:
  "there p s \<Longrightarrow> (\<And>s'. there p s' \<Longrightarrow> same K (F s' no_locks) (G s')) \<Longrightarrow>
    same K (do { (s, K) \<leftarrow> locked_entry_destroy c needlock s no_locks; F s K }) (do { s \<leftarrow> fskit_entry_destroy c s; G s })"
  by (rule same_bind_state [where P = "there p", OF locked_entry_destroy_eq]) (auto intro: th_destroy)

text \<open>The parent is found, and in the end unlocked.\<close>

definition bounded :: "fs \<Rightarrow> bool" where
  "bounded s \<longleftrightarrow> (\<forall>a. heap s a \<noteq> None \<longrightarrow> a < brk s)"

lemma rinv_bounded: "rinv L R s \<Longrightarrow> bounded s"
  by (auto simp: rinv_def bounded_def)

lemma same_resolve:
  assumes N: "no_self s" and D: "dotdot_free path" and b: "bounded s"
    and "\<And>err. same K (F (Inl err) no_locks) (G (Inl err))"
    and "\<And>a. there a s \<Longrightarrow> same K (F (Inr a) (hold True {a})) (G (Inr a))"
  shows "same K (do { (r, K) \<leftarrow> locked_resolve_path V path user grp True s no_locks; F r K })
    (do { r \<leftarrow> fskit_entry_resolve_path V path user grp s; G r })"
proof (cases "fskit_entry_resolve_path V path user grp s")
  case (Some r)
  show ?thesis
  proof (cases r)
    case (Inr a)
    then have "there a s" using resolve_path_live Some b by (fastforce simp: there_def bounded_def)
    then show ?thesis using Some Inr assms(5) by (simp add: locked_resolve_eq [OF N D] hold_one)
  qed (use Some assms(4) in \<open>simp add: locked_resolve_eq [OF N D]\<close>)
qed (simp add: locked_resolve_eq [OF N D] same_def)

lemma same_release [sm]:
  "there p s \<Longrightarrow> (there p s \<Longrightarrow> same K (F no_locks) N) \<Longrightarrow> same K (Option.bind (fskit_entry_unlock2 p s (hold True {p})) F) N"
  by (simp add: there_unlock)

lemma same_finish:
  assumes "same (hold True {p}) M N" and "post (\<lambda>(r, s). there p s) N"
  shows "same no_locks (do { (r, s, K) \<leftarrow> M; K \<leftarrow> fskit_entry_unlock2 p s K; Some (r, s, K) }) N"
  using assms by (cases N) (auto simp: same_def post_def there_unlock)

lemma th_alloc [th]:
  assumes "there p s" and "\<And>c s'. there p s' \<Longrightarrow> p \<noteq> c \<Longrightarrow> post Q (f c s')"
  shows "post Q (case alloc_entry s of (c, s') \<Rightarrow> f c s')"
  using assms there_alloc [OF assms(1)] by (auto split: prod.split)

subsection \<open>mkdir\<close>

definition locked_run_user_mkdir ::
    "env \<Rightarrow> string \<Rightarrow> addr \<Rightarrow> addr \<Rightarrow> u32 \<Rightarrow> nat \<Rightarrow> fs \<Rightarrow> locks \<Rightarrow> (int \<times> nat \<times> fs \<times> locks) option" where
  "locked_run_user_mkdir V path parent fent mode cls s K =
     do {
       name \<leftarrow> name_buf path;
       (rc, cbrc, da, s, K) \<leftarrow> locked_route_call V FSKIT_ROUTE_MATCH_MKDIR path (Some fent)
          (fskit_route_mkdir_args (Some parent) name mode cls) s K;
       if rc = - EPERM \<or> rc = - ENOSYS then Some (0, 0, s, K)
       else if cbrc \<noteq> 0 then Some (cbrc, 0, s, K)
       else Some (0, da_inode_data da, s, K)
     }"

definition locked_mkdir_lowlevel ::
    "env \<Rightarrow> string \<Rightarrow> addr \<Rightarrow> string \<Rightarrow> u32 \<Rightarrow> u64 \<Rightarrow> u64 \<Rightarrow> nat \<Rightarrow> fs \<Rightarrow> locks \<Rightarrow> (int \<times> fs \<times> locks) option" where
  "locked_mkdir_lowlevel V path parent path_basename mode user grp cls s K =
     do {
       (err, s, K) \<leftarrow> locked_reclaim False V path parent path_basename s K;
       if err \<noteq> 0 then Some (err, s, K)
       else if \<not> mem_ok V ''fskit_mkdir_lowlevel'' then Some (- ENOMEM, s, K)
       else
         (case alloc_entry s of
            (child, s) \<Rightarrow>
              (let child_inode = fskit_core_inode_alloc V s child in
               if child_inode = 0 then do { s \<leftarrow> free_entry child s; Some (- EIO, s, K) }
               else do {
                 c \<leftarrow> heap s child;
                 (let err = snd (fskit_entry_init_dir V child parent child_inode user grp mode c) in
                  do {
                    s \<leftarrow> upd child (\<lambda>c. fst (fskit_entry_init_dir V child parent child_inode user grp mode c)) s;
                    if err \<noteq> 0 then do { s \<leftarrow> free_entry child s; Some (err, s, K) }
                    else do {
                      s \<leftarrow> upd child (\<lambda>c. c\<lparr>open_count := open_count c + 1\<rparr>) s;
                      (err, app_dir_data, s, K) \<leftarrow> locked_run_user_mkdir V path parent child mode cls s K;
                      s \<leftarrow> upd child (\<lambda>c. c\<lparr>open_count := open_count c - 1\<rparr>) s;
                      if err \<noteq> 0 then do {
                        (s, K) \<leftarrow> locked_entry_destroy child False s K;
                        s \<leftarrow> free_entry child s;
                        Some (err, s, K)
                      }
                      else do {
                        s \<leftarrow> upd child (fskit_entry_set_user_data app_dir_data) s;
                        (_, s) \<leftarrow> fskit_entry_attach_lowlevel V parent child path_basename s;
                        Some (0, s, K)
                      }
                    }
                  })
               }))
     }"

definition locked_mkdir_ex ::
    "env \<Rightarrow> string \<Rightarrow> u32 \<Rightarrow> u64 \<Rightarrow> u64 \<Rightarrow> nat \<Rightarrow> fs \<Rightarrow> locks \<Rightarrow> (int \<times> fs \<times> locks) option" where
  "locked_mkdir_ex V path mode user grp cls s K =
     (if fskit_basename_len path > FSKIT_FILESYSTEM_NAMEMAX then Some (- ENAMETOOLONG, s, K)
      else
        let fpath = fskit_sanitize_path path in
        do {
          path_dirname \<leftarrow> fskit_dirname fpath;
          (r, K) \<leftarrow> locked_resolve_path V (fskit_sanitize_path path_dirname) user grp True s K;
          (case r of
             Inl err \<Rightarrow> Some (err, s, K)
           | Inr parent \<Rightarrow>
               do {
                 p \<leftarrow> heap s parent;
                 if etype p \<noteq> T_DIR then do { K \<leftarrow> fskit_entry_unlock2 parent s K; Some (- ENOTDIR, s, K) }
                 else if \<not> FSKIT_ENTRY_IS_WRITEABLE p user grp
                 then do { K \<leftarrow> fskit_entry_unlock2 parent s K; Some (- EACCES, s, K) }
                 else do {
                   (err, s, K) \<leftarrow> locked_mkdir_lowlevel V path parent (fskit_basename fpath) mode user grp cls s K;
                   K \<leftarrow> fskit_entry_unlock2 parent s K;
                   Some (err, s, K)
                 }
               })
        })"

lemma locked_user_mkdir_eq:
  "quiet (Some fent) K \<Longrightarrow> locked_run_user_mkdir V path parent fent mode cls s K =
    map_option (\<lambda>(rc, d, s). (rc, d, s, K)) (fskit_run_user_mkdir V path parent fent mode cls s)"
  by (auto simp: locked_run_user_mkdir_def fskit_run_user_mkdir_def fskit_route_call_mkdir_def locked_call_eq
      map_option_bind bind_map_option comp_def case_prod_unfold intro!: Option.bind_cong)

lemma th_user_mkdir [th]:
  "there p s \<Longrightarrow> (\<And>rc d s'. there p s' \<Longrightarrow> Q (rc, d, s')) \<Longrightarrow> post Q (fskit_run_user_mkdir V path parent fent mode cls s)"
  using run_user_mkdir_frame [of s V path parent fent mode cls] there_frame by (fastforce simp: post_def)

lemma same_user_mkdir [sm]:
  "there p s \<Longrightarrow> p \<noteq> c \<Longrightarrow> (\<And>rc d s'. there p s' \<Longrightarrow> same K (F rc d s' (hold True {p})) (G rc d s')) \<Longrightarrow>
    same K (do { (rc, d, s, K) \<leftarrow> locked_run_user_mkdir V path parent c mode cls s (hold True {p}); F rc d s K })
      (do { (rc, d, s) \<leftarrow> fskit_run_user_mkdir V path parent c mode cls s; G rc d s })"
  by (rule same_bind_data [where P = "\<lambda>(rc, d, s). there p s", OF locked_user_mkdir_eq [OF new_unlocked(1)]])
    (auto intro: th_user_mkdir)

lemma mkdir_lowlevel_same:
  assumes t: "there p s" and L: "all_live s" and N: "no_self s" and n: "n \<noteq> ''.''" "n \<noteq> ''..''"
  shows "same (hold True {p}) (locked_mkdir_lowlevel V path p n mode user grp cls s (hold True {p}))
    (fskit_mkdir_lowlevel V path p n mode user grp cls s)"
  unfolding locked_mkdir_lowlevel_def fskit_mkdir_lowlevel_def Let_def
proof (rule same_bind [where K' = "hold True {p}", OF _ reclaim_there [OF t N n]], goal_cases)
  case 1
  show ?case by (simp add: same_def same_reclaim [OF t L N n])
next
  case (2 err s1)
  then have t1: "there p s1" by simp
  show ?case by (insert t1) (assumption | rule same_alloc sm)+
qed

lemma mkdir_lowlevel_there:
  assumes t: "there p s" and N: "no_self s" and n: "n \<noteq> ''.''" "n \<noteq> ''..''"
  shows "post (\<lambda>(r, s). there p s) (fskit_mkdir_lowlevel V path p n mode user grp cls s)"
  unfolding fskit_mkdir_lowlevel_def by (insert assms) (assumption | rule vc th_reclaim th | (simp; fail))+

lemma locked_mkdir_same:
  assumes N: "no_self s" and L: "all_live s" and b: "bounded s"
    and D: "\<And>d. fskit_dirname (fskit_sanitize_path path) = Some d \<Longrightarrow> dotdot_free (fskit_sanitize_path d)"
    and n: "fskit_basename (fskit_sanitize_path path) \<noteq> ''.''" "fskit_basename (fskit_sanitize_path path) \<noteq> ''..''"
  shows "same no_locks (locked_mkdir_ex V path mode user grp cls s no_locks) (fskit_mkdir_ex V path mode user grp cls s)"
proof (cases "fskit_dirname (fskit_sanitize_path path)")
  case (Some d)
  show ?thesis
    unfolding locked_mkdir_ex_def fskit_mkdir_ex_def Let_def Some
    by (rule same_Inl same_Inr | rule sm | (simp only: Option.bind_lunit) | rule same_resolve [OF N D [OF Some] b]
      same_finish [OF mkdir_lowlevel_same [OF _ L N n] mkdir_lowlevel_there [OF _ N n]] | assumption)+
qed (simp add: locked_mkdir_ex_def fskit_mkdir_ex_def same_def)

subsection \<open>mknod\<close>

definition locked_run_user_mknod ::
    "env \<Rightarrow> string \<Rightarrow> addr \<Rightarrow> addr \<Rightarrow> u32 \<Rightarrow> u64 \<Rightarrow> nat \<Rightarrow> fs \<Rightarrow> locks \<Rightarrow> (int \<times> nat \<times> fs \<times> locks) option" where
  "locked_run_user_mknod V path parent fent mode d cls s K =
     do {
       name \<leftarrow> name_buf path;
       (rc, cbrc, da, s, K) \<leftarrow> locked_route_call V FSKIT_ROUTE_MATCH_MKNOD path (Some fent)
          (fskit_route_mknod_args (Some parent) name mode d cls) s K;
       if rc = - EPERM then Some (0, 0, s, K)
       else if cbrc \<noteq> 0 then Some (cbrc, 0, s, K)
       else Some (0, da_inode_data da, s, K)
     }"

definition locked_mknod_ex ::
    "env \<Rightarrow> string \<Rightarrow> u32 \<Rightarrow> u64 \<Rightarrow> u64 \<Rightarrow> u64 \<Rightarrow> nat \<Rightarrow> fs \<Rightarrow> locks \<Rightarrow> (int \<times> fs \<times> locks) option" where
  "locked_mknod_ex V fs_path mode d user grp cls s K =
     (if fskit_basename_len fs_path > FSKIT_FILESYSTEM_NAMEMAX then Some (- ENAMETOOLONG, s, K)
      else
        let path = fskit_sanitize_path fs_path in
        do {
          path_dirname \<leftarrow> fskit_dirname path;
          (r, K) \<leftarrow> locked_resolve_path V path_dirname user grp True s K;
          (case r of
             Inl err \<Rightarrow> Some (err, s, K)
           | Inr parent \<Rightarrow>
               do {
                 p \<leftarrow> heap s parent;
                 if \<not> FSKIT_ENTRY_IS_DIR_SEARCHABLE p user grp
                 then do { K \<leftarrow> fskit_entry_unlock2 parent s K; Some (- EACCES, s, K) }
                 else if \<not> FSKIT_ENTRY_IS_WRITEABLE p user grp
                 then do { K \<leftarrow> fskit_entry_unlock2 parent s K; Some (- EACCES, s, K) }
                 else do {
                   (err, s, K) \<leftarrow> locked_reclaim True V path parent (fskit_basename path) s K;
                   if err \<noteq> 0 then Some (err, s, K)
                   else
                     (case alloc_entry s of
                        (child, s) \<Rightarrow>
                          (case mknod_init V mode d user grp of
                             None \<Rightarrow>
                               do {
                                 K \<leftarrow> fskit_entry_unlock2 parent s K;
                                 (s, K) \<leftarrow> locked_entry_destroy child False s K;
                                 s \<leftarrow> free_entry child s;
                                 Some (- EINVAL, s, K)
                               }
                           | Some init \<Rightarrow>
                               do {
                                 c \<leftarrow> heap s child;
                                 s \<leftarrow> upd child (\<lambda>c. fst (init c)) s;
                                 if snd (init c) = 0 then
                                   (let fid = fskit_core_inode_alloc V s child in
                                    if fid = 0 then do {
                                      K \<leftarrow> fskit_entry_unlock2 parent s K;
                                      (s, K) \<leftarrow> locked_entry_destroy child False s K;
                                      s \<leftarrow> free_entry child s;
                                      Some (- EIO, s, K)
                                    }
                                    else do {
                                      s \<leftarrow> upd child (\<lambda>c. c\<lparr>file_id := fid\<rparr>) s;
                                      s \<leftarrow> upd child (\<lambda>c. c\<lparr>open_count := open_count c + 1\<rparr>) s;
                                      (err, inode_data, s, K) \<leftarrow> locked_run_user_mknod V path parent child mode d cls s K;
                                      s \<leftarrow> upd child (\<lambda>c. c\<lparr>open_count := open_count c - 1\<rparr>) s;
                                      if err \<noteq> 0 then do {
                                        K \<leftarrow> fskit_entry_unlock2 parent s K;
                                        (s, K) \<leftarrow> locked_entry_destroy child True s K;
                                        s \<leftarrow> free_entry child s;
                                        Some (err, s, K)
                                      }
                                      else do {
                                        K \<leftarrow> lock_entry True child s K;
                                        (_, s) \<leftarrow> fskit_entry_attach_lowlevel V parent child (fskit_basename path) s;
                                        K \<leftarrow> fskit_entry_unlock2 child s K;
                                        K \<leftarrow> fskit_entry_unlock2 parent s K;
                                        Some (0, s, K)
                                      }
                                    })
                                 else do {
                                   (s, K) \<leftarrow> locked_entry_destroy child False s K;
                                   s \<leftarrow> free_entry child s;
                                   K \<leftarrow> fskit_entry_unlock2 parent s K;
                                   Some (snd (init c), s, K)
                                 }
                               }))
                 }
               })
        })"

lemma locked_user_mknod_eq:
  "quiet (Some fent) K \<Longrightarrow> locked_run_user_mknod V path parent fent mode d cls s K =
    map_option (\<lambda>(rc, d, s). (rc, d, s, K)) (fskit_run_user_mknod V path parent fent mode d cls s)"
  by (auto simp: locked_run_user_mknod_def fskit_run_user_mknod_def fskit_route_call_mknod_def locked_call_eq
      map_option_bind bind_map_option comp_def case_prod_unfold intro!: Option.bind_cong)

text \<open>From its initialisation on the new inode is alive.\<close>

definition newborn :: "addr \<Rightarrow> addr \<Rightarrow> fs \<Rightarrow> bool" where
  "newborn p c s \<longleftrightarrow> there p s \<and> p \<noteq> c \<and> (\<exists>e. heap s c = Some e \<and> etype e \<noteq> T_DEAD)"

named_theorems mk

lemma made_frame: "newborn p c s \<Longrightarrow> attr_frame s s' \<Longrightarrow> newborn p c s'"
  unfolding newborn_def by (metis attr_frame_Some attr_normD(4) there_frame)

lemma made_upd: "newborn p c s \<Longrightarrow> upd a f s = Some s' \<Longrightarrow> (\<And>e. etype (f e) = etype e) \<Longrightarrow> newborn p c s'"
  using th_upd [of p s "there p" a f] by (auto simp: newborn_def upd_Some post_def)

lemma md_upd: "newborn p c s \<Longrightarrow> (\<And>e. etype (f e) = etype e) \<Longrightarrow> (\<And>s'. newborn p c s' \<Longrightarrow> Q s') \<Longrightarrow> post Q (upd a f s)"
  using made_upd by (auto simp: post_def)

lemma md_attach: "newborn p c s \<Longrightarrow> (\<And>rc s'. newborn p c s' \<Longrightarrow> Q (rc, s')) \<Longrightarrow> post Q (fskit_entry_attach_lowlevel V parent a n s)"
  unfolding fskit_entry_attach_lowlevel_def by (assumption | rule vc | rule md_upd | (simp; fail))+

lemma md_detach: "newborn p c s \<Longrightarrow> (\<And>rc s'. newborn p c s' \<Longrightarrow> Q (rc, s')) \<Longrightarrow> post Q (fskit_entry_detach_lowlevel V parent n s)"
  unfolding fskit_entry_detach_lowlevel_def by (assumption | rule vc | rule md_upd | (simp; fail))+

lemma same_made_upd [mk]:
  "newborn p c s \<Longrightarrow> (\<And>e. etype (f e) = etype e) \<Longrightarrow> (\<And>s'. newborn p c s' \<Longrightarrow> same K (F s') (G s')) \<Longrightarrow>
    same K (Option.bind (upd c f s) F) (Option.bind (upd c f s) G)"
  by (cases "upd c f s") (auto simp: same_def dest: made_upd)

lemma same_made_release [mk]:
  "newborn p c s \<Longrightarrow> (newborn p c s \<Longrightarrow> same K (F no_locks) N) \<Longrightarrow>
    same K (Option.bind (fskit_entry_unlock2 p s (hold True {p})) F) N"
  by (simp add: newborn_def there_unlock)

lemma same_made_destroy [mk]:
  "newborn p c s \<Longrightarrow> (\<And>s'. there p s' \<Longrightarrow> p \<noteq> c \<Longrightarrow> same K (F s' no_locks) (G s')) \<Longrightarrow>
    same K (do { (s, K) \<leftarrow> locked_entry_destroy c needlock s no_locks; F s K }) (do { s \<leftarrow> fskit_entry_destroy c s; G s })"
  by (rule same_bind_state [where P = "there p", OF locked_entry_destroy_eq]) (auto simp: newborn_def intro: th_destroy)

lemma same_made_attach [mk]:
  assumes m: "newborn p c s" and F: "\<And>rc s'. newborn p c s' \<Longrightarrow> same K (F rc s' (hold True {p})) (G rc s')"
  shows "same K (do { K \<leftarrow> lock_entry True c s (hold True {p}); (rc, s) \<leftarrow> fskit_entry_attach_lowlevel V parent c n s;
      K \<leftarrow> fskit_entry_unlock2 c s K; F rc s K })
    (do { (rc, s) \<leftarrow> fskit_entry_attach_lowlevel V parent c n s; G rc s })"
proof -
  obtain e where e: "heap s c = Some e" "etype e \<noteq> T_DEAD" "p \<noteq> c" using m by (auto simp: newborn_def)
  have l: "lock_entry True c s (hold True {p}) = Some (hold True {c, p})"
    using hold_lock [of c "{p}" s e True] e by auto
  have u: "fskit_entry_unlock2 c s' (hold True {c, p}) = Some (hold True {p})" if "newborn p c s'" for s'
  proof -
    have "heap s' c \<noteq> None" using that by (auto simp: newborn_def)
    then show ?thesis using e(3) by (simp add: hold_unlock insert_Diff_if)
  qed
  show ?thesis
    using l u F md_attach [OF m, of "\<lambda>(rc, s'). newborn p c s'" V parent c n]
    by (cases "fskit_entry_attach_lowlevel V parent c n s") (auto simp: same_def post_def)
qed

lemma md_user_mknod:
  "newborn p c s \<Longrightarrow> (\<And>rc d s'. newborn p c s' \<Longrightarrow> Q (rc, d, s')) \<Longrightarrow> post Q (fskit_run_user_mknod V path parent fent mode dv cls s)"
  using run_user_mknod_frame [of s V path parent fent mode dv cls] made_frame by (fastforce simp: post_def)

lemma made_quiet: "newborn p c s \<Longrightarrow> quiet (Some c) (hold True {p})"
  by (auto simp: newborn_def)

lemma same_user_mknod [mk]:
  "newborn p c s \<Longrightarrow> (\<And>rc d s'. newborn p c s' \<Longrightarrow> same K (F rc d s' (hold True {p})) (G rc d s')) \<Longrightarrow>
    same K (do { (rc, d, s, K) \<leftarrow> locked_run_user_mknod V path parent c mode dv cls s (hold True {p}); F rc d s K })
      (do { (rc, d, s) \<leftarrow> fskit_run_user_mknod V path parent c mode dv cls s; G rc d s })"
  by (rule same_bind_data [where P = "\<lambda>(rc, d, s). newborn p c s", OF locked_user_mknod_eq [OF made_quiet]])
    (auto intro: md_user_mknod)

lemma same_made_new:
  assumes t: "there p s" and "p \<noteq> c" and "heap s c = Some e" and i: "snd (init e) = 0 \<Longrightarrow> etype (fst (init e)) \<noteq> T_DEAD"
    and F: "\<And>s'. there p s' \<Longrightarrow> snd (init e) \<noteq> 0 \<Longrightarrow> same K (F s') (G s')"
    and F0: "\<And>s'. newborn p c s' \<Longrightarrow> snd (init e) = 0 \<Longrightarrow> same K (F s') (G s')"
  shows "same K (Option.bind (upd c (\<lambda>c. fst (init c)) s) F) (Option.bind (upd c (\<lambda>c. fst (init c)) s) G)"
proof -
  let ?s = "s\<lparr>heap := (heap s)(c \<mapsto> fst (init e))\<rparr>"
  have u: "upd c (\<lambda>c. fst (init c)) s = Some ?s" using assms(3) by (simp add: upd_simp)
  have "there p ?s" using t assms(3) by (auto simp: there_def)
  then have "same K (F ?s) (G ?s)"
    using F [of ?s] F0 [of ?s] i assms(2) by (cases "snd (init e) = 0") (auto simp: newborn_def)
  then show ?thesis by (simp add: u)
qed

lemma same_reclaim_early:
  assumes t: "there p s" and L: "all_live s" and N: "no_self s" and n: "n \<noteq> ''.''" "n \<noteq> ''..''"
    and F: "\<And>err s'. there p s' \<Longrightarrow> err \<noteq> 0 \<Longrightarrow> same K (F err s' no_locks) (G err s')"
    and F0: "\<And>err s'. there p s' \<Longrightarrow> err = 0 \<Longrightarrow> same K (F err s' (hold True {p})) (G err s')"
  shows "same K (do { (err, s, K) \<leftarrow> locked_reclaim True V path p n s (hold True {p}); F err s K })
    (do { (err, s) \<leftarrow> reclaim_name V path p n s; G err s })"
proof (cases "reclaim_name V path p n s")
  case (Some x)
  obtain err s' where x: "x = (err, s')" by (cases x)
  have "there p s'" using reclaim_there [OF t N n] Some x by (simp add: post_def)
  then show ?thesis using Some x F [of s' err] F0 [of s' err] by (auto simp: same_reclaim [OF t L N n])
qed (simp add: same_reclaim [OF t L N n] same_def)

lemma locked_mknod_same:
  assumes N: "no_self s" and L: "all_live s" and b: "bounded s"
    and D: "\<And>d. fskit_dirname (fskit_sanitize_path path) = Some d \<Longrightarrow> dotdot_free d"
    and n: "fskit_basename (fskit_sanitize_path path) \<noteq> ''.''" "fskit_basename (fskit_sanitize_path path) \<noteq> ''..''"
  shows "same no_locks (locked_mknod_ex V path mode d user grp cls s no_locks) (fskit_mknod_ex V path mode d user grp cls s)"
proof (cases "fskit_dirname (fskit_sanitize_path path)")
  case (Some dir)
  show ?thesis
    unfolding locked_mknod_ex_def fskit_mknod_ex_def Let_def Some
    by ((erule (1) notE) | assumption | (erule (1) mknod_type) | erule mk | rule same_Inl same_Inr | rule same_made_new same_alloc |
      rule sm | (simp only: Option.bind_lunit) | rule same_resolve [OF N D [OF Some] b] same_reclaim_early [OF _ L N n] |
      (simp; fail))+
qed (simp add: locked_mknod_ex_def fskit_mknod_ex_def same_def)

subsection \<open>symlink\<close>

definition locked_symlink :: "env \<Rightarrow> string option \<Rightarrow> string \<Rightarrow> u64 \<Rightarrow> u64 \<Rightarrow> fs \<Rightarrow> locks \<Rightarrow> (int \<times> fs \<times> locks) option" where
  "locked_symlink V target linkpath user grp s K =
     do {
       parent_path \<leftarrow> dirname_buf linkpath;
       child_name \<leftarrow> name_buf linkpath;
       (r, K) \<leftarrow> locked_resolve_path V parent_path user grp True s K;
       (case r of
          Inl err \<Rightarrow> Some (err, s, K)
        | Inr parent \<Rightarrow>
            do {
              p \<leftarrow> heap s parent;
              if \<not> FSKIT_ENTRY_IS_WRITEABLE p user grp
              then do { K \<leftarrow> fskit_entry_unlock2 parent s K; Some (- EACCES, s, K) }
              else if etype p \<noteq> T_DIR then do { K \<leftarrow> fskit_entry_unlock2 parent s K; Some (- ENOTDIR, s, K) }
              else if fskit_entry_set_find_name (children p) child_name \<noteq> None
              then do { K \<leftarrow> fskit_entry_unlock2 parent s K; Some (- EEXIST, s, K) }
              else if \<not> mem_ok V ''fskit_symlink'' then do { K \<leftarrow> fskit_entry_unlock2 parent s K; Some (- ENOMEM, s, K) }
              else
                (case alloc_entry s of
                   (child, s) \<Rightarrow>
                     (let fid = fskit_core_inode_alloc V s child in
                      if fid = 0 then do {
                        K \<leftarrow> fskit_entry_unlock2 parent s K;
                        s \<leftarrow> free_entry child s;
                        Some (- EIO, s, K)
                      }
                      else do {
                        c \<leftarrow> heap s child;
                        s \<leftarrow> upd child (\<lambda>c. fst (fskit_entry_init_symlink V fid target c)) s;
                        if snd (fskit_entry_init_symlink V fid target c) \<noteq> 0 then do {
                          (s, K) \<leftarrow> locked_entry_destroy child True s K;
                          s \<leftarrow> free_entry child s;
                          K \<leftarrow> fskit_entry_unlock2 parent s K;
                          Some (- EIO, s, K)
                        }
                        else do {
                          (rc, s) \<leftarrow> fskit_entry_attach_lowlevel V parent child child_name s;
                          if rc \<noteq> 0 then do {
                            (s, K) \<leftarrow> locked_entry_destroy child True s K;
                            s \<leftarrow> free_entry child s;
                            K \<leftarrow> fskit_entry_unlock2 parent s K;
                            Some (- EIO, s, K)
                          }
                          else do { K \<leftarrow> fskit_entry_unlock2 parent s K; Some (0, s, K) }
                        }
                      }))
            })
     }"

lemma locked_symlink_same:
  assumes N: "no_self s" and b: "bounded s" and D: "\<And>d. dirname_buf path = Some d \<Longrightarrow> dotdot_free d"
  shows "same no_locks (locked_symlink V target path user grp s no_locks) (fskit_symlink V target path user grp s)"
proof (cases "dirname_buf path")
  case (Some dir)
  show ?thesis
    unfolding locked_symlink_def fskit_symlink_def Let_def Some
    by (assumption | rule same_Inl same_Inr same_alloc | rule sm | (simp only: Option.bind_lunit) |
      rule same_resolve [OF N D [OF Some] b])+
qed (simp add: locked_symlink_def fskit_symlink_def same_def)

subsection \<open>Creating\<close>

definition locked_run_user_create ::
    "env \<Rightarrow> string \<Rightarrow> addr \<Rightarrow> addr \<Rightarrow> u32 \<Rightarrow> nat \<Rightarrow> fs \<Rightarrow> locks \<Rightarrow> (int \<times> (nat \<times> nat) \<times> fs \<times> locks) option" where
  "locked_run_user_create V path parent fent mode cls s K =
     do {
       name \<leftarrow> name_buf path;
       (rc, cbrc, da, s, K) \<leftarrow> locked_route_call V FSKIT_ROUTE_MATCH_CREATE path (Some fent)
          (fskit_route_create_args (Some parent) name mode cls) s K;
       if rc = - EPERM \<or> rc = - ENOSYS then Some (0, (0, 0), s, K)
       else if cbrc \<noteq> 0 then Some (cbrc, (0, 0), s, K)
       else Some (0, (da_inode_data da, da_handle_data da), s, K)
     }"

definition locked_do_create ::
    "env \<Rightarrow> addr \<Rightarrow> string \<Rightarrow> u32 \<Rightarrow> u64 \<Rightarrow> u64 \<Rightarrow> nat \<Rightarrow> fs \<Rightarrow> locks \<Rightarrow> ((int + addr \<times> nat) \<times> fs \<times> locks) option" where
  "locked_do_create V parent path mode user grp cls s K =
     do {
       path_basename \<leftarrow> name_buf path;
       if \<not> mem_ok V ''fskit_do_create'' then Some (Inl (- ENOMEM), s, K)
       else
         (case alloc_entry s of
            (child, s) \<Rightarrow>
              do {
                c \<leftarrow> heap s child;
                s \<leftarrow> upd child (\<lambda>c. fst (fskit_entry_init_file V 0 user grp mode c)) s;
                let rc = snd (fskit_entry_init_file V 0 user grp mode c) in
                if rc \<noteq> 0 then do {
                  (s, K) \<leftarrow> locked_entry_destroy child False s K;
                  s \<leftarrow> free_entry child s;
                  Some (Inl rc, s, K)
                }
                else
                  let child_inode = fskit_core_inode_alloc V s child in
                  if child_inode = 0 then do {
                    (s, K) \<leftarrow> locked_entry_destroy child False s K;
                    s \<leftarrow> free_entry child s;
                    Some (Inl (- EIO), s, K)
                  }
                  else do {
                    s \<leftarrow> upd child (fskit_entry_set_file_id child_inode) s;
                    s \<leftarrow> upd child (\<lambda>c. c\<lparr>open_count := open_count c + 1\<rparr>) s;
                    (rc, (inode_data, handle_data), s, K) \<leftarrow> locked_run_user_create V path parent child mode cls s K;
                    if rc \<noteq> 0 then do {
                      (s, K) \<leftarrow> locked_entry_destroy child False s K;
                      s \<leftarrow> free_entry child s;
                      Some (Inl rc, s, K)
                    }
                    else do {
                      s \<leftarrow> upd child (fskit_entry_set_user_data inode_data) s;
                      K \<leftarrow> lock_entry True child s K;
                      (_, s) \<leftarrow> fskit_entry_attach_lowlevel V parent child path_basename s;
                      K \<leftarrow> fskit_entry_unlock2 child s K;
                      Some (Inr (child, handle_data), s, K)
                    }
                  }
              })
     }"

lemma locked_user_create_eq:
  "quiet (Some fent) K \<Longrightarrow> locked_run_user_create V path parent fent mode cls s K =
    map_option (\<lambda>(rc, d, s). (rc, d, s, K)) (fskit_run_user_create V path parent fent mode cls s)"
  by (auto simp: locked_run_user_create_def fskit_run_user_create_def fskit_route_call_create_def locked_call_eq
      map_option_bind bind_map_option comp_def case_prod_unfold intro!: Option.bind_cong)

lemma md_user_create:
  "newborn p c s \<Longrightarrow> (\<And>rc d s'. newborn p c s' \<Longrightarrow> Q (rc, d, s')) \<Longrightarrow> post Q (fskit_run_user_create V path parent fent mode cls s)"
  using post_via [OF run_user_create_frame [of s V path parent fent mode cls]] made_frame by (simp add: split_paired_all)

lemma th_user_create [th]:
  "there p s \<Longrightarrow> (\<And>rc d s'. there p s' \<Longrightarrow> Q (rc, d, s')) \<Longrightarrow> post Q (fskit_run_user_create V path parent fent mode cls s)"
  using post_via [OF run_user_create_frame [of s V path parent fent mode cls]] there_frame by (simp add: split_paired_all)

lemma same_user_create [mk]:
  assumes m: "newborn p c s" and F: "\<And>rc i h s'. newborn p c s' \<Longrightarrow> same K (F rc i h s' (hold True {p})) (G rc i h s')"
  shows "same K (do { (rc, (i, h), s, K) \<leftarrow> locked_run_user_create V path parent c mode cls s (hold True {p}); F rc i h s K })
      (do { (rc, (i, h), s) \<leftarrow> fskit_run_user_create V path parent c mode cls s; G rc i h s })"
  using locked_user_create_eq [OF made_quiet [OF m], of V path parent mode cls s] F
    md_user_create [OF m, of "\<lambda>(rc, d, s'). newborn p c s'" V path parent c mode cls]
  by (cases "fskit_run_user_create V path parent c mode cls s") (auto simp: same_def post_def)

lemma same_made_destroy_held [mk]:
  "newborn p c s \<Longrightarrow> (\<And>s'. there p s' \<Longrightarrow> p \<noteq> c \<Longrightarrow> same K (F s' (hold True {p})) (G s')) \<Longrightarrow>
    same K (do { (s, K) \<leftarrow> locked_entry_destroy c needlock s (hold True {p}); F s K }) (do { s \<leftarrow> fskit_entry_destroy c s; G s })"
  by (rule same_destroy) (auto simp: newborn_def)

lemma do_create_same:
  assumes "there p s"
  shows "same (hold True {p}) (locked_do_create V p path mode user grp cls s (hold True {p})) (fskit_do_create V p path mode user grp cls s)"
  unfolding locked_do_create_def fskit_do_create_def Let_def
  by (insert assms) ((erule (1) notE) | assumption | (erule init_types) | erule mk | rule same_made_new same_alloc |
    rule sm | (simp add: fskit_entry_set_user_data_def fskit_entry_set_file_id_def; fail))+

subsection \<open>Opening\<close>

text \<open>The parent is given up while the route of an existing file runs, and locked again after it.\<close>

definition locked_do_open ::
    "env \<Rightarrow> string \<Rightarrow> addr \<Rightarrow> addr \<Rightarrow> nat \<Rightarrow> u64 \<Rightarrow> u64 \<Rightarrow> fs \<Rightarrow> locks \<Rightarrow> ((int + nat) \<times> fs \<times> locks) option" where
  "locked_do_open V path parent child flags user grp s K =
     do {
       K \<leftarrow> lock_entry True child s K;
       c \<leftarrow> heap s child;
       let rc = do_open_check c flags user grp in
       if rc \<noteq> 0 then do { K \<leftarrow> fskit_entry_unlock2 child s K; Some (Inl rc, s, K) }
       else do {
         s \<leftarrow> fskit_entry_ref_entry child s;
         K \<leftarrow> fskit_entry_unlock2 child s K;
         K \<leftarrow> fskit_entry_unlock2 parent s K;
         (rc, handle_data, s, K) \<leftarrow> locked_run_user_open V path child flags s K;
         K \<leftarrow> lock_entry True parent s K;
         if rc \<noteq> 0 then do {
           (_, s, K) \<leftarrow> locked_unref V path child s K;
           Some (Inl rc, s, K)
         }
         else Some (Inr handle_data, s, K)
       }
     }"

text \<open>Where no file is found or made the parent has been unlocked.\<close>

definition locked_open_child ::
    "env \<Rightarrow> string \<Rightarrow> string \<Rightarrow> addr \<Rightarrow> entry \<Rightarrow> nat \<Rightarrow> u32 \<Rightarrow> u64 \<Rightarrow> u64 \<Rightarrow> nat \<Rightarrow> fs \<Rightarrow> locks \<Rightarrow>
     ((int + addr \<times> bool \<times> nat) \<times> fs \<times> locks) option" where
  "locked_open_child V path path_basename parent p flags mode user grp cls s K =
     (if has_flag flags O_CREAT then
        do {
          (rc, s, K) \<leftarrow> locked_reclaim True V path parent path_basename s K;
          if rc \<noteq> 0 then Some (Inl rc, s, K)
          else do {
            (r, s, K) \<leftarrow> locked_do_create V parent path mode user grp cls s K;
            (case r of
               Inl rc \<Rightarrow> do { K \<leftarrow> fskit_entry_unlock2 parent s K; Some (Inl rc, s, K) }
             | Inr x \<Rightarrow> Some (Inr (fst x, True, snd x), s, K))
          }
        }
      else
        (case fskit_entry_set_find_name (children p) path_basename of
           None \<Rightarrow> do { K \<leftarrow> fskit_entry_unlock2 parent s K; Some (Inl (- ENOENT), s, K) }
         | Some child \<Rightarrow> Some (Inr (child, False, 0), s, K)))"

definition locked_open_ex ::
    "env \<Rightarrow> string \<Rightarrow> u64 \<Rightarrow> u64 \<Rightarrow> nat \<Rightarrow> u32 \<Rightarrow> nat \<Rightarrow> fs \<Rightarrow> locks \<Rightarrow> ((int + nat) \<times> fs \<times> locks) option" where
  "locked_open_ex V path0 user grp flags mode cls s K =
     (if fskit_check_flags flags \<noteq> 0 then Some (Inl (- EINVAL), s, K)
      else if \<not> mem_ok V ''fskit_open_ex'' then Some (Inl (- ENOMEM), s, K)
      else
        let path = fskit_sanitize_path path0 in
        if fskit_basename_len path > FSKIT_FILESYSTEM_NAMEMAX then Some (Inl (- ENAMETOOLONG), s, K)
        else do {
          path_dirname \<leftarrow> fskit_dirname path;
          path_basename \<leftarrow> name_buf path;
          (r, K) \<leftarrow> locked_resolve_path V path_dirname user grp True s K;
          (case r of
             Inl err \<Rightarrow> Some (Inl err, s, K)
           | Inr parent \<Rightarrow>
               do {
                 p \<leftarrow> heap s parent;
                 let rc = fskit_do_parent_check p flags user grp in
                 if rc \<noteq> 0 then do { K \<leftarrow> fskit_entry_unlock2 parent s K; Some (Inl rc, s, K) }
                 else do {
                   (r, s, K) \<leftarrow> locked_open_child V path path_basename parent p flags mode user grp cls s K;
                   (case r of
                      Inl rc \<Rightarrow> Some (Inl rc, s, K)
                    | Inr x \<Rightarrow>
                        let child = fst x; created = fst (snd x) in
                        do {
                          (rc, s, K) \<leftarrow>
                            (if has_flag flags O_TRUNC \<and> has_flag flags (or O_RDWR O_WRONLY)
                             then locked_run_user_trunc V path (Some child) 0 0 s K
                             else Some (0, s, K));
                          if rc \<noteq> 0 then do { K \<leftarrow> fskit_entry_unlock2 parent s K; Some (Inl rc, s, K) }
                          else do {
                            (r, s, K) \<leftarrow>
                              (if \<not> created then locked_do_open V path parent child flags user grp s K
                               else Some (Inr (snd (snd x)), s, K));
                            K \<leftarrow> fskit_entry_unlock2 parent s K;
                            (case r of
                               Inl rc \<Rightarrow> Some (Inl rc, s, K)
                             | Inr handle_data \<Rightarrow>
                                 do {
                                   s \<leftarrow> upd child (\<lambda>e. fst (fskit_entry_set_atime V None e)) s;
                                   (h, s) \<leftarrow> fskit_file_handle_create V child path flags handle_data s;
                                   (case h of
                                      None \<Rightarrow> Some (Inl (- ENOMEM), s, K)
                                    | Some fh \<Rightarrow> Some (Inr fh, s, K))
                                 })
                          }
                        })
                 }
               })
        })"

text \<open>An existing file beside its parent.\<close>

definition beside :: "addr \<Rightarrow> addr \<Rightarrow> fs \<Rightarrow> bool" where
  "beside p c s \<longleftrightarrow> there p s \<and> p \<noteq> c \<and> all_live s"

lemma beside_frame: "beside p c s \<Longrightarrow> attr_frame s s' \<Longrightarrow> beside p c s'"
  unfolding beside_def using there_frame frame_live by blast

lemma do_open_same:
  assumes "beside p c s"
  shows "same (hold True {p}) (locked_do_open V path p c flags user grp s (hold True {p})) (fskit_do_open V path c flags user grp s)"
proof (cases "heap s c")
  case (Some e)
  have t: "there p s" and c: "c \<noteq> p" and L: "all_live s" using assms by (auto simp: beside_def)
  obtain f where f: "heap s p = Some f" using t by (auto simp: there_def)
  have live: "etype e \<noteq> T_DEAD" using L Some by (auto simp: all_live_def)
  let ?s = "s\<lparr>heap := (heap s)(c \<mapsto> e\<lparr>open_count := open_count e + 1\<rparr>)\<rparr>"
  have ls: "all_live ?s" "there p ?s" using L Some t by (auto simp: all_live_def there_def)
  have l: "lock_entry True c s (hold True {p}) = Some (hold True {c, p})"
    using hold_lock [of c "{p}" s e True] Some live c by auto
  have u: "fskit_entry_unlock2 c s' (hold True {c, p}) = Some (hold True {p})" if "heap s' c \<noteq> None" for s'
    using that c by (simp add: hold_unlock insert_Diff_if)
  have q: "quiet (Some c) no_locks" by (simp add: quiet_def)
  note defs = locked_do_open_def fskit_do_open_def fskit_entry_ref_entry_def upd_simp [OF Some] l u Some
    there_unlock [OF ls(2)] locked_user_open_eq [OF q] Let_def same_def
  show ?thesis
  proof (cases "fskit_run_user_open V path c flags ?s")
    case o: (Some x)
    obtain rc d s1 where x: "x = (rc, d, s1)" by (cases x)
    note fr = user_open_frame [OF o [unfolded x]]
    have L1: "all_live s1" using frame_live [OF fr ls(1)] .
    obtain e1 where e1: "heap s1 c = Some e1" using attr_frame_Some [OF fr, of c] by auto
    obtain f1 where f1: "heap s1 p = Some f1" using attr_frame_Some [OF fr, of p f] f c by auto
    have "lock_entry True p s1 no_locks = Some (hold True {p})"
      using hold_lock [of p "{}" s1 f1 True] f1 L1 by (auto simp: all_live_def)
    moreover have "locked_unref V path c s1 (hold True {p}) =
        map_option (\<lambda>(rc, s). (rc, s, hold True {p})) (fskit_entry_unref V path c s1)"
      using locked_unref_eq [OF _ e1] L1 e1 c by (auto simp: all_live_def)
    ultimately show ?thesis using o x
      by (auto simp: defs map_option_bind bind_map_option comp_def case_prod_unfold intro!: Option.bind_cong)
  qed (simp add: defs)
qed (simp add: locked_do_open_def fskit_do_open_def lock_entry_def fskit_entry_wlock2_def same_def)

lemma th_user_open [th]:
  "there p s \<Longrightarrow> (\<And>rc d s'. there p s' \<Longrightarrow> Q (rc, d, s')) \<Longrightarrow> post Q (fskit_run_user_open V path c flags s)"
  using there_frame [OF _ user_open_frame] by (auto simp: post_def)

lemma do_open_there:
  assumes "beside p c s"
  shows "post (\<lambda>(r, s). there p s) (fskit_do_open V path c flags user grp s)"
  unfolding fskit_do_open_def
  by (insert assms [unfolded beside_def], (erule conjE)+) (assumption | rule vc th | (simp; fail))+

lemma do_create_there:
  assumes "there p s"
  shows "post (\<lambda>(r, s). there p s \<and> (\<forall>c d. r = Inr (c, d) \<longrightarrow> p \<noteq> c)) (fskit_do_create V p path mode user grp cls s)"
  unfolding fskit_do_create_def by (insert assms) (assumption | rule vc th post_prod_fun | (simp; fail))+

lemma same_open_child:
  assumes e: "heap s p = Some e" and t: "there p s" and L: "all_live s" and N: "no_self s" and n: "n \<noteq> ''.''" "n \<noteq> ''..''"
    and F: "\<And>err s'. there p s' \<Longrightarrow> same K (F (Inl err) s' no_locks) (G (Inl err) s')"
    and F1: "\<And>c d s'. there p s' \<Longrightarrow> p \<noteq> c \<Longrightarrow> same K (F (Inr (c, True, d)) s' (hold True {p})) (G (Inr (c, True, d)) s')"
    and F0: "\<And>c. beside p c s \<Longrightarrow> same K (F (Inr (c, False, 0)) s (hold True {p})) (G (Inr (c, False, 0)) s)"
  shows "same K (do { (r, s, K) \<leftarrow> locked_open_child V path n p e flags mode user grp cls s (hold True {p}); F r s K })
    (do { (r, s) \<leftarrow> open_child V path n p e flags mode user grp cls s; G r s })"
proof (cases "has_flag flags O_CREAT")
  case False
  have "beside p c s" if "fskit_entry_set_find_name (children e) n = Some c" for c
    using no_self_child [OF N e n] that t L by (auto simp: beside_def)
  then show ?thesis using False F [OF t] F0
    by (auto simp: locked_open_child_def open_child_def there_unlock [OF t] split: option.split)
next
  case True
  show ?thesis
  proof (cases "reclaim_name V path p n s")
    case (Some x)
    obtain err s1 where x: "x = (err, s1)" by (cases x)
    have t1: "there p s1" using reclaim_there [OF t N n] Some x by (simp add: post_def)
    note defs = locked_open_child_def open_child_def same_reclaim [OF t L N n] True Some x do_create_same [OF t1, unfolded same_def]
    show ?thesis
    proof (cases "fskit_do_create V p path mode user grp cls s1")
      case (Some y)
      obtain r s2 where y: "fskit_do_create V p path mode user grp cls s1 = Some (r, s2)" using Some by (cases y) auto
      have "there p s2 \<and> (\<forall>c d. r = Inr (c, d) \<longrightarrow> p \<noteq> c)"
        using do_create_there [OF t1, of V path mode user grp cls] y by (simp add: post_def)
      then show ?thesis using F [of s2] F [of s1] F1 [of s2] t1 y
        by (cases r) (auto simp: defs there_unlock)
    qed (use F [of s1] t1 in \<open>auto simp: defs same_None\<close>)
  qed (simp add: locked_open_child_def open_child_def same_reclaim [OF t L N n] True same_None)
qed

lemma trunc_same:
  "p \<noteq> c \<Longrightarrow> same (hold True {p})
    (if b then locked_run_user_trunc V path (Some c) sz d s (hold True {p}) else Some (0, s, hold True {p}))
    (if b then fskit_run_user_trunc V path (Some c) sz d s else Some (0, s))"
  by (simp add: same_def locked_user_trunc_eq)

lemma trunc_frame:
  "post (\<lambda>(rc, s'). attr_frame s s') (if b then fskit_run_user_trunc V path (Some c) sz d s else Some (0, s))"
  by (auto simp: post_def dest: user_trunc_frame)

lemma opened_same:
  assumes "if created then there p s \<and> p \<noteq> c else beside p c s"
  shows "same (hold True {p}) (if \<not> created then locked_do_open V path p c flags user grp s (hold True {p}) else Some (Inr d, s, hold True {p}))
      (if \<not> created then fskit_do_open V path c flags user grp s else Some (Inr d, s))"
    and "post (\<lambda>(r, s). there p s) (if \<not> created then fskit_do_open V path c flags user grp s else Some (Inr d, s))"
  using assms do_open_same [of p c s V path flags user grp] do_open_there [of p c s V path flags user grp]
  by (auto simp: same_Some post_def)

lemma open_tail_same:
  assumes i: "if created then there p s \<and> p \<noteq> c else beside p c s"
  shows "same no_locks (do {
      (rc, s, K) \<leftarrow> (if b then locked_run_user_trunc V path (Some c) 0 0 s (hold True {p}) else Some (0, s, hold True {p}));
      if rc \<noteq> 0 then do { K \<leftarrow> fskit_entry_unlock2 p s K; Some (Inl rc, s, K) }
      else do {
        (r, s, K) \<leftarrow> (if \<not> created then locked_do_open V path p c flags user grp s K else Some (Inr d, s, K));
        K \<leftarrow> fskit_entry_unlock2 p s K;
        (case r of
           Inl rc \<Rightarrow> Some (Inl rc, s, K)
         | Inr handle_data \<Rightarrow> do {
             s \<leftarrow> upd c (\<lambda>e. fst (fskit_entry_set_atime V None e)) s;
             (h, s) \<leftarrow> fskit_file_handle_create V c path flags handle_data s;
             (case h of None \<Rightarrow> Some (Inl (- ENOMEM), s, K) | Some fh \<Rightarrow> Some (Inr fh, s, K))
           })
      }
    }) (do {
      (rc, s) \<leftarrow> (if b then fskit_run_user_trunc V path (Some c) 0 0 s else Some (0, s));
      if rc \<noteq> 0 then Some (Inl rc, s)
      else do {
        (r, s) \<leftarrow> (if \<not> created then fskit_do_open V path c flags user grp s else Some (Inr d, s));
        (case r of
           Inl rc \<Rightarrow> Some (Inl rc, s)
         | Inr handle_data \<Rightarrow> do {
             s \<leftarrow> upd c (\<lambda>e. fst (fskit_entry_set_atime V None e)) s;
             (h, s) \<leftarrow> fskit_file_handle_create V c path flags handle_data s;
             (case h of None \<Rightarrow> Some (Inl (- ENOMEM), s) | Some fh \<Rightarrow> Some (Inr fh, s))
           })
      }
    })"
proof (rule same_bind [where K' = "hold True {p}", OF trunc_same trunc_frame], goal_cases)
  case 1
  show ?case using i by (auto simp: beside_def split: if_splits)
next
  case (2 rc s1)
  then have i1: "if created then there p s1 \<and> p \<noteq> c else beside p c s1"
    using i there_frame beside_frame by (auto split: if_splits)
  then have t1: "there p s1" by (auto simp: beside_def split: if_splits)
  show ?case
  proof (cases "rc = 0")
    case False
    then show ?thesis by (simp add: there_unlock [OF t1] same_Some)
  next
    case True
    show ?thesis unfolding True
      by (simp only: simp_thms if_False, rule same_bind [where K' = "hold True {p}", OF opened_same [OF i1]])
        (auto simp: there_unlock same_def map_option_bind comp_def intro!: Option.bind_cong split: sum.split option.split)
  qed
qed

lemma locked_open_same:
  assumes N: "no_self s" and L: "all_live s" and b: "bounded s"
    and D: "\<And>d. fskit_dirname (fskit_sanitize_path path) = Some d \<Longrightarrow> dotdot_free d"
    and n: "\<And>n. name_buf (fskit_sanitize_path path) = Some n \<Longrightarrow> n \<noteq> ''.'' \<and> n \<noteq> ''..''"
  shows "same no_locks (locked_open_ex V path user grp flags mode cls s no_locks) (fskit_open_ex V path user grp flags mode cls s)"
proof (cases "fskit_dirname (fskit_sanitize_path path) = None \<or> name_buf (fskit_sanitize_path path) = None")
  case True
  then show ?thesis by (auto simp: locked_open_ex_def fskit_open_ex_def same_def Let_def)
next
  case False
  then obtain dir nm where d: "fskit_dirname (fskit_sanitize_path path) = Some dir" and nm: "name_buf (fskit_sanitize_path path) = Some nm"
    by auto
  have n': "nm \<noteq> ''.''" "nm \<noteq> ''..''" using n [OF nm] by auto
  show ?thesis
    unfolding locked_open_ex_def fskit_open_ex_def Let_def d nm
    by (assumption | rule same_Inl same_Inr same_open_child [OF _ _ L N n'] | (rule sm; assumption?) |
      (simp only: Option.bind_lunit fst_conv snd_conv) | rule same_resolve [OF N D [OF d] b] open_tail_same | (simp; fail))+
qed

end
