(* ===== verification/LockedRename.thy ===== *)
theory LockedRename
  imports Locked
begin

text \<open>
  \<open>rename.c\<close> with its locks: the two parents, of which the lower one is locked first, the two children, and the
  rename route. When nothing stands in the way of the second lock, renaming computes what it computes
  without locks and gives all locks back, unless the rename route answers \<open>-ENOENT\<close>: then the inode stays locked.
  When something does, the call never returns.
\<close>

subsection \<open>Definitions\<close>

definition locked_resolve_inodes ::
    "env \<Rightarrow> string \<Rightarrow> u64 \<Rightarrow> u64 \<Rightarrow> fs \<Rightarrow> locks \<Rightarrow> ((int + addr) \<times> u64 rbtree \<times> locks) option" where
  "locked_resolve_inodes V path user grp s K =
     do {
       (r, inode_set, _, K) \<leftarrow>
          locked_resolve_path_cls V (Some (fskit_entry_resolve_inodes_cb V)) path user grp True Leaf s K;
       Some (r, inode_set, K)
     }"

definition fskit_entry_rename_unlock :: "addr option \<Rightarrow> addr option \<Rightarrow> addr option \<Rightarrow> fs \<Rightarrow> locks \<Rightarrow> locks option" where
  "fskit_entry_rename_unlock fent_common_parent fent_old_parent fent_new_parent s K =
     do {
       K \<leftarrow> unlock_if fent_old_parent s K;
       K \<leftarrow> unlock_if fent_new_parent s K;
       unlock_if fent_common_parent s K
     }"

definition locked_run_user_rename ::
    "env \<Rightarrow> string \<Rightarrow> addr \<Rightarrow> addr \<Rightarrow> string \<Rightarrow> addr \<Rightarrow> addr option \<Rightarrow> fs \<Rightarrow> locks \<Rightarrow> (int \<times> fs \<times> locks) option" where
  "locked_run_user_rename V path old_parent old_fent new_path new_parent dest s K =
     do {
       name \<leftarrow> name_buf path;
       (rc, cbrc, da, s, K) \<leftarrow> locked_route_call V FSKIT_ROUTE_MATCH_RENAME path (Some old_fent)
          (fskit_route_rename_args (Some old_parent) name new_path (Some new_parent) dest) s K;
       if rc = - EPERM \<or> rc = - ENOSYS then Some (0, s, K) else Some (cbrc, s, K)
     }"

text \<open>The parents: the common one, or the old and the new one, with the error codes and the inode set.\<close>

definition locked_rename_parents ::
    "env \<Rightarrow> string \<Rightarrow> string \<Rightarrow> string \<Rightarrow> string \<Rightarrow> u64 \<Rightarrow> u64 \<Rightarrow> fs \<Rightarrow> locks \<Rightarrow>
     (addr option \<times> addr option \<times> addr option \<times> int \<times> int \<times> u64 rbtree \<times> locks) option" where
  "locked_rename_parents V old_path new_path dir_old dir_new user grp s K =
     (let err = (\<lambda>r. case r of Inl rc \<Rightarrow> rc | Inr _ \<Rightarrow> 0);
          fent = (\<lambda>r. case r of Inl rc \<Rightarrow> None | Inr a \<Rightarrow> Some a) in
      if fskit_depth old_path > fskit_depth new_path then
        do {
          (r, K) \<leftarrow> locked_resolve_path V dir_old user grp True s K;
          (case r of
             Inl rc \<Rightarrow> Some (None, None, None, rc, 0, Leaf, K)
           | Inr old_parent \<Rightarrow>
               do {
                 (r, inodes, K) \<leftarrow> locked_resolve_inodes V dir_new user grp s K;
                 Some (None, Some old_parent, fent r, 0, err r, inodes, K)
               })
        }
      else if fskit_depth old_path = fskit_depth new_path \<and> strcmp dir_old dir_new = 0 then
        do {
          (r, K) \<leftarrow> locked_resolve_path V dir_old user grp True s K;
          Some (fent r, None, None, err r, 0, Leaf, K)
        }
      else
        do {
          (rn, inodes, K) \<leftarrow> locked_resolve_inodes V dir_new user grp s K;
          (ro, K) \<leftarrow> locked_resolve_path V dir_old user grp True s K;
          Some (None, fent ro, fent rn, err ro, err rn, inodes, K)
        })"

definition locked_rename_perform ::
    "env \<Rightarrow> string \<Rightarrow> addr \<Rightarrow> string \<Rightarrow> addr \<Rightarrow> string \<Rightarrow> addr \<Rightarrow> addr option \<Rightarrow> fs \<Rightarrow> locks \<Rightarrow> (int \<times> fs \<times> locks) option"
where
  "locked_rename_perform V new_path old_parent old_name new_parent new_name fent_old fent_new s K =
     do {
       (_, s) \<leftarrow> fskit_entry_detach_lowlevel V old_parent old_name s;
       s \<leftarrow> (case fent_new of
               None \<Rightarrow> Some s
             | Some _ \<Rightarrow> do { (_, s) \<leftarrow> fskit_entry_detach_lowlevel V new_parent new_name s; Some s });
       (_, s) \<leftarrow> fskit_entry_attach_lowlevel V new_parent fent_old new_name s;
       K \<leftarrow> fskit_entry_unlock2 fent_old s K;
       (case fent_new of
          None \<Rightarrow> Some (0, s, K)
        | Some n \<Rightarrow>
            do {
              s \<leftarrow> upd n (\<lambda>e. e\<lparr>deletion_through_rename := True\<rparr>) s;
              (rc, s, K) \<leftarrow> locked_try_destroy_and_free V new_path (Some new_parent) n s K;
              if rc = 0 then do {
                s \<leftarrow> upd n (\<lambda>e. e\<lparr>deletion_through_rename := False\<rparr>) s;
                K \<leftarrow> fskit_entry_unlock2 n s K;
                Some (0, s, K)
              }
              else Some (0, s, K)
            })
     }"

text \<open>From the locking of the children on; \<open>oa\<close> and \<open>na\<close> are the parents, whichever way they were found.\<close>

definition locked_rename_pair ::
    "env \<Rightarrow> string \<Rightarrow> string \<Rightarrow> addr option \<Rightarrow> addr option \<Rightarrow> addr option \<Rightarrow> u64 rbtree \<Rightarrow> addr \<Rightarrow> addr \<Rightarrow> addr \<Rightarrow> addr option \<Rightarrow>
     fs \<Rightarrow> locks \<Rightarrow> (int \<times> fs \<times> locks) option" where
  "locked_rename_pair V old_path new_path common old_parent new_parent inodes oa na fent_old fent_new s K =
     do {
       K \<leftarrow> lock_entry True fent_old s K;
       K \<leftarrow> (case fent_new of None \<Rightarrow> Some K | Some n \<Rightarrow> lock_entry True n s K);
       old \<leftarrow> heap s fent_old;
       new \<leftarrow> (case fent_new of
                 None \<Rightarrow> Some None
               | Some n \<Rightarrow> do { e \<leftarrow> heap s n; Some (Some e) });
       let err = rename_check old new inodes in
       if err \<noteq> 0 then do {
         K \<leftarrow> fskit_entry_rename_unlock common old_parent new_parent s K;
         K \<leftarrow> fskit_entry_unlock2 fent_old s K;
         K \<leftarrow> unlock_if fent_new s K;
         Some (err, s, K)
       }
       else do {
         (err, s, K) \<leftarrow> locked_run_user_rename V old_path oa fent_old new_path na fent_new s K;
         if err \<noteq> 0 then do {
           K \<leftarrow> (if err \<noteq> - ENOENT then fskit_entry_unlock2 fent_old s K else Some K);
           K \<leftarrow> unlock_if fent_new s K;
           K \<leftarrow> fskit_entry_rename_unlock common old_parent new_parent s K;
           Some (err, s, K)
         }
         else do {
           (err, s, K) \<leftarrow> locked_rename_perform V new_path oa (fskit_basename old_path) na (fskit_basename new_path)
             fent_old fent_new s K;
           K \<leftarrow> fskit_entry_rename_unlock common old_parent new_parent s K;
           Some (err, s, K)
         }
       }
     }"

text \<open>From the check of permissions on.\<close>

definition side :: "addr option \<Rightarrow> addr option \<Rightarrow> addr option" where
  "side common parent = (case common of None \<Rightarrow> parent | Some c \<Rightarrow> Some c)"

definition locked_rename_children ::
    "env \<Rightarrow> string \<Rightarrow> string \<Rightarrow> u64 \<Rightarrow> u64 \<Rightarrow> addr option \<Rightarrow> addr option \<Rightarrow> addr option \<Rightarrow> u64 rbtree \<Rightarrow> fs \<Rightarrow> locks \<Rightarrow>
     (int \<times> fs \<times> locks) option" where
  "locked_rename_children V old_path new_path user grp common old_parent new_parent inodes s K =
     do {
       oa \<leftarrow> side common old_parent;
       na \<leftarrow> side common new_parent;
       op \<leftarrow> heap s oa;
       np \<leftarrow> heap s na;
       if \<not> FSKIT_ENTRY_IS_DIR_SEARCHABLE np user grp \<or> \<not> FSKIT_ENTRY_IS_WRITEABLE np user grp \<or>
          \<not> FSKIT_ENTRY_IS_DIR_SEARCHABLE op user grp \<or> \<not> FSKIT_ENTRY_IS_WRITEABLE op user grp
       then do { K \<leftarrow> fskit_entry_rename_unlock common old_parent new_parent s K; Some (- EACCES, s, K) }
       else
         let fent_new = fskit_entry_set_find_name (children np) (fskit_basename new_path) in
         (case fskit_entry_set_find_name (children op) (fskit_basename old_path) of
            None \<Rightarrow> do { K \<leftarrow> fskit_entry_rename_unlock common old_parent new_parent s K; Some (- ENOENT, s, K) }
          | Some fent_old \<Rightarrow>
              if fent_new = Some fent_old
              then do { K \<leftarrow> fskit_entry_rename_unlock common old_parent new_parent s K; Some (0, s, K) }
              else locked_rename_pair V old_path new_path common old_parent new_parent inodes oa na fent_old fent_new s K)
     }"

definition locked_rename :: "env \<Rightarrow> string \<Rightarrow> string \<Rightarrow> u64 \<Rightarrow> u64 \<Rightarrow> fs \<Rightarrow> locks \<Rightarrow> (int \<times> fs \<times> locks) option" where
  "locked_rename V old_path new_path user grp s K =
     (if fskit_basename_len old_path > FSKIT_FILESYSTEM_NAMEMAX then Some (- ENAMETOOLONG, s, K)
      else if fskit_basename_len new_path > FSKIT_FILESYSTEM_NAMEMAX then Some (- ENAMETOOLONG, s, K)
      else do {
        dir_old \<leftarrow> fskit_dirname old_path;
        dir_new \<leftarrow> fskit_dirname new_path;
        (common, old_parent, new_parent, err_old, err_new, inodes, K) \<leftarrow>
          locked_rename_parents V old_path new_path dir_old dir_new user grp s K;
        if err_new \<noteq> 0
        then do { K \<leftarrow> fskit_entry_rename_unlock common old_parent new_parent s K; Some (err_new, s, K) }
        else if err_old \<noteq> 0
        then do { K \<leftarrow> fskit_entry_rename_unlock common old_parent new_parent s K; Some (err_old, s, K) }
        else locked_rename_children V old_path new_path user grp common old_parent new_parent inodes s K
      })"

subsection \<open>The parts without locks\<close>

definition rename_pair ::
    "env \<Rightarrow> string \<Rightarrow> string \<Rightarrow> u64 rbtree \<Rightarrow> addr \<Rightarrow> addr \<Rightarrow> addr \<Rightarrow> addr option \<Rightarrow> fs \<Rightarrow> (int \<times> fs) option" where
  "rename_pair V old_path new_path inodes oa na fent_old fent_new s =
     do {
       old \<leftarrow> heap s fent_old;
       new \<leftarrow> (case fent_new of
                 None \<Rightarrow> Some None
               | Some n \<Rightarrow> do { e \<leftarrow> heap s n; Some (Some e) });
       let err = rename_check old new inodes in
       if err \<noteq> 0 then Some (err, s)
       else do {
         (err, s) \<leftarrow> fskit_run_user_rename V old_path oa fent_old new_path na fent_new s;
         if err \<noteq> 0 then Some (err, s)
         else rename_perform V new_path oa (fskit_basename old_path) na (fskit_basename new_path) fent_old fent_new s
       }
     }"

definition rename_children ::
    "env \<Rightarrow> string \<Rightarrow> string \<Rightarrow> u64 \<Rightarrow> u64 \<Rightarrow> addr \<Rightarrow> addr \<Rightarrow> u64 rbtree \<Rightarrow> fs \<Rightarrow> (int \<times> fs) option" where
  "rename_children V old_path new_path user grp oa na inodes s =
     do {
       op \<leftarrow> heap s oa;
       np \<leftarrow> heap s na;
       if \<not> FSKIT_ENTRY_IS_DIR_SEARCHABLE np user grp \<or> \<not> FSKIT_ENTRY_IS_WRITEABLE np user grp \<or>
          \<not> FSKIT_ENTRY_IS_DIR_SEARCHABLE op user grp \<or> \<not> FSKIT_ENTRY_IS_WRITEABLE op user grp
       then Some (- EACCES, s)
       else
         let fent_new = fskit_entry_set_find_name (children np) (fskit_basename new_path) in
         (case fskit_entry_set_find_name (children op) (fskit_basename old_path) of
            None \<Rightarrow> Some (- ENOENT, s)
          | Some fent_old \<Rightarrow>
              if fent_new = Some fent_old then Some (0, s)
              else rename_pair V old_path new_path inodes oa na fent_old fent_new s)
     }"

lemma rename_parts:
  "fskit_rename V old_path new_path user grp s =
     (if fskit_basename_len old_path > FSKIT_FILESYSTEM_NAMEMAX then Some (- ENAMETOOLONG, s)
      else if fskit_basename_len new_path > FSKIT_FILESYSTEM_NAMEMAX then Some (- ENAMETOOLONG, s)
      else do {
        dir_old \<leftarrow> fskit_dirname old_path;
        dir_new \<leftarrow> fskit_dirname new_path;
        (old_parent, new_parent, err_old, err_new, inodes) \<leftarrow>
          rename_parents V old_path new_path dir_old dir_new user grp s;
        if err_new \<noteq> 0 then Some (err_new, s)
        else if err_old \<noteq> 0 then Some (err_old, s)
        else do {
          old_parent \<leftarrow> old_parent;
          new_parent \<leftarrow> new_parent;
          rename_children V old_path new_path user grp old_parent new_parent inodes s
        }
      })"
  unfolding fskit_rename_def rename_children_def rename_pair_def Let_def ..

subsection \<open>Giving the locks back\<close>

lemma upd_dom: "upd a f s = Some s' \<Longrightarrow> dom (heap s') = dom (heap s) \<and> a \<in> dom (heap s)"
  by (auto simp: upd_def split: option.splits if_splits)

lemma attach_dom:
  assumes "fskit_entry_attach_lowlevel V parent fent n s = Some (rc, s')"
  shows "dom (heap s') = dom (heap s) \<and> fent \<in> dom (heap s)"
  using assms unfolding fskit_entry_attach_lowlevel_def
  by (auto simp: bind_eq_Some split: if_splits dest!: upd_dom) (metis domD domI)+

lemma attach_heap:
  assumes "fskit_entry_attach_lowlevel V parent fent n s = Some (rc, s')"
  shows "heap s' fent \<noteq> None" and "heap s x \<noteq> None \<Longrightarrow> heap s' x \<noteq> None"
  using attach_dom [OF assms] by blast+

text \<open>Either one parent for both, or two.\<close>

definition sides :: "addr option \<Rightarrow> addr option \<Rightarrow> addr option \<Rightarrow> addr \<Rightarrow> addr \<Rightarrow> bool" where
  "sides common old_parent new_parent op np =
     (common = Some op \<and> old_parent = None \<and> new_parent = None \<and> np = op \<or>
      common = None \<and> old_parent = Some op \<and> new_parent = Some np \<and> op \<noteq> np)"

lemma rename_unlock_eq:
  assumes "sides common old_parent new_parent op np" and "heap s op \<noteq> None" and "heap s np \<noteq> None"
    and "op \<notin> B" and "np \<notin> B"
  shows "fskit_entry_rename_unlock common old_parent new_parent s (hold True (insert op (insert np B))) = Some (hold True B)"
  using assms(1) unfolding sides_def
proof (elim disjE conjE)
  assume "common = Some op" "old_parent = None" "new_parent = None" "np = op"
  then show ?thesis using assms hold_unlock [of op "insert op B" s True] by (simp add: fskit_entry_rename_unlock_def unlock_if_def)
next
  assume c: "common = None" "old_parent = Some op" "new_parent = Some np" "op \<noteq> np"
  have "insert op (insert np B) - {op} = insert np B" "insert np B - {np} = B" using c(4) assms(4,5) by auto
  then show ?thesis
    using c assms hold_unlock [of op "insert op (insert np B)" s True] hold_unlock [of np "insert np B" s True]
    by (simp add: fskit_entry_rename_unlock_def unlock_if_def)
qed

lemma locked_user_rename_eq:
  assumes "quiet None K"
    and "\<And>route rm. fskit_route_match V (routes s) FSKIT_ROUTE_MATCH_RENAME path = Some (Some (route, rm)) \<Longrightarrow> \<not> locks_inode route"
  shows "locked_run_user_rename V path op a new_path np b s K =
    map_option (\<lambda>(rc, s). (rc, s, K)) (fskit_run_user_rename V path op a new_path np b s)"
proof -
  have C: "locked_route_call V FSKIT_ROUTE_MATCH_RENAME path (Some a) da s K =
      map_option (\<lambda>(rc, cbrc, da, s). (rc, cbrc, da, s, K)) (fskit_route_call V FSKIT_ROUTE_MATCH_RENAME path (Some a) da s)" for da
    by (rule locked_call_free [OF assms(1)]) (use assms(2) in blast)
  show ?thesis
    by (auto simp: locked_run_user_rename_def fskit_run_user_rename_def fskit_route_call_rename_def C
        map_option_bind bind_map_option comp_def case_prod_unfold intro!: Option.bind_cong)
qed

lemma run_user_rename_trace: "fskit_run_user_rename V path op a new_path np b s = Some (rc, s') \<Longrightarrow> \<exists>t. s' = s\<lparr>trace := t\<rparr>"
  unfolding fskit_run_user_rename_def fskit_route_call_rename_def
  by (auto simp: bind_eq_Some split: if_splits dest!: route_call_no_cont)

text \<open>The inode that has been replaced: it is destroyed or unlocked.\<close>

lemma replaced_eq:
  assumes "n \<notin> A"
  shows "do {
      s \<leftarrow> upd n (\<lambda>e. e\<lparr>deletion_through_rename := True\<rparr>) s;
      (rc, s, K) \<leftarrow> locked_try_destroy_and_free V path pp n s (hold True (insert n A));
      if rc = 0 then do {
        s \<leftarrow> upd n (\<lambda>e. e\<lparr>deletion_through_rename := False\<rparr>) s;
        K \<leftarrow> fskit_entry_unlock2 n s K;
        Some (0, s, K)
      }
      else Some (0, s, K)
    } = map_option (\<lambda>(rc, s). (rc, s, hold True A)) (do {
      s \<leftarrow> upd n (\<lambda>e. e\<lparr>deletion_through_rename := True\<rparr>) s;
      (rc, s) \<leftarrow> fskit_entry_try_destroy_and_free V path pp n s;
      s \<leftarrow> (if rc = 0 then upd n (\<lambda>e. e\<lparr>deletion_through_rename := False\<rparr>) s else Some s);
      Some ((0 :: int), s)
    })"
proof (cases "upd n (\<lambda>e. e\<lparr>deletion_through_rename := True\<rparr>) s")
  case (Some s1)
  let ?K = "hold True (insert n A)"
  have A: "insert n A - {n} = A" using assms by auto
  have D: "locked_try_destroy_and_free V path pp n s1 ?K =
      map_option (\<lambda>(rc, s). (rc, s, if rc > 0 then hold True A else ?K)) (fskit_entry_try_destroy_and_free V path pp n s1)"
    using locked_destroy_eq [of ?K n V path pp s1] unfolding hold_simps A by (simp add: held_as_def)
  show ?thesis
  proof (cases "fskit_entry_try_destroy_and_free V path pp n s1")
    case None
    then show ?thesis using Some D by simp
  next
    case d: (Some x)
    obtain rc s2 where x: "x = (rc, s2)" by (cases x)
    show ?thesis
    proof (cases rule: try_destroy_and_free_cases [OF d [unfolded x]])
      case (1 e)
      then show ?thesis using Some D d x hold_unlock [of n "insert n A" _ True] A by (auto simp: upd_def)
    next
      case (2 e t)
      then show ?thesis using Some D d x by simp
    qed
  qed
qed simp

lemma locked_perform_eq:
  assumes "a \<notin> A" and b: "\<And>n. b = Some n \<Longrightarrow> n \<notin> insert a A"
  shows "locked_rename_perform V path op on np nn a b s (hold True (insert a (set_option b \<union> A))) =
    map_option (\<lambda>(rc, s). (rc, s, hold True A)) (rename_perform V path op on np nn a b s)"
proof -
  let ?K = "hold True (insert a (set_option b \<union> A))"
  have K: "insert a (set_option b \<union> A) - {a} = set_option b \<union> A" using assms by (cases b) auto
  have u: "fskit_entry_unlock2 a s' ?K = Some (hold True (set_option b \<union> A))"
    if "fskit_entry_attach_lowlevel V np a nn s2 = Some (rc, s')" for s2 rc s'
    using hold_unlock [of a "insert a (set_option b \<union> A)" s' True] attach_heap(1) [OF that] K by simp
  show ?thesis
  proof (cases b)
    case None
    then show ?thesis using u
      by (auto simp: locked_rename_perform_def rename_perform_def map_option_bind comp_def case_prod_unfold intro!: Option.bind_cong)
  next
    case (Some n)
    then show ?thesis using u replaced_eq [of n A _ V path "Some np"] b
      by (auto simp: locked_rename_perform_def rename_perform_def map_option_bind comp_def case_prod_unfold intro!: Option.bind_cong)
  qed
qed

lemma perform_heap:
  assumes "rename_perform V path op on np nn a b s = Some (rc, s')" and h: "heap s x \<noteq> None" and "b \<noteq> Some x"
  shows "heap s' x \<noteq> None"
proof -
  have front: "heap s3 x \<noteq> None"
    if "fskit_entry_detach_lowlevel V op on s = Some (r1, s1)" "s2 = s1 \<or> fskit_entry_detach_lowlevel V np nn s1 = Some (r2, s2)"
      "fskit_entry_attach_lowlevel V np a nn s2 = Some (r3, s3)" for r1 s1 r2 s2 r3 s3
    using that(2) h detach_heap [OF that(1), of x] detach_heap [of V np nn s1 r2 s2 x] attach_heap(2) [OF that(3), of x] by auto
  have rest: "heap s6 x \<noteq> None"
    if "heap s3 x \<noteq> None" "upd n f s3 = Some s4" "fskit_entry_try_destroy_and_free V path pp n s4 = Some (r, s5)"
      "s6 = s5 \<or> upd n g s5 = Some s6" "n \<noteq> x" for s3 s4 s5 s6 n f g pp r
  proof -
    have "heap s4 x \<noteq> None" using upd_dom [OF that(2)] that(1) by blast
    then have "heap s5 x \<noteq> None" by (cases rule: try_destroy_and_free_cases [OF that(3)]) (use that(5) in auto)
    then show ?thesis using that(4) upd_dom by blast
  qed
  show ?thesis
  proof (cases b)
    case None
    then obtain r1 s1 r3 where "fskit_entry_detach_lowlevel V op on s = Some (r1, s1)"
      "fskit_entry_attach_lowlevel V np a nn s1 = Some (r3, s')"
      using assms(1) by (auto simp: rename_perform_def bind_eq_Some)
    then show ?thesis using front by blast
  next
    case (Some n)
    obtain r1 s1 r2 s2 r3 s3 s4 r s5 where
      "fskit_entry_detach_lowlevel V op on s = Some (r1, s1)" "fskit_entry_detach_lowlevel V np nn s1 = Some (r2, s2)"
      "fskit_entry_attach_lowlevel V np a nn s2 = Some (r3, s3)" and
      t: "upd n (\<lambda>e. e\<lparr>deletion_through_rename := True\<rparr>) s3 = Some s4"
      "fskit_entry_try_destroy_and_free V path (Some np) n s4 = Some (r, s5)"
      "s' = s5 \<or> upd n (\<lambda>e. e\<lparr>deletion_through_rename := False\<rparr>) s5 = Some s'"
      using assms(1) Some by (fastforce simp: rename_perform_def bind_eq_Some split: if_splits)
    then have "heap s3 x \<noteq> None" using front by blast
    then show ?thesis using rest [OF _ t] Some assms(3) by auto
  qed
qed

subsection \<open>The children\<close>

text \<open>With all four inodes locked, the locks of the parents, of the inode and of the one it replaces can be given back.\<close>

definition four :: "addr \<Rightarrow> addr \<Rightarrow> addr \<Rightarrow> addr option \<Rightarrow> locks" where
  "four op np a b = hold True (insert a (set_option b \<union> {op, np}))"

definition apart :: "addr \<Rightarrow> addr \<Rightarrow> addr \<Rightarrow> addr option \<Rightarrow> bool" where
  "apart op np a b = (a \<noteq> op \<and> a \<noteq> np \<and> b \<noteq> Some a \<and> b \<noteq> Some op \<and> b \<noteq> Some np)"

lemma four_back:
  assumes S: "sides common old_parent new_parent op np" and ap: "apart op np a b"
    and h: "heap s op \<noteq> None" "heap s np \<noteq> None" "heap s a \<noteq> None" "\<And>n. b = Some n \<Longrightarrow> heap s n \<noteq> None"
  shows "fskit_entry_rename_unlock common old_parent new_parent s (four op np a b) = Some (hold True (insert a (set_option b)))"
    and "fskit_entry_unlock2 a s (hold True (insert a (set_option b))) = Some (hold True (set_option b))"
    and "unlock_if b s (hold True (set_option b)) = Some no_locks"
    and "fskit_entry_unlock2 a s (four op np a b) = Some (hold True (set_option b \<union> {op, np}))"
    and "unlock_if b s (hold True (set_option b \<union> {op, np})) = Some (hold True {op, np})"
    and "unlock_if b s (four op np a b) = Some (hold True {a, op, np})"
    and "fskit_entry_rename_unlock common old_parent new_parent s (hold True {op, np}) = Some no_locks"
    and "fskit_entry_rename_unlock common old_parent new_parent s (hold True {a, op, np}) = Some (hold True {a})"
proof -
  have B: "set_option b - {a} = set_option b" "insert a (set_option b) - {a} = set_option b"
    "insert a (set_option b \<union> {op, np}) - {a} = set_option b \<union> {op, np}"
    "set_option b \<union> {op, np} - set_option b = {op, np}"
    "insert a (set_option b \<union> {op, np}) - set_option b = {a, op, np}"
    "four op np a b = hold True (insert op (insert np (insert a (set_option b))))"
    "{a, op, np} = insert op (insert np {a})"
    using ap by (cases b; auto simp: apart_def four_def insert_commute)+
  note U = rename_unlock_eq [OF S h(1,2)]
  show "fskit_entry_rename_unlock common old_parent new_parent s (four op np a b) = Some (hold True (insert a (set_option b)))"
    unfolding B(6) by (rule U) (use ap in \<open>auto simp: apart_def\<close>)
  show "fskit_entry_unlock2 a s (hold True (insert a (set_option b))) = Some (hold True (set_option b))"
    using hold_unlock [of a "insert a (set_option b)" s True] h(3) B(2) by simp
  show "unlock_if b s (hold True (set_option b)) = Some no_locks"
    using unlock_if_held [of b "set_option b" s True] h(4) by simp
  show "fskit_entry_unlock2 a s (four op np a b) = Some (hold True (set_option b \<union> {op, np}))"
    using hold_unlock [of a "insert a (set_option b \<union> {op, np})" s True] h(3) B(3) by (simp add: four_def)
  show "unlock_if b s (hold True (set_option b \<union> {op, np})) = Some (hold True {op, np})"
    using unlock_if_held [of b "set_option b \<union> {op, np}" s True] h(4) unfolding B(4) by blast
  show "unlock_if b s (four op np a b) = Some (hold True {a, op, np})"
    using unlock_if_held [of b "insert a (set_option b \<union> {op, np})" s True] h(4) unfolding B(5) four_def by blast
  show "fskit_entry_rename_unlock common old_parent new_parent s (hold True {op, np}) = Some no_locks"
    using U [of "{}"] by simp
  show "fskit_entry_rename_unlock common old_parent new_parent s (hold True {a, op, np}) = Some (hold True {a})"
    unfolding B(7) by (rule U) (use ap in \<open>auto simp: apart_def\<close>)
qed

lemma four_locked:
  assumes "apart op np a b" and "all_live s" and "heap s a = Some e" and "\<And>n. b = Some n \<Longrightarrow> heap s n \<noteq> None"
  shows "do { K \<leftarrow> lock_entry True a s (hold True {op, np}); case b of None \<Rightarrow> Some K | Some n \<Rightarrow> lock_entry True n s K } =
    Some (four op np a b)"
proof -
  have a: "lock_entry True a s (hold True {op, np}) = Some (hold True {a, op, np})"
    using hold_lock [of a "{op, np}" s e True] assms by (auto simp: apart_def all_live_def)
  show ?thesis
  proof (cases b)
    case (Some n)
    then obtain f where "heap s n = Some f" using assms(4) by auto
    then have "lock_entry True n s (hold True {a, op, np}) = Some (hold True (insert n {a, op, np}))"
      by (rule hold_lock [rotated]) (use assms(1,2) Some \<open>heap s n = Some f\<close> in \<open>auto simp: apart_def all_live_def\<close>)
    then show ?thesis using a Some by (simp add: four_def insert_commute)
  qed (use a in \<open>simp add: four_def\<close>)
qed

text \<open>
  The call from the locking of the children on. \<open>route_left\<close>: an answer \<open>-ENOENT\<close> of the rename route
  leaves the inode locked.
\<close>

definition route_left :: "int \<Rightarrow> addr \<Rightarrow> locks" where
  "route_left err a = (if err = - ENOENT then hold True {a} else no_locks)"

lemma locked_route_tail:
  assumes S: "sides common old_parent new_parent op np" and ap: "apart op np a b"
    and h: "heap s op \<noteq> None" "heap s np \<noteq> None" "heap s a \<noteq> None" "\<And>n. b = Some n \<Longrightarrow> heap s n \<noteq> None"
    and R: "\<And>route rm. fskit_route_match V (routes s) FSKIT_ROUTE_MATCH_RENAME old_path = Some (Some (route, rm)) \<Longrightarrow>
      \<not> locks_inode route"
  shows "do {
      (err, s, K) \<leftarrow> locked_run_user_rename V old_path op a new_path np b s (four op np a b);
      if err \<noteq> 0 then do {
        K \<leftarrow> (if err \<noteq> - ENOENT then fskit_entry_unlock2 a s K else Some K);
        K \<leftarrow> unlock_if b s K;
        K \<leftarrow> fskit_entry_rename_unlock common old_parent new_parent s K;
        Some (err, s, K)
      }
      else do {
        (err, s, K) \<leftarrow> locked_rename_perform V new_path op on np nn a b s K;
        K \<leftarrow> fskit_entry_rename_unlock common old_parent new_parent s K;
        Some (err, s, K)
      }
    } = do {
      (err, s) \<leftarrow> fskit_run_user_rename V old_path op a new_path np b s;
      if err \<noteq> 0 then Some (err, s, route_left err a)
      else map_option (\<lambda>(rc, s). (rc, s, no_locks)) (rename_perform V new_path op on np nn a b s)
    }"
proof -
  have q: "quiet None (four op np a b)" by (simp add: four_def)
  show ?thesis
  proof (cases "fskit_run_user_rename V old_path op a new_path np b s")
    case None
    then show ?thesis by (simp add: locked_user_rename_eq [OF q R])
  next
    case (Some x)
    then obtain err t where u: "fskit_run_user_rename V old_path op a new_path np b s = Some (err, s\<lparr>trace := t\<rparr>)"
      using run_user_rename_trace by (cases x) metis
    let ?s = "s\<lparr>trace := t\<rparr>"
    have h': "heap ?s op \<noteq> None" "heap ?s np \<noteq> None" "heap ?s a \<noteq> None" "\<And>n. b = Some n \<Longrightarrow> heap ?s n \<noteq> None"
      using h by simp_all
    note B = four_back [OF S ap h', unfolded Un_insert_right Un_empty_right]
    show ?thesis
    proof (cases "err = 0")
      case False
      then show ?thesis by (simp add: locked_user_rename_eq [OF q R] u B route_left_def)
    next
      case True
      have P: "locked_rename_perform V new_path op on np nn a b ?s (four op np a b) =
          map_option (\<lambda>(rc, s). (rc, s, hold True {op, np})) (rename_perform V new_path op on np nn a b ?s)"
        unfolding four_def by (rule locked_perform_eq) (use ap in \<open>auto simp: apart_def\<close>)
      have F: "fskit_entry_rename_unlock common old_parent new_parent s' (hold True {op, np}) = Some no_locks"
        if "rename_perform V new_path op on np nn a b ?s = Some (rc, s')" for rc s'
        using rename_unlock_eq [OF S, of s' "{}"] perform_heap [OF that h'(1)] perform_heap [OF that h'(2)] ap
        by (auto simp: apart_def)
      show ?thesis using True F
        by (cases "rename_perform V new_path op on np nn a b ?s") (auto simp: locked_user_rename_eq [OF q R] u P)
    qed
  qed
qed

lemma locked_pair_steps:
  assumes S: "sides common old_parent new_parent op np" and L: "all_live s" and ap: "apart op np a b"
    and h: "heap s op \<noteq> None" "heap s np \<noteq> None"
    and e: "heap s a = Some e" and new: "(case b of None \<Rightarrow> Some None | Some n \<Rightarrow> do { e \<leftarrow> heap s n; Some (Some e) }) = Some new"
    and R: "\<And>route rm. fskit_route_match V (routes s) FSKIT_ROUTE_MATCH_RENAME old_path = Some (Some (route, rm)) \<Longrightarrow>
      \<not> locks_inode route"
  shows "locked_rename_pair V old_path new_path common old_parent new_parent inodes op np a b s (hold True {op, np}) =
    (if rename_check e new inodes \<noteq> 0 then Some (rename_check e new inodes, s, no_locks)
     else do {
       (err, s) \<leftarrow> fskit_run_user_rename V old_path op a new_path np b s;
       if err \<noteq> 0 then Some (err, s, route_left err a)
       else map_option (\<lambda>(rc, s). (rc, s, no_locks))
         (rename_perform V new_path op (fskit_basename old_path) np (fskit_basename new_path) a b s)
     })"
proof -
  have K: "Option.bind (lock_entry True a s (hold True {op, np})) (\<lambda>K. Option.bind (case b of None \<Rightarrow> Some K | Some n \<Rightarrow> lock_entry True n s K) f) =
      Option.bind (do { K \<leftarrow> lock_entry True a s (hold True {op, np}); case b of None \<Rightarrow> Some K | Some n \<Rightarrow> lock_entry True n s K }) f"
    for f :: "locks \<Rightarrow> (int \<times> fs \<times> locks) option" by (simp add: Option.bind_assoc)
  have hb: "\<And>n. b = Some n \<Longrightarrow> heap s n \<noteq> None" using new by (auto simp: bind_eq_Some)
  have ha: "heap s a \<noteq> None" using e by simp
  let ?start = "do { K \<leftarrow> lock_entry True a s (hold True {op, np}); case b of None \<Rightarrow> Some K | Some n \<Rightarrow> lock_entry True n s K }"
  have start: "?start = Some (four op np a b)" by (rule four_locked [OF ap L e hb])
  show ?thesis
  proof (cases "rename_check e new inodes = 0")
    case True
    then show ?thesis
      unfolding locked_rename_pair_def
      by (subst K, subst start, simp only: Option.bind.simps e new Let_def) (simp add: locked_route_tail [OF S ap h ha hb R])
  next
    case False
    then show ?thesis
      unfolding locked_rename_pair_def
      by (subst K, subst start) (simp add: e new Let_def four_back(1-3) [OF S ap h ha hb])
  qed
qed

lemma locked_pair_eq:
  assumes S: "sides common old_parent new_parent op np" and L: "all_live s" and ap: "apart op np a b"
    and h: "heap s op \<noteq> None" "heap s np \<noteq> None"
    and R: "\<And>route rm. fskit_route_match V (routes s) FSKIT_ROUTE_MATCH_RENAME old_path = Some (Some (route, rm)) \<Longrightarrow>
      \<not> locks_inode route"
    and E: "\<And>s'. fskit_run_user_rename V old_path op a new_path np b s \<noteq> Some (- ENOENT, s')"
  shows "locked_rename_pair V old_path new_path common old_parent new_parent inodes op np a b s (hold True {op, np}) =
    map_option (\<lambda>(rc, s). (rc, s, no_locks)) (rename_pair V old_path new_path inodes op np a b s)"
proof -
  have tail: "do {
      (err, s) \<leftarrow> fskit_run_user_rename V old_path op a new_path np b s;
      if err \<noteq> 0 then Some (err, s, route_left err a)
      else map_option (\<lambda>(rc, s). (rc, s, no_locks)) (f s)
    } = map_option (\<lambda>(rc, s). (rc, s, no_locks)) (do {
      (err, s) \<leftarrow> fskit_run_user_rename V old_path op a new_path np b s;
      if err \<noteq> 0 then Some (err, s) else f s
    })" for f :: "fs \<Rightarrow> (int \<times> fs) option"
  proof (cases "fskit_run_user_rename V old_path op a new_path np b s")
    case (Some x)
    then have "fst x \<noteq> - ENOENT" using E by (cases x) auto
    then show ?thesis using Some by (cases x) (simp add: route_left_def)
  qed simp
  show ?thesis
  proof (cases "heap s a = None \<or> (\<exists>n. b = Some n \<and> heap s n = None)")
    case True
    have "lock_entry True a s K = None \<or> (\<exists>n. b = Some n \<and> (\<forall>K. lock_entry True n s K = None))" for K
      using True by (auto simp: lock_entry_def fskit_entry_wlock2_def)
    then show ?thesis using True
      by (auto simp: locked_rename_pair_def rename_pair_def bind_eq_None_conv split: option.split)
  next
    case False
    then obtain e where e: "heap s a = Some e" by auto
    obtain new where new: "(case b of None \<Rightarrow> Some None | Some n \<Rightarrow> do { e \<leftarrow> heap s n; Some (Some e) }) = Some new"
      using False by (cases b) auto
    show ?thesis
      by (subst locked_pair_steps [OF S L ap h e new R], assumption) (simp add: tail rename_pair_def e new Let_def)
  qed
qed

text \<open>When the rename route answers \<open>-ENOENT\<close>, the inode stays locked for ever.\<close>

lemma rename_leaves_lock:
  assumes S: "sides common old_parent new_parent op np" and L: "all_live s" and ap: "apart op np a b"
    and h: "heap s op \<noteq> None" "heap s np \<noteq> None"
    and e: "heap s a = Some e" and new: "(case b of None \<Rightarrow> Some None | Some n \<Rightarrow> do { e \<leftarrow> heap s n; Some (Some e) }) = Some new"
    and R: "\<And>route rm. fskit_route_match V (routes s) FSKIT_ROUTE_MATCH_RENAME old_path = Some (Some (route, rm)) \<Longrightarrow>
      \<not> locks_inode route"
    and "rename_check e new inodes = 0" and "fskit_run_user_rename V old_path op a new_path np b s = Some (- ENOENT, s')"
  shows "locked_rename_pair V old_path new_path common old_parent new_parent inodes op np a b s (hold True {op, np}) =
    Some (- ENOENT, s', hold True {a})"
  by (subst locked_pair_steps [OF S L ap h e new R], assumption) (simp add: assms(9,10) route_left_def, simp add: ENOENT_def)

lemma locked_children_eq:
  assumes S: "sides common old_parent new_parent op np" and L: "all_live s"
    and h: "heap s op = Some p" "heap s np = Some q"
    and a: "\<And>a. fskit_entry_set_find_name (children p) (fskit_basename old_path) = Some a \<Longrightarrow> a \<noteq> op \<and> a \<noteq> np"
    and b: "\<And>b. fskit_entry_set_find_name (children q) (fskit_basename new_path) = Some b \<Longrightarrow> b \<noteq> op \<and> b \<noteq> np"
    and R: "\<And>route rm. fskit_route_match V (routes s) FSKIT_ROUTE_MATCH_RENAME old_path = Some (Some (route, rm)) \<Longrightarrow>
      \<not> locks_inode route"
    and E: "\<And>a b s'. fskit_run_user_rename V old_path op a new_path np b s \<noteq> Some (- ENOENT, s')"
  shows "locked_rename_children V old_path new_path user grp common old_parent new_parent inodes s (hold True {op, np}) =
    map_option (\<lambda>(rc, s). (rc, s, no_locks)) (rename_children V old_path new_path user grp op np inodes s)"
proof -
  have oa: "side common old_parent = Some op" "side common new_parent = Some np"
    using S by (auto simp: sides_def side_def)
  have F: "fskit_entry_rename_unlock common old_parent new_parent s (hold True {op, np}) = Some no_locks"
    using rename_unlock_eq [OF S, of s "{}"] h by simp
  have P: "locked_rename_pair V old_path new_path common old_parent new_parent inodes op np x
        (fskit_entry_set_find_name (children q) (fskit_basename new_path)) s (hold True {op, np}) =
      map_option (\<lambda>(rc, s). (rc, s, no_locks))
        (rename_pair V old_path new_path inodes op np x (fskit_entry_set_find_name (children q) (fskit_basename new_path)) s)"
    if "fskit_entry_set_find_name (children p) (fskit_basename old_path) = Some x"
      "fskit_entry_set_find_name (children q) (fskit_basename new_path) \<noteq> Some x" for x
    by (rule locked_pair_eq [OF S L _ _ _ R E]) (use a b h that in \<open>auto simp: apart_def\<close>)
  show ?thesis
    by (auto simp: locked_rename_children_def rename_children_def oa h F P Let_def split: option.split)
qed

subsection \<open>The parents\<close>

lemma walks_passes: "walks s user grp a ns b \<Longrightarrow> b \<in> set (passes s ns a)"
  by (induction rule: walks.induct) auto

lemma resolve_passes:
  "fskit_entry_resolve_path V path user grp s = Some (Inr a) \<Longrightarrow> a \<in> set (passes s (path_names path) 0)"
  by (rule walks_passes, erule resolve_path_Inr(3))

lemma quiet_inodes: "quiet_eval (Some (fskit_entry_resolve_inodes_cb V))"
  by (auto simp: quiet_eval_def fskit_entry_resolve_inodes_cb_def Let_def bind_eq_Some split: if_splits)

text \<open>What is found with an evaluator that leaves the state alone is found without.\<close>

lemma quiet_walk:
  assumes ev: "quiet_eval ev"
  shows "resolve_walk ev user grp ns cur cls s = Some (Inr a, cls', s') \<Longrightarrow>
    resolve_walk None user grp ns cur () s = Some (Inr a, (), s)"
proof (induction ns arbitrary: cur cls)
  case Nil
  then show ?case
    by (subst resolve_walk.simps, subst (asm) resolve_walk.simps) (auto split: option.splits if_splits)
next
  case (Cons n ns)
  have q: "t = s" if "fskit_entry_ent_eval ev b c s = Some (rc, d, t)" for b c rc d t
    by (cases rule: eval_cases [OF ev, of b c s]) (use that in auto)
  show ?case
    using Cons.prems Cons.IH
    unfolding resolve_walk.simps [of _ _ _ "n # ns"]
    by (auto split: option.splits if_splits dest!: q) (auto simp: fskit_entry_ent_eval_def)
qed

lemma inodes_path:
  assumes "fskit_entry_resolve_inodes V path user grp s = Some (Inr a, t)"
  shows "fskit_entry_resolve_path V path user grp s = Some (Inr a)"
proof -
  note q = quiet_inodes [of V]
  have k: "u = s" if "fskit_entry_resolve_inodes_cb V b c s = Some (rc, d, u)" for b c rc d u
    using q that by (auto simp: quiet_eval_def)
  show ?thesis using assms
    by (auto simp: fskit_entry_resolve_inodes_def fskit_entry_resolve_path_def fskit_entry_resolve_path_cls_def
        fskit_entry_ent_eval_def bind_eq_Some split: option.splits if_splits dest!: k) (auto dest: quiet_walk [OF q])
qed

lemma locked_inodes_eq:
  assumes "no_self s" and "dotdot_free path" and "path_free path s K"
  shows "locked_resolve_inodes V path user grp s K =
    map_option (\<lambda>(r, t). (r, t, locked_on True K r)) (fskit_entry_resolve_inodes V path user grp s)"
  by (simp add: locked_resolve_inodes_def fskit_entry_resolve_inodes_def
      locked_resolve_cls_eq [OF assms(1) quiet_inodes assms(2,3)] map_option_bind bind_map_option comp_def case_prod_unfold)

text \<open>What \<open>first\<close> leads to is not on the way of \<open>second\<close>, so that it may stay locked.\<close>

definition clear_way :: "env \<Rightarrow> u64 \<Rightarrow> u64 \<Rightarrow> fs \<Rightarrow> string \<Rightarrow> string \<Rightarrow> bool" where
  "clear_way V user grp s first second =
     (\<forall>a. fskit_entry_resolve_path V first user grp s = Some (Inr a) \<longrightarrow> a \<notin> set (passes s (path_names second) 0))"

lemma clear_way_free:
  assumes "clear_way V user grp s first second" and "fskit_entry_resolve_path V first user grp s = Some (Inr a)"
  shows "path_free second s (hold True {a})"
  using assms by (auto simp: clear_way_def path_free_def list_all_iff) (simp add: hold_def)

lemma clear_way_apart:
  assumes "clear_way V user grp s first second" and "fskit_entry_resolve_path V first user grp s = Some (Inr a)"
    and "fskit_entry_resolve_path V second user grp s = Some (Inr b)"
  shows "a \<noteq> b"
  using assms resolve_passes [OF assms(3)] by (auto simp: clear_way_def)

subsection \<open>The whole call\<close>

text \<open>The parent that is locked first does not stand in the way of the other one.\<close>

definition parents_clear :: "env \<Rightarrow> string \<Rightarrow> string \<Rightarrow> u64 \<Rightarrow> u64 \<Rightarrow> fs \<Rightarrow> bool" where
  "parents_clear V old_path new_path user grp s =
     (\<forall>d e. fskit_dirname old_path = Some d \<and> fskit_dirname new_path = Some e \<longrightarrow>
       dotdot_free d \<and> dotdot_free e \<and>
       (if fskit_depth old_path > fskit_depth new_path then clear_way V user grp s d e
        else fskit_depth old_path = fskit_depth new_path \<and> d = e \<or> clear_way V user grp s e d))"

text \<open>Neither of the two names stands for one of the parents.\<close>

definition children_clear :: "string \<Rightarrow> string \<Rightarrow> addr \<Rightarrow> addr \<Rightarrow> fs \<Rightarrow> bool" where
  "children_clear old_path new_path op np s =
     (\<forall>p q a. heap s op = Some p \<and> heap s np = Some q \<and>
        (fskit_entry_set_find_name (children p) (fskit_basename old_path) = Some a \<or>
         fskit_entry_set_find_name (children q) (fskit_basename new_path) = Some a) \<longrightarrow> a \<noteq> op \<and> a \<noteq> np)"

lemma locked_parents_cases:
  assumes N: "no_self s" and P: "parents_clear V old_path new_path user grp s"
    and d: "fskit_dirname old_path = Some d" "fskit_dirname new_path = Some e"
  obtains (died) "rename_parents V old_path new_path d e user grp s = None"
      and "locked_rename_parents V old_path new_path d e user grp s no_locks = None"
  | (failed) common oa na op np rc1 rc2 t A where
      "rename_parents V old_path new_path d e user grp s = Some (op, np, rc1, rc2, t)"
      and "locked_rename_parents V old_path new_path d e user grp s no_locks = Some (common, oa, na, rc1, rc2, t, hold True A)"
      and "fskit_entry_rename_unlock common oa na s (hold True A) = Some no_locks"
      and "op = None \<or> np = None" and "side common oa = None \<or> side common na = None"
  | (found) common oa na op np t where
      "rename_parents V old_path new_path d e user grp s = Some (Some op, Some np, 0, 0, t)"
      and "locked_rename_parents V old_path new_path d e user grp s no_locks = Some (common, oa, na, 0, 0, t, hold True {op, np})"
      and "sides common oa na op np" and "heap s op \<noteq> None" and "heap s np \<noteq> None"
proof -
  have D: "dotdot_free d" "dotdot_free e" using P d by (auto simp: parents_clear_def)
  note RP = locked_resolve_free [OF N D(1)] and RPe = locked_resolve_free [OF N D(2)] and RI = locked_inodes_eq [OF N D(2)]
  note defs = rename_parents_def locked_rename_parents_def Let_def
  have one: "fskit_entry_rename_unlock None None (Some a) s (hold True {a}) = Some no_locks"
    "fskit_entry_rename_unlock None (Some a) None s (hold True {a}) = Some no_locks" if "heap s a \<noteq> None" for a
    using hold_unlock [of a "{a}" s True] that by (simp_all add: fskit_entry_rename_unlock_def unlock_if_def)
  have two: "fskit_entry_rename_unlock None None None s no_locks = Some no_locks"
    by (simp add: fskit_entry_rename_unlock_def unlock_if_def)
  have live: "heap s a \<noteq> None" if "fskit_entry_resolve_path V p user grp s = Some (Inr a)" for a p
    using resolve_path_live [OF that] by auto
  show ?thesis
  proof (cases "fskit_depth old_path > fskit_depth new_path")
    case True
    then have W: "clear_way V user grp s d e" using P d by (simp add: parents_clear_def)
    show ?thesis
    proof (cases "fskit_entry_resolve_path V d user grp s")
      case None
      then show ?thesis using died True by (simp add: defs RP)
    next
      case r: (Some r)
      show ?thesis
      proof (cases r)
        case (Inl rc)
        then show ?thesis using failed [of None None rc 0 Leaf None None None "{}"] two True r by (simp add: defs RP side_def)
      next
        case a: (Inr a)
        have K: "path_free e s (hold True {a})" by (rule clear_way_free [OF W]) (simp add: r a)
        show ?thesis
        proof (cases "fskit_entry_resolve_inodes V e user grp s")
          case None
          then show ?thesis using died True r a by (simp add: defs RP RI [OF K] hold_one)
        next
          case x: (Some x)
          obtain rn t where t: "x = (rn, t)" by (cases x)
          show ?thesis
          proof (cases rn)
            case (Inl rc)
            then show ?thesis using failed [of "Some a" None 0 rc t None "Some a" None "{a}"] one(2) [OF live] True r a x t
              by (simp add: defs RP RI [OF K] hold_one side_def)
          next
            case b: (Inr b)
            have ab: "a \<noteq> b" by (rule clear_way_apart [OF W]) (use r a inodes_path x t b in auto)
            show ?thesis using found [of a b t None "Some a" "Some b"] ab True r a x t b live inodes_path [of V e user grp s b t]
              by (simp add: defs RP RI [OF K] hold_one sides_def insert_commute)
          qed
        qed
      qed
    qed
  next
    case F: False
    show ?thesis
    proof (cases "fskit_depth old_path = fskit_depth new_path \<and> d = e")
      case True
      show ?thesis
      proof (cases "fskit_entry_resolve_path V d user grp s")
        case None
        then show ?thesis using died True by (simp add: defs RP RPe)
      next
        case r: (Some r)
        show ?thesis
        proof (cases r)
          case (Inl rc)
          then show ?thesis using failed [of None None rc 0 Leaf None None None "{}"] two True r by (simp add: defs RP RPe side_def)
        next
          case (Inr a)
          then show ?thesis using found [of a a Leaf "Some a" None None] live True r by (simp add: defs RP RPe hold_one sides_def)
        qed
      qed
    next
      case False
      then have W: "clear_way V user grp s e d" using P d F by (auto simp: parents_clear_def)
      show ?thesis
      proof (cases "fskit_entry_resolve_inodes V e user grp s")
        case None
        then show ?thesis using died F False by (auto simp: defs RI)
      next
        case x: (Some x)
        obtain rn t where t: "x = (rn, t)" by (cases x)
        show ?thesis
        proof (cases rn)
          case rc: (Inl rc)
          show ?thesis
          proof (cases "fskit_entry_resolve_path V d user grp s")
            case None
            then show ?thesis using died F False x t rc by (auto simp: defs RI RP)
          next
            case r: (Some r)
            show ?thesis
            proof (cases r)
              case (Inl rc')
              then show ?thesis using failed [of None None rc' rc t None None None "{}"] two F False x t rc r
                by (auto simp: defs RP RI side_def)
            next
              case (Inr a)
              then show ?thesis using failed [of "Some a" None 0 rc t None "Some a" None "{a}"] one(2) [OF live] F False x t rc r
                by (auto simp: defs RP RI side_def hold_one)
            qed
          qed
        next
          case b: (Inr b)
          have rb: "fskit_entry_resolve_path V e user grp s = Some (Inr b)" using inodes_path x t b by blast
          have K: "path_free d s (hold True {b})" by (rule clear_way_free [OF W rb])
          show ?thesis
          proof (cases "fskit_entry_resolve_path V d user grp s")
            case None
            then show ?thesis using died F False x t b by (auto simp: defs RI RP [OF K] hold_one)
          next
            case r: (Some r)
            show ?thesis
            proof (cases r)
              case (Inl rc')
              then show ?thesis using failed [of None "Some b" rc' 0 t None None "Some b" "{b}"] one(1) [OF live [OF rb]] F False x t b r
                by (auto simp: defs RP [OF K] RI side_def hold_one)
            next
              case a: (Inr a)
              have ab: "b \<noteq> a" by (rule clear_way_apart [OF W rb]) (simp add: r a)
              then show ?thesis using found [of a b t None "Some a" "Some b"] live [OF rb] live [of d a] F False x t b r a
                by (auto simp: defs RP [OF K] RI sides_def hold_one insert_commute)
            qed
          qed
        qed
      qed
    qed
  qed
qed

text \<open>
  Renaming with locks, when neither the parents nor the children stand in each other's way, no rename route
  locks inodes, and the one that runs does not answer \<open>-ENOENT\<close>.
\<close>

lemma locked_rename_eq:
  assumes N: "no_self s" and L: "all_live s" and P: "parents_clear V old_path new_path user grp s"
    and C: "\<And>d e op np t. fskit_dirname old_path = Some d \<Longrightarrow> fskit_dirname new_path = Some e \<Longrightarrow>
      rename_parents V old_path new_path d e user grp s = Some (Some op, Some np, 0, 0, t) \<Longrightarrow>
      children_clear old_path new_path op np s"
    and R: "\<And>route rm. fskit_route_match V (routes s) FSKIT_ROUTE_MATCH_RENAME old_path = Some (Some (route, rm)) \<Longrightarrow>
      \<not> locks_inode route"
    and E: "\<And>op a np b s'. fskit_run_user_rename V old_path op a new_path np b s \<noteq> Some (- ENOENT, s')"
  shows "locked_rename V old_path new_path user grp s no_locks =
    map_option (\<lambda>(rc, s). (rc, s, no_locks)) (fskit_rename V old_path new_path user grp s)"
proof (cases "fskit_dirname old_path = None \<or> fskit_dirname new_path = None")
  case True
  then show ?thesis by (auto simp: locked_rename_def rename_parts)
next
  case False
  then obtain d e where d: "fskit_dirname old_path = Some d" "fskit_dirname new_path = Some e" by auto
  show ?thesis
  proof (cases rule: locked_parents_cases [OF N P d])
    case 1
    then show ?thesis by (simp add: locked_rename_def rename_parts d)
  next
    case (2 common oa na op np rc1 rc2 t A)
    then show ?thesis
      by (auto simp: locked_rename_def rename_parts d locked_rename_children_def split: option.split)
  next
    case (3 common oa na op np t)
    obtain p q where h: "heap s op = Some p" "heap s np = Some q" using 3(4,5) by auto
    have cc: "children_clear old_path new_path op np s" by (rule C [OF d 3(1)])
    have "locked_rename_children V old_path new_path user grp common oa na t s (hold True {op, np}) =
        map_option (\<lambda>(rc, s). (rc, s, no_locks)) (rename_children V old_path new_path user grp op np t s)"
      by (rule locked_children_eq [OF 3(3) L h _ _ R E]) (use cc h in \<open>auto simp: children_clear_def\<close>)
    then show ?thesis using 3(1,2) by (simp add: locked_rename_def rename_parts d)
  qed
qed

subsection \<open>In the way\<close>

text \<open>A walk that succeeds without locks never ends if an inode that it has to lock is locked for writing.\<close>

lemma hold_core [simp]: "hold w A CoreLock = Unlocked"
  by (simp add: hold_def)

lemma passes_later: "a \<in> set (passes s ns b) \<Longrightarrow> a \<noteq> b \<Longrightarrow> a \<in> set (tl (passes s ns b))"
  by (cases ns) auto

lemma walk_blocks:
  assumes "walks s user grp cur ns b" and "a \<in> set (tl (passes s ns cur))" and "no_self s" and "''.'' \<notin> set ns" and "''..'' \<notin> set ns"
    and "K (EntryLock a) = Writer" and "cur \<noteq> a" and "K (EntryLock cur) = held_as w"
    and "\<And>x. x \<noteq> a \<Longrightarrow> x \<noteq> cur \<Longrightarrow> K (EntryLock x) = Unlocked"
  shows "locked_walk None writelock user grp ns cur () s K = None"
  using assms
proof (induction arbitrary: K w rule: walks.induct)
  case (walks_step c e n b f ns d)
  have cb: "c \<noteq> b" using no_self_child [OF walks_step.prems(2) walks_step.hyps(1), of n] walks_step by auto
  have f: "heap s b = Some f" "etype f \<noteq> T_DEAD" by fact+
  show ?case
  proof (cases "a = b")
    case True
    then have "lock_entry writelock b s K = None" using walks_step.prems(5)
      by (simp add: lock_entry_def fskit_entry_wlock2_def fskit_entry_rlock2_def rwlock_wrlock_def rwlock_rdlock_def bind_eq_None_conv)
    then show ?thesis using walks_step.hyps
      by (subst locked_walk.simps) simp
  next
    case False
    let ?K = "K(EntryLock b := held_as writelock)" and ?K' = "K(EntryLock b := held_as writelock, EntryLock c := Unlocked)"
    have l: "lock_entry writelock b s K = Some ?K"
      by (rule lock_unlocked [OF f]) (use walks_step.prems(8) False cb in auto)
    have u: "fskit_entry_unlock2 c s ?K = Some ?K'"
      by (rule unlock_held [OF walks_step.hyps(1), where w = w]) (use walks_step.prems(7) cb in simp)
    have "locked_walk None writelock user grp ns b () s ?K' = None"
      by (rule walks_step.IH [where w = writelock]) (use walks_step.hyps walks_step.prems False cb in \<open>auto intro: passes_later\<close>)
    then show ?thesis using walks_step.hyps l u
      by (subst locked_walk.simps) (simp add: fskit_entry_ent_eval_def)
  qed
qed simp

lemma resolve_blocks:
  assumes N: "no_self s" and "dotdot_free path" and r: "fskit_entry_resolve_path V path user grp s = Some (Inr b)"
    and a: "a \<in> set (passes s (path_names path) 0)"
  shows "locked_resolve_path V path user grp writelock s (hold True {a}) = None"
proof -
  obtain root where root: "heap s 0 = Some root" "etype root = T_DIR" "\<not> deletion_in_progress root" "link_count root \<noteq> 0"
    using resolve_path_Inr(1) [OF r] by (auto simp: root_up_def)
  have path: "path \<noteq> []" by (rule resolve_path_Inr(2) [OF r])
  have m: "last path = slash \<or> mem_ok V ''fskit_entry_resolve_path_cls''"
    using r path by (auto simp: fskit_entry_resolve_path_def fskit_entry_resolve_path_cls_def split: if_splits)
  let ?w = "writelock \<and> path_names path = []"
  show ?thesis
  proof (cases "a = 0")
    case True
    have "lock_entry ?w 0 s ((hold True {a})(CoreLock := Readers 0)) = None" using True
      by (simp add: lock_entry_def fskit_entry_wlock2_def fskit_entry_rlock2_def rwlock_wrlock_def rwlock_rdlock_def bind_eq_None_conv held_as_def)
    then show ?thesis using path m root
      by (auto simp: locked_resolve_path_def locked_resolve_path_cls_def locked_resolve_root_def fskit_core_rlock2_def
          rwlock_rdlock_def)
  next
    case False
    have R: "locked_resolve_root ?w s (hold True {a}) = Some (Some 0, (hold True {a})(EntryLock 0 := held_as ?w))"
      using locked_root [OF root(1), of "hold True {a}" ?w] root(2,3) False by simp
    have "locked_walk None writelock user grp (path_names path) 0 () s ((hold True {a})(EntryLock 0 := held_as ?w)) = None"
    proof (rule walk_blocks [OF resolve_path_Inr(3) [OF r] _ N, where a = a and w = ?w])
      show "a \<in> set (tl (passes s (path_names path) 0))" using passes_later [OF a False] .
      show "''.'' \<notin> set (path_names path)" "''..'' \<notin> set (path_names path)"
        using assms(2) path by (auto simp: path_names_eq dotdot_free_def)
    qed (use False in \<open>auto simp: held_as_def\<close>)
    then show ?thesis using path m root R
      by (simp add: locked_resolve_path_def locked_resolve_path_cls_def fskit_entry_ent_eval_def)
  qed
qed

text \<open>Renaming a file to the name of its own directory: the directory is locked as the old parent.\<close>

lemma rename_onto_parent_deadlock: "locked_rename demo_env ''/a/f'' ''/a'' 0 0 demo_file no_locks = None"
  by code_simp

end
