(* ===== verification/LockedLink.thy ===== *)
theory LockedLink
  imports LockedMake LockedRename
begin

text \<open>
  \<open>link.c\<close> with its locks: the old inode is locked for writing, and with it the parent of the new name. When the
  old inode is not on the way to that parent, linking does what it does without locks and gives both back;
  when it is, the call waits for a lock of its own.
\<close>

definition locked_run_user_link ::
    "env \<Rightarrow> string \<Rightarrow> string \<Rightarrow> addr \<Rightarrow> addr \<Rightarrow> fs \<Rightarrow> locks \<Rightarrow> (int \<times> fs \<times> locks) option" where
  "locked_run_user_link V path new_path new_parent fent s K =
     do {
       name \<leftarrow> name_buf path;
       (rc, cbrc, da, s, K) \<leftarrow> locked_route_call V FSKIT_ROUTE_MATCH_LINK path (Some fent)
          (fskit_route_link_args name new_path (Some new_parent)) s K;
       if rc = - EPERM \<or> rc = - ENOSYS then Some (0, s, K) else Some (cbrc, s, K)
     }"

text \<open>The old inode is locked while the new parent is looked for.\<close>

definition locked_link :: "env \<Rightarrow> string \<Rightarrow> string \<Rightarrow> u64 \<Rightarrow> u64 \<Rightarrow> fs \<Rightarrow> locks \<Rightarrow> (int \<times> fs \<times> locks) option" where
  "locked_link V frm to uid gid s K =
     do {
       to_parent \<leftarrow> dirname_buf to;
       to_child \<leftarrow> name_buf to;
       (r, K) \<leftarrow> locked_resolve_path V frm uid gid True s K;
       (case r of
          Inl err \<Rightarrow> Some (err, s, K)
        | Inr from_fent \<Rightarrow>
            do {
              f \<leftarrow> heap s from_fent;
              if etype f = T_DIR then do { K \<leftarrow> fskit_entry_unlock2 from_fent s K; Some (- EPERM, s, K) }
              else do {
                (r, K) \<leftarrow> locked_resolve_path V to_parent uid gid True s K;
                (case r of
                   Inl err \<Rightarrow> do { K \<leftarrow> fskit_entry_unlock2 from_fent s K; Some (err, s, K) }
                 | Inr to_parent_fent \<Rightarrow>
                     do {
                       p \<leftarrow> heap s to_parent_fent;
                       let err = (if etype p \<noteq> T_DIR then - ENOTDIR
                                  else if \<not> FSKIT_ENTRY_IS_WRITEABLE p uid gid then - EACCES
                                  else if fskit_entry_set_find_name (children p) to_child \<noteq> None then - EEXIST
                                  else 0);
                       if err \<noteq> 0 then do {
                         K \<leftarrow> fskit_entry_unlock2 to_parent_fent s K;
                         K \<leftarrow> fskit_entry_unlock2 from_fent s K;
                         Some (err, s, K)
                       }
                       else do {
                         (_, s) \<leftarrow> fskit_entry_attach_lowlevel V to_parent_fent from_fent to_child s;
                         s \<leftarrow> fskit_entry_ref_entry from_fent s;
                         K \<leftarrow> fskit_entry_unlock2 from_fent s K;
                         (err, s, K) \<leftarrow> locked_run_user_link V frm to to_parent_fent from_fent s K;
                         (s, K) \<leftarrow> (if err \<noteq> 0 then do {
                                       K \<leftarrow> lock_entry True from_fent s K;
                                       (_, s) \<leftarrow> fskit_entry_detach_lowlevel V to_parent_fent to_child s;
                                       K \<leftarrow> fskit_entry_unlock2 from_fent s K;
                                       Some (s, K)
                                     }
                                     else Some (s, K));
                         (_, s, K) \<leftarrow> locked_unref V frm from_fent s K;
                         K \<leftarrow> fskit_entry_unlock2 to_parent_fent s K;
                         Some (err, s, K)
                       }
                     })
              }
            })
     }"

lemma locked_user_link_eq:
  "quiet (Some fent) K \<Longrightarrow> locked_run_user_link V path to p fent s K =
    map_option (\<lambda>(rc, s). (rc, s, K)) (fskit_run_user_link V path to p fent s)"
  by (auto simp: locked_run_user_link_def fskit_run_user_link_def fskit_route_call_link_def locked_call_eq
      map_option_bind bind_map_option comp_def case_prod_unfold intro!: Option.bind_cong)

lemma user_link_frame: "fskit_run_user_link V path to p fent s = Some (rc, s') \<Longrightarrow> attr_frame s s'"
  by (auto simp: fskit_run_user_link_def fskit_route_call_link_def bind_eq_Some split: if_splits dest: route_call_frame)

text \<open>From the attaching of the new name on.\<close>

lemma link_tail_same:
  assumes m: "newborn p a s"
  shows "same no_locks (do {
      (_, s) \<leftarrow> fskit_entry_attach_lowlevel V p a n s;
      s \<leftarrow> fskit_entry_ref_entry a s;
      K \<leftarrow> fskit_entry_unlock2 a s (hold True {a, p});
      (err, s, K) \<leftarrow> locked_run_user_link V frm to p a s K;
      (s, K) \<leftarrow> (if err \<noteq> 0 then do {
                    K \<leftarrow> lock_entry True a s K;
                    (_, s) \<leftarrow> fskit_entry_detach_lowlevel V p n s;
                    K \<leftarrow> fskit_entry_unlock2 a s K;
                    Some (s, K)
                  }
                  else Some (s, K));
      (_, s, K) \<leftarrow> locked_unref V frm a s K;
      K \<leftarrow> fskit_entry_unlock2 p s K;
      Some (err, s, K)
    }) (do {
      (_, s) \<leftarrow> fskit_entry_attach_lowlevel V p a n s;
      s \<leftarrow> fskit_entry_ref_entry a s;
      (err, s) \<leftarrow> fskit_run_user_link V frm to p a s;
      s \<leftarrow> (if err \<noteq> 0 then do { (_, s) \<leftarrow> fskit_entry_detach_lowlevel V p n s; Some s } else Some s);
      (_, s) \<leftarrow> fskit_entry_unref V frm a s;
      Some (err, s)
    })"
proof -
  have pa: "p \<noteq> a" using m by (simp add: newborn_def)
  have u: "fskit_entry_unlock2 a s' (hold True {a, p}) = Some (hold True {p})"
    and l: "lock_entry True a s' (hold True {p}) = Some (hold True {a, p})"
    and r: "locked_unref V frm a s' (hold True {p}) = map_option (\<lambda>(rc, s). (rc, s, hold True {p})) (fskit_entry_unref V frm a s')"
    if m': "newborn p a s'" for s'
  proof -
    obtain e where e: "heap s' a = Some e" "etype e \<noteq> T_DEAD" using m' by (auto simp: newborn_def)
    show "fskit_entry_unlock2 a s' (hold True {a, p}) = Some (hold True {p})"
      using e pa by (simp add: hold_unlock insert_Diff_if)
    show "lock_entry True a s' (hold True {p}) = Some (hold True {a, p})"
      using hold_lock [of a "{p}" s' e True] e pa by auto
    show "locked_unref V frm a s' (hold True {p}) = map_option (\<lambda>(rc, s). (rc, s, hold True {p})) (fskit_entry_unref V frm a s')"
      by (rule locked_unref_eq [OF _ e]) (use pa in auto)
  qed
  have q: "quiet (Some a) (hold True {p})" using pa by auto
  have last: "same no_locks (do { (rc, s, K) \<leftarrow> locked_unref V frm a s' (hold True {p}); K \<leftarrow> fskit_entry_unlock2 p s K; Some (err, s, K) })
      (do { (rc, s) \<leftarrow> fskit_entry_unref V frm a s'; Some (err, s) })" if m': "newborn p a s'" for s' err
  proof -
    have "post (\<lambda>(rc, s). there p s) (fskit_entry_unref V frm a s')"
      by (rule th_unref [where p = p]) (use m' in \<open>auto simp: newborn_def\<close>)
    then show ?thesis
      by (cases "fskit_entry_unref V frm a s'") (auto simp: r [OF m'] same_def post_def there_unlock)
  qed
  show ?thesis
  proof (rule same_plain [where P = "\<lambda>(rc, s). newborn p a s"], goal_cases)
    case 1
    show ?case by (rule md_attach [OF m]) simp
  next
    case (2 x)
    obtain rc s1 where x: "x = (rc, s1)" by (cases x)
    have m1: "newborn p a s1" using 2 x by simp
    show ?case unfolding x prod.case fskit_entry_ref_entry_def
    proof (rule same_plain [where P = "newborn p a"], goal_cases)
      case 1
      show ?case by (rule md_upd [OF m1]) simp_all
    next
      case (2 s2)
      show ?case unfolding u [OF 2] Option.bind_lunit
      proof (rule same_bind [where K' = "hold True {p}" and P = "\<lambda>(rc, s). newborn p a s"], goal_cases)
        case 1
        show ?case by (simp add: same_def locked_user_link_eq [OF q])
      next
        case 2
        show ?case using made_frame [OF \<open>newborn p a s2\<close> user_link_frame] by (auto simp: post_def)
      next
        case (3 err s3)
        then have m3: "newborn p a s3" by simp
        show ?case
        proof (rule same_bind_state [where K' = "hold True {p}" and P = "newborn p a"], goal_cases)
          case 1
          have "newborn p a s4" if "fskit_entry_detach_lowlevel V p n s3 = Some (rc, s4)" for rc s4
            using md_detach [OF m3, of "\<lambda>(rc, s). newborn p a s"] that by (auto simp: post_def)
          then show ?case by (cases "fskit_entry_detach_lowlevel V p n s3") (auto simp: l [OF m3] u)
        next
          case 2
          show ?case using m3 md_detach [OF m3, of "\<lambda>(rc, s). newborn p a s"] by (auto simp: post_def bind_eq_Some)
        next
          case (3 s4)
          show ?case by (rule last [OF 3])
        qed
      qed
    qed
  qed
qed

text \<open>With the old inode off the way to the new parent, the locks change nothing.\<close>

lemma locked_link_same:
  assumes N: "no_self s" and b: "bounded s" and frm: "dotdot_free frm" and D: "\<And>d. dirname_buf to = Some d \<Longrightarrow> dotdot_free d"
    and W: "\<And>d. dirname_buf to = Some d \<Longrightarrow> clear_way V uid gid s frm d"
  shows "same no_locks (locked_link V frm to uid gid s no_locks) (fskit_link V frm to uid gid s)"
proof (cases "dirname_buf to = None \<or> name_buf to = None \<or> (\<forall>a. fskit_entry_resolve_path V frm uid gid s \<noteq> Some (Inr a))")
  case True
  then consider "dirname_buf to = None" | "name_buf to = None" | "fskit_entry_resolve_path V frm uid gid s = None"
    | err where "fskit_entry_resolve_path V frm uid gid s = Some (Inl err)"
    by (metis option.exhaust sum.exhaust)
  then show ?thesis
  proof cases
    case 4
    then show ?thesis
      by (cases "dirname_buf to"; cases "name_buf to") (simp_all add: locked_link_def fskit_link_def same_def locked_resolve_eq [OF N frm])
  qed (cases "dirname_buf to"; cases "name_buf to";
      simp add: locked_link_def fskit_link_def same_def locked_resolve_eq [OF N frm])+
next
  case False
  then obtain d n a where d: "dirname_buf to = Some d" "name_buf to = Some n" and a: "fskit_entry_resolve_path V frm uid gid s = Some (Inr a)"
    by auto
  obtain e where e: "heap s a = Some e" "etype e \<noteq> T_DEAD" using resolve_path_live [OF a] by auto
  have A: "locked_resolve_path V frm uid gid True s no_locks = Some (Inr a, hold True {a})"
    by (simp add: locked_resolve_eq [OF N frm] a hold_one)
  have ua: "fskit_entry_unlock2 a s (hold True {a}) = Some no_locks" using e by (simp add: hold_unlock)
  have B: "locked_resolve_path V d uid gid True s (hold True {a}) =
      map_option (\<lambda>r. (r, locked_on True (hold True {a}) r)) (fskit_entry_resolve_path V d uid gid s)"
    by (rule locked_resolve_free [OF N D [OF d(1)] clear_way_free [OF W [OF d(1)] a]])
  note defs = locked_link_def fskit_link_def d a A e(1)
  show ?thesis
  proof (cases "fskit_entry_resolve_path V d uid gid s")
    case None
    then show ?thesis by (simp add: defs B ua same_def)
  next
    case (Some r)
    show ?thesis
    proof (cases r)
      case (Inl err)
      then show ?thesis using Some by (simp add: defs B ua same_def locked_on_def)
    next
      case (Inr p)
      then have p: "fskit_entry_resolve_path V d uid gid s = Some (Inr p)" using Some by simp
      have ap: "a \<noteq> p" by (rule clear_way_apart [OF W [OF d(1)] a p])
      obtain q where q: "heap s p = Some q" using resolve_path_live [OF p] by auto
      have both: "locked_on True (hold True {a}) (Inr p) = hold True {p, a}"
        by (auto simp: locked_on_def hold_def held_as_def fun_eq_iff split: lock_id.splits)
      have up: "fskit_entry_unlock2 p s (hold True {p, a}) = Some (hold True {a})"
        using q ap by (simp add: hold_unlock insert_Diff_if)
      have m: "newborn p a s" using b e q ap by (auto simp: newborn_def there_def bounded_def)
      note tail = link_tail_same [OF m, of V n frm to, unfolded insert_commute [of a p "{}"]]
      have E: "ENOTDIR \<noteq> 0" "EACCES \<noteq> 0" "EEXIST \<noteq> 0" by (simp_all add: ENOTDIR_def EACCES_def EEXIST_def)
      show ?thesis
      proof (cases "etype e \<noteq> T_DIR \<and> etype q = T_DIR \<and> FSKIT_ENTRY_IS_WRITEABLE q uid gid \<and>
          fskit_entry_set_find_name (children q) n = None")
        case True
        then show ?thesis using tail unfolding defs B Option.bind_lunit p option.map both prod.case sum.case q Let_def
          by (simp only: Option.bind_lunit if_False not_True_eq_False simp_thms option.simps if_cancel sum.case refl q cong: if_cong)
      next
        case False
        show ?thesis unfolding defs B Option.bind_lunit p option.map both prod.case sum.case q Let_def
          using False E ua up by (auto simp: same_def q)
      qed
    qed
  qed
qed

text \<open>The other way round: a name in what the old path leads to is a lock that the call waits for itself.\<close>

lemma link_blocks:
  assumes N: "no_self s" and frm: "dotdot_free frm" and d: "dirname_buf to = Some d" "name_buf to = Some n" and D: "dotdot_free d"
    and a: "fskit_entry_resolve_path V frm uid gid s = Some (Inr a)" and e: "heap s a = Some e" "etype e \<noteq> T_DIR"
    and r: "fskit_entry_resolve_path V d uid gid s = Some (Inr a)"
  shows "locked_link V frm to uid gid s no_locks = None"
proof -
  have "locked_resolve_path V d uid gid True s (hold True {a}) = None"
    by (rule resolve_blocks [OF N D r]) (rule resolve_passes [OF r])
  then show ?thesis by (simp add: locked_link_def d locked_resolve_eq [OF N frm] a e flip: hold_one)
qed

lemma link_into_itself_deadlock: "locked_link demo_env ''/a/f'' ''/a/f/x'' 0 0 demo_file no_locks = None"
  by code_simp

end
