(* ===== verification/SglibOrders.thy ===== *)
theory SglibOrders
  imports SglibIter
begin

text \<open>
  The rest of the red-black tree functions of \<open>include/fskit/sglib.h\<close>: walking in pre-order and post-order,
  walking over the elements that a second comparator finds equal to a given one, and membership by pointer.
  The lemmas show which sequence each walk visits, and which elements that is in a sorted tree.
\<close>

subsection \<open>Pre-order and post-order\<close>

definition sglib_it_init_preorder :: "'a rbtree \<Rightarrow> 'a tree_iterator option" where
  "sglib_it_init_preorder t = sglib_it_init t 0"

definition sglib_it_init_postorder :: "'a rbtree \<Rightarrow> 'a tree_iterator option" where
  "sglib_it_init_postorder t = sglib_it_init t 2"

text \<open>The unqualified initialiser walks in post-order.\<close>

definition sglib_it_init_plain :: "'a rbtree \<Rightarrow> 'a tree_iterator option" where
  "sglib_it_init_plain t = sglib_it_init t 2"

definition sglib_it_current :: "'a tree_iterator \<Rightarrow> 'a option" where
  "sglib_it_current it = si_currentelem it"

lemma visit_orders:
  assumes "depth t \<le> SGLIB_MAX_TREE_DEEP"
  shows "Option.bind (sglib_it_init_preorder t) it_visit = Some (ordered 0 t)"
    and "Option.bind (sglib_it_init_postorder t) it_visit = Some (ordered 2 t)"
    and "Option.bind (sglib_it_init_plain t) it_visit = Some (ordered 2 t)"
  using visit_ordered [OF assms]
  by (simp_all add: sglib_it_init_preorder_def sglib_it_init_postorder_def sglib_it_init_plain_def)

text \<open>Each element is visited once, whatever the order.\<close>

lemma visit_orders_once:
  assumes "depth t \<le> SGLIB_MAX_TREE_DEEP" and "distinct (inorder t)" and "ord \<le> 2"
  shows "\<exists>xs. Option.bind (sglib_it_init t ord) it_visit = Some xs \<and> distinct xs \<and> set xs = set (inorder t)"
proof -
  have "mset (ordered ord t) = mset (inorder t)" by (rule mset_ordered [OF assms(3)])
  then have "distinct (ordered ord t) \<and> set (ordered ord t) = set (inorder t)"
    using assms(2) by (metis mset_eq_imp_distinct_iff mset_eq_setD)
  then show ?thesis using visit_ordered [OF assms(1,3)] by blast
qed

subsection \<open>Walking over equal elements\<close>

text \<open>The subtree in which \<open>SGLIB___BIN_TREE_FIND_MEMBER\<close> stops.\<close>

fun find_subtree :: "('a \<Rightarrow> 'a \<Rightarrow> int) \<Rightarrow> 'a \<Rightarrow> 'a rbtree \<Rightarrow> 'a rbtree" where
  "find_subtree sub e Leaf = Leaf"
| "find_subtree sub e (Node c l x r) =
     (if sub e x < 0 then find_subtree sub e l
      else if sub e x > 0 then find_subtree sub e r
      else Node c l x r)"

lemma find_subtree_size: "size (find_subtree sub e t) \<le> size t"
  by (induction t) auto

lemma find_subtree_depth: "depth (find_subtree sub e t) \<le> depth t"
  by (induction t) auto

lemma find_subtree_turns: "turns (find_subtree sub e t) \<le> turns t"
  by (induction t) auto

lemma find_subtree_member: "find_member sub e t = elem_of (find_subtree sub e t)"
  by (induction t) auto

text \<open>The loop of the iterator with an element \<open>equalto\<close>: a subtree is searched before it is entered.\<close>

fun it_turn_on :: "('a \<Rightarrow> 'a \<Rightarrow> int) \<Rightarrow> 'a \<Rightarrow> 'a tree_path \<Rightarrow> 'a tree_path option" where
  "it_turn_on sub e [] = Some []"
| "it_turn_on sub e ((t, pass) # path) =
     (if pass \<ge> 2 then Some path
      else
        (case (if pass = 0 then left_of t else right_of t) of
           None \<Rightarrow> None
         | Some s \<Rightarrow>
             let s = find_subtree sub e s in
             if s = Leaf then Some ((t, pass + 1) # path)
             else if length path + 1 < SGLIB_MAX_TREE_DEEP then Some ((s, 0) # (t, pass + 1) # path)
             else None))"

text \<open>What is left of a tree when the other subtrees are not entered.\<close>

function pruned :: "('a \<Rightarrow> 'a \<Rightarrow> int) \<Rightarrow> 'a \<Rightarrow> 'a rbtree \<Rightarrow> 'a rbtree" where
  "pruned sub e Leaf = Leaf"
| "pruned sub e (Node c l x r) = Node c (pruned sub e (find_subtree sub e l)) x (pruned sub e (find_subtree sub e r))"
  by pat_completeness auto
termination
  by (relation "measure (\<lambda>(sub, e, t). size t)") (auto simp: less_Suc_eq_le intro: order_trans [OF find_subtree_size])

lemma pruned_Leaf [simp]: "pruned sub e t = Leaf \<longleftrightarrow> t = Leaf"
  by (cases t) auto

definition pruned_path :: "('a \<Rightarrow> 'a \<Rightarrow> int) \<Rightarrow> 'a \<Rightarrow> 'a tree_path \<Rightarrow> 'a tree_path" where
  "pruned_path sub e path = map (\<lambda>(t, pass). (pruned sub e t, pass)) path"

lemma pruned_path_Nil [simp]: "pruned_path sub e path = [] \<longleftrightarrow> path = []"
  by (simp add: pruned_path_def)

lemma pruned_path_empty [simp]: "pruned_path sub e [] = []"
  by (simp add: pruned_path_def)

lemma it_turn_pruned: "it_turn (pruned_path sub e path) = map_option (pruned_path sub e) (it_turn_on sub e path)"
proof (cases path)
  case (Cons tp rest)
  obtain t p where "tp = (t, p)" by (cases tp)
  then show ?thesis using Cons by (cases t) (auto simp: pruned_path_def Let_def)
qed (simp add: pruned_path_def)

lemma it_turn_on_less:
  assumes "it_turn_on sub e path = Some path'" and "path \<noteq> []"
  shows "turns_left (pruned_path sub e path') < turns_left (pruned_path sub e path)"
  by (rule it_turn_less) (use assms in \<open>simp_all add: it_turn_pruned\<close>)

function it_compute_on :: "('a \<Rightarrow> 'a \<Rightarrow> int) \<Rightarrow> 'a \<Rightarrow> nat \<Rightarrow> 'a tree_path \<Rightarrow> ('a option \<times> 'a tree_path) option" where
  "it_compute_on sub e order path =
     (if path = [] then Some (None, [])
      else
        (case it_turn_on sub e path of
           None \<Rightarrow> None
         | Some path \<Rightarrow>
             (case path of
                (t, pass) # _ \<Rightarrow> if order = pass then Some (elem_of t, path) else it_compute_on sub e order path
              | [] \<Rightarrow> Some (None, []))))"
  by auto
termination
  by (relation "measure (\<lambda>(sub, e, order, path). turns_left (pruned_path sub e path))") (auto dest: it_turn_on_less)

declare it_compute_on.simps [simp del]

definition it_next_on :: "('a \<Rightarrow> 'a \<Rightarrow> int) \<Rightarrow> 'a \<Rightarrow> 'a tree_iterator \<Rightarrow> 'a tree_iterator option" where
  "it_next_on sub e it =
     map_option (\<lambda>(x, path). it\<lparr>si_currentelem := x, si_path := path\<rparr>)
       (it_compute_on sub e (si_order it) (si_path it))"

definition sglib_it_init_on_equal :: "('a \<Rightarrow> 'a \<Rightarrow> int) \<Rightarrow> 'a \<Rightarrow> 'a rbtree \<Rightarrow> 'a tree_iterator option" where
  "sglib_it_init_on_equal sub e tree =
     (let t = find_subtree sub e tree in
      if t = Leaf then Some \<lparr>si_currentelem = None, si_path = [], si_order = 1\<rparr>
      else it_next_on sub e \<lparr>si_currentelem = None, si_path = [(t, 0)], si_order = 1\<rparr>)"

partial_function (option) visit_on :: "('a \<Rightarrow> 'a \<Rightarrow> int) \<Rightarrow> 'a \<Rightarrow> 'a tree_iterator \<Rightarrow> 'a list option" where
  "visit_on sub e it =
     (case si_currentelem it of
        None \<Rightarrow> Some []
      | Some x \<Rightarrow> Option.bind (it_next_on sub e it) (\<lambda>it. Option.bind (visit_on sub e it) (\<lambda>xs. Some (x # xs))))"

text \<open>It goes through the pruned tree as the ordinary iterator does.\<close>

lemma elem_of_pruned [simp]: "elem_of (pruned sub e t) = elem_of t"
  by (cases t) auto

lemma compute_pruned:
  "it_compute_current_elem order (pruned_path sub e path) =
    map_option (\<lambda>(x, path). (x, pruned_path sub e path)) (it_compute_on sub e order path)"
proof (induction sub e order path rule: it_compute_on.induct)
  case (1 sub e order path)
  show ?case
  proof (cases "path = []")
    case False
    then have ne: "pruned_path sub e path \<noteq> []" by (simp add: pruned_path_def)
    show ?thesis
    proof (cases "it_turn_on sub e path")
      case None
      then show ?thesis using False ne
        by (simp add: it_compute_current_elem.simps [of _ "pruned_path sub e path"] it_compute_on.simps [of _ _ _ path] it_turn_pruned)
    next
      case (Some path')
      show ?thesis
      proof (cases path')
        case Nil
        then show ?thesis using False ne Some
          by (simp add: it_compute_current_elem.simps [of _ "pruned_path sub e path"] it_compute_on.simps [of _ _ _ path]
              it_turn_pruned)
      next
        case (Cons tp rest)
        obtain t p where tp: "tp = (t, p)" by (cases tp)
        have IH: "order \<noteq> p \<Longrightarrow> it_compute_current_elem order (pruned_path sub e path') =
            map_option (\<lambda>(x, path). (x, pruned_path sub e path)) (it_compute_on sub e order path')"
          using 1 [OF False Some Cons tp [symmetric]] by simp
        have P: "pruned_path sub e path' = (pruned sub e t, p) # pruned_path sub e rest"
          by (simp add: pruned_path_def Cons tp)
        show ?thesis using False ne Some IH
          by (simp add: it_compute_current_elem.simps [of _ "pruned_path sub e path"] it_compute_on.simps [of _ _ _ path]
              it_turn_pruned P) (simp add: Cons tp pruned_path_def)
      qed
    qed
  qed (simp add: it_compute_current_elem.simps it_compute_on.simps)
qed

definition pruned_it :: "('a \<Rightarrow> 'a \<Rightarrow> int) \<Rightarrow> 'a \<Rightarrow> 'a tree_iterator \<Rightarrow> 'a tree_iterator" where
  "pruned_it sub e it = it\<lparr>si_path := pruned_path sub e (si_path it)\<rparr>"

lemma next_pruned: "sglib_it_next (pruned_it sub e it) = map_option (pruned_it sub e) (it_next_on sub e it)"
  by (simp add: sglib_it_next_def it_next_on_def pruned_it_def compute_pruned option.map_comp comp_def case_prod_unfold)

lemma visit_pruned_all:
  assumes "it_visit j = Some xs"
  shows "\<forall>it. j = pruned_it sub e it \<longrightarrow> visit_on sub e it = Some xs"
proof (rule it_visit.raw_induct [OF _ assms, where P = "\<lambda>j xs. \<forall>it. j = pruned_it sub e it \<longrightarrow> visit_on sub e it = Some xs"],
    goal_cases)
  case (1 f j xs)
  show ?case
  proof (intro allI impI)
    fix it
    assume j: "j = pruned_it sub e it"
    have c: "si_currentelem j = si_currentelem it" using j by (simp add: pruned_it_def)
    show "visit_on sub e it = Some xs"
    proof (cases "si_currentelem it")
      case None
      then show ?thesis using 1(2) c by (simp add: visit_on.simps [of _ _ it])
    next
      case (Some x)
      then obtain j' ys where j': "sglib_it_next j = Some j'" "f j' = Some ys" "xs = x # ys"
        using 1(2) c by (auto simp: bind_eq_Some_conv)
      then obtain it' where it': "it_next_on sub e it = Some it'" "j' = pruned_it sub e it'"
        using j by (auto simp: next_pruned)
      have "visit_on sub e it' = Some ys" using 1(1) [OF j'(2)] it'(2) by simp
      then show ?thesis using Some j'(3) it'(1) by (simp add: visit_on.simps [of _ _ it])
    qed
  qed
qed

lemma visit_pruned: "it_visit (pruned_it sub e it) = Some xs \<Longrightarrow> visit_on sub e it = Some xs"
  using visit_pruned_all [of "pruned_it sub e it" xs sub e] by simp

lemma pruned_depth: "depth (pruned sub e t) \<le> depth t"
proof (induction sub e t rule: pruned.induct)
  case (2 sub e c l x r)
  have "depth (pruned sub e (find_subtree sub e l)) \<le> depth l" by (rule order_trans [OF 2(1) find_subtree_depth])
  moreover have "depth (pruned sub e (find_subtree sub e r)) \<le> depth r" by (rule order_trans [OF 2(2) find_subtree_depth])
  ultimately show ?case by (auto simp: max.coboundedI1 max.coboundedI2)
qed simp

lemma visit_on_equal:
  assumes "depth t \<le> SGLIB_MAX_TREE_DEEP"
  shows "Option.bind (sglib_it_init_on_equal sub e t) (visit_on sub e) = Some (inorder (pruned sub e (find_subtree sub e t)))"
proof (cases "find_subtree sub e t = Leaf")
  case True
  then show ?thesis by (simp add: sglib_it_init_on_equal_def visit_on.simps)
next
  case False
  let ?t = "pruned sub e (find_subtree sub e t)"
  let ?it = "\<lparr>si_currentelem = None, si_path = [(find_subtree sub e t, 0)], si_order = 1\<rparr> :: 'a tree_iterator"
  have "depth ?t \<le> SGLIB_MAX_TREE_DEEP"
    using pruned_depth [of sub e "find_subtree sub e t"] find_subtree_depth [of sub e t] assms by linarith
  then have V: "Option.bind (sglib_it_init ?t 1) it_visit = Some (inorder ?t)"
    using visit_ordered [of ?t 1] by (simp add: ordered_inorder [simplified])
  have "sglib_it_init ?t 1 = map_option (pruned_it sub e) (it_next_on sub e ?it)"
    using False next_pruned [of sub e ?it] by (simp add: sglib_it_init_def pruned_it_def pruned_path_def)
  then obtain it' where "it_next_on sub e ?it = Some it'" and "it_visit (pruned_it sub e it') = Some (inorder ?t)"
    using V by (auto simp: bind_eq_Some_conv)
  then show ?thesis using False visit_pruned by (simp add: sglib_it_init_on_equal_def)
qed

text \<open>In a tree that the second comparator sees as sorted, that is every element it finds equal, and no other.\<close>

lemma inorder_pruned:
  "sorted_wrt (\<lambda>x y. (sub e x \<le> 0 \<longrightarrow> sub e y \<le> 0) \<and> (sub e x < 0 \<longrightarrow> sub e y < 0)) (inorder t) \<Longrightarrow>
    inorder (pruned sub e (find_subtree sub e t)) = filter (\<lambda>x. sub e x = 0) (inorder t)"
proof (induction t)
  case (Node c l x r)
  have l: "inorder (pruned sub e (find_subtree sub e l)) = filter (\<lambda>x. sub e x = 0) (inorder l)"
    and r: "inorder (pruned sub e (find_subtree sub e r)) = filter (\<lambda>x. sub e x = 0) (inorder r)"
    using Node by (simp_all add: sorted_wrt_append)
  consider "sub e x < 0" | "sub e x > 0" | "sub e x = 0" by linarith
  then show ?case
  proof cases
    case 1
    then have "filter (\<lambda>x. sub e x = 0) (inorder r) = []"
      using Node.prems by (fastforce simp: sorted_wrt_append filter_empty_conv)
    then show ?thesis using 1 l by simp
  next
    case 2
    then have "filter (\<lambda>x. sub e x = 0) (inorder l) = []"
      using Node.prems by (fastforce simp: sorted_wrt_append filter_empty_conv)
    then show ?thesis using 2 r by simp
  next
    case 3
    then show ?thesis using l r by simp
  qed
qed simp

subsection \<open>Membership by pointer\<close>

text \<open>\<open>plt\<close> orders the addresses of elements that compare equal; \<open>same\<close> is equality of addresses.\<close>

fun sglib_is_member :: "('a \<Rightarrow> 'a \<Rightarrow> int) \<Rightarrow> ('a \<Rightarrow> 'a \<Rightarrow> bool) \<Rightarrow> 'a \<Rightarrow> 'a rbtree \<Rightarrow> bool" where
  "sglib_is_member cmp plt e Leaf = False"
| "sglib_is_member cmp plt e (Node c l x r) =
     (if cmp e x < 0 \<or> cmp e x = 0 \<and> plt e x then sglib_is_member cmp plt e l
      else if cmp e x > 0 \<or> cmp e x = 0 \<and> plt x e then sglib_is_member cmp plt e r
      else True)"

definition sglib_add_if_not_member ::
    "('a \<Rightarrow> 'a \<Rightarrow> int) \<Rightarrow> ('a \<Rightarrow> 'a \<Rightarrow> bool) \<Rightarrow> 'a \<Rightarrow> 'a rbtree \<Rightarrow> 'a rbtree \<times> 'a option \<times> bool" where
  "sglib_add_if_not_member cmp plt e t =
     (case find_member cmp e t of
        None \<Rightarrow> (sglib_add cmp plt e t, None, True)
      | Some m \<Rightarrow> (t, Some m, False))"

text \<open>In a tree without two equal elements this is membership.\<close>

context sglib_comparator
begin

lemma is_member_iff:
  assumes "\<And>x y. plt x y \<or> plt y x \<or> x = y" and "\<And>x. \<not> plt x x"
  shows "bst key t \<Longrightarrow> sglib_is_member cmp plt e t \<longleftrightarrow> e \<in> set (inorder t)"
proof (induction t)
  case (Node c l x r)
  have l: "sglib_is_member cmp plt e l \<longleftrightarrow> e \<in> set (inorder l)" and r: "sglib_is_member cmp plt e r \<longleftrightarrow> e \<in> set (inorder r)"
    using Node by (simp_all add: bst_def sorted_wrt_append)
  have out: "e \<in> set (inorder l) \<Longrightarrow> key e < key x" "e \<in> set (inorder r) \<Longrightarrow> key x < key e"
    using Node.prems by (auto simp: bst_def sorted_wrt_append)
  show ?case using l r out assms(1) [of e x] assms(2) [of e] cmp_neg [of e x] cmp_pos [of e x] cmp_zero [of e x] by auto
qed simp

end

end
