(* ===== verification/Spec2Isabelle.thy ===== *)
theory Spec2Isabelle
  imports Repl Tmpfs XattrsAll Accessors LockedLink SglibOrders
begin

text \<open>
  A model of fskit, a C library for building in-memory file systems, and the theorems that make it
  correct. The library keeps a tree of inodes in memory and lets the application attach callbacks
  (\<^emph>\<open>routes\<close>) to the paths that match a regular expression.

  \<^bold>\<open>State.\<close> \<open>fs\<close> (theory \<open>Core\<close>) is \<open>struct fskit_core\<close> with the memory behind it: \<open>heap\<close> maps
  addresses to inodes (\<open>entry\<close> is \<open>struct fskit_entry\<close>; the root is address 0, addresses are not
  reused), \<open>fhs\<close> and \<open>dhs\<close> are the file and directory handles, \<open>routes\<close> the route table, \<open>trace\<close> the
  callbacks that have run. A call is a function from states to \<open>option\<close>: \<open>None\<close> means that the
  process dies (a NULL or dangling pointer is followed, a buffer overflows, an assertion fails), and
  error codes are the values that the C function returns. \<open>env\<close> is what the code takes from outside:
  which allocations succeed (by the place of the allocation), the clock, the order of addresses, the
  regular expression matcher, and the application's callbacks, which answer but do not themselves
  call the library. Counters that the code keeps in 64 bits are unbounded integers, except where the
  code's wrap-around shows (\<open>written_size\<close>, \<open>readlink_len\<close>, \<open>wrap32\<close>, the random generator).

  \<^bold>\<open>Theories\<close>, each after those it uses:

  \<^item> \<open>Prelude\<close>: error codes, C strings, and the locale \<open>invariant_system\<close> for invariants of runs.
  \<^item> \<open>Sglib\<close> and \<open>SglibIter\<close> (\<open>include/fskit/sglib.h\<close>): red-black trees, with insertion, deletion and
    their consistency check; the iterator and the traversal macro with their arrays of 128 slots. The
    locale \<open>sglib_comparator\<close> states what a comparator promises and makes a tree a finite map; it is
    interpreted for directory entries and attributes (\<open>EntrySet\<close>), routes (\<open>Route\<close>) and the inode
    sets of rename (\<open>Rename\<close>). \<open>SglibOrders\<close> has the functions that the library offers and does not call: the
    other two orders, the walk over equal elements, membership by pointer.
  \<^item> \<open>FsPath\<close> (\<open>libfskit/path.c\<close>): joining, splitting and taking apart path strings.
  \<^item> \<open>EntrySet\<close>, \<open>Core\<close> (\<open>libfskit/entry.c\<close>): directory and attribute sets; inodes, their
    initialisation, attaching, detaching, tagging, and \<open>fskit_core_init\<close>.
  \<^item> \<open>Refs\<close>: the reference counting invariant \<open>rinv\<close>, and what each change of the state does to it.
  \<^item> \<open>Route\<close> (\<open>libfskit/route.c\<close>): the table of routes, matching, dispatch with the continuations of
    write and truncate, declaring and undeclaring.
  \<^item> \<open>Resolve\<close> (\<open>libfskit/path.c\<close>): path resolution and the path iterator.
  \<^item> \<open>Lifecycle\<close> (\<open>libfskit/entry.c\<close>): destruction, garbage collection, \<open>fskit_detach_all\<close> and
    \<open>fskit_core_destroy\<close>.
  \<^item> \<open>Steps\<close>: the rules by which the calls below are shown to keep \<open>rinv\<close>.
  \<^item> \<open>MakeNode\<close> (\<open>mkdir.c\<close>, \<open>mknod.c\<close>), \<open>Handles\<close> (\<open>create.c\<close>, \<open>open.c\<close>, \<open>close.c\<close>, \<open>opendir.c\<close>,
    \<open>closedir.c\<close>), \<open>Links\<close> (\<open>link.c\<close>, \<open>symlink.c\<close>, \<open>readlink.c\<close>, \<open>unlink.c\<close>, \<open>rmdir.c\<close>), \<open>Attrs\<close>
    (\<open>chmod.c\<close>, \<open>chown.c\<close>, \<open>utime.c\<close>, \<open>stat.c\<close>, \<open>access.c\<close>, \<open>statvfs.c\<close>), \<open>FileIO\<close> (\<open>read.c\<close>,
    \<open>write.c\<close>, \<open>trunc.c\<close>, \<open>sync.c\<close>), \<open>Xattrs\<close> (the four \<open>*xattr.c\<close>), \<open>Rename\<close> (\<open>rename.c\<close>), \<open>Cmwc\<close>
    (\<open>random.c\<close>, \<open>fskit.c\<close>), \<open>Readdir\<close> (\<open>readdir.c\<close>): the calls of the library.
  \<^item> \<open>Demo\<close>: a concrete environment and a few concrete file systems, on which the witnesses evaluate.
  \<^item> \<open>Reachable\<close>: the transition relation \<open>fs_step\<close> of all calls and the file systems it reaches.
  \<^item> \<open>HandleFrame\<close>: what each call does to the handle tables.
  \<^item> \<open>Repl\<close> (\<open>libfskit/repl.c\<close>): the interpreter that runs scripts of calls. The locale \<open>repl_property\<close> states
    what makes a property survive every script; it is interpreted for reachability and for the invariant
    of the descriptor tables.
  \<^item> \<open>Fuse\<close> (\<open>fuse/fskit_fuse.c\<close>): the handlers that a FUSE session calls, as functions of the environment,
    the requesting process (\<open>fuse_ctx\<close>) and the session's state (settings, core and the file infos that the
    kernel holds), and \<open>fskit_fuse_main\<close> with the answers of the FUSE library as a parameter. Sessions are
    an \<open>invariant_system\<close>.
  \<^item> \<open>Teardown\<close>: the functions of \<open>entry.c\<close>, \<open>rename.c\<close> and \<open>route.c\<close> that free a set while its iterator walks
    over it, with every round checked against what is already free; the other vector operations of \<open>sglib.h\<close>.
    \<open>XattrsAll\<close>: \<open>fskit_fremovexattr_all\<close> (\<open>removexattr.c\<close>), over sets whose nodes may lack a name.
  \<^item> \<open>Accessors\<close> (\<open>entry.c\<close>, \<open>route.c\<close>, \<open>path.c\<close>, \<open>debug.c\<close>): the getters, the library's inode number allocator,
    and the levels of its messages.
  \<^item> \<open>Tmpfs\<close> (\<open>demo/fuse-demo.c\<close>): the demonstration file system, whose callbacks keep file contents in
    memory; their state is apart from \<open>fs\<close>. The logarithm of the mathematical library is a parameter.
  \<^item> \<open>Kinds\<close>: what each call does to the types of inodes, by rules like those of \<open>Steps\<close>.
  \<^item> \<open>Locking\<close> (\<open>entry.c\<close>, \<open>path.c\<close>): reader-writer locks as the one running thread sees them (\<open>locks\<close>: who holds
    what; a lock it would wait for is \<open>None\<close>), path resolution hand over hand, references and the path iterator
    with the locks they hold.
  \<^item> \<open>Locked\<close> (\<open>route.c\<close>, \<open>entry.c\<close>, \<open>unlink.c\<close>, \<open>rmdir.c\<close>, \<open>trunc.c\<close>, \<open>close.c\<close>): routes with their consistency
    discipline, the destruction of inodes, and four whole calls with all their locks. Each refines its version
    without locks and gives back what it takes.
  \<^item> \<open>LockedRename\<close> (\<open>rename.c\<close>): rename with its locks, when it refines its version without them, and when it
    waits for a lock of its own or leaves one behind.
  \<^item> \<open>LockedCalls\<close>, \<open>LockedHandles\<close>, \<open>LockedMake\<close> and \<open>LockedLink\<close>: the other calls with their locks, each the same as without
    and leaving none: those that look at or change one inode (\<open>chmod.c\<close>, \<open>chown.c\<close>, \<open>utime.c\<close>, \<open>access.c\<close>,
    \<open>statvfs.c\<close>, \<open>readlink.c\<close>, \<open>stat.c\<close>, the four \<open>*xattr.c\<close>), those on handles (\<open>read.c\<close>, \<open>write.c\<close>, \<open>trunc.c\<close>, \<open>sync.c\<close>,
    \<open>opendir.c\<close>, \<open>closedir.c\<close>), those that make inodes (\<open>mkdir.c\<close>, \<open>mknod.c\<close>, \<open>symlink.c\<close>, \<open>create.c\<close>, \<open>open.c\<close>), and
    \<open>link.c\<close>. The relation \<open>same\<close> carries the long ones, one rule per construct of the code. Where the code waits for a
    lock that it holds, a lemma says so (\<open>setxattr_blocks\<close>, \<open>getxattr_blocks\<close>, \<open>link_blocks\<close>).

  \<^bold>\<open>What the theorems show.\<close> Over all reachable file systems: reference counts never fall below the
  references, so nothing dangles, and an inode keeps its type. Of each call: what it does when it succeeds, which errors it
  reports and that they leave the state alone. Sets and tables refine finite maps; loops end (the
  work list of \<open>fskit_detach_all\<close> in as many rounds as there are entries, \<open>detach_rounds\<close> with that
  fuel); trees stay shallow enough for sglib's arrays; paths, attributes and targets of links survive
  their round trips, and so do the lines of a script, after which all its descriptors are live. A FUSE
  session keeps its file infos on live handles and gives back what it has allocated. Sets are freed without
  reading freed nodes. Calls give back the locks that they take. Some theorems show what the code does and its comments do not say: renames over
  entries of other directories, \<open>removexattr\<close> without a route, \<open>rewinddir\<close>, and the interpreter's \<open>mkdir\<close>, literal
  arguments and final status.

  \<^bold>\<open>Bounds.\<close> Path buffers have their C sizes (\<open>PATH_MAX + 1\<close>, \<open>FSKIT_FILESYSTEM_NAMEMAX + 1\<close>); a name
  that does not fit is \<open>None\<close>. A tree with fewer than \<open>2 ^ 64 - 1\<close> elements has depth below 127, so the
  arrays of 128 slots suffice. Loops of the code are structural recursion, recursion with a measure,
  or \<open>partial_function (option)\<close> with a theorem that they return.

  \<^bold>\<open>Not modelled.\<close> Other threads: a call runs from its start to its end. Its locks are modelled for all
  calls but \<open>fskit_detach_all\<close>, the reading of directories, and the start and end of the core; there only the error
  that locking a dead inode returns. Memory is freed in the model where the code frees
  an inode or a handle, and the nodes of sets in \<open>Teardown\<close>; frees of strings are left out. The callbacks of the
  demonstration are modelled on their own; the calls of the library see callbacks through \<open>env\<close> only. The
  attribute set that \<open>fskit_fremovexattr_all\<close> installs is not a state of \<open>fs\<close>, where attributes have names; nothing
  in the library calls it. Not modelled are the text of messages, and the lists, hash tables, heaps and sorting
  macros of \<open>sglib.h\<close>, which fskit does not use.
\<close>

section \<open>The state of the file system\<close>





text \<open>
  C3: path resolution finds exactly the inode that the names of the path lead to from the root,
  through directories that the user may search and along linked inodes that are not being deleted.
\<close>

theorem resolve_path_iff:
  assumes "root_up s" and "path \<noteq> []" and "mem_ok V ''fskit_entry_resolve_path_cls''"
  shows "fskit_entry_resolve_path V path user grp s = Some (Inr a) \<longleftrightarrow> walks s user grp 0 (path_names path) a"
  using resolve_path_root [OF assms, of user grp] resolve_walk_iff [of user grp "path_names path" 0 "()" s a]
    resolve_walk_state [of user grp "path_names path" 0 "()" s "Inr a"]
  by auto

theorem resolve_path_iff_witness: "walks demo_file 0 0 0 [''a'', ''f''] 2"
proof -
  have "path_names ''/a/f'' = [''a'', ''f'']" by code_simp
  then show ?thesis
    using resolve_path_iff [OF demo_root_up, of "''/a/f''" demo_env 0 0 2] demo_resolve(3) by simp
qed



section \<open>Making and removing names\<close>



text \<open>C6: mkdir of a name that exists and is not being deleted fails with EEXIST and changes nothing.\<close>

theorem mkdir_refuses_existing:
  assumes "fskit_basename_len path \<le> FSKIT_FILESYSTEM_NAMEMAX"
    and "fskit_dirname (fskit_sanitize_path path) = Some d"
    and "fskit_entry_resolve_path V (fskit_sanitize_path d) user grp s = Some (Inr parent)"
    and "heap s parent = Some p" and "etype p = T_DIR" and "FSKIT_ENTRY_IS_WRITEABLE p user grp"
    and "fskit_entry_set_find_name (children p) (fskit_basename (fskit_sanitize_path path)) = Some child"
    and "heap s child = Some c" and "\<not> deletion_in_progress c"
  shows "fskit_mkdir V path mode user grp s = Some (- EEXIST, s)"
  by (rule mkdir_exists [OF assms])

theorem mkdir_refuses_existing_witness: "fskit_mkdir demo_env ''/a'' 493 0 0 demo_file = Some (- EEXIST, demo_file)"
proof (rule mkdir_refuses_existing [where d = "''/''" and parent = 0 and p = demo_root and child = 1 and c = demo_a])
  show "fskit_entry_resolve_path demo_env (fskit_sanitize_path ''/'') 0 0 demo_file = Some (Inr 0)"
  proof -
    have "fskit_sanitize_path ''/'' = ''/''" by code_simp
    then show ?thesis using demo_resolve by simp
  qed
qed (simp add: demo_heap; fail | code_simp)+

text \<open>
  A symlink that succeeds makes a new inode of type link with the given target, linked once, under
  the path's last name, which was free.
\<close>

theorem symlink_makes_link:
  assumes "reachable s" and "mem_ok V ''fskit_entry_set_insert''"
    and "fskit_symlink V (Some target) path user grp s = Some (0, s')"
  shows "\<exists>d parent p. dirname_buf path = Some d \<and> fskit_entry_resolve_path V d user grp s = Some (Inr parent) \<and>
    heap s parent = Some p \<and> etype p = T_DIR \<and> FSKIT_ENTRY_IS_WRITEABLE p user grp \<and>
    fskit_entry_set_find_name (children p) (fskit_basename path) = None \<and>
    made parent (fskit_basename path) (new_link target) s s'"
  using symlink_made [OF reachable_rinv [OF assms(1)] assms(2,3)] by metis

theorem symlink_makes_link_witness:
  "\<exists>parent s'. made parent (fskit_basename ''/l'') (new_link ''a/f'') demo_file s'"
proof -
  have "map_option fst (fskit_symlink demo_env (Some ''a/f'') ''/l'' 0 0 demo_file) = Some 0"
    using demo_runs by (simp add: Let_def)
  then obtain s' where "fskit_symlink demo_env (Some ''a/f'') ''/l'' 0 0 demo_file = Some (0, s')" by auto
  then show ?thesis using symlink_makes_link [OF reachable_demo(3) demo_mem] by blast
qed

text \<open>
  Reading a link into a buffer gives its target followed by a NUL, as much as the buffer holds.
\<close>

theorem readlink_gives_target:
  assumes "fskit_entry_resolve_path V path user grp s = Some (Inr a)" and "heap s a = Some e"
    and "new_link target a e" and "length target + 1 < 2 ^ 32" and "n < 2 ^ 63"
  shows "fskit_readlink V path user grp n s = Some (Inr (take n (target @ [NUL])))"
  by (rule readlink_target [OF assms])

theorem readlink_gives_target_witness:
  "fskit_readlink demo_env ''/l'' 0 0 9 demo_link = Some (Inr (''a/f'' @ [NUL]))"
proof -
  have "fskit_readlink demo_env ''/l'' 0 0 9 demo_link = Some (Inr (take 9 (''a/f'' @ [NUL])))"
    by (rule readlink_gives_target [OF demo_link_eval(1,2)]) (simp_all add: new_link_def demo_l_def demo_node_def)
  then show ?thesis by simp
qed

text \<open>
  C7: unlinking a name always returns 0 when the parent is a directory and the name stands for a file
  or for a directory with at most two proper children: the name leaves the parent, the inode loses
  one link, and it is freed exactly if it has no link and no open handle left; nothing else changes.
\<close>

theorem unlink_removes:
  assumes "reachable s" and "table_ok (routes s)" and "no_holes (routes s)" and "name_fits path"
    and "fskit_dirname path = Some d" and "fskit_entry_resolve_path V d own grp s = Some (Inr parent)"
    and "heap s parent = Some p" and "etype p = T_DIR"
    and "fskit_entry_set_find_name (children p) (fskit_basename path) = Some a" and "parent \<noteq> a"
    and "heap s a = Some c" and "etype c = T_DIR \<longrightarrow> fskit_entry_get_num_children c \<le> 2"
    and "snd (fskit_entry_set_remove (children p) (fskit_basename path))"
  shows "\<exists>t s'. fskit_unlink V path own grp s = Some (0, s') \<and>
    gone a (detach_child c)
      (s\<lparr>heap := (heap s)(parent \<mapsto> detach_parent V (fskit_basename path) p, a \<mapsto> detach_child c), trace := t\<rparr>) s'"
  using unlink_total [OF reachable_rinv [OF assms(1)] assms(2-13)] .

theorem unlink_removes_witness:
  "\<exists>t s'. fskit_unlink demo_env ''/a/f'' 0 0 demo_file = Some (0, s') \<and>
    gone 2 (detach_child demo_f)
      (demo_file\<lparr>heap := (heap demo_file)(1 \<mapsto> detach_parent demo_env ''f'' demo_a, 2 \<mapsto> detach_child demo_f),
         trace := t\<rparr>) s'"
proof -
  have b: "fskit_basename ''/a/f'' = ''f''" by code_simp
  have "\<exists>t s'. fskit_unlink demo_env ''/a/f'' 0 0 demo_file = Some (0, s') \<and>
    gone 2 (detach_child demo_f)
      (demo_file\<lparr>heap := (heap demo_file)(1 \<mapsto> detach_parent demo_env (fskit_basename ''/a/f'') demo_a,
         2 \<mapsto> detach_child demo_f), trace := t\<rparr>) s'"
    by (rule unlink_removes [OF reachable_demo(3), where d = "''/a''"])
      (simp add: demo_heap demo_routes_ok demo_resolve; fail | code_simp)+
  then show ?thesis by (simp only: b)
qed

text \<open>
  C8: rmdir refuses a directory that still has proper entries with ENOTEMPTY, and a file with ENOTDIR;
  nothing changes.
\<close>

theorem rmdir_refuses:
  assumes "length path < PATH_MAX" and "fskit_basename_len path \<le> FSKIT_FILESYSTEM_NAMEMAX"
    and "fskit_dirname (fskit_sanitize_path path) = Some d"
    and "fskit_entry_resolve_path V d user grp s = Some (Inr parent)"
    and "heap s parent = Some p" and "etype p = T_DIR"
    and "fskit_entry_set_find_name (children p) (fskit_basename (fskit_sanitize_path path)) = Some a"
    and "heap s a = Some c" and "etype c = T_DIR \<longrightarrow> 2 < fskit_entry_set_count (children c)"
  shows "fskit_rmdir V path user grp s = Some (if etype c = T_DIR then - ENOTEMPTY else - ENOTDIR, s)"
  using rmdir_not_empty [OF assms(1-8)] assms(9) by simp

theorem rmdir_refuses_witness: "fskit_rmdir demo_env ''/a'' 0 0 demo_file = Some (- ENOTEMPTY, demo_file)"
proof -
  have "fskit_rmdir demo_env ''/a'' 0 0 demo_file =
      Some (if etype demo_a = T_DIR then - ENOTEMPTY else - ENOTDIR, demo_file)"
    by (rule rmdir_refuses [where d = "''/''" and parent = 0 and p = demo_root and a = 1])
      (simp add: demo_heap demo_resolve PATH_MAX_def; fail | code_simp)+
  then show ?thesis by (simp add: demo_a_def demo_node_def)
qed



text \<open>
  C10: renaming onto an existing entry of another directory never succeeds. (The inode set that is to
  detect loops holds only the number 0, and its membership test looks up 0 as well.)
\<close>

theorem rename_over_other_directory_fails:
  assumes "fskit_dirname old_path = Some d1" and "fskit_dirname new_path = Some d2" and "d1 \<noteq> d2"
    and "fskit_entry_resolve_path V d1 user grp s = Some (Inr a)"
    and "fskit_entry_resolve_inodes V d2 user grp s = Some (Inr b, t)"
    and "heap s a = Some p" and "heap s b = Some q"
    and "fskit_entry_set_find_name (children p) (fskit_basename old_path) = Some x"
    and "fskit_entry_set_find_name (children q) (fskit_basename new_path) = Some y" and "x \<noteq> y"
  shows "fskit_rename V old_path new_path user grp s \<noteq> Some (0, s')"
  by (rule rename_over_other_dir [OF assms])

theorem rename_over_other_directory_fails_witness:
  "\<forall>s'. fskit_rename demo_env ''/l'' ''/a/f'' 0 0 demo_link \<noteq> Some (0, s')"
proof
  fix s'
  obtain t p q where t: "fskit_entry_resolve_inodes demo_env ''/a'' 0 0 demo_link = Some (Inr 1, t)"
    and p: "heap demo_link 0 = Some p" "fskit_entry_set_find_name (children p) ''l'' = Some 3"
    and q: "heap demo_link 1 = Some q" "fskit_entry_set_find_name (children q) ''f'' = Some 2"
    and r: "fskit_entry_resolve_path demo_env ''/'' 0 0 demo_link = Some (Inr 0)"
    using demo_link_dirs by blast
  have b: "fskit_basename ''/l'' = ''l''" "fskit_basename ''/a/f'' = ''f''" by code_simp+
  show "fskit_rename demo_env ''/l'' ''/a/f'' 0 0 demo_link \<noteq> Some (0, s')"
    by (rule rename_over_other_directory_fails [OF _ _ _ r t p(1) q(1), where x = 3 and y = 2])
      (simp add: b p(2) q(2); fail | code_simp)+
qed

section \<open>Attributes\<close>

text \<open>
  A chmod that succeeds was asked for by the owner and sets the mode of the inode that the path
  resolves to; nothing else but the trace of callbacks changes.
\<close>

theorem chmod_sets_mode:
  assumes "fskit_chmod V path user grp mode s = Some (0, s')"
  shows "\<exists>a e t. fskit_entry_resolve_path V path user grp s = Some (Inr a) \<and> heap s a = Some e \<and> owner e = user \<and>
    s' = s\<lparr>trace := t, heap := (heap s)(a \<mapsto> e\<lparr>emode := mode\<rparr>)\<rparr>"
  using chmod_effect [OF assms] by metis

theorem chmod_sets_mode_witness:
  "\<exists>s' a e t. fskit_chmod demo_env ''/a/f'' 0 0 256 demo_file = Some (0, s') \<and>
     s' = demo_file\<lparr>trace := t, heap := (heap demo_file)(a \<mapsto> e\<lparr>emode := 256\<rparr>)\<rparr>"
proof -
  have "map_option fst (fskit_chmod demo_env ''/a/f'' 0 0 256 demo_file) = Some 0"
    using demo_runs by (simp add: Let_def)
  then obtain s' where s': "fskit_chmod demo_env ''/a/f'' 0 0 256 demo_file = Some (0, s')" by auto
  show ?thesis using chmod_sets_mode [OF s'] s' by blast
qed



text \<open>
  Access to an inode that the path resolves to is granted exactly if each kind that is asked for
  is one the permission bits give to the user; the type bits in the mode do not matter.
\<close>

theorem access_decides:
  assumes "fskit_entry_resolve_path V path user grp s = Some (Inr a)" and "heap s a = Some e"
  shows "fskit_access V path user grp mode s =
    Some (if (has_flag mode R_OK \<longrightarrow> FSKIT_ENTRY_IS_READABLE e user grp) \<and>
             (has_flag mode W_OK \<longrightarrow> FSKIT_ENTRY_IS_WRITEABLE e user grp) \<and>
             (has_flag mode X_OK \<longrightarrow> FSKIT_ENTRY_IS_DIR_SEARCHABLE e user grp)
          then 0 else - EACCES, s)"
  by (rule access_eq [OF assms])

theorem access_decides_witness: "fskit_access demo_env ''/a/f'' 0 0 7 demo_file = Some (0, demo_file)"
  unfolding access_decides [OF demo_resolve(3) demo_heap(3)]
  by (simp add: FSKIT_ENTRY_IS_READABLE_def FSKIT_ENTRY_IS_WRITEABLE_def FSKIT_ENTRY_IS_DIR_SEARCHABLE_def
      FSKIT_ROOT_USER_ID_def)



section \<open>File contents and extended attributes\<close>

text \<open>
  C17: after a write of \<open>n\<close> bytes at \<open>off\<close> that reports at most \<open>n\<close> bytes written, the size is the
  maximum of the old size and \<open>off + n\<close>, whatever number was reported (below 4 GiB, where the code's
  32-bit comparison does not wrap); a write that fails leaves the size alone.
\<close>

theorem write_sets_size:
  assumes "fskit_write V h buf n off s = Some (rc, s')" and "fhs s h = Some fh" and "fh_fent fh = Some a"
    and "heap s a = Some e" and "rc \<le> int n" and "0 \<le> off" and "off + int n < 2 ^ 32"
  shows "\<exists>e'. heap s' a = Some e' \<and> fsize e' = (if rc < 0 then fsize e else max (fsize e) (off + int n))"
  using write_size [OF assms(1-4)] assms(5-7) by (cases "rc < 0") auto

theorem write_sets_size_witness:
  "\<exists>s' e'. fskit_write demo_env 0 ''hello'' 5 3 demo_file = Some (0, s') \<and> heap s' 2 = Some e' \<and> fsize e' = 8"
proof -
  have "map_option fst (fskit_write demo_env 0 ''hello'' 5 3 demo_file) = Some 0"
    using demo_runs by (simp add: Let_def)
  then obtain s' where s': "fskit_write demo_env 0 ''hello'' 5 3 demo_file = Some (0, s')" by auto
  have "\<exists>e'. heap s' 2 = Some e' \<and> fsize e' = (if 0 < (0 :: int) then fsize demo_f else max (fsize demo_f) (3 + int 5))"
    by (rule write_sets_size [OF s' demo_heap(4) _ demo_heap(3)]) (simp_all add: demo_fh_def)
  then show ?thesis using s' by (simp add: demo_f_def demo_node_def)
qed

text \<open>
  Truncating an open file through a truncation route that reports success sets the size to the
  one asked for.
\<close>

theorem ftrunc_sets_size:
  assumes "fskit_ftrunc V h sz s = Some (0, s')" and "fhs s h = Some fh" and "fh_fent fh = Some a"
    and "heap s a = Some e" and "etype e \<noteq> T_DEAD" and "table_ok (routes s)"
    and "fskit_route_match V (routes s) FSKIT_ROUTE_MATCH_TRUNC (fh_path fh) = Some (Some m)"
    and "mem_ok V ''fskit_route_metadata_populate''"
  shows "\<exists>e'. heap s' a = Some e' \<and> fsize e' = sz"
  by (rule ftrunc_size [OF assms])

theorem ftrunc_sets_size_witness:
  "\<exists>s' e'. fskit_ftrunc demo_env_match 0 77 demo_routed = Some (0, s') \<and> heap s' 2 = Some e' \<and> fsize e' = 77"
proof -
  have D: "map_option fst (fskit_ftrunc demo_env_match 0 77 demo_routed) = Some 0"
      "fskit_route_match demo_env_match (routes demo_routed) FSKIT_ROUTE_MATCH_TRUNC ''/a/f'' \<noteq> Some None"
      "map_option etype (heap demo_routed 2) = Some T_FILE"
      "table_ok (routes demo_routed)" "fhs demo_routed 0 = Some demo_fh"
    using demo_routed_eval by (simp_all add: Let_def)
  obtain s' where s': "fskit_ftrunc demo_env_match 0 77 demo_routed = Some (0, s')" using D(1) by auto
  obtain e where e: "heap demo_routed 2 = Some e" "etype e = T_FILE" using D(3) by auto
  obtain m where m: "fskit_route_match demo_env_match (routes demo_routed) FSKIT_ROUTE_MATCH_TRUNC (fh_path demo_fh) =
      Some (Some m)"
    using D(2) demo_routed_no_holes
    by (cases "fskit_route_match demo_env_match (routes demo_routed) FSKIT_ROUTE_MATCH_TRUNC ''/a/f''")
      (auto simp: demo_fh_def dest: route_match_not_None)
  have "\<exists>e'. heap s' 2 = Some e' \<and> fsize e' = 77"
    by (rule ftrunc_sets_size [OF s' D(5) _ e(1) _ D(4) m]) (simp_all add: demo_fh_def demo_env_match_def e(2))
  then show ?thesis using s' by blast
qed

text \<open>
  C19: an attribute that was set is read back by the same path, byte for byte, when no route serves
  the requests and the buffer is large enough.
\<close>

theorem setxattr_getxattr:
  assumes "fskit_setxattr V path user grp name v flags s = Some (0, s')"
    and "fskit_route_match V (routes s) FSKIT_ROUTE_MATCH_SETXATTR path = Some None"
    and "fskit_route_match V (routes s) FSKIT_ROUTE_MATCH_GETXATTR path = Some None"
    and "\<And>a e. heap s a = Some e \<Longrightarrow> xs_ok (xattrs e)"
    and "length v < 2 ^ 31" and "length v \<le> length b" and "b \<noteq> []"
  shows "fskit_getxattr V path user grp name (Some b) (length b) s' =
    Some (int (length v), Some (v @ drop (length v) b), s')"
  by (rule setxattr_then_getxattr [OF assms])

theorem setxattr_getxattr_witness:
  "\<exists>s'. fskit_setxattr demo_env ''/'' 0 0 ''user.k'' ''v'' 0 demo_boot = Some (0, s') \<and>
    fskit_getxattr demo_env ''/'' 0 0 ''user.k'' (Some ''...'') 3 s' = Some (1, Some ''v..'', s')"
proof -
  have "map_option fst (fskit_setxattr demo_env ''/'' 0 0 ''user.k'' ''v'' 0 demo_boot) = Some 0" by code_simp
  then obtain s' where s': "fskit_setxattr demo_env ''/'' 0 0 ''user.k'' ''v'' 0 demo_boot = Some (0, s')" by auto
  have "fskit_getxattr demo_env ''/'' 0 0 ''user.k'' (Some ''...'') (length ''...'') s' =
      Some (int (length ''v''), Some (''v'' @ drop (length ''v'') ''...''), s')"
    by (rule setxattr_getxattr [OF s']) (simp_all add: demo_boot_routes demo_no_route demo_boot_xattrs)
  then show ?thesis using s' by (simp add: numeral_3_eq_3)
qed



text \<open>
  C21: listing the names of the attributes, when no route serves the request, gives the names in order,
  each followed by a NUL; without a buffer the call gives the size, and a buffer that is too small is
  left alone with ERANGE.
\<close>

theorem listxattr_lists_names:
  assumes "fskit_entry_resolve_path V path user grp s = Some (Inr a)" and "heap s a = Some e"
    and "fskit_route_match V (routes s) FSKIT_ROUTE_MATCH_LISTXATTR path = Some None" and "xs_ok (xattrs e)"
    and "names = sorted_list_of_set (dom (xs_map (xattrs e)))" and "out = concat (map (\<lambda>n. n @ [NUL]) names)"
    and "length out < 2 ^ 31" and "b \<noteq> []"
  shows "fskit_listxattr V path user grp None z s = Some (int (length out), None, s) \<and>
    fskit_listxattr V path user grp (Some b) (length b) s =
      (if length out \<le> length b then Some (int (length out), Some (out @ drop (length out) b), s)
       else Some (- ERANGE, Some b, s))"
proof (rule listxattr_names [OF assms(1-4), of z b])
  fix ns
  assume n: "sorted_wrt (<) ns" "set ns = dom (xs_map (xattrs e))"
    and l: "length (concat (map (\<lambda>n. n @ [NUL]) ns)) < 2 ^ 31 \<Longrightarrow>
      fskit_listxattr V path user grp None z s = Some (int (length (concat (map (\<lambda>n. n @ [NUL]) ns))), None, s)"
      "length (concat (map (\<lambda>n. n @ [NUL]) ns)) < 2 ^ 31 \<Longrightarrow> b \<noteq> [] \<Longrightarrow>
      fskit_listxattr V path user grp (Some b) (length b) s =
        (let out = concat (map (\<lambda>n. n @ [NUL]) ns) in
         if length out \<le> length b then Some (int (length out), Some (out @ drop (length out) b), s)
         else Some (- ERANGE, Some b, s))"
  have "names = ns"
    using n assms(5) by (metis sorted_list_of_set.idem_if_sorted_distinct strict_sorted_iff)
  then have "concat (map (\<lambda>n. n @ [NUL]) ns) = out" using assms(6) by simp
  then show ?thesis using l assms(7,8) by (simp add: Let_def)
qed

theorem listxattr_lists_names_witness:
  "fskit_listxattr demo_env ''/a/f'' 0 0 (Some ''..'') 2 demo_file = Some (0, Some ''..'', demo_file)"
proof -
  have x: "xs_map (xattrs demo_f) = Map.empty" by (simp add: demo_f_def demo_node_def xs_map_def fun_eq_iff)
  show ?thesis
    using listxattr_lists_names [OF demo_resolve(3) demo_heap(3) _ demo_sets_ok(3), where names = "[]" and out = "[]" and b = "''..''"]
    by (simp add: demo_heap demo_no_route x numeral_2_eq_2)
qed

text \<open>
  Removexattr returns 0 without removing anything when no route serves the request: the code
  takes the missing route for a callback that has done the removal.
\<close>

theorem removexattr_without_route:
  assumes "fskit_entry_resolve_path V path user grp s = Some (Inr a)"
    and "fskit_route_match V (routes s) FSKIT_ROUTE_MATCH_REMOVEXATTR path = Some None"
  shows "fskit_removexattr V path user grp name s = Some (0, s)"
  by (rule removexattr_no_route [OF assms])

theorem removexattr_without_route_witness:
  "fskit_removexattr demo_env ''/a/f'' 0 0 ''user.k'' demo_file = Some (0, demo_file)"
  by (rule removexattr_without_route [OF demo_resolve(3)]) (simp add: demo_heap demo_no_route)

section \<open>Handles and directory listings\<close>

text \<open>
  C11: an open of an existing file, without truncation, that succeeds found the file in a directory that
  the user may search, and the file's permission bits allow what the flags ask for; the new handle is
  on that file and holds one reference to it.
\<close>

theorem open_checks_and_references:
  assumes "fskit_open V path user grp flags mode s = Some (Inr h, s')"
    and "\<not> has_flag flags O_CREAT" and "\<not> has_flag flags O_TRUNC"
  shows "\<exists>d parent p child c c' fh. fskit_dirname (fskit_sanitize_path path) = Some d \<and>
    fskit_entry_resolve_path V d user grp s = Some (Inr parent) \<and> heap s parent = Some p \<and>
    fskit_do_parent_check p flags user grp = 0 \<and>
    fskit_entry_set_find_name (children p) (fskit_basename (fskit_sanitize_path path)) = Some child \<and>
    heap s child = Some c \<and> do_open_check c flags user grp = 0 \<and>
    fhs s' h = Some fh \<and> fh_fent fh = Some child \<and> fh_flags fh = flags \<and> (\<forall>k. k \<noteq> h \<longrightarrow> fhs s' k = fhs s k) \<and>
    heap s' child = Some c' \<and> open_count c' = open_count c + 1 \<and> link_count c' = link_count c"
  using open_existing [OF assms] by blast

theorem open_checks_and_references_witness:
  "\<exists>s' child c' fh. fskit_open demo_env ''/a/f'' 0 0 0 0 demo_file = Some (Inr 1, s') \<and>
     fhs s' 1 = Some fh \<and> fh_fent fh = Some child \<and> heap s' child = Some c'"
proof -
  have "map_option fst (fskit_open demo_env ''/a/f'' 0 0 0 0 demo_file) = Some (Inr 1)"
    using demo_handle_runs by (simp add: Let_def)
  then obtain s' where s': "fskit_open demo_env ''/a/f'' 0 0 0 0 demo_file = Some (Inr 1, s')" by auto
  have f: "\<not> has_flag 0 O_CREAT" "\<not> has_flag 0 O_TRUNC" by code_simp+
  show ?thesis using open_checks_and_references [OF s' f] s' by blast
qed

text \<open>
  C12: a close that returns 0 takes the handle out of the table and drops one reference; the inode is
  freed exactly if it had no link and this was its last reference.
\<close>

theorem close_releases:
  assumes "fskit_close V h s = Some (0, s')" and "fhs s h = Some fh" and "fh_fent fh = Some a" and "heap s a = Some e"
  shows "fhs s' h = None \<and>
    (if link_count e = 0 \<and> open_count e = 1 then heap s' a = None
     else \<exists>e'. heap s' a = Some e' \<and> open_count e' = open_count e - 1 \<and> link_count e' = link_count e)"
  by (rule close_effect [OF assms])

theorem close_releases_witness:
  "\<exists>s' e'. fskit_close demo_env 0 demo_file = Some (0, s') \<and> fhs s' 0 = None \<and> heap s' 2 = Some e' \<and> open_count e' = 0"
proof -
  have "map_option fst (fskit_close demo_env 0 demo_file) = Some 0"
    using demo_handle_runs by (simp add: Let_def)
  then obtain s' where s': "fskit_close demo_env 0 demo_file = Some (0, s')" by auto
  have "fhs s' 0 = None \<and>
    (if link_count demo_f = 0 \<and> open_count demo_f = 1 then heap s' 2 = None
     else \<exists>e'. heap s' 2 = Some e' \<and> open_count e' = open_count demo_f - 1 \<and> link_count e' = link_count demo_f)"
    by (rule close_releases [OF s' demo_heap(4) _ demo_heap(3)]) (simp add: demo_fh_def)
  then show ?thesis using s' by (auto simp: demo_f_def demo_node_def)
qed



text \<open>
  Rewinding a directory handle leaves it after the first entry, so that the next read starts with
  the second one; a handle that has seen the end stays at the end.
\<close>

theorem rewinddir_loses_first_entry:
  assumes "dhs s h = Some dirh" and "dh_dent dirh = Some dent" and "heap s dent = Some d" and "es_ok (children d)"
    and "inorder (children d) = x # xs" and "length (es_name x) \<le> FSKIT_FILESYSTEM_NAMEMAX" and "es_name x \<noteq> []"
  shows "\<exists>dirh'. fskit_rewinddir h s = Some (s\<lparr>dhs := (dhs s)(h \<mapsto> dirh')\<rparr>) \<and>
    unread s d dirh' = (if dh_eof dirh then [] else listing s d xs)"
  by (rule rewinddir_skips_first [OF assms]) blast

theorem rewinddir_loses_first_entry_witness:
  "\<exists>dirh'. fskit_rewinddir 1 demo_opened = Some (demo_opened\<lparr>dhs := (dhs demo_opened)(1 \<mapsto> dirh')\<rparr>) \<and>
    map de_name (unread demo_opened (demo_root\<lparr>open_count := 1\<rparr>) dirh') = [''..'', ''a'']"
proof -
  let ?r = "demo_root\<lparr>open_count := 1\<rparr>"
  let ?xs = "[\<lparr>es_name = ''..'', es_dirent = 0\<rparr>, \<lparr>es_name = ''a'', es_dirent = 1\<rparr>]"
  have l: "map de_name (listing demo_opened ?r ?xs) = [''..'', ''a'']" by code_simp
  have "\<exists>dirh'. fskit_rewinddir 1 demo_opened = Some (demo_opened\<lparr>dhs := (dhs demo_opened)(1 \<mapsto> dirh')\<rparr>) \<and>
    unread demo_opened ?r dirh' = (if dh_eof demo_dh then [] else listing demo_opened ?r ?xs)"
    by (rule rewinddir_loses_first_entry [where x = "\<lparr>es_name = ''.'', es_dirent = 0\<rparr>"])
      (rule demo_opened_facts | (simp add: demo_dh_def; fail) | (simp add: demo_root_def demo_node_def demo_set_def; fail) |
        code_simp)+
  then show ?thesis using l by (auto simp: demo_dh_def)
qed

section \<open>The end of inodes\<close>

text \<open>
  C13: an inode is destroyed and freed only when it has neither links nor open handles; otherwise the
  attempt changes nothing.
\<close>

theorem destroy_needs_no_references:
  assumes "fskit_entry_try_destroy_and_free V path parent fent s = Some (rc, s')"
  shows "\<exists>e. heap s fent = Some e \<and>
    (if rc = 0 then s' = s \<and> (0 < link_count e \<or> 0 < open_count e)
     else rc = 1 \<and> link_count e = 0 \<and> open_count e = 0 \<and> fent \<noteq> 0 \<and>
       (\<exists>t. s' = s\<lparr>heap := (heap s)(fent := None), trace := t\<rparr>))"
  using assms by (cases rule: try_destroy_and_free_cases) auto

theorem destroy_needs_no_references_witness:
  "fskit_entry_try_destroy_and_free demo_env ''/a/f'' None 2 demo_file = Some (0, demo_file)"
proof -
  have "map_option fst (fskit_entry_try_destroy_and_free demo_env ''/a/f'' None 2 demo_file) = Some 0" by code_simp
  then obtain s' where s': "fskit_entry_try_destroy_and_free demo_env ''/a/f'' None 2 demo_file = Some (0, s')" by auto
  show ?thesis using destroy_needs_no_references [OF s'] s' by auto
qed

text \<open>
  C14: detaching everything below a directory ends: each round of the work loop uses up one queued
  entry or one directory entry of the file system, whatever the callbacks do.
\<close>

theorem detach_all_ends:
  assumes "reachable s" and "all_mem V"
  shows "detach_rounds (entries_left s + length (dc_queue ctx)) V g ctx cbrc s = Some (detach_loop V g ctx cbrc s)"
  using detach_rounds_enough [OF assms(2) inv_finite [OF reachable_rinv [OF assms(1)]]] by (simp add: detach_work_def)

theorem detach_all_ends_witness:
  "\<exists>n r. detach_rounds n demo_env [] (fskit_detach_ctx_init\<lparr>dc_queue := [(''/a/f'', 2)]\<rparr>) 0 demo_file = Some r"
proof -
  have "all_mem demo_env" by (simp add: all_mem_def)
  then show ?thesis using detach_all_ends [OF reachable_demo(3)] by blast
qed



section \<open>Sets and tables\<close>

text \<open>
  C24: a directory's entry set is a finite map from names to inodes: looking a name up is application,
  inserting a free name extends the map (unless memory runs out), removing a proper name deletes it,
  and insertion and removal keep the red-black tree consistent.
\<close>

theorem entry_set_is_map:
  assumes "es_ok t" and "fskit_entry_set_insert S t n a = (t1, rc)" and "fskit_entry_set_remove t n = (t2, b)"
  shows "fskit_entry_set_find_name t n = es_map t n \<and>
    (es_map t n = None \<longrightarrow> es_ok t1 \<and> es_map t1 = (if rc = 0 then (es_map t)(n \<mapsto> a) else es_map t)) \<and>
    (n \<noteq> ''.'' \<and> n \<noteq> ''..'' \<longrightarrow> es_ok t2 \<and> es_map t2 = (es_map t)(n := None) \<and> b = (es_map t n \<noteq> None))"
  using find_name_es_map [OF assms(1)] entry_set_insert_ok [OF assms(1) _ assms(2)]
    entry_set_remove_ok [OF assms(1) _ _ assms(3)] by blast

theorem entry_set_is_map_witness:
  "\<exists>t1 rc t2. fskit_entry_set_insert demo_env (children demo_a) ''g'' 7 = (t1, rc) \<and>
     es_map t1 = (if rc = 0 then (es_map (children demo_a))(''g'' \<mapsto> 7) else es_map (children demo_a)) \<and>
     fskit_entry_set_remove (children demo_a) ''g'' = (t2, False)"
proof -
  have g: "es_map (children demo_a) ''g'' = None" by code_simp
  obtain t1 rc where i: "fskit_entry_set_insert demo_env (children demo_a) ''g'' 7 = (t1, rc)" by (rule prod.exhaust)
  obtain t2 b where r: "fskit_entry_set_remove (children demo_a) ''g'' = (t2, b)" by (rule prod.exhaust)
  show ?thesis using entry_set_is_map [OF demo_sets_ok(2) i r] i r g by simp
qed

text \<open>
  The set of extended attributes is a finite map from names to values: an insertion that succeeds
  maps the name to the value, whether it was there before or not, a removal deletes it and says
  whether it was there, and both keep the tree consistent.
\<close>

theorem xattr_set_is_map:
  assumes "xs_ok t" and "fskit_xattr_set_insert S t n v flags = (t1, rc)" and "fskit_xattr_set_remove t n = (t2, b)"
  shows "fskit_xattr_set_find t n = xs_map t n \<and>
    xs_ok t1 \<and> (rc = 0 \<longrightarrow> xs_map t1 = (xs_map t)(n \<mapsto> v)) \<and> (rc = - EEXIST \<or> rc = - ENODATA \<longrightarrow> t1 = t) \<and>
    xs_ok t2 \<and> xs_map t2 = (xs_map t)(n := None) \<and> b = (xs_map t n \<noteq> None)"
  using find_xs_map [OF assms(1)] xattr_set_insert_ok [OF assms(1,2)] xattr_set_remove_ok [OF assms(1,3)] by blast

theorem xattr_set_is_map_witness:
  "\<exists>t1. fskit_xattr_set_insert demo_env Leaf ''user.k'' ''v'' 0 = (t1, 0) \<and> xs_map t1 = [''user.k'' \<mapsto> ''v'']"
proof -
  have "snd (fskit_xattr_set_insert demo_env Leaf ''user.k'' ''v'' 0) = 0" by code_simp
  then obtain t1 where t1: "fskit_xattr_set_insert demo_env Leaf ''user.k'' ''v'' 0 = (t1, 0)"
    by (metis prod.collapse)
  show ?thesis using xattr_set_is_map [OF xs_ok_Leaf t1 prod.collapse [symmetric]] t1 by auto
qed



text \<open>
  C16: a directory's entry set is freed while its iterator walks over it, and still the iterator never reads a
  node that has been freed; every node of the set is freed, and none of them twice.
\<close>

theorem sets_freed_once:
  assumes "es_ok t" and "fskit_entry_set_count t + 1 < 2 ^ 64"
  shows "\<exists>nodes. fskit_entry_set_free t = Some nodes \<and> map snd nodes = inorder t \<and> distinct (map fst nodes)"
proof -
  have "depth t \<le> SGLIB_MAX_TREE_DEEP"
    using consistent_depth [of entry_set_cmp t] assms
    by (simp add: es_ok_def sglib_set_ok_def fskit_entry_set_count_def sglib_len_def)
  then show ?thesis unfolding fskit_entry_set_free_def by (rule free_labelled) blast
qed

theorem sets_freed_once_witness:
  "\<exists>nodes. fskit_entry_set_free (children demo_a) = Some nodes \<and> length nodes = 3 \<and> distinct (map fst nodes)"
proof -
  have c: "fskit_entry_set_count (children demo_a) = 3"
    by (simp add: demo_a_def demo_node_def demo_set_def fskit_entry_set_count_def sglib_len_def)
  then obtain nodes where n: "fskit_entry_set_free (children demo_a) = Some nodes" "map snd nodes = inorder (children demo_a)"
      "distinct (map fst nodes)"
    using sets_freed_once [OF demo_sets_ok(2)] by auto
  have "length nodes = length (map snd nodes)" by simp
  also have "\<dots> = 3" unfolding n(2) using c by (simp add: fskit_entry_set_count_def sglib_len_def)
  finally show ?thesis using n(1,3) by blast
qed

text \<open>Looking up a name visits a number of entries that is logarithmic in the size of the directory.\<close>

theorem directory_depth_logarithmic:
  assumes "es_ok t"
  shows "2 ^ ((depth t + 1) div 2) \<le> fskit_entry_set_count t + 1"
  using depth_bound [of t] assms
  by (simp add: es_ok_def sglib_set_ok_def consistency_check_iff fskit_entry_set_count_def sglib_len_def)

theorem directory_depth_logarithmic_witness:
  "2 ^ ((depth (children demo_a) + 1) div 2) \<le> fskit_entry_set_count (children demo_a) + (1 :: nat)"
  by (rule directory_depth_logarithmic [OF demo_sets_ok(2)])

text \<open>
  C26: a route that is declared gets a handle that was free and is found under it afterwards; every
  other handle of every type finds what it found before.
\<close>

theorem declared_route_is_found:
  assumes "table_ok tbl" and "mem_ok S ''vector_grow''" and "pr_type r = t" and "pr_regex_str r \<noteq> None"
    and "fskit_route_table_insert S tbl t r = Some (tbl', rc)" and "0 \<le> rc"
  shows "table_ok tbl' \<and> fskit_route_table_find tbl t rc = Some None \<and>
    (\<forall>k j. 0 \<le> j \<longrightarrow> fskit_route_table_find tbl' k j =
       (if k = t \<and> j = rc then Some (Some r) else fskit_route_table_find tbl k j))"
  using route_insert_effect [OF assms] find_route_of [of tbl] find_route_of [of tbl'] assms(1,6)
  by (auto simp: eq_nat_nat_iff)

theorem declared_route_is_found_witness:
  "\<exists>tbl' rc. fskit_route_table_insert demo_env demo_routes FSKIT_ROUTE_MATCH_OPEN
      \<lparr>pr_regex_str = Some ''.*'', pr_num_expected = 1, pr_discipline = 1, pr_type = FSKIT_ROUTE_MATCH_OPEN, pr_method = None\<rparr> =
        Some (tbl', rc) \<and> fskit_route_table_find tbl' FSKIT_ROUTE_MATCH_OPEN rc \<noteq> Some None"
proof -
  let ?r = "\<lparr>pr_regex_str = Some ''.*'', pr_num_expected = 1, pr_discipline = 1, pr_type = FSKIT_ROUTE_MATCH_OPEN, pr_method = None\<rparr>"
  have "map_option snd (fskit_route_table_insert demo_env demo_routes FSKIT_ROUTE_MATCH_OPEN ?r) = Some 0" by code_simp
  then obtain tbl' where i: "fskit_route_table_insert demo_env demo_routes FSKIT_ROUTE_MATCH_OPEN ?r = Some (tbl', 0)" by auto
  have "fskit_route_table_find tbl' FSKIT_ROUTE_MATCH_OPEN 0 = Some (Some ?r)"
    using declared_route_is_found [OF demo_routes_ok(1) _ _ _ i] by simp
  then show ?thesis using i by auto
qed

text \<open>Undeclaring a route gives back the route of the handle and frees only that handle.\<close>

theorem removed_route_is_gone:
  assumes "table_ok tbl" and "0 \<le> i" and "fskit_route_table_remove tbl t i = Some (tbl', r)"
  shows "table_ok tbl' \<and> fskit_route_table_find tbl t i = Some r \<and>
    (\<forall>k j. 0 \<le> j \<longrightarrow> fskit_route_table_find tbl' k j =
       (if k = t \<and> j = i then Some None else fskit_route_table_find tbl k j))"
  using route_remove_effect [OF assms] find_route_of [of tbl] find_route_of [of tbl'] assms(1,2)
  by (auto simp: eq_nat_nat_iff)

theorem removed_route_is_gone_witness:
  "\<exists>tbl' r. fskit_route_table_remove (routes demo_routed) FSKIT_ROUTE_MATCH_TRUNC 0 = Some (tbl', Some r) \<and>
     fskit_route_table_find tbl' FSKIT_ROUTE_MATCH_TRUNC 0 = Some None"
proof -
  have "map_option (\<lambda>(t, r). r \<noteq> None) (fskit_route_table_remove (routes demo_routed) FSKIT_ROUTE_MATCH_TRUNC 0) = Some True"
    by code_simp
  then obtain tbl' r where i: "fskit_route_table_remove (routes demo_routed) FSKIT_ROUTE_MATCH_TRUNC 0 = Some (tbl', Some r)"
    by auto
  have "table_ok (routes demo_routed)" using demo_routed_eval by (simp add: Let_def)
  then have "fskit_route_table_find tbl' FSKIT_ROUTE_MATCH_TRUNC 0 = Some None"
    using removed_route_is_gone [OF _ _ i] by simp
  then show ?thesis using i by auto
qed

text \<open>
  C27: the route that serves a path is the one with the lowest handle whose expression matches the
  whole path, and it has the type that was asked for.
\<close>

theorem first_matching_route_serves:
  assumes "table_ok tbl" and "fskit_route_match V tbl t path = Some (Some (r, rm))"
  shows "pr_type r = t \<and> (\<exists>i. fskit_route_table_find tbl t (int i) = Some (Some r) \<and>
    fskit_match_regex V zero_metadata r path = (rm, 0) \<and>
    (\<forall>j q. j < i \<and> fskit_route_table_find tbl t (int j) = Some (Some q) \<longrightarrow>
       pr_regex_str q = None \<or> snd (fskit_match_regex V zero_metadata q path) \<noteq> 0))"
proof -
  have f: "fskit_route_table_find tbl t (int j) = Some (route_of tbl t j)" for j
    using find_route_of [OF assms(1), of "int j"] by simp
  show ?thesis using route_match_first [OF assms(2)] route_match_type [OF assms] by (simp add: f) blast
qed

theorem first_matching_route_serves_witness:
  "\<exists>r rm. fskit_route_match demo_env_match (routes demo_routed) FSKIT_ROUTE_MATCH_TRUNC ''/a/f'' = Some (Some (r, rm)) \<and>
     pr_type r = FSKIT_ROUTE_MATCH_TRUNC"
proof -
  have D: "fskit_route_match demo_env_match (routes demo_routed) FSKIT_ROUTE_MATCH_TRUNC ''/a/f'' \<noteq> Some None"
      "table_ok (routes demo_routed)"
    using demo_routed_eval by (simp_all add: Let_def)
  then obtain r rm where m: "fskit_route_match demo_env_match (routes demo_routed) FSKIT_ROUTE_MATCH_TRUNC ''/a/f'' =
      Some (Some (r, rm))"
    using demo_routed_no_holes
    by (cases "fskit_route_match demo_env_match (routes demo_routed) FSKIT_ROUTE_MATCH_TRUNC ''/a/f''")
      (auto dest: route_match_not_None)
  then show ?thesis using first_matching_route_serves [OF D(2) m] by blast
qed

section \<open>Paths and random numbers\<close>



text \<open>
  Splitting an absolute path that was built from names gives the names back, and its depth is
  their number.
\<close>

theorem split_built_path:
  assumes "list_all is_name ns"
  shows "fskit_path_split (abs_path ns) = Some ns \<and> fskit_depth (abs_path ns) = length ns"
  using split_names_abs_path [OF assms] depth_abs_path [OF assms]
  by (simp add: fskit_path_split_def split_count_names)

theorem split_built_path_witness: "fskit_path_split ''/a/f'' = Some [''a'', ''f'']"
proof -
  have "list_all is_name [''a'', ''f'']" "abs_path [''a'', ''f''] = ''/a/f''" by code_simp+
  then show ?thesis using split_built_path [of "[''a'', ''f'']"] by simp
qed



text \<open>
  C30: each call of \<open>fskit_random32\<close> is one step of the complementary multiply-with-carry generator
  with multiplier 18782 and base \<open>2 ^ 32 - 1\<close> over 4096 words: the products and the carry are exact,
  although the code computes them in 64 and 32 bits with wrap-around.
\<close>

theorem random32_is_cmwc:
  assumes "rnd_ok st" and "fskit_random32 st = (ret, st')"
  shows "rnd_ok st' \<and> rnd_i st' = and (rnd_i st + 1) 4095 \<and>
    rnd_Q st' = (rnd_Q st)[unat (rnd_i st') := ret] \<and>
    18782 * unat (rnd_Q st ! unat (rnd_i st')) + unat (rnd_c st) =
      unat (rnd_c st') * (2 ^ 32 - 1) + unat (0xfffffffe - ret)"
  using random32_step [OF assms] by blast

theorem random32_is_cmwc_witness:
  "\<exists>ret st'. fskit_random32 \<lparr>rnd_Q = replicate 4096 5, rnd_c = 362436, rnd_i = 4095\<rparr> = (ret, st') \<and>
     18782 * 5 + 362436 = unat (rnd_c st') * (2 ^ 32 - 1) + unat (0xfffffffe - ret)"
proof -
  let ?st = "\<lparr>rnd_Q = replicate 4096 5, rnd_c = 362436, rnd_i = 4095\<rparr> :: cmwc"
  obtain ret st' where s: "fskit_random32 ?st = (ret, st')" by (rule prod.exhaust)
  have "rnd_ok ?st" by (simp add: rnd_ok_def)
  note R = random32_is_cmwc [OF this s]
  then have i: "rnd_i st' = 0" by simp
  then show ?thesis using R s by (intro exI [of _ ret] exI [of _ st']) (simp add: i)
qed

section \<open>The interpreter\<close>

text \<open>
  C31: after any script that a fresh interpreter runs on a reachable file system, a descriptor that
  the interpreter looks up belongs to a handle that is still open, and no two descriptors share a
  handle.
\<close>

theorem script_descriptors_live:
  assumes "reachable s" and "fskit_repl_new S = Some R"
    and "fskit_repl_main Vs input R s = Some (rc, out, R', s')"
  shows "(\<forall>fd h. fskit_repl_filedes_lookup R' fd = Some h \<longrightarrow>
       h \<in> dom (fhs s') \<and> (\<forall>fd'. fskit_repl_filedes_lookup R' fd' = Some h \<longrightarrow> fd' = fd)) \<and>
     (\<forall>fd h. fskit_repl_dirdes_lookup R' fd = Some h \<longrightarrow>
       h \<in> dom (dhs s') \<and> (\<forall>fd'. fskit_repl_dirdes_lookup R' fd' = Some h \<longrightarrow> fd' = fd))"
proof -
  have "repl_inv R (handle_view s)"
    using reachable_rinv [OF assms(1)] by (auto simp: handle_view_def rinv_def intro!: repl_inv_new [OF assms(2)])
  then have "repl_inv R' (handle_view s')" by (rule tables.main [OF _ assms(3)])
  then have "slots_ok (rp_filedes R') (dom (fhs s'))" "slots_ok (rp_dirdes R') (dom (dhs s'))"
    by (simp_all add: repl_inv_def handle_view_def)
  then show ?thesis
    unfolding fskit_repl_filedes_lookup_def fskit_repl_dirdes_lookup_def
    using slot_lookup_live slot_lookup_inj by blast
qed

theorem script_descriptors_live_witness:
  "\<exists>R' (s' :: fs). fskit_repl_filedes_lookup R' 0 = Some 1 \<and> 1 \<in> dom (fhs s')"
proof -
  have "map_option (\<lambda>(rc, out, R', s'). (out, fskit_repl_filedes_lookup R' 0))
      (fskit_repl_main (\<lambda>_. demo_env) (''open 0 0 /a/f 0'' @ [CHR 0x0A]) (the (fskit_repl_new demo_env)) demo_file) =
    Some ([Out_num 0], Some 1)"
    by code_simp
  moreover have "fskit_repl_new demo_env = Some (the (fskit_repl_new demo_env))" by (simp add: fskit_repl_new_def)
  ultimately obtain rc out R' s' where n: "fskit_repl_new demo_env = Some (the (fskit_repl_new demo_env))"
    and m: "fskit_repl_main (\<lambda>_. demo_env) (''open 0 0 /a/f 0'' @ [CHR 0x0A]) (the (fskit_repl_new demo_env)) demo_file =
      Some (rc, out, R', s')" and l: "fskit_repl_filedes_lookup R' 0 = Some 1"
    by (auto simp del: append.simps)
  from script_descriptors_live [OF reachable_demo(3) n m] l show ?thesis by blast
qed

text \<open>
  C32: a line made of a command and its arguments, fewer than ten (nine for \<open>write\<close> and \<open>setxattr\<close>),
  with a space between any two, is parsed back into them, and the rest of the input is left.
\<close>

theorem line_parsed_back:
  assumes "is_word cmd" and "\<forall>w\<in>set args. is_word w" and "mem_ok S ''fskit_repl_stmt_parse''"
    and "length args < FSKIT_REPL_ARGC_MAX - (if cmd = ''write'' \<or> cmd = ''setxattr'' then 1 else 0)"
  shows "fskit_repl_stmt_parse S (unwords (cmd # args) @ CHR 0x0A # rest) =
    (Inr \<lparr>rs_cmd = cmd, rs_argv = args, rs_argc = length args\<rparr>, rest)"
  by (rule parse_line [OF assms])

theorem line_parsed_back_witness:
  "fskit_repl_stmt_parse demo_env (''stat 0 0 /a'' @ [CHR 0x0A]) =
    (Inr \<lparr>rs_cmd = ''stat'', rs_argv = [''0'', ''0'', ''/a''], rs_argc = 3\<rparr>, [])"
  using line_parsed_back [of "''stat''" "[''0'', ''0'', ''/a'']" demo_env "[]"]
  by (simp add: is_word_def is_blank_def NUL_def FSKIT_REPL_ARGC_MAX_def)

text \<open>
  No statement has a literal argument: a parsed statement has as many arguments as were split off at
  blanks, and none of them contains a blank. So the values of \<open>write\<close> and \<open>setxattr\<close> cannot contain
  one either, although the code means to keep their last argument as it is.
\<close>

theorem no_literal_argument:
  assumes "fskit_repl_stmt_parse S input = (Inr st, rest)"
  shows "length (rs_argv st) = rs_argc st \<and> (\<forall>arg\<in>set (rs_argv st). \<forall>c\<in>set arg. \<not> is_blank c)"
  by (rule parse_no_literal [OF assms])

theorem no_literal_argument_witness:
  "\<exists>st. fskit_repl_stmt_parse demo_env (''write 0 0 3 a b'' @ [CHR 0x0A]) = (Inr st, []) \<and>
    length (rs_argv st) = rs_argc st \<and> rs_argc st = 5"
proof -
  have "fskit_repl_stmt_parse demo_env (''write 0 0 3 a b'' @ [CHR 0x0A]) =
    (Inr \<lparr>rs_cmd = ''write'', rs_argv = [''0'', ''0'', ''3'', ''a'', ''b''], rs_argc = 5\<rparr>, [])"
    by code_simp
  from no_literal_argument [OF this] this show ?thesis by simp
qed

text \<open>
  Running a script whose last line ends with a newline always returns the error that stands for
  the end of the input, whatever the last command returned.
\<close>

theorem script_ends_in_enodata:
  assumes "input = [] \<or> last input = CHR 0x0A"
    and "fskit_repl_main Vs input R s = Some (rc, out, R', s')"
  shows "rc = - ENODATA"
  using loop_enodata [OF _ assms(1) assms(2) [unfolded fskit_repl_main_def]] by simp

theorem script_ends_in_enodata_witness:
  "\<exists>out R' s'. fskit_repl_main (\<lambda>_. demo_env) (''access 0 0 /a 7'' @ [CHR 0x0A]) (the (fskit_repl_new demo_env)) demo_file =
    Some (- ENODATA, out, R', s')"
proof -
  have "fskit_repl_main (\<lambda>_. demo_env) (''access 0 0 /a 7'' @ [CHR 0x0A]) (the (fskit_repl_new demo_env)) demo_file \<noteq> None"
    by code_simp
  then obtain rc out R' s' where
    m: "fskit_repl_main (\<lambda>_. demo_env) (''access 0 0 /a 7'' @ [CHR 0x0A]) (the (fskit_repl_new demo_env)) demo_file = Some (rc, out, R', s')"
    by (metis not_None_eq surj_pair)
  from script_ends_in_enodata [OF _ m] m show ?thesis by simp
qed

text \<open>
  The interpreter's \<open>mkdir\<close> passes its arguments in the wrong order: the directory it makes has the
  low bits of the user number for its mode, the group for its owner and the mode for its group.
\<close>

theorem script_mkdir_mixes_arguments:
  assumes "reachable s" and "mem_ok V ''fskit_entry_set_insert''"
    and "fskit_repl_stmt_parse_user_group st 0 = Inr (user, grp)"
    and "fskit_repl_stmt_parse_mode (argn st 3) = Inr mode" and "rs_argc st = 4"
    and "repl_mkdir V R st s = Some (0, out, R', s')"
  shows "\<exists>parent. made parent (fskit_basename (fskit_sanitize_path (argn st 2)))
    (new_dir parent grp (ucast mode) (ucast user)) s s'"
proof -
  have "fskit_mkdir V (argn st 2) (ucast user) grp (ucast mode) s = Some (0, s')"
    using assms(3-6) by (auto simp: repl_mkdir_def with_user_def with_args_def parsed_def status_def)
  from mkdir_made [OF reachable_rinv [OF assms(1)] assms(2) this] show ?thesis by blast
qed

theorem script_mkdir_mixes_arguments_witness:
  "\<exists>s' parent. made parent ''b'' (new_dir parent 0 493 0) demo_file s'"
proof -
  let ?st = "\<lparr>rs_cmd = ''mkdir'', rs_argv = [''0'', ''0'', ''/b'', ''755''], rs_argc = 4\<rparr>"
  let ?R = "\<lparr>rp_filedes = [], rp_dirdes = []\<rparr>"
  have "map_option fst (repl_mkdir demo_env ?R ?st demo_file) = Some 0" by code_simp
  then obtain out R' s' where m: "repl_mkdir demo_env ?R ?st demo_file = Some (0, out, R', s')"
    by (auto simp del: append.simps)
  have a1: "fskit_repl_stmt_parse_user_group ?st 0 = Inr (0, 0)" by code_simp
  have a2: "fskit_repl_stmt_parse_mode (argn ?st 3) = Inr 493" by code_simp
  have a3: "fskit_basename (fskit_sanitize_path (argn ?st 2)) = ''b''" by code_simp
  show ?thesis
    using script_mkdir_mixes_arguments [OF reachable_demo(3) demo_mem a1 a2 _ m] unfolding a3 by auto
qed

section \<open>Types and locks\<close>

text \<open>
  C33: an inode keeps its type for as long as it exists, whatever calls are made; in particular no call
  leaves an inode behind that is marked dead.
\<close>

theorem inode_keeps_its_type:
  assumes "reachable s" and "fs_step\<^sup>*\<^sup>* s s'" and "heap s a = Some e" and "heap s' a = Some e'"
  shows "etype e' = etype e \<and> etype e' \<noteq> T_DEAD"
  using type_kept [OF assms] reachable_all_live [OF assms(1)] assms(3) by (auto simp: all_live_def)

theorem inode_keeps_its_type_witness: "etype demo_a = etype (the (heap demo_dir 1)) \<and> etype demo_a \<noteq> T_DEAD"
proof -
  have "map_option etype (heap demo_dir 1) = Some T_DIR" by code_simp
  then obtain e where e: "heap demo_dir 1 = Some e" by auto
  have "fs_step\<^sup>*\<^sup>* demo_dir demo_file"
    using step_open [OF demo_file_create [unfolded fskit_create_def]] by (rule r_into_rtranclp)
  moreover have "heap demo_file 1 = Some demo_a" using demo_heap(2) by simp
  ultimately have "etype demo_a = etype e \<and> etype demo_a \<noteq> T_DEAD"
    by (rule inode_keeps_its_type [OF reachable_demo(2) _ e])
  then show ?thesis unfolding e option.sel .
qed



text \<open>
  A path iterator may be released after any number of steps, and then no lock is left; with its locks
  it goes through the same inodes as without.
\<close>

theorem iterator_releases_locks:
  assumes "reachable s" and "no_self s" and "dotdot_free path"
    and "fskit_path_begin path s = Some itr" and "path_steps V n itr s = Some itr'"
  shows "\<exists>K K'. locked_path_begin path writelock s no_locks = Some (itr, K) \<and>
    locked_steps V writelock n itr s K = Some (itr', K') \<and> fskit_path_iterator_release itr' s K' = Some no_locks"
proof -
  obtain K where K: "locked_path_begin path writelock s no_locks = Some (itr, K)" "it_ok writelock itr s K"
    using begin_ok [OF assms(3,4)] by blast
  obtain K' where "locked_steps V writelock n itr s K = Some (itr', K')" "it_ok writelock itr' s K'"
    using steps_ok [OF assms(2) reachable_all_live [OF assms(1)] K(2) assms(5)] by blast
  then show ?thesis using K(1) release_holds by (auto simp: it_ok_def)
qed

theorem iterator_releases_locks_witness:
  "\<exists>itr itr' K K'. locked_path_begin ''/a/f'' True demo_file no_locks = Some (itr, K) \<and>
     locked_steps demo_env True 2 itr demo_file K = Some (itr', K') \<and>
     it_cur_ent itr' = Some 2 \<and> fskit_path_iterator_release itr' demo_file K' = Some no_locks"
proof -
  have d: "dotdot_free ''/a/f''" by code_simp
  have "map_option it_cur_ent (Option.bind (fskit_path_begin ''/a/f'' demo_file) (\<lambda>itr. path_steps demo_env 2 itr demo_file)) = Some (Some 2)"
    by code_simp
  then obtain itr itr' where "fskit_path_begin ''/a/f'' demo_file = Some itr" "path_steps demo_env 2 itr demo_file = Some itr'"
    and "it_cur_ent itr' = Some 2" by (auto simp: bind_eq_Some)
  then show ?thesis using iterator_releases_locks [OF reachable_demo(3) demo_locks_ok(1) d, of itr demo_env 2 itr' True] by blast
qed



text \<open>
  Closing a file with the locks of its handle, its inode and its route does what closing does
  without locks, and gives all of them back.
\<close>

theorem close_gives_back_locks:
  assumes "reachable s"
  shows "locked_close V h s no_locks = map_option (\<lambda>(rc, s'). (rc, s', no_locks)) (fskit_close V h s)"
  by (rule locked_close_eq [OF reachable_all_live [OF assms]])

theorem close_gives_back_locks_witness:
  "\<exists>s'. fskit_close demo_env 0 demo_file = Some (0, s') \<and> locked_close demo_env 0 demo_file no_locks = Some (0, s', no_locks)"
proof -
  have "map_option fst (fskit_close demo_env 0 demo_file) = Some 0" by code_simp
  then show ?thesis using close_gives_back_locks [OF reachable_demo(3), of demo_env 0] by auto
qed

text \<open>
  C36: rename with the locks of both parents, of the inode, of the one it replaces and of its route does what
  it does without locks, and gives all of them back, if neither the parent that is locked first nor the
  children stand in the way of another lock, and the rename route neither locks inodes nor answers \<open>-ENOENT\<close>.
\<close>

theorem rename_gives_back_locks:
  assumes "reachable s" and "no_self s" and "parents_clear V old_path new_path user grp s"
    and "\<And>d e op np t. fskit_dirname old_path = Some d \<Longrightarrow> fskit_dirname new_path = Some e \<Longrightarrow>
      rename_parents V old_path new_path d e user grp s = Some (Some op, Some np, 0, 0, t) \<Longrightarrow>
      children_clear old_path new_path op np s"
    and "\<And>route rm. fskit_route_match V (routes s) FSKIT_ROUTE_MATCH_RENAME old_path = Some (Some (route, rm)) \<Longrightarrow>
      \<not> locks_inode route"
    and "\<And>op a np b s'. fskit_run_user_rename V old_path op a new_path np b s \<noteq> Some (- ENOENT, s')"
  shows "locked_rename V old_path new_path user grp s no_locks =
    map_option (\<lambda>(rc, s'). (rc, s', no_locks)) (fskit_rename V old_path new_path user grp s)"
  by (rule locked_rename_eq [OF assms(2) reachable_all_live [OF assms(1)] assms(3-6)])

theorem rename_gives_back_locks_witness:
  "\<exists>s'. fskit_rename demo_env ''/a/f'' ''/g'' 0 0 demo_file = Some (0, s') \<and>
     locked_rename demo_env ''/a/f'' ''/g'' 0 0 demo_file no_locks = Some (0, s', no_locks)"
proof -
  have dirs: "fskit_dirname ''/a/f'' = Some ''/a''" "fskit_dirname ''/g'' = Some ''/''" by code_simp+
  have names: "fskit_basename ''/a/f'' = ''f''" "fskit_basename ''/g'' = ''g''" by code_simp+
  have depths: "fskit_depth ''/a/f'' > fskit_depth ''/g''" "dotdot_free ''/a''" "dotdot_free ''/''" "path_names ''/'' = []"
    by code_simp+
  have up: "map_option (\<lambda>(op, np, _). (op, np)) (rename_parents demo_env ''/a/f'' ''/g'' ''/a'' ''/'' 0 0 demo_file) =
      Some (Some 1, Some 0)"
    by code_simp
  have kids: "fskit_entry_set_find_name (children demo_a) ''f'' = Some 2"
    "fskit_entry_set_find_name (children demo_root) ''g'' = None" by code_simp+
  have "locked_rename demo_env ''/a/f'' ''/g'' 0 0 demo_file no_locks =
      map_option (\<lambda>(rc, s'). (rc, s', no_locks)) (fskit_rename demo_env ''/a/f'' ''/g'' 0 0 demo_file)"
  proof (rule rename_gives_back_locks [OF reachable_demo(3) demo_locks_ok(1)])
    have "fskit_entry_resolve_path demo_env ''/a'' 0 0 demo_file = Some (Inr 1)" by code_simp
    then show "parents_clear demo_env ''/a/f'' ''/g'' 0 0 demo_file"
      by (simp add: parents_clear_def dirs depths clear_way_def)
  next
    fix d e op np t
    assume "fskit_dirname ''/a/f'' = Some d" "fskit_dirname ''/g'' = Some e"
      "rename_parents demo_env ''/a/f'' ''/g'' d e 0 0 demo_file = Some (Some op, Some np, 0, 0, t)"
    then have "op = 1" "np = 0" using up dirs by auto
    then show "children_clear ''/a/f'' ''/g'' op np demo_file"
      by (simp add: children_clear_def names demo_heap kids)
  qed (auto simp: demo_heap demo_no_route fskit_run_user_rename_def fskit_route_call_rename_def fskit_route_call_def
      bind_eq_Some ENOENT_def)
  moreover have "map_option fst (fskit_rename demo_env ''/a/f'' ''/g'' 0 0 demo_file) = Some 0" by code_simp
  ultimately show ?thesis by auto
qed



section \<open>The FUSE binding\<close>

text \<open>
  C38: whatever requests a freshly started binding serves, the core behind it is one that the library's
  calls reach, and every file info that the kernel holds belongs to an open handle of its kind that no
  other file info has.
\<close>

theorem fuse_session_safe:
  assumes "fskit_fuse_init V dv d rnd F0 = (0, rnd', F)" and "fuse_serve qs F = Some F'"
  shows "\<exists>s. fu_core F' = Some s \<and> reachable s \<and>
    (\<forall>k i. fu_infos F' k = Some i \<longrightarrow>
       (\<exists>h. fi_handle i = Some h \<and> (if fi_type i = T_FILE then h \<in> dom (fhs s) else h \<in> dom (dhs s)) \<and>
         (\<forall>k' i'. fu_infos F' k' = Some i' \<longrightarrow> fi_handle i' = Some h \<longrightarrow> k' = k)))"
proof -
  obtain s where s: "fu_core F' = Some s" "reachable s" "infos_ok (fu_infos F') (fu_next F') (handle_view s)"
    using session_good [OF assms] by (auto simp: fuse_good_def)
  have "\<exists>h. fi_handle i = Some h \<and> (if fi_type i = T_FILE then h \<in> dom (fhs s) else h \<in> dom (dhs s)) \<and>
      (\<forall>k' i'. fu_infos F' k' = Some i' \<longrightarrow> fi_handle i' = Some h \<longrightarrow> k' = k)" if i: "fu_infos F' k = Some i" for k i
  proof -
    have l: "info_live (dom (fhs s)) (dom (dhs s)) i" using s(3) i by (auto simp: infos_ok_def handle_view_def)
    then obtain h where h: "fi_handle i = Some h" by (cases "fi_handle i") (auto simp: info_live_def)
    have "k' = k" if "fu_infos F' k' = Some i'" "fi_handle i' = Some h" for k' i'
      using s(3) i h that unfolding infos_ok_def by (cases "handle_view s") auto
    then show ?thesis using l h by (auto simp: info_live_def split: if_splits)
  qed
  then show ?thesis using s by blast
qed

theorem fuse_session_safe_witness:
  "\<exists>F' s h. fuse_serve [(demo_env, demo_ctx, Rq_create ''/f'' 420)] (fskit_fuse_init_fs demo_boot) = Some F' \<and>
    fu_core F' = Some s \<and> reachable s \<and> fu_infos F' 0 = Some \<lparr>fi_type = T_FILE, fi_handle = Some h\<rparr> \<and> h \<in> dom (fhs s)"
proof -
  let ?rnd = "\<lparr>rnd_Q = [], rnd_c = 0, rnd_i = 0\<rparr>"
  have b: "fskit_fuse_init demo_env demo_device 0 ?rnd F0 = (0, ?rnd, fskit_fuse_init_fs demo_boot)" for F0
    using demo_boot_init
    by (simp add: fskit_fuse_init_def fskit_library_init_def fskit_random_init_def demo_device_def)
  have "map_option (\<lambda>F. fu_infos F 0) (fuse_serve [(demo_env, demo_ctx, Rq_create ''/f'' 420)] (fskit_fuse_init_fs demo_boot)) =
      Some (Some \<lparr>fi_type = T_FILE, fi_handle = Some 0\<rparr>)"
    by code_simp
  then obtain F' where q: "fuse_serve [(demo_env, demo_ctx, Rq_create ''/f'' 420)] (fskit_fuse_init_fs demo_boot) = Some F'"
    and i: "fu_infos F' 0 = Some \<lparr>fi_type = T_FILE, fi_handle = Some 0\<rparr>"
    by auto
  from fuse_session_safe [OF b q] q i show ?thesis by fastforce
qed


section \<open>The demonstration file system\<close>

text \<open>
  C40: in the demonstration file system the bytes that a write puts at the start of a file are the ones
  that a read there gives back, whatever the file held before and however its buffer had to grow.
\<close>

theorem tmpfs_reads_back:
  assumes "dm_inodes m (app_data fent) = Some di" and "di_ok di" and "dm_fds m h = Some dfd"
    and "lg_ok lg" and "mem_ok S ''write_cb''"
    and "length data < 2 ^ 31" and "unat n = length data" and "length buf = length data"
  shows "\<exists>m1 m2. write_cb S lg fent h data n 0 m = Some (int (length data), m1) \<and>
    read_cb fent h buf n 0 m1 = Some (int (length data), data, m2)"
proof -
  obtain m1 di1 where w: "write_cb S lg fent h data n 0 m = Some (sint (ucast n :: u32), m1)"
      "dm_inodes m1 (app_data fent) = Some di1" "di_ok di1" "di_size di1 = max (di_size di) (n + 0)"
      "take (unat n) (bytes_at di1) = take (unat n) data" "dm_fds m1 = (dm_fds m)(h \<mapsto> dfd\<lparr>num_writes := num_writes dfd + n\<rparr>)"
    by (rule write_cb_effect [OF assms(1-5), of n data 0]) (use assms(6,7) in simp_all)
  have le: "n \<le> di_size di1" using w(4) by simp
  have fd: "dm_fds m1 h = Some (dfd\<lparr>num_writes := num_writes dfd + n\<rparr>)" using w(6) by simp
  have k: "length data = min (unat n) (unat (di_size di1) - unat (0 :: u64))"
    using le assms(7) by (simp add: word_le_nat_alt)
  have b: "take (length data) (bytes_at di1) = data" using w(5) assms(7) by simp
  obtain m2 where "read_cb fent h buf n 0 m1 = Some (int (length data), take (length data) (drop (unat (0 :: u64)) (bytes_at di1)) @
      drop (length data) buf, m2)"
    using read_cb_effect [OF w(2,3) fd _ _ _ k, where buf = buf] assms(6-8) by auto
  then have "read_cb fent h buf n 0 m1 = Some (int (length data), data, m2)" using b assms(8) by simp
  moreover have "sint (ucast n :: u32) = int (length data)" using small_int(1) [of n] assms(6,7) by simp
  ultimately show ?thesis using w(1) by simp
qed

theorem tmpfs_reads_back_witness:
  "\<exists>m1 m2. write_cb demo_env demo_lg demo_inode_1 2 [Some CHR ''h'', Some CHR ''i''] 2 0 demo_abc = Some (2, m1) \<and>
    read_cb demo_inode_1 2 [None, None] 2 0 m1 = Some (2, [Some CHR ''h'', Some CHR ''i''], m2)"
proof -
  let ?di = "\<lparr>di_buf = Some [Some CHR ''a'', Some CHR ''b'', Some CHR ''c'', None], di_capacity = 4, di_size = 3\<rparr>"
  let ?fd = "\<lparr>num_reads = 0, num_writes = 0\<rparr>"
  have "dm_inodes demo_abc (app_data demo_inode_1) = Some ?di" "dm_fds demo_abc 2 = Some ?fd"
    by (simp_all add: demo_abc_def demo_inode_1_def)
  moreover have "di_ok ?di" by (simp add: di_ok_def bytes_at_def)
  ultimately have "\<exists>m1 m2. write_cb demo_env demo_lg demo_inode_1 2 [Some CHR ''h'', Some CHR ''i''] 2 0 demo_abc =
        Some (int (length [Some CHR ''h'', Some CHR ''i'']), m1) \<and>
      read_cb demo_inode_1 2 [None, None] 2 0 m1 = Some (int (length [Some CHR ''h'', Some CHR ''i'']), [Some CHR ''h'', Some CHR ''i''], m2)"
    by (intro tmpfs_reads_back [OF _ _ _ demo_lg_ok demo_mem]) simp_all
  then show ?thesis by simp
qed

end
